(* ===== verification/Prelude.thy ===== *)
theory Prelude
  imports Main "HOL-Library.Sublist" "HOL-Library.AList"
begin

text \<open>
  What the components share: results of operations that may throw or reject, the string
  and number primitives of the language that the source uses (\<open>split\<close>, \<open>join\<close>,
  \<open>trim\<close>, \<open>parseInt\<close>, number printing), and the list helpers of its utility
  library (\<open>uniq\<close>, \<open>difference\<close>, \<open>find\<close>).

  Strings are lists of characters (code units below 256); numbers are \<open>int\<close>, exact as
  long as they stay in the safe integer range of the language.
\<close>

named_theorems js "simplification rules for the language primitives"

section \<open>Results\<close>

text \<open>A thrown error or a rejected promise is \<open>Inl\<close>, a returned value \<open>Inr\<close>.\<close>

datatype error = Error string

type_synonym 'a res = "error + 'a"

text \<open>An error in a template string.\<close>

fun error_toString :: "error \<Rightarrow> string" where
  "error_toString (Error m) = (if m = [] then ''Error'' else ''Error: '' @ m)"

definition res_bind :: "'a res \<Rightarrow> ('a \<Rightarrow> 'b res) \<Rightarrow> 'b res" where
  "res_bind m f = (case m of Inl e \<Rightarrow> Inl e | Inr x \<Rightarrow> f x)"

lemma res_bind_simps [simp]: "res_bind (Inl e) f = Inl e" "res_bind (Inr x) f = f x"
  by (simp_all add: res_bind_def)

lemma res_bind_eq_Inr: "res_bind m f = Inr y \<longleftrightarrow> (\<exists>x. m = Inr x \<and> f x = Inr y)"
  by (cases m) auto

fun res_mapM :: "('a \<Rightarrow> 'b res) \<Rightarrow> 'a list \<Rightarrow> 'b list res" where
  "res_mapM f [] = Inr []"
| "res_mapM f (x # xs) = res_bind (f x) (\<lambda>y. res_bind (res_mapM f xs) (\<lambda>ys. Inr (y # ys)))"

lemma res_mapM_Inr:
  "(\<And>x. x \<in> set xs \<Longrightarrow> f x = Inr (g x)) \<Longrightarrow> res_mapM f xs = Inr (map g xs)"
  by (induction xs) auto

lemma res_mapM_all: "res_mapM f xs = Inr ys \<Longrightarrow> x \<in> set xs \<Longrightarrow> \<exists>y \<in> set ys. f x = Inr y"
  by (induction xs arbitrary: ys) (auto simp: res_bind_eq_Inr)

lemma res_mapM_back: "res_mapM f xs = Inr ys \<Longrightarrow> y \<in> set ys \<Longrightarrow> \<exists>x \<in> set xs. f x = Inr y"
  by (induction xs arbitrary: ys) (auto simp: res_bind_eq_Inr)

lemma res_mapM_length: "res_mapM f xs = Inr ys \<Longrightarrow> length ys = length xs"
  by (induction xs arbitrary: ys) (auto simp: res_bind_eq_Inr)

lemma res_mapM_nth:
  "res_mapM f xs = Inr ys \<Longrightarrow> i < length xs \<Longrightarrow> f (xs ! i) = Inr (ys ! i)"
  by (induction xs arbitrary: ys i) (auto simp: res_bind_eq_Inr nth_Cons split: nat.splits)

section \<open>Truthiness of optional strings\<close>

text \<open>
  \<open>undefined\<close> is \<open>None\<close>. The empty string is falsy: \<open>a || b\<close> skips it.
\<close>

definition truthy :: "string option \<Rightarrow> bool" where
  "truthy s = (case s of None \<Rightarrow> False | Some x \<Rightarrow> x \<noteq> [])"

definition js_or :: "string option \<Rightarrow> string option \<Rightarrow> string option" where
  "js_or a b = (if truthy a then a else b)"

definition or_else :: "string option \<Rightarrow> string \<Rightarrow> string" where
  "or_else a d = (if truthy a then the a else d)"

lemma truthy_simps [simp]: "\<not> truthy None" "truthy (Some x) \<longleftrightarrow> x \<noteq> []"
  by (simp_all add: truthy_def)

lemma truthy_iff: "truthy s \<longleftrightarrow> (\<exists>x. s = Some x \<and> x \<noteq> [])"
  by (cases s) auto

lemma or_else_simps [simp]: "or_else None d = d" "x \<noteq> [] \<Longrightarrow> or_else (Some x) d = x"
  "or_else (Some []) d = d"
  by (simp_all add: or_else_def)

section \<open>Splitting and joining strings\<close>

fun join :: "string \<Rightarrow> string list \<Rightarrow> string" where
  "join d [] = []"
| "join d [x] = x"
| "join d (x # y # ys) = x @ d @ join d (y # ys)"

text \<open>\<open>s.split(d)\<close> for a non-empty separator \<open>d\<close>: occurrences are taken from the left.\<close>

function split :: "string \<Rightarrow> string \<Rightarrow> string list" where
  "split d s =
     (if d \<noteq> [] \<and> prefix d s then [] # split d (drop (length d) s)
      else (case s of
          [] \<Rightarrow> [[]]
        | c # cs \<Rightarrow> (let ws = split d cs in (c # hd ws) # tl ws)))"
  by pat_completeness auto
termination
  by (relation "measure (\<lambda>(d, s). length s)") (auto simp: prefix_def)

declare split.simps [simp del]

lemma split_Nil [simp]: "split d [] = [[]]"
  by (subst split.simps) auto

lemma split_nonempty [simp]: "split d s \<noteq> []"
  by (subst split.simps) (auto simp: Let_def split: list.splits)

lemma split_match: "d \<noteq> [] \<Longrightarrow> split d (d @ s) = [] # split d s"
  by (subst split.simps) auto

lemma split_step:
  "\<not> prefix d (c # cs) \<Longrightarrow> split d (c # cs) = (c # hd (split d cs)) # tl (split d cs)"
  by (subst split.simps) (simp add: Let_def)

lemma join_Cons: "xs \<noteq> [] \<Longrightarrow> join d (x # xs) = x @ d @ join d xs"
  by (cases xs) auto

lemma join_hd: "join d ((c # x) # xs) = c # join d (x # xs)"
  by (cases xs) auto

theorem join_split: "d \<noteq> [] \<Longrightarrow> join d (split d s) = s"
proof (induction d s rule: split.induct)
  case (1 d s)
  show ?case
  proof (cases "prefix d s")
    case True
    then obtain r where s: "s = d @ r" by (auto simp: prefix_def)
    with 1 show ?thesis by (simp add: split_match join_Cons)
  next
    case False
    show ?thesis
    proof (cases s)
      case Nil
      then show ?thesis by simp
    next
      case (Cons c cs)
      with 1 False have "join d (split d cs) = cs" by simp
      moreover have "split d cs = hd (split d cs) # tl (split d cs)" by simp
      ultimately show ?thesis using Cons False by (metis split_step join_hd)
    qed
  qed
qed

text \<open>
  A field is safe before a separator when the first occurrence of the separator in
  \<open>x @ d\<close> is at the end of \<open>x\<close>.
\<close>

definition delim_safe :: "string \<Rightarrow> string \<Rightarrow> bool" where
  "delim_safe d x = list_all (\<lambda>i. \<not> prefix d (drop i (x @ d))) [0..<length x]"

lemma delim_safe_Nil [simp]: "delim_safe d []"
  by (simp add: delim_safe_def)

lemma delim_safe_iff: "delim_safe d x \<longleftrightarrow> (\<forall>i<length x. \<not> prefix d (drop i (x @ d)))"
  by (auto simp: delim_safe_def list_all_iff)

lemma delim_safe_Cons:
  "delim_safe d (c # x) \<longleftrightarrow> \<not> prefix d (c # x @ d) \<and> delim_safe d x"
  unfolding delim_safe_iff by (auto simp: less_Suc_eq_0_disj)

lemma delim_safe_notin: "hd d \<notin> set x \<Longrightarrow> d \<noteq> [] \<Longrightarrow> delim_safe d x"
  by (induction x) (auto simp: delim_safe_Cons neq_Nil_conv)

lemma prefix_append_long:
  "length d \<le> length a \<Longrightarrow> prefix d (a @ b) \<longleftrightarrow> prefix d a"
  by (auto simp: prefix_def append_eq_append_conv2)

lemma split_safe:
  "d \<noteq> [] \<Longrightarrow> delim_safe d x \<Longrightarrow> split d (x @ d @ r) = x # split d r"
proof (induction x)
  case Nil
  then show ?case by (simp add: split_match)
next
  case (Cons c x)
  then have "\<not> prefix d ((c # x @ d) @ r)"
    by (subst prefix_append_long) (auto simp: delim_safe_Cons)
  with Cons show ?case by (simp add: delim_safe_Cons split_step)
qed

lemma split_last: "d \<noteq> [] \<Longrightarrow> delim_safe d x \<Longrightarrow> split d x = [x]"
proof (induction x)
  case Nil
  then show ?case by simp
next
  case (Cons c x)
  then have "\<not> prefix d (c # x @ d)" by (simp add: delim_safe_Cons)
  then have "\<not> prefix d (c # x)" using prefix_prefix [of d "c # x" d] by auto
  with Cons show ?case by (simp add: delim_safe_Cons split_step)
qed

theorem split_join:
  "d \<noteq> [] \<Longrightarrow> xs \<noteq> [] \<Longrightarrow> list_all (delim_safe d) xs \<Longrightarrow> split d (join d xs) = xs"
  by (induction d xs rule: join.induct) (auto simp: split_last split_safe)

text \<open>Splitting literals: the current piece is accumulated, so that a proof sees every character once.\<close>

function split_acc :: "string \<Rightarrow> string \<Rightarrow> string \<Rightarrow> string list" where
  "split_acc d acc s =
     (if d \<noteq> [] \<and> prefix d s then rev acc # split_acc d [] (drop (length d) s)
      else (case s of [] \<Rightarrow> [rev acc] | c # cs \<Rightarrow> split_acc d (c # acc) cs))"
  by pat_completeness auto
termination
  by (relation "measure (\<lambda>(d, acc, s). length s)") (auto simp: prefix_def)

declare split_acc.simps [simp del]

lemma split_acc_eq: "split_acc d acc s = (rev acc @ hd (split d s)) # tl (split d s)"
proof (induction d acc s rule: split_acc.induct)
  case (1 d acc s)
  show ?case
  proof (cases "d \<noteq> [] \<and> prefix d s")
    case True
    with 1(1) show ?thesis by (subst split_acc.simps, subst (1 2) split.simps) simp
  next
    case False
    with 1(2) show ?thesis
      by (subst split_acc.simps, subst (1 2) split.simps) (auto simp: Let_def split: list.splits)
  qed
qed

lemma split_by_acc: "split d s = split_acc d [] s"
  by (simp add: split_acc_eq)

lemma split_acc_simps:
  "split_acc d acc [] = [rev acc]"
  "d \<noteq> [] \<Longrightarrow> split_acc d acc (c # cs) =
     (if prefix d (c # cs) then rev acc # split_acc d [] (drop (length d) (c # cs))
      else split_acc d (c # acc) cs)"
  by (subst split_acc.simps, simp)+

lemmas split_eval = split_by_acc split_acc_simps

text \<open>One-character separators.\<close>

lemma prefix_single [simp]: "prefix [c] (x # xs) \<longleftrightarrow> x = c"
  by auto

lemma delim_safe_single [simp]: "delim_safe [c] x \<longleftrightarrow> c \<notin> set x"
  by (induction x) (auto simp: delim_safe_Cons)

lemma split1_simps:
  "split [c] [] = [[]]"
  "split [c] (x # xs) =
     (if x = c then [] # split [c] xs else (x # hd (split [c] xs)) # tl (split [c] xs))"
  using split_match [of "[c]" xs] by (simp_all add: split_step)

lemma split1_pieces: "w \<in> set (split [c] s) \<Longrightarrow> c \<notin> set w"
proof (induction s arbitrary: w)
  case Nil
  then show ?case by simp
next
  case (Cons a s)
  have "hd (split [c] s) \<in> set (split [c] s)" by simp
  with Cons show ?case
    by (auto simp: split1_simps split: if_splits dest: list.set_sel(2) [rotated])
qed

text \<open>
  A key that is printed as two parts with a character between them determines the parts, when this
  character is in none of the first parts, or in none of the last ones.
\<close>

lemma first_part_inj:
  "c \<notin> set x \<Longrightarrow> c \<notin> set y \<Longrightarrow> x @ c # u = y @ c # v \<longleftrightarrow> x = y \<and> u = v"
proof (induction x arbitrary: y)
  case Nil
  then show ?case by (cases y) auto
next
  case (Cons a x)
  then show ?case by (cases y) auto
qed

lemma last_part_inj:
  assumes "c \<notin> set u" and "c \<notin> set v"
  shows "x @ c # u = y @ c # v \<longleftrightarrow> x = y \<and> u = v"
proof -
  have "x @ c # u = y @ c # v \<longleftrightarrow> rev u @ c # rev x = rev v @ c # rev y"
    by (subst rev_is_rev_conv [symmetric]) simp
  then show ?thesis using first_part_inj [of c "rev u" "rev v" "rev x" "rev y"] assms by auto
qed

section \<open>Records indexed by a key\<close>

text \<open>
  Get the entry of a key, create it from a default when it is missing, and update it: the
  \<open>getOrCreate\<close> pattern of the source. The keys keep the order of their first insertion.
\<close>

definition upsert :: "'k \<Rightarrow> 'v \<Rightarrow> ('v \<Rightarrow> 'v) \<Rightarrow> ('k \<times> 'v) list \<Rightarrow> ('k \<times> 'v) list" where
  "upsert k d f al = AList.update k (f (case map_of al k of None \<Rightarrow> d | Some b \<Rightarrow> b)) al"

lemma map_of_upsert:
  "map_of (upsert k d f al) = (map_of al)(k \<mapsto> f (case map_of al k of None \<Rightarrow> d | Some b \<Rightarrow> b))"
  by (simp add: upsert_def update_conv' fun_eq_iff update_conv)

lemma keys_upsert [simp]: "fst ` set (upsert k d f al) = insert k (fst ` set al)"
  by (simp add: upsert_def dom_update)

lemma distinct_upsert [simp]: "distinct (map fst al) \<Longrightarrow> distinct (map fst (upsert k d f al))"
  by (simp add: upsert_def distinct_update)

lemma update_absent: "k \<notin> fst ` set al \<Longrightarrow> AList.update k v al = al @ [(k, v)]"
  by (induction al) auto

lemma fold_update_distinct:
  "distinct (map fst (acc @ fs)) \<Longrightarrow> fold (\<lambda>(k, v). AList.update k v) fs acc = acc @ fs"
  by (induction fs arbitrary: acc) (auto simp: update_absent image_Un)

lemma update_all:
  "list_all (\<lambda>e. P (snd e)) al \<Longrightarrow> P v \<Longrightarrow> list_all (\<lambda>e. P (snd e)) (AList.update k v al)"
  by (induction al) auto

lemma upsert_all:
  assumes "list_all (\<lambda>e. P (snd e)) al" and "P (f d)" and "\<And>b. P b \<Longrightarrow> P (f b)"
  shows "list_all (\<lambda>e. P (snd e)) (upsert k d f al)"
proof -
  have "P (f (case map_of al k of None \<Rightarrow> d | Some b \<Rightarrow> b))"
    using assms by (cases "map_of al k") (auto simp: list_all_iff dest!: map_of_SomeD)
  with assms(1) show ?thesis unfolding upsert_def by (rule update_all)
qed

end
