(* ===== verification/Js_Text.thy ===== *)
theory Js_Text
  imports Prelude
begin

text \<open>
  Text primitives of the language: white space and \<open>trim\<close>, decimal digits, number
  printing, \<open>parseInt\<close>, and the list helpers of the utility library that the source
  applies to strings.
\<close>

section \<open>White space\<close>

definition is_space :: "char \<Rightarrow> bool" where
  "is_space c = (let n = (of_char c :: nat) in n \<in> {9, 10, 11, 12, 13, 32, 160})"

definition trim_left :: "string \<Rightarrow> string" where
  "trim_left = dropWhile is_space"

definition trim :: "string \<Rightarrow> string" where
  "trim s = rev (dropWhile is_space (rev (dropWhile is_space s)))"

lemma trim_Nil [simp]: "trim [] = []"
  by (simp add: trim_def)

lemma trim_eq_Nil_iff: "trim s = [] \<longleftrightarrow> list_all is_space s"
proof -
  have "trim s = [] \<longleftrightarrow> (\<forall>c \<in> set (dropWhile is_space s). is_space c)"
    by (simp add: trim_def)
  also have "\<dots> \<longleftrightarrow> dropWhile is_space s = []"
    using hd_dropWhile [of is_space s] by (metis empty_iff empty_set hd_in_set)
  finally show ?thesis by (auto simp: list_all_iff)
qed

lemma dropWhile_id: "\<not> P (hd xs) \<Longrightarrow> dropWhile P xs = xs"
  by (cases xs) auto

lemma trim_no_space: "s \<noteq> [] \<Longrightarrow> \<not> is_space (hd s) \<Longrightarrow> \<not> is_space (last s) \<Longrightarrow> trim s = s"
  by (simp add: trim_def dropWhile_id hd_rev)

section \<open>Digits and number printing\<close>

definition is_digit :: "char \<Rightarrow> bool" where
  "is_digit c = (let n = (of_char c :: nat) in 48 \<le> n \<and> n \<le> 57)"

definition digit_val :: "char \<Rightarrow> nat" where
  "digit_val c = of_char c - 48"

definition digit_char :: "nat \<Rightarrow> char" where
  "digit_char n = char_of (48 + n)"

lemma of_char_digit_char [simp]: "n < 10 \<Longrightarrow> of_char (digit_char n) = (48 + n :: nat)"
  by (simp add: digit_char_def)

lemma is_digit_digit_char [simp]: "n < 10 \<Longrightarrow> is_digit (digit_char n)"
  by (simp add: is_digit_def Let_def)

lemma digit_val_digit_char [simp]: "n < 10 \<Longrightarrow> digit_val (digit_char n) = n"
  by (simp add: digit_val_def)

lemma digit_not_space: "is_digit c \<Longrightarrow> \<not> is_space c"
  by (auto simp: is_digit_def is_space_def Let_def)

fun show_nat :: "nat \<Rightarrow> string" where
  "show_nat n = (if n < 10 then [digit_char n] else show_nat (n div 10) @ [digit_char (n mod 10)])"

declare show_nat.simps [simp del]

definition show_int :: "int \<Rightarrow> string" where
  "show_int n = (if n < 0 then CHR ''-'' # show_nat (nat (- n)) else show_nat (nat n))"

definition digits_val :: "string \<Rightarrow> nat" where
  "digits_val s = foldl (\<lambda>a c. 10 * a + digit_val c) 0 s"

lemma show_nat_nonempty [simp]: "show_nat n \<noteq> []"
  by (subst show_nat.simps) simp

lemma show_nat_digits: "list_all is_digit (show_nat n)"
proof (induction n rule: show_nat.induct)
  case (1 n)
  then show ?case by (subst show_nat.simps) auto
qed

lemma show_nat_digit_set: "c \<in> set (show_nat n) \<Longrightarrow> is_digit c"
  using show_nat_digits [of n] by (auto simp: list_all_iff)

lemma digits_val_show_nat [simp]: "digits_val (show_nat n) = n"
proof (induction n rule: show_nat.induct)
  case (1 n)
  then show ?case by (subst show_nat.simps) (auto simp: digits_val_def)
qed

lemma show_int_nonempty [simp]: "show_int n \<noteq> []"
  by (simp add: show_int_def)

lemma show_nat_inject [simp]: "show_nat m = show_nat n \<longleftrightarrow> m = n"
  by (metis digits_val_show_nat)

section \<open>parseInt\<close>

text \<open>
  \<open>parseInt(s)\<close> without a radix: leading white space is skipped, a sign is read, a
  \<open>0x\<close> prefix selects base 16, and the longest run of digits is the number; no digit
  gives \<open>NaN\<close>, here \<open>None\<close>. What follows the digits is ignored.
\<close>

definition hex_val :: "char \<Rightarrow> nat option" where
  "hex_val c = (let n = (of_char c :: nat) in
     if 48 \<le> n \<and> n \<le> 57 then Some (n - 48)
     else if 97 \<le> n \<and> n \<le> 102 then Some (n - 87)
     else if 65 \<le> n \<and> n \<le> 70 then Some (n - 55)
     else None)"

definition hexs_val :: "string \<Rightarrow> nat" where
  "hexs_val s = foldl (\<lambda>a c. 16 * a + the (hex_val c)) 0 s"

definition parse_magnitude :: "string \<Rightarrow> nat option" where
  "parse_magnitude s =
     (if take 2 s = ''0x'' \<or> take 2 s = ''0X''
      then (let ds = takeWhile (\<lambda>c. hex_val c \<noteq> None) (drop 2 s) in
            if ds = [] then None else Some (hexs_val ds))
      else (let ds = takeWhile is_digit s in
            if ds = [] then None else Some (digits_val ds)))"

definition parse_int :: "string \<Rightarrow> int option" where
  "parse_int s =
     (let t = trim_left s in
      if take 1 t = ''-'' then map_option (\<lambda>n. - int n) (parse_magnitude (drop 1 t))
      else if take 1 t = ''+'' then map_option int (parse_magnitude (drop 1 t))
      else map_option int (parse_magnitude t))"

lemma digit_not_special: "is_digit c \<Longrightarrow> c \<noteq> CHR ''x'' \<and> c \<noteq> CHR ''X'' \<and> c \<noteq> CHR ''-'' \<and> c \<noteq> CHR ''+''
   \<and> c \<noteq> CHR ''.'' \<and> c \<noteq> CHR '':'' \<and> c \<noteq> CHR ''|'' \<and> c \<noteq> CHR ''/''"
  by (auto simp: is_digit_def Let_def)

lemma takeWhile_digits: "list_all is_digit ds \<Longrightarrow> takeWhile is_digit ds = ds"
  by (simp add: list_all_iff)

lemma parse_magnitude_digits:
  assumes "list_all is_digit ds" and "ds \<noteq> []"
  shows "parse_magnitude ds = Some (digits_val ds)"
proof -
  have "take 2 ds \<noteq> ''0x'' \<and> take 2 ds \<noteq> ''0X''"
  proof (cases ds)
    case (Cons a as)
    with assms show ?thesis by (cases as) (auto dest: digit_not_special)
  qed (use assms in simp)
  then show ?thesis using assms by (simp add: parse_magnitude_def takeWhile_digits)
qed

lemma parse_int_digits:
  assumes "list_all is_digit ds" and "ds \<noteq> []"
  shows "parse_int ds = Some (int (digits_val ds))"
proof -
  obtain a as where ds: "ds = a # as" using assms by (cases ds) auto
  with assms have "is_digit a" by simp
  with ds have "trim_left ds = ds" "take 1 ds \<noteq> ''-''" "take 1 ds \<noteq> ''+''"
    by (auto simp: trim_left_def dest: digit_not_space digit_not_special)
  with parse_magnitude_digits [OF assms] show ?thesis by (simp add: parse_int_def)
qed

theorem parse_int_show_int [simp]: "parse_int (show_int n) = Some n"
proof (cases "n < 0")
  case True
  have "\<not> is_space (CHR ''-'')" by (simp add: is_space_def Let_def)
  with True show ?thesis
    by (simp add: parse_int_def show_int_def trim_left_def parse_magnitude_digits show_nat_digits)
next
  case False
  then show ?thesis by (simp add: show_int_def parse_int_digits show_nat_digits)
qed

lemma show_int_inject [simp]: "show_int m = show_int n \<longleftrightarrow> m = n"
  by (metis option.inject parse_int_show_int)

lemma show_int_chars: "c \<in> set (show_int n) \<Longrightarrow> is_digit c \<or> c = CHR ''-''"
  by (auto simp: show_int_def dest: show_nat_digit_set split: if_splits)

lemma show_int_no_dot [simp]: "CHR ''.'' \<notin> set (show_int n)"
  by (auto dest!: show_int_chars digit_not_special)

section \<open>List helpers of the utility library\<close>

text \<open>\<open>_.uniq\<close> keeps the first occurrence of every element.\<close>

fun uniq :: "'a list \<Rightarrow> 'a list" where
  "uniq [] = []"
| "uniq (x # xs) = x # filter (\<lambda>y. y \<noteq> x) (uniq xs)"

definition difference :: "'a list \<Rightarrow> 'a list \<Rightarrow> 'a list" where
  "difference xs ys = filter (\<lambda>x. x \<notin> set ys) xs"

text \<open>\<open>_.intersection(xs, ys)\<close>: the unique elements of \<open>xs\<close> that are in \<open>ys\<close>.\<close>

definition intersection :: "'a list \<Rightarrow> 'a list \<Rightarrow> 'a list" where
  "intersection xs ys = uniq (filter (\<lambda>x. x \<in> set ys) xs)"

lemma set_uniq [simp]: "set (uniq xs) = set xs"
  by (induction xs) auto

lemma distinct_uniq [simp]: "distinct (uniq xs)"
  by (induction xs) auto

lemma uniq_distinct [simp]: "distinct xs \<Longrightarrow> uniq xs = xs"
  by (induction xs) (auto simp: filter_id_conv)

lemma uniq_Nil_iff [simp]: "uniq xs = [] \<longleftrightarrow> xs = []"
  by (cases xs) auto

lemma set_difference [simp]: "set (difference xs ys) = set xs - set ys"
  by (auto simp: difference_def)

lemma set_intersection [simp]: "set (intersection xs ys) = set xs \<inter> set ys"
  by (auto simp: intersection_def)

lemma distinct_intersection [simp]: "distinct (intersection xs ys)"
  by (simp add: intersection_def)

section \<open>lodash maxBy\<close>

text \<open>The first element with the largest key.\<close>

fun max_by :: "('a \<Rightarrow> int) \<Rightarrow> 'a list \<Rightarrow> 'a option" where
  "max_by f [] = None"
| "max_by f (x # xs) =
     (case max_by f xs of None \<Rightarrow> Some x | Some y \<Rightarrow> Some (if f y > f x then y else x))"

lemma max_by_None_iff [simp]: "max_by f xs = None \<longleftrightarrow> xs = []"
  by (cases xs) (auto split: option.splits)

lemma max_by_Some: "max_by f xs = Some x \<Longrightarrow> x \<in> set xs \<and> (\<forall>y \<in> set xs. f y \<le> f x)"
  by (induction xs arbitrary: x) (force split: option.splits if_splits)+

section \<open>Finding and sorting by key\<close>

lemma find_key_Some:
  "distinct (map f xs) \<Longrightarrow> List.find (\<lambda>x. f x = k) xs = Some x \<longleftrightarrow> x \<in> set xs \<and> f x = k"
  by (induction xs) (auto simp: rev_image_eqI)

lemma find_key_None: "List.find (\<lambda>x. f x = k) xs = None \<longleftrightarrow> k \<notin> f ` set xs"
  by (auto simp: find_None_iff)

text \<open>
  \<open>_.sortBy(xs, x => f(x) * -1)\<close> on elements with different keys: the keys strictly
  descend.
\<close>

definition sort_desc :: "('a \<Rightarrow> int) \<Rightarrow> 'a list \<Rightarrow> 'a list" where
  "sort_desc f xs = sort_key (\<lambda>x. f x * -1) xs"

definition descending :: "('a \<Rightarrow> int) \<Rightarrow> 'a list \<Rightarrow> bool" where
  "descending f xs \<longleftrightarrow> sorted_wrt (\<lambda>x y. f x > f y) xs"

lemma set_sort_desc [simp]: "set (sort_desc f xs) = set xs"
  by (simp add: sort_desc_def)

lemma sort_desc_Nil_iff [simp]: "sort_desc f xs = [] \<longleftrightarrow> xs = []"
  by (metis set_empty set_sort_desc)

lemma descending_simps [simp]:
  "descending f []" "descending f (x # xs) \<longleftrightarrow> (\<forall>y \<in> set xs. f y < f x) \<and> descending f xs"
  by (simp_all add: descending_def)

lemma descending_sortedI:
  "sorted (map (\<lambda>x. f x * -1) ys) \<Longrightarrow> distinct (map f ys) \<Longrightarrow> descending f ys"
  by (induction ys) (force simp: image_iff le_less)+

lemma descending_sort_desc:
  assumes "distinct (map f xs)"
  shows "descending f (sort_desc f xs)"
proof -
  let ?ys = "sort_desc f xs"
  have "distinct (map f ?ys)" using assms
    by (metis (no_types, lifting) distinct_map distinct_sort set_sort sort_desc_def)
  moreover have "sorted (map (\<lambda>x. f x * -1) ?ys)" by (simp add: sort_desc_def)
  ultimately show ?thesis by (rule descending_sortedI [rotated])
qed

lemma descending_distinct: "descending f xs \<Longrightarrow> distinct (map f xs)"
  by (induction xs) auto

lemma descending_hd: "descending f xs \<Longrightarrow> x \<in> set xs \<Longrightarrow> f x \<le> f (hd xs)"
  by (cases xs) auto

text \<open>\<open>findIndex\<close>; \<open>-1\<close> is \<open>None\<close>.\<close>

fun find_index :: "('a \<Rightarrow> bool) \<Rightarrow> 'a list \<Rightarrow> nat option" where
  "find_index P [] = None"
| "find_index P (x # xs) = (if P x then Some 0 else map_option Suc (find_index P xs))"

lemma find_index_None: "find_index P xs = None \<longleftrightarrow> (\<forall>x \<in> set xs. \<not> P x)"
  by (induction xs) auto

lemma find_index_Some:
  "find_index P xs = Some i \<Longrightarrow> i < length xs \<and> P (xs ! i) \<and> List.find P xs = Some (xs ! i)"
  by (induction xs arbitrary: i) (auto split: if_splits)

lemma find_sort_desc:
  assumes "distinct (map f xs)"
  shows "List.find (\<lambda>x. f x = k) (sort_desc f xs) = List.find (\<lambda>x. f x = k) xs"
proof -
  have "distinct (map f (sort_desc f xs))"
    using descending_sort_desc [OF assms] by (rule descending_distinct)
  note some = find_key_Some [OF assms] find_key_Some [OF this]
  show ?thesis
  proof (cases "List.find (\<lambda>x. f x = k) xs")
    case None
    then have "List.find (\<lambda>x. f x = k) (sort_desc f xs) = None" by (simp add: find_key_None)
    with None show ?thesis by simp
  next
    case (Some x)
    then have "List.find (\<lambda>x. f x = k) (sort_desc f xs) = Some x" by (simp add: some)
    with Some show ?thesis by simp
  qed
qed

lemma find_map_keyed:
  assumes "\<And>e. f (g e) = fst e"
  shows "List.find (\<lambda>x. f x = k) (map g al) = map_option (\<lambda>v. g (k, v)) (map_of al k)"
  using assms by (induction al) auto

lemma descending_predecessor:
  assumes "descending f xs" and "Suc j < length xs"
  shows "f (xs ! j) = Min {k \<in> f ` set xs. f (xs ! Suc j) < k}"
proof (rule sym, rule Min_eqI)
  have ord: "f (xs ! b) < f (xs ! a)" if "a < b" "b < length xs" for a b
    using sorted_wrt_nth_less [OF assms(1) [unfolded descending_def] that] .
  show "f (xs ! j) \<in> {k \<in> f ` set xs. f (xs ! Suc j) < k}"
    using assms(2) ord [of j "Suc j"] by auto
  fix k assume "k \<in> {k \<in> f ` set xs. f (xs ! Suc j) < k}"
  then obtain i where i: "i < length xs" "k = f (xs ! i)" "f (xs ! Suc j) < f (xs ! i)"
    by (auto simp: in_set_conv_nth)
  then have "\<not> Suc j < i" "i \<noteq> Suc j" using ord [of "Suc j" i] by auto
  then have "i \<le> j" by simp
  then show "f (xs ! j) \<le> k" using ord [of i j] assms(2) i by (cases "i = j") auto
qed simp

end
