(* ===== verification/Version.thy ===== *)
theory Version
  imports Js_Text
begin

text \<open>
  \<open>backend/src/domain-model/version.ts\<close>: versions as segment lists, parsing, printing and
  the comparison \<open>compare\<close>. The comparison is shown to be a linear order, which makes
  \<open>version\<close> an instance of \<open>linorder\<close>; printing and parsing are inverse.
\<close>

section \<open>The class\<close>

datatype version = Version (segments: "int list")

text \<open>The constructor asserts more than one segment (its message says zero).\<close>

definition mk_version :: "int list \<Rightarrow> version res" where
  "mk_version segs =
     (if length segs > 1 then Inr (Version segs)
      else Inl (Error ''A version with zero segments [] is illegal''))"

definition valid_version :: "version \<Rightarrow> bool" where
  "valid_version v \<longleftrightarrow> length (segments v) > 1"

definition major_of :: "version \<Rightarrow> int" where
  "major_of v = hd (segments v)"

definition fromSegments :: "int list \<Rightarrow> version res" where
  "fromSegments segs = mk_version segs"

text \<open>\<open>Version.parse\<close>: every exception inside is caught and becomes \<open>null\<close>.\<close>

fun parse_all :: "string list \<Rightarrow> int list option" where
  "parse_all [] = Some []"
| "parse_all (s # ss) =
     (case parse_int s of
        None \<Rightarrow> None
      | Some n \<Rightarrow> map_option (\<lambda>ns. n # ns) (parse_all ss))"

definition version_parse :: "string \<Rightarrow> version option" where
  "version_parse s =
     (let parts = split ''.'' s in
      if length parts > 1
      then (case parse_all parts of
              None \<Rightarrow> None
            | Some ns \<Rightarrow> (case mk_version ns of Inl _ \<Rightarrow> None | Inr v \<Rightarrow> Some v))
      else None)"

definition version_create :: "string \<Rightarrow> version res" where
  "version_create s =
     (case version_parse s of
        Some v \<Rightarrow> Inr v
      | None \<Rightarrow> Inl (Error (''Could not parse '' @ s @ '' to a valid version'')))"

definition version_string :: "version \<Rightarrow> string" where
  "version_string v = join ''.'' (map show_int (segments v))"

text \<open>The loop of \<open>compare\<close> over the common positions, then the difference of the lengths.\<close>

fun compare_segments :: "int list \<Rightarrow> int list \<Rightarrow> int" where
  "compare_segments (x # xs) (y # ys) =
     (let diff = x - y in if diff = 0 then compare_segments xs ys else diff)"
| "compare_segments xs ys = int (length xs) - int (length ys)"

definition version_compare :: "version \<Rightarrow> version \<Rightarrow> int" where
  "version_compare v w = compare_segments (segments v) (segments w)"

section \<open>Constructors\<close>

lemma mk_version_Inr [simp]: "mk_version segs = Inr v \<longleftrightarrow> length segs > 1 \<and> v = Version segs"
  by (auto simp: mk_version_def)

lemma fromSegments_Inr [simp]:
  "fromSegments segs = Inr v \<longleftrightarrow> length segs > 1 \<and> v = Version segs"
  by (simp add: fromSegments_def)

lemma fromSegments_ok [simp]: "length segs > 1 \<Longrightarrow> fromSegments segs = Inr (Version segs)"
  by simp

lemma fromSegments_valid: "fromSegments segs = Inr v \<Longrightarrow> valid_version v"
  by (auto simp: valid_version_def)

section \<open>Printing and parsing\<close>

lemma parse_all_show [simp]: "parse_all (map show_int ns) = Some ns"
  by (induction ns) auto

lemma parse_all_length: "parse_all ss = Some ns \<Longrightarrow> length ns = length ss"
  by (induction ss arbitrary: ns) (auto split: option.splits)

lemma version_parse_valid: "version_parse s = Some v \<Longrightarrow> valid_version v"
  by (auto simp: version_parse_def valid_version_def Let_def
      split: option.splits if_splits sum.splits dest: parse_all_length)

lemma version_create_valid: "version_create s = Inr v \<Longrightarrow> valid_version v"
  by (auto simp: version_create_def split: option.splits dest: version_parse_valid)

lemma split_version_string:
  "segments v \<noteq> [] \<Longrightarrow> split ''.'' (version_string v) = map show_int (segments v)"
  unfolding version_string_def by (intro split_join) (simp_all add: list_all_iff)

lemma version_parse_string [simp]:
  assumes "valid_version v"
  shows "version_parse (version_string v) = Some v"
proof -
  obtain ns where v: "v = Version ns" and len: "length ns > 1"
    using assms by (cases v) (simp add: valid_version_def)
  then have "ns \<noteq> []" by auto
  with v have "split ''.'' (version_string v) = map show_int ns"
    by (simp add: split_version_string)
  with v len show ?thesis by (simp add: version_parse_def mk_version_def)
qed

lemma version_create_string [simp]:
  "valid_version v \<Longrightarrow> version_create (version_string v) = Inr v"
  by (simp add: version_create_def)

lemma version_string_inject:
  "valid_version v \<Longrightarrow> valid_version w \<Longrightarrow> version_string v = version_string w \<longleftrightarrow> v = w"
  by (metis option.inject version_parse_string)

lemma set_join: "c \<in> set (join d ws) \<Longrightarrow> c \<in> set d \<or> (\<exists>w \<in> set ws. c \<in> set w)"
  by (induction d ws rule: join.induct) auto

lemma version_string_chars:
  "c \<in> set (version_string v) \<Longrightarrow> is_digit c \<or> c = CHR ''-'' \<or> c = CHR ''.''"
  by (auto simp: version_string_def dest!: set_join dest: show_int_chars)

section \<open>The comparison is a linear order\<close>

lemma compare_segments_refl [simp]: "compare_segments xs xs = 0"
  by (induction xs) (auto simp: Let_def)

lemma compare_segments_0_iff: "compare_segments xs ys = 0 \<longleftrightarrow> xs = ys"
  by (induction xs ys rule: compare_segments.induct) (auto simp: Let_def)

lemma compare_segments_flip: "0 < compare_segments ys xs \<longleftrightarrow> compare_segments xs ys < 0"
  by (induction xs ys rule: compare_segments.induct) (auto simp: Let_def)

lemma compare_segments_trans:
  "compare_segments xs ys \<le> 0 \<Longrightarrow> compare_segments ys zs \<le> 0 \<Longrightarrow> compare_segments xs zs \<le> 0"
proof (induction xs arbitrary: ys zs)
  case Nil
  then show ?case by (cases zs) auto
next
  case (Cons x xs)
  then show ?case by (cases ys; cases zs) (auto simp: Let_def split: if_splits)
qed

lemma version_compare_0_iff: "version_compare v w = 0 \<longleftrightarrow> v = w"
  by (cases v; cases w) (simp add: version_compare_def compare_segments_0_iff)

lemma version_compare_refl [simp]: "version_compare v v = 0"
  by (simp add: version_compare_def)

lemma version_compare_flip: "0 < version_compare w v \<longleftrightarrow> version_compare v w < 0"
  by (simp add: version_compare_def compare_segments_flip)

instantiation version :: linorder
begin

definition less_eq_version :: "version \<Rightarrow> version \<Rightarrow> bool" where
  "less_eq_version v w \<longleftrightarrow> version_compare v w \<le> 0"

definition less_version :: "version \<Rightarrow> version \<Rightarrow> bool" where
  "less_version v w \<longleftrightarrow> version_compare v w < 0"

instance
proof
  fix u v w :: version
  show "v < w \<longleftrightarrow> v \<le> w \<and> \<not> w \<le> v"
    using version_compare_flip [of w v] unfolding less_eq_version_def less_version_def by linarith
  show "v \<le> v"
    by (simp add: less_eq_version_def)
  show "u \<le> v \<Longrightarrow> v \<le> w \<Longrightarrow> u \<le> w"
    unfolding less_eq_version_def version_compare_def by (rule compare_segments_trans)
  show "v \<le> w \<Longrightarrow> w \<le> v \<Longrightarrow> v = w"
    using version_compare_flip [of w v] version_compare_0_iff [of v w]
    by (simp add: less_eq_version_def)
  show "v \<le> w \<or> w \<le> v"
    using version_compare_flip [of w v] unfolding less_eq_version_def by linarith
qed

end

lemma Version_le_iff [simp]: "Version xs \<le> Version ys \<longleftrightarrow> compare_segments xs ys \<le> 0"
  by (simp add: less_eq_version_def version_compare_def)

lemma Version_less_iff [simp]: "Version xs < Version ys \<longleftrightarrow> compare_segments xs ys < 0"
  by (simp add: less_version_def version_compare_def)

lemma compare_segments_Cons_le:
  "compare_segments (x # xs) (y # ys) \<le> 0 \<longleftrightarrow> x < y \<or> (x = y \<and> compare_segments xs ys \<le> 0)"
  by (auto simp: Let_def)

lemma compare_segments_Cons_less:
  "compare_segments (x # xs) (y # ys) < 0 \<longleftrightarrow> x < y \<or> (x = y \<and> compare_segments xs ys < 0)"
  by (auto simp: Let_def)

section \<open>Properties\<close>

text \<open>
  \<open>Version.parse\<close> reads back what \<open>asString\<close> prints, for every version the constructor
  accepts (a version has more than one segment; negative segments are covered).
\<close>

theorem version_roundtrip:
  "length segs > 1 \<Longrightarrow>
   fromSegments segs = Inr (Version segs) \<and>
   version_parse (version_string (Version segs)) = Some (Version segs)"
  by (simp add: valid_version_def)

theorem version_roundtrip_witness:
  "version_parse (version_string (Version [1, 20, 3])) = Some (Version [1, 20, 3])"
  using version_roundtrip [of "[1, 20, 3]"] by simp

text \<open>
  \<open>Version.compare\<close> is a comparison function: it is zero on equal segment lists only, its
  sign flips with its arguments, and it is transitive, so that sorting by it and taking
  maxima is well defined.
\<close>

theorem version_compare_linear:
  "(version_compare u v = 0) = (u = v) \<and>
   (version_compare u v < 0) = (0 < version_compare v u) \<and>
   \<not> (version_compare u v \<le> 0 \<and> version_compare v w \<le> 0 \<and> 0 < version_compare u w)"
proof (intro conjI)
  show "\<not> (version_compare u v \<le> 0 \<and> version_compare v w \<le> 0 \<and> 0 < version_compare u w)"
    using order_trans [of u v w] by (auto simp: less_eq_version_def)
qed (simp_all add: version_compare_0_iff version_compare_flip)

end
