(* ===== verification/Version_Container.thy ===== *)
theory Version_Container
  imports Version
begin

text \<open>
  \<open>backend/src/repositories/scanner/version-container.ts\<close>: the tree of released versions.
  Every version is a path of the tree; \<open>composite_versions\<close> reads the tree back as the set
  of its paths, and the operations are shown to implement insertion, counting and maximum
  on that set.
\<close>

section \<open>The tree\<close>

datatype composite = Composite (branches: "(int \<times> composite) list") (releases: "int list")

definition composite_empty :: composite where
  "composite_empty = Composite [] []"

fun composite_add :: "int list \<Rightarrow> composite \<Rightarrow> composite" where
  "composite_add [] m = m"
| "composite_add [part] (Composite bs rs) =
     Composite bs (if part \<in> set rs then rs else rs @ [part])"
| "composite_add (head # rest) (Composite bs rs) =
     (case map_of bs head of
        Some m \<Rightarrow> Composite (AList.update head (composite_add rest m) bs) rs
      | None \<Rightarrow> Composite (bs @ [(head, composite_add rest composite_empty)]) rs)"

primrec composite_size :: "composite \<Rightarrow> nat" where
  "composite_size (Composite bs rs) =
     length rs + sum_list (map snd (map (map_prod id composite_size) bs))"

lemma branch_size [termination_simp]: "(i, m) \<in> set bs \<Longrightarrow> size m < size (Composite bs rs)"
  by (induction bs) auto

definition qualifying :: "int option \<Rightarrow> (int \<times> 'a) list \<Rightarrow> (int \<times> 'a) list" where
  "qualifying mx bs = (case mx of None \<Rightarrow> bs | Some n \<Rightarrow> filter (\<lambda>b. fst b \<le> n) bs)"

lemma set_qualifying: "set (qualifying mx bs) \<subseteq> set bs"
  by (auto simp: qualifying_def split: option.splits)

lemma max_by_branch: "max_by f (qualifying mx bs) = Some b \<Longrightarrow> b \<in> set bs"
  using max_by_Some [of f "qualifying mx bs" b] set_qualifying [of mx bs] by blast

function composite_highest :: "int option \<Rightarrow> composite \<Rightarrow> int list" where
  "composite_highest mx (Composite bs rs) =
     (case max_by fst (qualifying mx bs) of
        Some (i, m) \<Rightarrow> i # composite_highest None m
      | None \<Rightarrow> (case max_by id rs of None \<Rightarrow> [] | Some r \<Rightarrow> [r]))"
  by pat_completeness auto
termination
  by (relation "measure (\<lambda>(mx, m). size m)")
    (auto simp del: composite.size dest: max_by_branch intro: branch_size)

definition container_of :: "version list \<Rightarrow> composite" where
  "container_of vs = foldl (\<lambda>m v. composite_add (segments v) m) composite_empty vs"

definition container_highest :: "int option \<Rightarrow> composite \<Rightarrow> version option res" where
  "container_highest mx m =
     (let segs = composite_highest mx m in
      if segs \<noteq> [] then res_bind (fromSegments segs) (\<lambda>v. Inr (Some v)) else Inr None)"

section \<open>The tree as a set of versions\<close>

function composite_versions :: "composite \<Rightarrow> int list set" where
  "composite_versions (Composite bs rs) =
     (\<lambda>r. [r]) ` set rs \<union> (\<Union>b \<in> set bs. (\<lambda>v. fst b # v) ` composite_versions (snd b))"
  by pat_completeness auto
termination
  by (relation "measure size") (auto simp del: composite.size intro: branch_size)

function composite_wf :: "composite \<Rightarrow> bool" where
  "composite_wf (Composite bs rs) \<longleftrightarrow>
     distinct (map fst bs) \<and> distinct rs \<and>
     (\<forall>b \<in> set bs. composite_wf (snd b) \<and> composite_versions (snd b) \<noteq> {})"
  by pat_completeness auto
termination
  by (relation "measure size") (auto simp del: composite.size intro: branch_size)

lemma composite_versions_nonempty: "[] \<notin> composite_versions m"
  by (cases m) auto

lemma composite_empty_simps [simp]:
  "composite_wf composite_empty" "composite_versions composite_empty = {}"
  by (simp_all add: composite_empty_def)

lemma map_of_split:
  "map_of bs k = Some m \<Longrightarrow>
   \<exists>as cs. bs = as @ (k, m) # cs \<and> k \<notin> fst ` set as \<and>
     AList.update k m' bs = as @ (k, m') # cs"
proof (induction bs)
  case (Cons b bs)
  show ?case
  proof (cases "fst b = k")
    case True
    with Cons.prems have "b = (k, m)" by (cases b) auto
    then show ?thesis by (intro exI [of _ "[]"] exI [of _ bs]) simp
  next
    case False
    with Cons obtain as cs where "bs = as @ (k, m) # cs" "k \<notin> fst ` set as"
      "AList.update k m' bs = as @ (k, m') # cs" by (auto split: if_splits)
    with False show ?thesis by (intro exI [of _ "b # as"] exI [of _ cs]) (cases b; auto)
  qed
qed simp

lemma composite_add_correct:
  "composite_wf m \<Longrightarrow>
   composite_wf (composite_add parts m) \<and>
   (parts \<noteq> [] \<longrightarrow> composite_versions (composite_add parts m) = insert parts (composite_versions m))"
proof (induction parts m rule: composite_add.induct)
  case (3 head p ps bs rs)
  let ?rest = "p # ps"
  show ?case
  proof (cases "map_of bs head")
    case None
    then have "head \<notin> fst ` set bs" by (simp add: map_of_eq_None_iff)
    with 3(1) [OF None] 3(3) None show ?thesis by auto
  next
    case (Some m)
    then obtain as cs where bs: "bs = as @ (head, m) # cs"
      and up: "AList.update head (composite_add ?rest m) bs = as @ (head, composite_add ?rest m) # cs"
      using map_of_split [of bs head m "composite_add ?rest m"] by blast
    with 3(3) have "composite_wf m" by simp
    with 3(2) [OF Some] have
      "composite_wf (composite_add ?rest m)"
      "composite_versions (composite_add ?rest m) = insert ?rest (composite_versions m)" by auto
    with 3(3) Some up bs show ?thesis by auto
  qed
qed auto

lemma container_of_snoc:
  "container_of (vs @ [v]) = composite_add (segments v) (container_of vs)"
  by (simp add: container_of_def)

lemma container_of_correct:
  "list_all valid_version vs \<Longrightarrow>
   composite_wf (container_of vs) \<and> composite_versions (container_of vs) = segments ` set vs"
proof (induction vs rule: rev_induct)
  case Nil
  then show ?case by (simp add: container_of_def)
next
  case (snoc v vs)
  then have "segments v \<noteq> []" by (auto simp: valid_version_def)
  with snoc show ?case
    using composite_add_correct [of "container_of vs" "segments v"]
    by (simp add: container_of_snoc)
qed

section \<open>Counting\<close>

lemma composite_size_unfold:
  "composite_size (Composite bs rs) = length rs + sum_list (map (\<lambda>b. composite_size (snd b)) bs)"
  by (simp add: comp_def)

lemma composite_size_card:
  "composite_wf m \<Longrightarrow> finite (composite_versions m) \<and> card (composite_versions m) = composite_size m"
proof (induction m rule: composite_wf.induct)
  case (1 bs rs)
  let ?V = "\<lambda>b. (\<lambda>v. fst b # v) ` composite_versions (snd b)"
  from 1 have IH: "\<forall>b \<in> set bs. finite (composite_versions (snd b)) \<and>
      card (composite_versions (snd b)) = composite_size (snd b)" by auto
  have dist: "distinct (map fst bs)" "distinct rs" using 1(2) by auto
  have fin: "finite (\<Union>b \<in> set bs. ?V b)" using IH by auto
  have "card (\<Union>b \<in> set bs. ?V b) = (\<Sum>b \<in> set bs. card (?V b))"
  proof (rule card_UN_disjoint)
    show "\<forall>i\<in>set bs. \<forall>j\<in>set bs. i \<noteq> j \<longrightarrow> ?V i \<inter> ?V j = {}"
      using dist(1) by (auto simp: distinct_map inj_on_def)
  qed (use IH in auto)
  also have "\<dots> = (\<Sum>b \<in> set bs. composite_size (snd b))"
    using IH by (intro sum.cong) (auto simp: card_image inj_on_def)
  also have "\<dots> = sum_list (map (\<lambda>b. composite_size (snd b)) bs)"
    using dist(1) by (simp add: sum_list_distinct_conv_sum_set distinct_map)
  finally have branches: "card (\<Union>b \<in> set bs. ?V b) = sum_list (map (\<lambda>b. composite_size (snd b)) bs)" .
  have rel: "card ((\<lambda>r. [r]) ` set rs) = length rs"
    using dist(2) by (simp add: card_image distinct_card inj_on_def)
  have "(\<lambda>r. [r]) ` set rs \<inter> (\<Union>b \<in> set bs. ?V b) = {}"
    using composite_versions_nonempty by auto
  with fin branches rel show ?case
    by (simp add: card_Un_disjoint composite_size_unfold del: composite_size.simps)
qed

section \<open>The highest version\<close>

definition uniform :: "nat \<Rightarrow> int list set \<Rightarrow> bool" where
  "uniform k V \<longleftrightarrow> (\<forall>v \<in> V. length v = k)"

lemma qualifying_mem: "(i, m) \<in> set (qualifying mx bs) \<longleftrightarrow>
    (i, m) \<in> set bs \<and> (case mx of None \<Rightarrow> True | Some n \<Rightarrow> i \<le> n)"
  by (auto simp: qualifying_def split: option.splits)

lemma composite_highest_max:
  "composite_wf m \<Longrightarrow> uniform k (composite_versions m) \<Longrightarrow> composite_versions m \<noteq> {} \<Longrightarrow>
   composite_highest None m \<in> composite_versions m \<and>
   (\<forall>v \<in> composite_versions m. compare_segments v (composite_highest None m) \<le> 0)"
proof (induction m arbitrary: k rule: composite_wf.induct)
  case (1 bs rs)
  show ?case
  proof (cases bs)
    case Nil
    with 1(4) obtain r where r: "max_by id rs = Some r" by (cases "max_by id rs") auto
    with Nil max_by_Some [OF r] show ?thesis by (auto simp: qualifying_def)
  next
    case (Cons b0 bs0)
    then obtain i m where b: "max_by fst bs = Some (i, m)"
      using max_by_None_iff [of fst bs] by (cases "max_by fst bs") auto
    note mb = max_by_Some [OF b]
    from mb 1(2) have wfm: "composite_wf m" "composite_versions m \<noteq> {}" by auto
    have un: "uniform (k - 1) (composite_versions m)" using 1(3) mb by (force simp: uniform_def)
    have k: "k > 1"
    proof -
      obtain v where v: "v \<in> composite_versions m" using wfm by auto
      with composite_versions_nonempty have "v \<noteq> []" by metis
      moreover have "length (i # v) = k" using 1(3) v mb by (force simp: uniform_def)
      ultimately show ?thesis by (cases v) auto
    qed
    then have rs: "rs = []" using 1(3) by (cases rs) (auto simp: uniform_def)
    from 1(1) [OF conjunct1 [OF mb], simplified, OF wfm(1) un wfm(2)]
    have IH: "composite_highest None m \<in> composite_versions m"
      "\<forall>v \<in> composite_versions m. compare_segments v (composite_highest None m) \<le> 0" by auto
    have eq: "composite_highest None (Composite bs rs) = i # composite_highest None m"
      using b by (simp add: qualifying_def)
    have "compare_segments v (i # composite_highest None m) \<le> 0"
      if "v \<in> composite_versions (Composite bs rs)" for v
    proof -
      from that rs obtain j n w where v: "v = j # w" "(j, n) \<in> set bs" "w \<in> composite_versions n"
        by force
      from v(2) mb have "j \<le> i" by force
      moreover have "n = m" if "j = i"
        using that v(2) mb 1(2) by (auto dest: eq_key_imp_eq_value)
      ultimately show ?thesis using v IH by (auto simp: compare_segments_Cons_le simp del: compare_segments.simps)
    qed
    moreover have "i # composite_highest None m \<in> composite_versions (Composite bs rs)"
      using IH mb by force
    ultimately show ?thesis by (simp only: eq) simp
  qed
qed

text \<open>The versions whose first segment is at most the limit.\<close>

definition within :: "int option \<Rightarrow> int list set \<Rightarrow> int list set" where
  "within mx V = {v \<in> V. case mx of None \<Rightarrow> True | Some n \<Rightarrow> hd v \<le> n}"

lemma composite_versions_qualifying:
  "composite_versions (Composite (qualifying mx bs) []) = within mx (composite_versions (Composite bs []))"
proof (cases mx)
  case None
  then show ?thesis by (auto simp: within_def qualifying_def)
next
  case (Some n)
  then show ?thesis by (force simp: within_def qualifying_def)
qed

lemma composite_highest_limited:
  assumes wf: "composite_wf m" and un: "uniform k (composite_versions m)" and k: "k > 1"
  shows "if within mx (composite_versions m) = {} then composite_highest mx m = []
         else composite_highest mx m \<in> within mx (composite_versions m) \<and>
           (\<forall>v \<in> within mx (composite_versions m). compare_segments v (composite_highest mx m) \<le> 0)"
proof -
  obtain bs rs where m: "m = Composite bs rs" by (cases m)
  let ?m' = "Composite (qualifying mx bs) []"
  have rs: "rs = []" using un k by (cases rs) (auto simp: m uniform_def)
  have Q: "composite_versions ?m' = within mx (composite_versions m)"
    unfolding m rs by (rule composite_versions_qualifying)
  have wf': "composite_wf ?m'" using wf set_qualifying [of mx bs]
    by (auto simp: m qualifying_def distinct_map_filter split: option.splits)
  have un': "uniform k (composite_versions ?m')"
    unfolding Q using un by (auto simp: uniform_def within_def)
  have eq: "composite_highest mx m = composite_highest None ?m'"
    by (simp add: m rs qualifying_def)
  show ?thesis
  proof (cases "within mx (composite_versions m) = {}")
    case True
    have "qualifying mx bs = []"
    proof (rule ccontr)
      assume "qualifying mx bs \<noteq> []"
      then obtain b where b: "b \<in> set (qualifying mx bs)" by (cases "qualifying mx bs") auto
      with wf' have "composite_versions (snd b) \<noteq> {}" by (cases b) auto
      then obtain v where "v \<in> composite_versions (snd b)" by blast
      with b have "fst b # v \<in> composite_versions ?m'" by auto
      with Q True show False by simp
    qed
    with True show ?thesis by (simp add: m rs)
  next
    case False
    with composite_highest_max [OF wf' un', unfolded Q, folded eq] show ?thesis by simp
  qed
qed

section \<open>The container\<close>

lemma uniform_container:
  "list_all (\<lambda>v. length (segments v) = k) vs \<Longrightarrow> uniform k (segments ` set vs)"
  by (auto simp: uniform_def list_all_iff)

text \<open>
  On versions that all have \<open>k\<close> segments, \<open>VersionContainer.getHighest(max)\<close> of
  \<open>fromVersions\<close> is the greatest version, in the order of \<open>Version.compare\<close>, among those
  whose major is at most \<open>max\<close>, and \<open>undefined\<close> exactly when there is none.
\<close>

theorem container_highest_is_max:
  assumes "1 < k" and "list_all (\<lambda>v. length (segments v) = k) vs"
  shows "container_highest mx (container_of vs) =
    Inr (let q = filter (\<lambda>v. case mx of None \<Rightarrow> True | Some n \<Rightarrow> major_of v \<le> n) vs
         in if q = [] then None else Some (Max (set q)))"
proof -
  let ?m = "container_of vs"
  define q where "q = filter (\<lambda>v. case mx of None \<Rightarrow> True | Some n \<Rightarrow> major_of v \<le> n) vs"
  have "list_all valid_version vs" using assms by (auto simp: list_all_iff valid_version_def)
  from container_of_correct [OF this] have wf: "composite_wf ?m"
    and V: "composite_versions ?m = segments ` set vs" by auto
  have un: "uniform k (composite_versions ?m)" using assms V uniform_container by simp
  have W: "within mx (composite_versions ?m) = segments ` set q"
    unfolding V q_def by (cases mx) (auto simp: within_def major_of_def)
  note hi = composite_highest_limited [OF wf un assms(1), of mx, unfolded W]
  show ?thesis
  proof (cases "q = []")
    case True
    with hi show ?thesis by (simp add: container_highest_def flip: q_def)
  next
    case False
    with hi obtain v where v: "v \<in> set q" "composite_highest mx ?m = segments v" by auto
    with hi False have le: "\<forall>w \<in> set q. w \<le> v"
      by (auto simp: less_eq_version_def version_compare_def)
    from v have len: "length (segments v) > 1" using assms by (auto simp: q_def list_all_iff)
    have "Max (set q) = v" using v le by (intro Max_eqI) auto
    with v False len show ?thesis
      by (auto simp: container_highest_def Let_def simp flip: q_def)
  qed
qed

theorem container_highest_is_max_witness:
  "container_highest (Some 1)
     (container_of [Version [1, 0, 2], Version [2, 0, 0], Version [1, 3, 0], Version [1, 0, 2]]) =
   Inr (Some (Version [1, 3, 0]))"
  by (subst container_highest_is_max [of 3]) (auto simp: major_of_def intro!: Max_eqI)

text \<open>\<open>VersionContainer.size\<close> is the number of different versions the container was built from,
  whatever their lengths and however often a version is repeated.
\<close>

theorem container_size_is_card:
  assumes "list_all valid_version vs"
  shows "composite_size (container_of vs) = card (set vs)"
proof -
  have "card (segments ` set vs) = card (set vs)"
    by (rule card_image) (auto simp: inj_on_def intro: version.expand)
  with container_of_correct [OF assms] composite_size_card [of "container_of vs"]
  show ?thesis by simp
qed

theorem container_size_is_card_witness:
  "composite_size (container_of [Version [1, 0], Version [1, 0, 0], Version [1, 0]]) = 2"
  by (subst container_size_is_card) (simp_all add: valid_version_def card_insert_if)

text \<open>
  The hypothesis on the lengths is needed: with a longer version in the same major the tree
  prefers the branch over the release, so the result is not the greatest version.
\<close>

lemma container_highest_mixed_lengths:
  "container_highest None (container_of [Version [1, 2], Version [1, 1, 5]]) =
   Inr (Some (Version [1, 1, 5]))"
  by (simp add: container_highest_def container_of_def composite_empty_def qualifying_def
      fromSegments_def mk_version_def)

end
