(* ===== verification/Refs.thy ===== *)
theory Refs
  imports Js_Text
begin

text \<open>
  \<open>backend/src/domain-model/refs.ts\<close>: branch, tag, meta-config and sha references, their
  names in the local clone (\<open>originRef\<close>), on the remote (\<open>remoteRef\<close>), the fetch
  specification between the two (\<open>refSpec\<close>), and the decoding of remote names.
\<close>

section \<open>References\<close>

text \<open>\<open>MetaConfigBranchRef\<close> extends \<open>BranchRef\<close> with the fixed name \<open>meta/config\<close>.\<close>

datatype ref = BranchRef string | TagRef string | MetaConfigBranchRef | ShaRef string

fun ref_name :: "ref \<Rightarrow> string" where
  "ref_name (BranchRef n) = n"
| "ref_name (TagRef n) = n"
| "ref_name MetaConfigBranchRef = ''meta/config''"
| "ref_name (ShaRef s) = s"

fun is_branch_ref :: "ref \<Rightarrow> bool" where
  "is_branch_ref (BranchRef n) \<longleftrightarrow> True"
| "is_branch_ref MetaConfigBranchRef \<longleftrightarrow> True"
| "is_branch_ref _ \<longleftrightarrow> False"

fun originRef :: "ref \<Rightarrow> string" where
  "originRef (TagRef n) = ''refs/tags/'' @ n"
| "originRef (ShaRef s) = s"
| "originRef r = ''refs/remotes/origin/'' @ ref_name r"

text \<open>\<open>EntityRef\<close> is the interface of the references that exist on a remote.\<close>

fun is_entity_ref :: "ref \<Rightarrow> bool" where
  "is_entity_ref (ShaRef s) \<longleftrightarrow> False"
| "is_entity_ref _ \<longleftrightarrow> True"

fun remoteRef :: "ref \<Rightarrow> string" where
  "remoteRef (BranchRef n) = ''refs/heads/'' @ n"
| "remoteRef (TagRef n) = ''refs/tags/'' @ n"
| "remoteRef MetaConfigBranchRef = ''refs/'' @ ref_name MetaConfigBranchRef"
| "remoteRef (ShaRef s) = s"

fun refSpec :: "ref \<Rightarrow> string" where
  "refSpec (BranchRef n) = ''+refs/heads/'' @ n @ '':refs/remotes/origin/'' @ n"
| "refSpec (TagRef n) = ''+refs/tags/'' @ n @ '':refs/tags/'' @ n"
| "refSpec MetaConfigBranchRef =
     ''+refs/'' @ ref_name MetaConfigBranchRef @ '':refs/remotes/origin/''
       @ ref_name MetaConfigBranchRef"
| "refSpec (ShaRef s) = s"

fun ref_equals :: "ref \<Rightarrow> ref \<Rightarrow> bool" where
  "ref_equals (TagRef n) r' = (case r' of TagRef m \<Rightarrow> m = n | _ \<Rightarrow> False)"
| "ref_equals (ShaRef s) r' = (case r' of ShaRef t \<Rightarrow> t = s | _ \<Rightarrow> False)"
| "ref_equals r r' = (is_branch_ref r' \<and> ref_name r' = ref_name r)"

definition meta_config_parse :: "string \<Rightarrow> ref option" where
  "meta_config_parse r = (if r = ''refs/meta/config'' then Some MetaConfigBranchRef else None)"

fun ref_toString :: "ref \<Rightarrow> string" where
  "ref_toString (BranchRef n) = ''branch-ref: '' @ n"
| "ref_toString (TagRef n) = ''tag-ref: '' @ n"
| "ref_toString MetaConfigBranchRef = ''meta-config-branch-ref: meta/config''"
| "ref_toString (ShaRef s) = ''sha:'' @ s"

text \<open>\<open>ShaRef.create\<close> tests \<open>/^[0-9a-f]{40}$/i\<close>.\<close>

definition is_sha :: "string \<Rightarrow> bool" where
  "is_sha s \<longleftrightarrow> length s = 40 \<and> list_all (\<lambda>c. hex_val c \<noteq> None) s"

definition sha_create :: "string \<Rightarrow> ref res" where
  "sha_create s = (if is_sha s then Inr (ShaRef s) else Inl (Error (''Bad sha ref: '' @ s)))"

section \<open>Entities\<close>

record entity =
  e_ref :: ref
  e_sha :: string

definition branch_create :: "string \<Rightarrow> string \<Rightarrow> entity res" where
  "branch_create name sha =
     (case sha_create sha of
        Inl e \<Rightarrow> Inl e
      | Inr _ \<Rightarrow> Inr \<lparr> e_ref = BranchRef name, e_sha = sha \<rparr>)"

definition branch_withSha :: "entity \<Rightarrow> string \<Rightarrow> entity res" where
  "branch_withSha b sha = res_bind (sha_create sha) (\<lambda>_. Inr (b \<lparr> e_sha := sha \<rparr>))"

definition tag_create :: "string \<Rightarrow> string \<Rightarrow> entity res" where
  "tag_create name sha =
     res_bind (sha_create sha) (\<lambda>_. Inr \<lparr> e_ref = TagRef name, e_sha = sha \<rparr>)"

section \<open>Decoding remote names\<close>

definition createFromRemoteRef :: "string \<Rightarrow> ref res" where
  "createFromRemoteRef r =
     (let parts = split ''/'' r;
          part = (\<lambda>i. if i < length parts then Some (parts ! i) else None);
          r1 = part 0; r2 = part 1; r3 = part 2;
          bad = Inl (Error (''Could not decode '' @ r @ '' to EntityRef''))
      in if r1 = Some ''refs'' then
           (if r2 = Some ''tags'' then Inr (TagRef (join ''/'' (drop 2 parts)))
            else if r2 = Some ''remotes'' then Inr (BranchRef (join ''/'' (drop 3 parts)))
            else if r2 = Some ''heads'' then Inr (BranchRef (join ''/'' (drop 2 parts)))
            else if r2 = Some ''meta'' \<and> r3 = Some ''config'' then Inr MetaConfigBranchRef
            else bad)
         else bad)"

definition tryCreateFromRemoteRef :: "string \<Rightarrow> ref option" where
  "tryCreateFromRemoteRef r = (case createFromRemoteRef r of Inl _ \<Rightarrow> None | Inr x \<Rightarrow> Some x)"

section \<open>Lemmas\<close>

lemma sha_create_Inr [simp]: "sha_create s = Inr r \<longleftrightarrow> is_sha s \<and> r = ShaRef s"
  by (auto simp: sha_create_def)

lemma is_sha_nonempty: "is_sha s \<Longrightarrow> s \<noteq> []"
  by (auto simp: is_sha_def)

lemma branch_create_Inr:
  "branch_create n s = Inr b \<longleftrightarrow> is_sha s \<and> b = \<lparr> e_ref = BranchRef n, e_sha = s \<rparr>"
  by (auto simp: branch_create_def sha_create_def split: if_splits)

lemma branch_create_ok [simp]:
  "is_sha s \<Longrightarrow> branch_create n s = Inr \<lparr> e_ref = BranchRef n, e_sha = s \<rparr>"
  by (simp add: branch_create_Inr)

text \<open>Splitting a literal path prefix off a name.\<close>

lemma split_slash_prefix:
  "split ''/'' (''refs/heads/'' @ n) = ''refs'' # ''heads'' # split ''/'' n"
  "split ''/'' (''refs/tags/'' @ n) = ''refs'' # ''tags'' # split ''/'' n"
  "split ''/'' (''refs/remotes/origin/'' @ n) = ''refs'' # ''remotes'' # ''origin'' # split ''/'' n"
  by (simp_all add: split_eval)

lemma createFromRemoteRef_remote:
  "createFromRemoteRef (''refs/heads/'' @ n) = Inr (BranchRef n)"
  "createFromRemoteRef (''refs/tags/'' @ n) = Inr (TagRef n)"
  "createFromRemoteRef (''refs/remotes/origin/'' @ n) = Inr (BranchRef n)"
  by (simp_all only: createFromRemoteRef_def split_slash_prefix) (simp_all add: join_split Let_def)

lemma createFromRemoteRef_meta:
  "createFromRemoteRef ''refs/meta/config'' = Inr MetaConfigBranchRef"
  by (simp add: createFromRemoteRef_def split_eval)

text \<open>
  Decoding a remote name gives back the reference it was printed from, and so does decoding
  the tracking name of a plain branch or tag; decoded names are never sha references, and
  references with the same remote name and class are equal in the sense of \<open>equals\<close>.
\<close>

theorem remote_ref_roundtrip:
  "(if is_entity_ref r then tryCreateFromRemoteRef (remoteRef r) = Some r \<and> ref_equals r r else True) \<and>
   tryCreateFromRemoteRef (originRef (BranchRef n)) = Some (BranchRef n) \<and>
   tryCreateFromRemoteRef (originRef (TagRef n)) = Some (TagRef n) \<and>
   tryCreateFromRemoteRef s \<noteq> Some (ShaRef t)"
proof -
  have "if is_entity_ref r then tryCreateFromRemoteRef (remoteRef r) = Some r \<and> ref_equals r r else True"
    by (cases r) (simp_all only: remoteRef.simps tryCreateFromRemoteRef_def
        createFromRemoteRef_remote createFromRemoteRef_meta, simp_all add: createFromRemoteRef_meta)
  moreover have "tryCreateFromRemoteRef (originRef (BranchRef n)) = Some (BranchRef n)"
    "tryCreateFromRemoteRef (originRef (TagRef n)) = Some (TagRef n)"
    by (simp_all only: originRef.simps ref_name.simps tryCreateFromRemoteRef_def
        createFromRemoteRef_remote sum.case)
  moreover have "tryCreateFromRemoteRef s \<noteq> Some (ShaRef t)"
    by (auto simp: tryCreateFromRemoteRef_def createFromRemoteRef_def Let_def split: sum.splits if_splits)
  ultimately show ?thesis by blast
qed

text \<open>
  The tracking name of the meta-config branch decodes to an ordinary branch, which \<open>equals\<close>
  identifies with it although its remote name is another one.
\<close>

lemma meta_config_origin_decodes_to_branch:
  "tryCreateFromRemoteRef (originRef MetaConfigBranchRef) = Some (BranchRef ''meta/config'')"
  "ref_equals MetaConfigBranchRef (BranchRef ''meta/config'')"
  "remoteRef MetaConfigBranchRef \<noteq> remoteRef (BranchRef ''meta/config'')"
  by (simp_all add: tryCreateFromRemoteRef_def createFromRemoteRef_def split_eval)

end
