(* ===== verification/Repository_Source.thy ===== *)
theory Repository_Source
  imports Refs
begin

text \<open>
  \<open>backend/src/domain-model/repository-model/repository-source.ts\<close>: the name of a
  repository (the id of its store and its path there) and its three printed forms: with
  \<open>:\<close> (\<open>serialize\<close>), with \<open>/\<close> (\<open>asString\<close>) and, in URLs, with \<open>.\<close>
  (\<open>frontend/src/utils/repository-source-util.ts\<close> and \<open>getLogUrl\<close> of
  \<open>backend/src/buildlog/buildlog-impl.ts\<close>).
\<close>

section \<open>The class\<close>

record source =
  src_id :: string
  src_path :: string

definition mk_source :: "string \<Rightarrow> string \<Rightarrow> source" where
  "mk_source i p = \<lparr> src_id = i, src_path = p \<rparr>"

definition source_toString :: "source \<Rightarrow> string" where
  "source_toString s = ''source:'' @ src_id s @ ''/'' @ src_path s"

definition source_asString :: "source \<Rightarrow> string" where
  "source_asString s = src_id s @ ''/'' @ src_path s"

definition source_serialize :: "source \<Rightarrow> string" where
  "source_serialize s = src_id s @ '':'' @ src_path s"

definition source_createFromString :: "string \<Rightarrow> source res" where
  "source_createFromString str =
     (case split ''/'' str of
        i # rest \<Rightarrow>
          if i \<noteq> [] \<and> rest \<noteq> [] then Inr (mk_source i (join ''/'' rest))
          else Inl (Error (''Could not parse '' @ str @ '' to RepositorySource''))
      | [] \<Rightarrow> Inl (Error (''Could not parse '' @ str @ '' to RepositorySource'')))"

definition source_deserialize :: "string \<Rightarrow> source res" where
  "source_deserialize str =
     (case split '':'' str of
        i # p # _ \<Rightarrow>
          if i \<noteq> [] \<and> p \<noteq> [] then Inr (mk_source i p)
          else Inl (Error (''Could not parse RepositorySource:'' @ str))
      | _ \<Rightarrow> Inl (Error (''Could not parse RepositorySource:'' @ str)))"

text \<open>\<open>unique\<close>: a \<open>Set\<close> of the serialized sources keeps the order of first insertion.\<close>

definition source_unique :: "source list \<Rightarrow> source list res" where
  "source_unique ss =
     res_mapM source_deserialize
       (foldl (\<lambda>acc s. let t = source_serialize s in if t \<notin> set acc then acc @ [t] else acc) [] ss)"

definition source_equals :: "source \<Rightarrow> source \<Rightarrow> bool" where
  "source_equals s t \<longleftrightarrow> src_id s = src_id t \<and> src_path s = src_path t"

lemma source_equals_iff [simp]: "source_equals s t \<longleftrightarrow> s = t"
  by (auto simp: source_equals_def)

lemma mk_source_sel [simp]: "src_id (mk_source i p) = i" "src_path (mk_source i p) = p"
  "mk_source (src_id s) (src_path s) = s"
  by (simp_all add: mk_source_def)

section \<open>The form used in URLs\<close>

definition url_serialize :: "source \<Rightarrow> string" where
  "url_serialize s = src_id s @ ''.'' @ join ''.'' (split ''/'' (src_path s))"

definition url_deserialize :: "string \<Rightarrow> source option" where
  "url_deserialize str =
     (case split ''.'' str of
        i # segs \<Rightarrow> if i \<noteq> [] \<and> segs \<noteq> [] then Some (mk_source i (join ''/'' segs)) else None
      | [] \<Rightarrow> None)"

definition repositoryUrl :: "source \<Rightarrow> string res" where
  "repositoryUrl s =
     (if src_id s = ''csp-gerrit'' then
        Inr (''https://csp-gerrit.volvocars.biz/plugins/gitiles/'' @ src_path s)
      else if src_id s = ''csp-gerrit-qa'' then
        Inr (''https://csp-gerrit-qa.volvocars.biz/plugins/gitiles/'' @ src_path s)
      else Inl (Error (''Unknown repository-source:'' @ src_id s)))"

definition repositoryBranchUrl :: "source \<Rightarrow> string \<Rightarrow> string res" where
  "repositoryBranchUrl s b = res_bind (repositoryUrl s) (\<lambda>u. Inr (u @ ''/+/refs/heads/'' @ b))"

definition repositoryTagUrl :: "source \<Rightarrow> string \<Rightarrow> string res" where
  "repositoryTagUrl s t = res_bind (repositoryUrl s) (\<lambda>u. Inr (u @ ''/+/refs/tags/'' @ t))"

definition replace_char :: "char \<Rightarrow> char \<Rightarrow> string \<Rightarrow> string" where
  "replace_char a b = map (\<lambda>c. if c = a then b else c)"

definition trimEnd :: "char \<Rightarrow> string \<Rightarrow> string" where
  "trimEnd c s = rev (dropWhile (\<lambda>x. x = c) (rev s))"

definition getLogUrl :: "string \<Rightarrow> source \<Rightarrow> string \<Rightarrow> string" where
  "getLogUrl frontendUrl s logId =
     trimEnd (CHR ''/'') frontendUrl @ ''/repo/'' @ src_id s @ ''.''
       @ replace_char (CHR ''/'') (CHR ''.'') (src_path s) @ ''/logs/'' @ logId"

section \<open>Lemmas\<close>

text \<open>Parsing the \<open>:\<close> form.\<close>

definition colon_free :: "source \<Rightarrow> bool" where
  "colon_free s \<longleftrightarrow> src_id s \<noteq> [] \<and> src_path s \<noteq> [] \<and>
     CHR '':'' \<notin> set (src_id s) \<and> CHR '':'' \<notin> set (src_path s)"

lemma split_Cons_safe: "c \<notin> set x \<Longrightarrow> split [c] (x @ c # r) = x # split [c] r"
  using split_safe [of "[c]" x r] by simp

lemma source_deserialize_serialize [simp]:
  "colon_free s \<Longrightarrow> source_deserialize (source_serialize s) = Inr s"
  by (simp add: source_deserialize_def source_serialize_def colon_free_def split_Cons_safe split_last)

lemma source_deserialize_Inr_colon_free: "source_deserialize str = Inr s \<Longrightarrow> colon_free s"
proof -
  assume a: "source_deserialize str = Inr s"
  then obtain i p r where sp: "split '':'' str = i # p # r" and ip: "i \<noteq> []" "p \<noteq> []" "s = mk_source i p"
    by (auto simp: source_deserialize_def split: list.splits if_splits)
  then have "CHR '':'' \<notin> set i" "CHR '':'' \<notin> set p"
    using split1_pieces [of _ "CHR '':''" str] by (metis list.set_intros)+
  with ip show ?thesis by (simp add: colon_free_def)
qed

lemma source_createFromString_asString [simp]:
  "src_id s \<noteq> [] \<Longrightarrow> CHR ''/'' \<notin> set (src_id s) \<Longrightarrow>
   source_createFromString (source_asString s) = Inr s"
  by (simp add: source_createFromString_def source_asString_def split_Cons_safe join_split)

lemma source_createFromString_print:
  "source_createFromString str = Inr s \<Longrightarrow> source_asString s = str"
proof -
  assume a: "source_createFromString str = Inr s"
  then obtain i r where sp: "split ''/'' str = i # r" "r \<noteq> []" "s = mk_source i (join ''/'' r)"
    by (auto simp: source_createFromString_def split: list.splits if_splits)
  have "str = join ''/'' (i # r)" using sp(1) join_split [of "''/''" str] by simp
  with sp show ?thesis by (simp add: source_asString_def join_Cons)
qed

lemma source_unique_serialized:
  "foldl (\<lambda>acc s. let t = f s in if t \<notin> set acc then acc @ [t] else acc) acc ss =
   acc @ filter (\<lambda>t. t \<notin> set acc) (uniq (map f ss))"
proof (induction ss arbitrary: acc)
  case (Cons s ss)
  have "f s \<in> set acc \<Longrightarrow> filter (\<lambda>t. t \<noteq> f s \<and> t \<notin> set acc) xs = filter (\<lambda>t. t \<notin> set acc) xs" for xs
    by (rule filter_cong) auto
  with Cons.IH [of acc] Cons.IH [of "acc @ [f s]"] show ?case
    by (auto simp: Let_def conj_commute)
qed simp

lemma uniq_map_inj: "inj_on f (set xs) \<Longrightarrow> uniq (map f xs) = map f (uniq xs)"
proof (induction xs)
  case (Cons x xs)
  then have "filter (\<lambda>y. y \<noteq> f x) (map f (uniq xs)) = map f (filter (\<lambda>y. y \<noteq> x) (uniq xs))"
    by (auto simp: filter_map comp_def inj_on_def intro!: arg_cong [of _ _ "map f"] filter_cong)
  with Cons show ?case by simp
qed simp

lemma source_unique_uniq:
  assumes "list_all colon_free ss"
  shows "source_unique ss = Inr (uniq ss)"
proof -
  have inv: "source_deserialize (source_serialize s) = Inr s" if "s \<in> set ss" for s
    using assms that by (simp add: list_all_iff)
  then have "inj_on source_serialize (set ss)"
    by (metis inj_onI sum.inject(2))
  then have "source_unique ss = res_mapM source_deserialize (map source_serialize (uniq ss))"
    by (simp add: source_unique_def source_unique_serialized uniq_map_inj)
  also have "\<dots> = Inr (map id (uniq ss))"
  proof -
    have "res_mapM source_deserialize (map source_serialize xs) = Inr xs" if "set xs \<subseteq> set ss" for xs
      using that inv by (induction xs) auto
    then show ?thesis by simp
  qed
  finally show ?thesis by simp
qed

lemma split_in_join: "w \<in> set ws \<Longrightarrow> c \<in> set w \<Longrightarrow> c \<in> set (join d ws)"
  by (induction d ws rule: join.induct) auto

lemma replace_char_join: "replace_char a b s = join [b] (split [a] s)"
proof (induction s)
  case (Cons x s)
  have "split [a] s \<noteq> []" by simp
  then obtain w ws where w: "split [a] s = w # ws" by (cases "split [a] s") auto
  with Cons show ?case by (auto simp: split1_simps replace_char_def join_hd join_Cons)
qed (simp add: replace_char_def)

section \<open>Properties\<close>

text \<open>
  The two backend forms of a repository name parse back to it: the \<open>/\<close> form for every
  name whose store id is not empty and has no slash (the path may have any), the \<open>:\<close> form
  for non-empty parts without a colon; and \<open>unique\<close> keeps, in order, the first occurrence of
  every source and does not fail.
\<close>

theorem source_roundtrips:
  assumes "colon_free s" and "CHR ''/'' \<notin> set (src_id s)" and "list_all colon_free ss"
  shows "source_createFromString (source_asString s) = Inr s \<and>
    source_deserialize (source_serialize s) = Inr s \<and>
    source_unique ss = Inr (uniq ss)"
  using assms source_unique_uniq [of ss] by (simp add: colon_free_def)

theorem source_roundtrips_witness:
  "source_deserialize (source_serialize (mk_source ''g'' ''a/b'')) = Inr (mk_source ''g'' ''a/b'') \<and>
   source_unique [mk_source ''g'' ''b'', mk_source ''g'' ''a'', mk_source ''g'' ''b''] =
     Inr [mk_source ''g'' ''b'', mk_source ''g'' ''a'']"
  using source_roundtrips [of "mk_source ''g'' ''a/b''"
      "[mk_source ''g'' ''b'', mk_source ''g'' ''a'', mk_source ''g'' ''b'']"]
  by (simp add: colon_free_def mk_source_def)

text \<open>
  The link that the backend prints to a build log contains the name of the repository in
  the form that the frontend parses, and the frontend gets the repository back, provided
  that neither part of its name has a dot.
\<close>

theorem log_url_source_roundtrip:
  assumes "src_id s \<noteq> []" and "CHR ''.'' \<notin> set (src_id s)" and "CHR ''.'' \<notin> set (src_path s)"
  shows "getLogUrl u s l = trimEnd (CHR ''/'') u @ ''/repo/'' @ url_serialize s @ ''/logs/'' @ l \<and>
    url_deserialize (url_serialize s) = Some s"
proof
  show "getLogUrl u s l = trimEnd (CHR ''/'') u @ ''/repo/'' @ url_serialize s @ ''/logs/'' @ l"
    by (simp add: getLogUrl_def url_serialize_def replace_char_join)
  have pieces: "CHR ''.'' \<notin> set w" if "w \<in> set (split ''/'' (src_path s))" for w
    using split_in_join [OF that, of "CHR ''.''" "''/''"] assms(3) by (auto simp: join_split)
  then have "split ''.'' (join ''.'' (split ''/'' (src_path s))) = split ''/'' (src_path s)"
    by (intro split_join) (simp_all add: list_all_iff)
  with assms show "url_deserialize (url_serialize s) = Some s"
    by (simp add: url_deserialize_def url_serialize_def split_Cons_safe join_split)
qed

theorem log_url_source_roundtrip_witness:
  "url_deserialize (url_serialize (mk_source ''gerrit'' ''team/app'')) = Some (mk_source ''gerrit'' ''team/app'')"
  using log_url_source_roundtrip [of "mk_source ''gerrit'' ''team/app''"] by simp

text \<open>The hypothesis is needed: a dot in the path comes back as a slash.\<close>

lemma url_form_confuses_dots:
  "url_deserialize (url_serialize (mk_source ''gerrit'' ''team/app.ui'')) =
   Some (mk_source ''gerrit'' ''team/app/ui'')"
  by (simp add: url_serialize_def url_deserialize_def split_eval)

end
