(* ===== verification/Job_Ref.thy ===== *)
theory Job_Ref
  imports Repository_Source
begin

text \<open>
  \<open>backend/src/domain-model/job-ref/job-ref.ts\<close>: what a job builds (a change under review
  or a branch), its identifiers in the queues, and its serialized form; and the \<open>Key\<close> of
  \<open>backend/src/system/job-executor/job-executor.ts\<close>, a job of a repository.
\<close>

section \<open>Joined fields\<close>

definition delimiter :: string where
  "delimiter = ''::''"

lemma delimiter_nonempty [simp]: "delimiter \<noteq> []"
  by (simp add: delimiter_def)

lemma delim_safe_delimiter: "CHR '':'' \<notin> set x \<Longrightarrow> delim_safe delimiter x"
  by (rule delim_safe_notin) (simp_all add: delimiter_def)

section \<open>Job references\<close>

datatype job_ref =
    UpdateJob (updateId: string) (targetBranch: string) (job_sha: string)
  | BranchJob (job_branch: ref) (job_sha: string)

fun job_class :: "job_ref \<Rightarrow> string" where
  "job_class (UpdateJob i t s) = ''UpdateRef''"
| "job_class (BranchJob b s) = ''BranchRef''"

fun job_fields :: "job_ref \<Rightarrow> string list" where
  "job_fields (UpdateJob i t s) = [i, t, s]"
| "job_fields (BranchJob b s) = [ref_name b, s]"

definition job_serialize :: "job_ref \<Rightarrow> string" where
  "job_serialize r = join delimiter (job_class r # job_fields r)"

text \<open>A missing field is \<open>undefined\<close>, which \<open>ShaRef.create\<close> rejects.\<close>

definition bad_sha :: "string \<Rightarrow> error" where
  "bad_sha s = Error (''Bad sha ref: '' @ s)"

fun update_create :: "string list \<Rightarrow> job_ref res" where
  "update_create (i # t # s # rest) = res_bind (sha_create s) (\<lambda>_. Inr (UpdateJob i t s))"
| "update_create fs = Inl (bad_sha ''undefined'')"

fun branchjob_create :: "string list \<Rightarrow> job_ref res" where
  "branchjob_create (b # s # rest) =
     res_bind (sha_create s) (\<lambda>_. Inr (BranchJob (BranchRef b) s))"
| "branchjob_create fs = Inl (bad_sha ''undefined'')"

definition job_deserialize :: "string \<Rightarrow> job_ref res" where
  "job_deserialize str =
     (let parts = split delimiter str; h = hd parts; t = tl parts in
      if h = ''UpdateRef'' then update_create t
      else if h = ''BranchRef'' then branchjob_create t
      else Inl (Error (''Uknown job-ref-type: '' @ h @ ''.'')))"

text \<open>\<open>UpdateRef.withSha\<close> passes the target branch where the constructor expects the id.\<close>

fun job_withSha :: "job_ref \<Rightarrow> string \<Rightarrow> job_ref" where
  "job_withSha (UpdateJob i t s) sha = UpdateJob t i sha"
| "job_withSha (BranchJob b s) sha = BranchJob b sha"

fun queueId :: "job_ref \<Rightarrow> string" where
  "queueId (UpdateJob i t s) = ''integration_'' @ t"
| "queueId (BranchJob b s) = ref_name b @ ''-'' @ s"

fun job_key_id :: "job_ref \<Rightarrow> string" where
  "job_key_id (UpdateJob i t s) = i"
| "job_key_id (BranchJob b s) = ref_name b @ ''-'' @ s"

fun canonicalId :: "job_ref \<Rightarrow> string" where
  "canonicalId (UpdateJob i t s) = ''update-'' @ i"
| "canonicalId (BranchJob b s) = ref_name b @ ''-'' @ s"

fun job_toString :: "job_ref \<Rightarrow> string" where
  "job_toString (UpdateJob i t s) = ''UpdateJobRef:'' @ i @ ''@'' @ s"
| "job_toString (BranchJob b s) = ''BranchJobRef:'' @ ref_name b @ ''@'' @ s"

fun job_equals :: "job_ref \<Rightarrow> job_ref \<Rightarrow> bool" where
  "job_equals (UpdateJob i t s) r =
     (case r of UpdateJob i' t' s' \<Rightarrow> s' = s \<and> i' = i \<and> t' = t | _ \<Rightarrow> False)"
| "job_equals (BranchJob b s) r =
     (case r of BranchJob b' s' \<Rightarrow> s' = s \<and> ref_equals b' b | _ \<Rightarrow> False)"

text \<open>
  The jobs that the serialized form can carry: valid shas, plain branches, and no field in
  which the delimiter starts.
\<close>

fun job_ok :: "job_ref \<Rightarrow> bool" where
  "job_ok (UpdateJob i t s) \<longleftrightarrow> is_sha s \<and> delim_safe delimiter i \<and> delim_safe delimiter t"
| "job_ok (BranchJob b s) \<longleftrightarrow> is_sha s \<and> b = BranchRef (ref_name b) \<and> delim_safe delimiter (ref_name b)"

lemma is_sha_chars: "is_sha s \<Longrightarrow> c \<in> set s \<Longrightarrow> hex_val c \<noteq> None"
  by (auto simp: is_sha_def list_all_iff)

lemma is_sha_safe [simp]: "is_sha s \<Longrightarrow> delim_safe delimiter s"
  by (rule delim_safe_delimiter) (auto dest!: is_sha_chars simp: hex_val_def)

lemma is_sha_notin [simp]:
  "is_sha s \<Longrightarrow> CHR ''|'' \<notin> set s" "is_sha s \<Longrightarrow> CHR '':'' \<notin> set s"
  by (auto dest!: is_sha_chars simp: hex_val_def)

lemma class_safe [simp]:
  "delim_safe delimiter ''UpdateRef''" "delim_safe delimiter ''BranchRef''"
  by (simp_all add: delim_safe_delimiter)

lemma split_job_serialize:
  "job_ok r \<Longrightarrow> split delimiter (job_serialize r) = job_class r # job_fields r"
  unfolding job_serialize_def by (intro split_join) (cases r; simp)+

lemma job_deserialize_serialize [simp]: "job_ok r \<Longrightarrow> job_deserialize (job_serialize r) = Inr r"
proof -
  assume ok: "job_ok r"
  note sp = split_job_serialize [OF ok]
  show ?thesis
  proof (cases r)
    case (UpdateJob i t s)
    with ok sp show ?thesis by (simp add: job_deserialize_def sha_create_def)
  next
    case (BranchJob b s)
    with ok have "b = BranchRef (ref_name b)" by simp
    with BranchJob ok sp show ?thesis by (simp add: job_deserialize_def sha_create_def)
  qed
qed

lemma job_equals_iff: "job_ok r \<Longrightarrow> job_ok r' \<Longrightarrow> job_equals r r' \<longleftrightarrow> r = r'"
  by (cases r; cases r') (auto split: ref.splits, (metis is_branch_ref.simps ref_equals.simps ref_name.simps)+)

section \<open>Keys of jobs\<close>

record job_key =
  jk_source :: source
  jk_ref :: job_ref

definition mk_job_key :: "source \<Rightarrow> job_ref \<Rightarrow> job_key" where
  "mk_job_key s r = \<lparr> jk_source = s, jk_ref = r \<rparr>"

definition key_serialize :: "job_key \<Rightarrow> string" where
  "key_serialize k = source_asString (jk_source k) @ ''|'' @ job_serialize (jk_ref k)"

text \<open>Without the delimiter the second part is \<open>undefined\<close> and its \<open>split\<close> throws.\<close>

definition key_deserialize :: "string \<Rightarrow> job_key res" where
  "key_deserialize str =
     (let parts = split ''|'' str in
      res_bind (source_createFromString (hd parts)) (\<lambda>s.
      res_bind (if length parts > 1 then job_deserialize (parts ! 1)
                else Inl (Error ''Cannot read properties of undefined'')) (\<lambda>r.
      Inr (mk_job_key s r))))"

definition key_toString :: "job_key \<Rightarrow> string" where
  "key_toString k =
     ''Job: '' @ source_asString (jk_source k) @ ''['' @ job_toString (jk_ref k) @ '']''"

definition key_equals :: "job_key \<Rightarrow> job_key \<Rightarrow> bool" where
  "key_equals k k' \<longleftrightarrow>
     source_equals (jk_source k) (jk_source k') \<and> job_equals (jk_ref k) (jk_ref k')"

definition key_ok :: "job_key \<Rightarrow> bool" where
  "key_ok k \<longleftrightarrow> src_id (jk_source k) \<noteq> [] \<and> CHR ''/'' \<notin> set (src_id (jk_source k)) \<and>
     CHR ''|'' \<notin> set (source_asString (jk_source k)) \<and>
     job_ok (jk_ref k) \<and> CHR ''|'' \<notin> set (job_serialize (jk_ref k))"

lemma mk_job_key_sel [simp]: "jk_source (mk_job_key s r) = s" "jk_ref (mk_job_key s r) = r"
  "mk_job_key (jk_source k) (jk_ref k) = k"
  by (simp_all add: mk_job_key_def)

lemma key_deserialize_serialize [simp]:
  "key_ok k \<Longrightarrow> key_deserialize (key_serialize k) = Inr k"
  by (simp add: key_ok_def key_deserialize_def key_serialize_def split_Cons_safe split_last)

lemma key_equals_iff [simp]: "key_ok k \<Longrightarrow> key_ok k' \<Longrightarrow> key_equals k k' \<longleftrightarrow> k = k'"
  by (auto simp: key_equals_def key_ok_def job_equals_iff)

lemma key_serialize_inj: "inj_on key_serialize {k. key_ok k}"
  by (rule inj_onI) (metis key_deserialize_serialize mem_Collect_eq sum.inject(2))

section \<open>Properties\<close>

text \<open>
  Jobs survive the store: for keys whose fields do not contain the delimiters,
  \<open>Key.deserialize\<close> gives back the key that \<open>serialize\<close> printed, and different keys have
  different printed forms, so a printed key can name the job in a set or a hash.
\<close>

theorem job_key_roundtrip:
  assumes "key_ok k" and "key_ok k'"
  shows "key_deserialize (key_serialize k) = Inr k \<and>
    (key_serialize k = key_serialize k') = key_equals k k'"
  using assms by (metis key_deserialize_serialize key_equals_iff sum.inject(2))

theorem job_key_roundtrip_witness:
  "key_deserialize (key_serialize
     (mk_job_key (mk_source ''g'' ''a/b'') (UpdateJob ''17'' ''master'' (replicate 40 (CHR ''a''))))) =
   Inr (mk_job_key (mk_source ''g'' ''a/b'') (UpdateJob ''17'' ''master'' (replicate 40 (CHR ''a''))))"
proof -
  let ?k = "mk_job_key (mk_source ''g'' ''a/b'') (UpdateJob ''17'' ''master'' (replicate 40 (CHR ''a'')))"
  have "is_sha (replicate 40 (CHR ''a''))" by (simp add: is_sha_def hex_val_def list_all_iff)
  moreover have "delim_safe delimiter ''17''" "delim_safe delimiter ''master''"
    by (simp_all add: delim_safe_delimiter)
  ultimately have "key_ok ?k"
    by (simp add: key_ok_def source_asString_def job_serialize_def) (simp add: delimiter_def)
  from job_key_roundtrip [OF this this] show ?thesis by simp
qed

text \<open>A branch whose name has the delimiter of keys, which git allows, does not come back.\<close>

lemma key_confuses_bar:
  assumes "is_sha s"
  shows "key_deserialize (key_serialize (mk_job_key (mk_source ''g'' ''a'') (BranchJob (BranchRef ''x|y'') s))) =
    Inl (bad_sha ''undefined'')"
  using assms
  by (simp add: key_serialize_def key_deserialize_def source_asString_def job_serialize_def
      delimiter_def split_eval source_createFromString_def job_deserialize_def)

text \<open>What \<open>withSha\<close> gives for a change is a job of another change: the id and the target
  branch are exchanged, so that it goes to the queue of a branch named like the change. For
  branch jobs only the sha changes.
\<close>

theorem withSha_exchanges_fields:
  "job_withSha (UpdateJob i t s) sha = UpdateJob t i sha \<and>
   queueId (job_withSha (UpdateJob i t s) sha) = ''integration_'' @ i \<and>
   canonicalId (job_withSha (UpdateJob i t s) sha) = ''update-'' @ t \<and>
   (job_equals (job_withSha (UpdateJob i t s) sha) (UpdateJob i t sha)) = (i = t) \<and>
   job_withSha (BranchJob b s) sha = BranchJob b sha"
  by auto

end
