(* ===== verification/Dependency_Ref.thy ===== *)
theory Dependency_Ref
  imports Job_Ref
begin

text \<open>
  \<open>backend/src/domain-model/system-config/dependency-ref.ts\<close>: what a repository can depend
  on (an artifact, an image, another repository) and the serialized form that the
  dependency index and the lookup cache use as keys.
\<close>

datatype dep_ref =
    ArtifactRef (art_remote: string) (art_repository: string) (art_path: string)
  | ImageRef (img_remote: string) (img_repository: string)
  | GitRef (git_source: source)

fun dep_class :: "dep_ref \<Rightarrow> string" where
  "dep_class (ArtifactRef _ _ _) = ''ArtifactRef''"
| "dep_class (ImageRef _ _) = ''ImageRef''"
| "dep_class (GitRef _) = ''GitRef''"

fun dep_fields :: "dep_ref \<Rightarrow> string list" where
  "dep_fields (ArtifactRef r p q) = [r, p, q]"
| "dep_fields (ImageRef r p) = [r, p]"
| "dep_fields (GitRef s) = [source_serialize s]"

definition dep_serialize :: "dep_ref \<Rightarrow> string" where
  "dep_serialize r = join delimiter (dep_class r # dep_fields r)"

text \<open>
  The model rejects an artifact or image with missing fields; the constructor of the source
  stores \<open>undefined\<close> in them. \<open>GitRef\<close> with no field throws in \<open>split\<close>.
\<close>

definition undefined_field :: error where
  "undefined_field = Error ''undefined field''"

fun dep_create :: "string \<Rightarrow> string list \<Rightarrow> dep_ref res" where
  "dep_create h t =
     (if h = ''ArtifactRef'' then
        (case t of r # p # q # _ \<Rightarrow> Inr (ArtifactRef r p q) | _ \<Rightarrow> Inl undefined_field)
      else if h = ''ImageRef'' then
        (case t of r # p # _ \<Rightarrow> Inr (ImageRef r p) | _ \<Rightarrow> Inl undefined_field)
      else if h = ''GitRef'' then
        (case t of s # _ \<Rightarrow> res_bind (source_deserialize s) (\<lambda>src. Inr (GitRef src))
         | [] \<Rightarrow> Inl undefined_field)
      else Inl (Error (''Uknown ref-type: '' @ h @ ''.'')))"

definition dep_deserialize :: "string \<Rightarrow> dep_ref res" where
  "dep_deserialize str = (let parts = split delimiter str in dep_create (hd parts) (tl parts))"

definition dep_equals :: "dep_ref \<Rightarrow> dep_ref \<Rightarrow> bool" where
  "dep_equals r s \<longleftrightarrow> dep_class r = dep_class s \<and> dep_fields s = dep_fields r"

fun dep_toString :: "dep_ref \<Rightarrow> string" where
  "dep_toString (ArtifactRef r p q) = ''Artifact:'' @ r @ ''/'' @ p @ ''/'' @ q"
| "dep_toString (ImageRef r p) = ''Image:'' @ r @ ''/'' @ p"
| "dep_toString (GitRef s) = ''Git:'' @ source_toString s"

definition uniqueRefs :: "dep_ref list \<Rightarrow> dep_ref list res" where
  "uniqueRefs rs = res_mapM dep_deserialize (uniq (map dep_serialize rs))"

fun dep_ok :: "dep_ref \<Rightarrow> bool" where
  "dep_ok (GitRef s) \<longleftrightarrow> colon_free s"
| "dep_ok r \<longleftrightarrow> list_all (delim_safe delimiter) (dep_fields r)"

section \<open>Lemmas\<close>

lemma dep_class_safe [simp]: "delim_safe delimiter (dep_class r)"
  by (cases r) (simp_all add: delim_safe_delimiter)

lemma source_serialize_safe:
  assumes "colon_free s"
  shows "delim_safe delimiter (source_serialize s)"
proof -
  have i: "CHR '':'' \<notin> set (src_id s)" and p: "CHR '':'' \<notin> set (src_path s)" and n: "src_path s \<noteq> []"
    using assms by (auto simp: colon_free_def)
  have "delim_safe delimiter ('':'' @ src_path s)"
    using p n delim_safe_delimiter [of "src_path s"]
    by (cases "src_path s") (auto simp: delim_safe_Cons delimiter_def)
  moreover have "delim_safe delimiter (x @ y)" if "CHR '':'' \<notin> set x" "delim_safe delimiter y" for x y
    using that by (induction x) (auto simp: delim_safe_Cons delimiter_def)
  ultimately show ?thesis using i by (simp add: source_serialize_def)
qed

lemma dep_fields_safe: "dep_ok r \<Longrightarrow> list_all (delim_safe delimiter) (dep_fields r)"
  by (cases r) (simp_all add: source_serialize_safe)

lemma dep_deserialize_serialize [simp]: "dep_ok r \<Longrightarrow> dep_deserialize (dep_serialize r) = Inr r"
proof -
  assume ok: "dep_ok r"
  then have "split delimiter (dep_serialize r) = dep_class r # dep_fields r"
    unfolding dep_serialize_def by (intro split_join) (simp_all add: dep_fields_safe)
  with ok show ?thesis by (cases r) (simp_all add: dep_deserialize_def)
qed

lemma dep_serialize_inj: "inj_on dep_serialize {r. dep_ok r}"
  by (rule inj_onI) (metis dep_deserialize_serialize mem_Collect_eq sum.inject(2))

lemma dep_equals_iff: "dep_ok r \<Longrightarrow> dep_ok s \<Longrightarrow> dep_equals r s \<longleftrightarrow> r = s"
  by (metis dep_deserialize_serialize dep_equals_def dep_serialize_def sum.inject(2))

lemma uniqueRefs_uniq:
  assumes "list_all dep_ok rs"
  shows "uniqueRefs rs = Inr (uniq rs)"
proof -
  have inj: "inj_on dep_serialize (set rs)"
    by (rule inj_on_subset [OF dep_serialize_inj]) (use assms in \<open>auto simp: list_all_iff\<close>)
  have "res_mapM dep_deserialize (map dep_serialize xs) = Inr xs" if "set xs \<subseteq> set rs" for xs
    using that assms by (induction xs) (auto simp: list_all_iff)
  then show ?thesis by (simp add: uniqueRefs_def uniq_map_inj [OF inj])
qed

section \<open>Properties\<close>

text \<open>
  Dependencies survive the store: \<open>deserialize\<close> gives back the dependency that
  \<open>serialize\<close> printed when no field contains the delimiter, equality of the printed forms is
  \<open>equals\<close>, and \<open>uniqueRefs\<close> keeps the first occurrence of every dependency, in order.
\<close>

theorem dependency_ref_roundtrip:
  assumes "dep_ok r" and "dep_ok s" and "list_all dep_ok rs"
  shows "dep_deserialize (dep_serialize r) = Inr r \<and>
    (dep_serialize r = dep_serialize s) = dep_equals r s \<and>
    uniqueRefs rs = Inr (uniq rs)"
  using assms uniqueRefs_uniq [of rs] dep_equals_iff [of r s]
  by (metis dep_deserialize_serialize sum.inject(2))

theorem dependency_ref_roundtrip_witness:
  "uniqueRefs [ImageRef ''a'' ''b'', GitRef (mk_source ''g'' ''x/y''), ImageRef ''a'' ''b''] =
   Inr [ImageRef ''a'' ''b'', GitRef (mk_source ''g'' ''x/y'')]"
  using dependency_ref_roundtrip [of "ImageRef ''a'' ''b''" "ImageRef ''a'' ''b''"
      "[ImageRef ''a'' ''b'', GitRef (mk_source ''g'' ''x/y''), ImageRef ''a'' ''b'']"]
  by (simp add: colon_free_def delim_safe_delimiter)

end
