(* ===== verification/Redis.thy ===== *)
theory Redis
  imports Js_Text
begin

text \<open>
  The key-value server that the services share. It is not part of the repository: its
  commands are a parameter (\<open>redis\<close>, one field per command the source and its scripts use),
  and the locale \<open>redis_server\<close> states the documented effect of every command on the values
  that the keys hold. A command on a key that holds a value of another type fails on the
  server; the laws say nothing about it. Expiry is not part of the model: a key with a time to
  live keeps its value.
\<close>

section \<open>Commands and values\<close>

datatype rvalue =
    RStr string
  | RSet "string set"
  | RHash "string \<rightharpoonup> string"
  | RZset "string \<rightharpoonup> int"
  | RList "string list"

record 'db redis =
  rd_get :: "string \<Rightarrow> 'db \<Rightarrow> string option"
  rd_set :: "string \<Rightarrow> string \<Rightarrow> 'db \<Rightarrow> 'db"
  rd_del :: "string \<Rightarrow> 'db \<Rightarrow> 'db"
  rd_smembers :: "string \<Rightarrow> 'db \<Rightarrow> string list"
  rd_sadd :: "string \<Rightarrow> string list \<Rightarrow> 'db \<Rightarrow> 'db"
  rd_srem :: "string \<Rightarrow> string list \<Rightarrow> 'db \<Rightarrow> 'db"
  rd_hget :: "string \<Rightarrow> string \<Rightarrow> 'db \<Rightarrow> string option"
  rd_hset :: "string \<Rightarrow> (string \<times> string) list \<Rightarrow> 'db \<Rightarrow> 'db"
  rd_zadd :: "string \<Rightarrow> int \<Rightarrow> string \<Rightarrow> 'db \<Rightarrow> 'db"
  rd_zadd_nx :: "string \<Rightarrow> int \<Rightarrow> string \<Rightarrow> 'db \<Rightarrow> 'db"
  rd_zincrby :: "string \<Rightarrow> int \<Rightarrow> string \<Rightarrow> 'db \<Rightarrow> 'db"
  rd_zrem :: "string \<Rightarrow> string \<Rightarrow> 'db \<Rightarrow> 'db"
  rd_zcard :: "string \<Rightarrow> 'db \<Rightarrow> nat"
  rd_zrange :: "string \<Rightarrow> 'db \<Rightarrow> string list"
  rd_zrangebyscore :: "string \<Rightarrow> int \<Rightarrow> int \<Rightarrow> 'db \<Rightarrow> string list"
  rd_zdiff :: "string \<Rightarrow> string \<Rightarrow> 'db \<Rightarrow> string list"
  rd_zpopmin :: "string \<Rightarrow> 'db \<Rightarrow> string option \<times> 'db"
  rd_zremrangebyscore :: "string \<Rightarrow> int \<Rightarrow> 'db \<Rightarrow> 'db"
  rd_rpush :: "string \<Rightarrow> string \<Rightarrow> 'db \<Rightarrow> 'db"
  rd_lrange :: "string \<Rightarrow> 'db \<Rightarrow> string list"

text \<open>A key as a value of one type; a missing key is the empty value, \<open>None\<close> the wrong type.\<close>

definition as_str :: "rvalue option \<Rightarrow> string option option" where
  "as_str v = (case v of None \<Rightarrow> Some None | Some (RStr s) \<Rightarrow> Some (Some s) | _ \<Rightarrow> None)"

definition as_set :: "rvalue option \<Rightarrow> string set option" where
  "as_set v = (case v of None \<Rightarrow> Some {} | Some (RSet s) \<Rightarrow> Some s | _ \<Rightarrow> None)"

definition as_hash :: "rvalue option \<Rightarrow> (string \<rightharpoonup> string) option" where
  "as_hash v = (case v of None \<Rightarrow> Some Map.empty | Some (RHash h) \<Rightarrow> Some h | _ \<Rightarrow> None)"

definition as_zset :: "rvalue option \<Rightarrow> (string \<rightharpoonup> int) option" where
  "as_zset v = (case v of None \<Rightarrow> Some Map.empty | Some (RZset z) \<Rightarrow> Some z | _ \<Rightarrow> None)"

definition as_list :: "rvalue option \<Rightarrow> string list option" where
  "as_list v = (case v of None \<Rightarrow> Some [] | Some (RList l) \<Rightarrow> Some l | _ \<Rightarrow> None)"

text \<open>The server removes a key when its set, hash or sorted set becomes empty.\<close>

definition put_set :: "string set \<Rightarrow> rvalue option" where
  "put_set s = (if s = {} then None else Some (RSet s))"

definition put_hash :: "(string \<rightharpoonup> string) \<Rightarrow> rvalue option" where
  "put_hash h = (if h = Map.empty then None else Some (RHash h))"

definition put_zset :: "(string \<rightharpoonup> int) \<Rightarrow> rvalue option" where
  "put_zset z = (if z = Map.empty then None else Some (RZset z))"

lemma as_put [simp]:
  "as_set (put_set s) = Some s" "as_hash (put_hash h) = Some h" "as_zset (put_zset z) = Some z"
  "as_str (Some (RStr x)) = Some (Some x)" "as_str None = Some None"
  "as_set None = Some {}" "as_hash None = Some Map.empty" "as_zset None = Some Map.empty"
  "as_list None = Some []" "as_list (Some (RList l)) = Some l"
  "as_set (Some (RSet s)) = Some s" "as_hash (Some (RHash h)) = Some h"
  "as_zset (Some (RZset z)) = Some z"
  by (auto simp: as_set_def put_set_def as_hash_def put_hash_def as_zset_def put_zset_def
      as_str_def as_list_def)

definition score_of :: "(string \<rightharpoonup> int) \<Rightarrow> string \<Rightarrow> int" where
  "score_of z m = (case z m of Some x \<Rightarrow> x | None \<Rightarrow> 0)"

section \<open>The laws\<close>

locale redis_server =
  fixes R :: "'db redis" and view :: "'db \<Rightarrow> string \<Rightarrow> rvalue option"
  assumes get: "as_str (view db k) = Some v \<Longrightarrow> rd_get R k db = v"
    and set: "view (rd_set R k x db) = (view db)(k := Some (RStr x))"
    and del: "view (rd_del R k db) = (view db)(k := None)"
    and smembers: "as_set (view db k) = Some s \<Longrightarrow>
      List.set (rd_smembers R k db) = s \<and> distinct (rd_smembers R k db)"
    and sadd: "as_set (view db k) = Some s \<Longrightarrow>
      view (rd_sadd R k xs db) = (view db)(k := put_set (s \<union> List.set xs))"
    and srem: "as_set (view db k) = Some s \<Longrightarrow>
      view (rd_srem R k xs db) = (view db)(k := put_set (s - List.set xs))"
    and hget: "as_hash (view db k) = Some h \<Longrightarrow> rd_hget R k f db = h f"
    and hset: "as_hash (view db k) = Some h \<Longrightarrow>
      view (rd_hset R k fs db) = (view db)(k := put_hash (h ++ map_of (rev fs)))"
    and zadd: "as_zset (view db k) = Some z \<Longrightarrow>
      view (rd_zadd R k n m db) = (view db)(k := put_zset (z(m \<mapsto> n)))"
    and zadd_nx: "as_zset (view db k) = Some z \<Longrightarrow>
      view (rd_zadd_nx R k n m db) = (view db)(k := put_zset (if m \<in> dom z then z else z(m \<mapsto> n)))"
    and zincrby: "as_zset (view db k) = Some z \<Longrightarrow>
      view (rd_zincrby R k n m db) = (view db)(k := put_zset (z(m \<mapsto> score_of z m + n)))"
    and zrem: "as_zset (view db k) = Some z \<Longrightarrow>
      view (rd_zrem R k m db) = (view db)(k := put_zset (z(m := None)))"
    and zcard: "as_zset (view db k) = Some z \<Longrightarrow> rd_zcard R k db = card (dom z)"
    and zrange: "as_zset (view db k) = Some z \<Longrightarrow>
      List.set (rd_zrange R k db) = dom z \<and> distinct (rd_zrange R k db) \<and>
      sorted (map (score_of z) (rd_zrange R k db))"
    and zrangebyscore: "as_zset (view db k) = Some z \<Longrightarrow>
      List.set (rd_zrangebyscore R k lo hi db) = {m \<in> dom z. lo \<le> score_of z m \<and> score_of z m \<le> hi} \<and>
      distinct (rd_zrangebyscore R k lo hi db) \<and>
      sorted (map (score_of z) (rd_zrangebyscore R k lo hi db))"
    and zdiff: "as_zset (view db k) = Some z \<Longrightarrow> as_zset (view db k') = Some z' \<Longrightarrow>
      List.set (rd_zdiff R k k' db) = dom z - dom z' \<and> distinct (rd_zdiff R k k' db)"
    and zpopmin_empty: "as_zset (view db k) = Some Map.empty \<Longrightarrow>
      fst (rd_zpopmin R k db) = None \<and> view (snd (rd_zpopmin R k db)) = view db"
    and zpopmin: "as_zset (view db k) = Some z \<Longrightarrow> z \<noteq> Map.empty \<Longrightarrow>
      \<exists>m. fst (rd_zpopmin R k db) = Some m \<and> m \<in> dom z \<and>
        (\<forall>x \<in> dom z. score_of z m \<le> score_of z x) \<and>
        view (snd (rd_zpopmin R k db)) = (view db)(k := put_zset (z(m := None)))"
    and zremrangebyscore: "as_zset (view db k) = Some z \<Longrightarrow>
      view (rd_zremrangebyscore R k hi db) =
        (view db)(k := put_zset (\<lambda>m. if score_of z m \<le> hi then None else z m))"
    and rpush: "as_list (view db k) = Some l \<Longrightarrow>
      view (rd_rpush R k x db) = (view db)(k := Some (RList (l @ [x])))"
    and lrange: "as_list (view db k) = Some l \<Longrightarrow> rd_lrange R k db = l"
    and zset_finite: "as_zset (view db k) = Some z \<Longrightarrow> finite (dom z)"
begin

lemma zset_card_0: "as_zset (view db k) = Some z \<Longrightarrow> card (dom z) = 0 \<longleftrightarrow> z = Map.empty"
  using zset_finite by (auto simp: card_eq_0_iff)

end

end
