(* ===== verification/Redis_Memory.thy ===== *)
theory Redis_Memory
  imports Redis
begin

text \<open>
  An executable server in memory with the commands of \<open>Redis\<close>: the laws of the locale
  \<open>redis_server\<close> hold of it, so that they are consistent, and the properties that assume
  them can be evaluated on concrete data.
\<close>

section \<open>Cells\<close>

datatype cell =
    CStr string
  | CSet "string list"
  | CHash "(string \<times> string) list"
  | CZset "(string \<times> int) list"
  | CList "string list"

type_synonym mem = "(string \<times> cell) list"

fun cell_value :: "cell \<Rightarrow> rvalue" where
  "cell_value (CStr s) = RStr s"
| "cell_value (CSet xs) = RSet (set xs)"
| "cell_value (CHash al) = RHash (map_of al)"
| "cell_value (CZset al) = RZset (map_of al)"
| "cell_value (CList xs) = RList xs"

definition mem_view :: "mem \<Rightarrow> string \<Rightarrow> rvalue option" where
  "mem_view m k = map_option cell_value (map_of m k)"

definition mem_str :: "string \<Rightarrow> mem \<Rightarrow> string option" where
  "mem_str k m = (case map_of m k of Some (CStr s) \<Rightarrow> Some s | _ \<Rightarrow> None)"

definition mem_set :: "string \<Rightarrow> mem \<Rightarrow> string list" where
  "mem_set k m = (case map_of m k of Some (CSet xs) \<Rightarrow> xs | _ \<Rightarrow> [])"

definition mem_hash :: "string \<Rightarrow> mem \<Rightarrow> (string \<times> string) list" where
  "mem_hash k m = (case map_of m k of Some (CHash al) \<Rightarrow> al | _ \<Rightarrow> [])"

definition mem_zset :: "string \<Rightarrow> mem \<Rightarrow> (string \<times> int) list" where
  "mem_zset k m = (case map_of m k of Some (CZset al) \<Rightarrow> al | _ \<Rightarrow> [])"

definition mem_list :: "string \<Rightarrow> mem \<Rightarrow> string list" where
  "mem_list k m = (case map_of m k of Some (CList xs) \<Rightarrow> xs | _ \<Rightarrow> [])"

definition put_cell :: "string \<Rightarrow> bool \<Rightarrow> cell \<Rightarrow> mem \<Rightarrow> mem" where
  "put_cell k keep c m = (if keep then AList.update k c m else AList.delete k m)"

definition put_setc :: "string \<Rightarrow> string list \<Rightarrow> mem \<Rightarrow> mem" where
  "put_setc k xs m = put_cell k (xs \<noteq> []) (CSet xs) m"

definition put_hashc :: "string \<Rightarrow> (string \<times> string) list \<Rightarrow> mem \<Rightarrow> mem" where
  "put_hashc k al m = put_cell k (al \<noteq> []) (CHash al) m"

definition put_zsetc :: "string \<Rightarrow> (string \<times> int) list \<Rightarrow> mem \<Rightarrow> mem" where
  "put_zsetc k al m = put_cell k (al \<noteq> []) (CZset al) m"

definition zscore :: "(string \<times> int) list \<Rightarrow> string \<Rightarrow> int" where
  "zscore al m = (case map_of al m of Some x \<Rightarrow> x | None \<Rightarrow> 0)"

definition zmembers :: "(string \<times> int) list \<Rightarrow> string list" where
  "zmembers al = sort_key (zscore al) (uniq (map fst al))"

section \<open>The commands\<close>

definition mem_redis :: "mem redis" where
  "mem_redis = \<lparr>
     rd_get = mem_str,
     rd_set = (\<lambda>k x m. AList.update k (CStr x) m),
     rd_del = (\<lambda>k m. AList.delete k m),
     rd_smembers = (\<lambda>k m. uniq (mem_set k m)),
     rd_sadd = (\<lambda>k xs m. put_setc k (mem_set k m @ xs) m),
     rd_srem = (\<lambda>k xs m. put_setc k (filter (\<lambda>x. x \<notin> set xs) (mem_set k m)) m),
     rd_hget = (\<lambda>k f m. map_of (mem_hash k m) f),
     rd_hset = (\<lambda>k fs m. put_hashc k (rev fs @ mem_hash k m) m),
     rd_zadd = (\<lambda>k n x m. put_zsetc k (AList.update x n (mem_zset k m)) m),
     rd_zadd_nx = (\<lambda>k n x m. put_zsetc k
        (if x \<in> set (map fst (mem_zset k m)) then mem_zset k m else AList.update x n (mem_zset k m)) m),
     rd_zincrby = (\<lambda>k n x m. put_zsetc k
        (AList.update x (zscore (mem_zset k m) x + n) (mem_zset k m)) m),
     rd_zrem = (\<lambda>k x m. put_zsetc k (AList.delete x (mem_zset k m)) m),
     rd_zcard = (\<lambda>k m. length (zmembers (mem_zset k m))),
     rd_zrange = (\<lambda>k m. zmembers (mem_zset k m)),
     rd_zrangebyscore = (\<lambda>k lo hi m.
        filter (\<lambda>x. lo \<le> zscore (mem_zset k m) x \<and> zscore (mem_zset k m) x \<le> hi) (zmembers (mem_zset k m))),
     rd_zdiff = (\<lambda>k k' m. filter (\<lambda>x. x \<notin> set (map fst (mem_zset k' m))) (zmembers (mem_zset k m))),
     rd_zpopmin = (\<lambda>k m. case zmembers (mem_zset k m) of
        [] \<Rightarrow> (None, m) | x # _ \<Rightarrow> (Some x, put_zsetc k (AList.delete x (mem_zset k m)) m)),
     rd_zremrangebyscore = (\<lambda>k hi m. put_zsetc k
        (filter (\<lambda>e. \<not> zscore (mem_zset k m) (fst e) \<le> hi) (mem_zset k m)) m),
     rd_rpush = (\<lambda>k x m. AList.update k (CList (mem_list k m @ [x])) m),
     rd_lrange = mem_list \<rparr>"

section \<open>The laws hold\<close>

lemma mem_cells:
  "as_str (mem_view m k) = Some v \<Longrightarrow> mem_str k m = v"
  "as_set (mem_view m k) = Some s \<Longrightarrow> set (mem_set k m) = s"
  "as_hash (mem_view m k) = Some h \<Longrightarrow> map_of (mem_hash k m) = h"
  "as_zset (mem_view m k) = Some z \<Longrightarrow> map_of (mem_zset k m) = z"
  "as_list (mem_view m k) = Some l \<Longrightarrow> mem_list k m = l"
  by (cases "map_of m k"; cases "the (map_of m k)"; simp add: mem_view_def mem_str_def mem_set_def
      mem_hash_def mem_zset_def mem_list_def as_str_def as_set_def as_hash_def as_zset_def as_list_def)+

lemma mem_view_update [simp]:
  "mem_view (AList.update k c m) = (mem_view m)(k := Some (cell_value c))"
  "mem_view (AList.delete k m) = (mem_view m)(k := None)"
  by (auto simp: mem_view_def fun_eq_iff update_conv' delete_conv')

lemma map_of_empty_iff [simp]: "map_of al = Map.empty \<longleftrightarrow> al = []"
  using map_of_eq_empty_iff by blast

lemma mem_view_put:
  "mem_view (put_setc k xs m) = (mem_view m)(k := put_set (set xs))"
  "mem_view (put_hashc k hl m) = (mem_view m)(k := put_hash (map_of hl))"
  "mem_view (put_zsetc k al m) = (mem_view m)(k := put_zset (map_of al))"
  by (simp_all add: put_setc_def put_hashc_def put_zsetc_def put_cell_def put_set_def put_hash_def put_zset_def)

lemma zscore_score_of: "zscore al = score_of (map_of al)"
  by (simp add: fun_eq_iff zscore_def score_of_def)

lemma zmembers_correct:
  "set (zmembers al) = dom (map_of al)" "distinct (zmembers al)"
  "sorted (map (score_of (map_of al)) (zmembers al))" "length (zmembers al) = card (dom (map_of al))"
proof -
  show s: "set (zmembers al) = dom (map_of al)" and d: "distinct (zmembers al)"
    by (simp_all add: zmembers_def dom_map_of_conv_image_fst)
  show "sorted (map (score_of (map_of al)) (zmembers al))"
    by (simp add: zmembers_def zscore_score_of)
  show "length (zmembers al) = card (dom (map_of al))" using distinct_card [OF d] s by simp
qed

lemma map_of_filter_score:
  "map_of (filter (\<lambda>e. P (fst e)) al) = (\<lambda>x. if P x then map_of al x else None)"
  by (induction al) (auto simp: fun_eq_iff)

lemma zmembers_Nil_iff: "zmembers al = [] \<longleftrightarrow> al = []"
  by (metis zmembers_def list.map_disc_iff uniq_Nil_iff set_empty set_sort)

lemma zmembers_Cons:
  assumes "zmembers al = x # xs"
  shows "x \<in> dom (map_of al) \<and> (\<forall>y \<in> dom (map_of al). score_of (map_of al) x \<le> score_of (map_of al) y)"
  using zmembers_correct(1,3) [of al] assms by auto

lemmas mem_simps = mem_cells mem_view_put zmembers_correct zscore_score_of

interpretation memory: redis_server mem_redis mem_view
proof
  fix m :: mem and k k' :: string and x :: string and n :: int and z z' :: "string \<rightharpoonup> int"
  assume z: "as_zset (mem_view m k) = Some z"
  note mz = mem_cells(4) [OF z]
  show "mem_view (rd_zadd mem_redis k n x m) = (mem_view m)(k := put_zset (z(x \<mapsto> n)))"
    by (simp add: mem_redis_def mem_view_put update_conv' mz)
  show "mem_view (rd_zadd_nx mem_redis k n x m) =
      (mem_view m)(k := put_zset (if x \<in> dom z then z else z(x \<mapsto> n)))"
    using mz dom_map_of_conv_image_fst [of "mem_zset k m"]
    by (simp add: mem_redis_def mem_view_put update_conv')
  show "mem_view (rd_zincrby mem_redis k n x m) = (mem_view m)(k := put_zset (z(x \<mapsto> score_of z x + n)))"
    by (simp add: mem_redis_def mem_view_put update_conv' zscore_score_of mz)
  show "mem_view (rd_zrem mem_redis k x m) = (mem_view m)(k := put_zset (z(x := None)))"
    by (simp add: mem_redis_def mem_view_put delete_conv' mz)
  show "rd_zcard mem_redis k m = card (dom z)"
    by (simp add: mem_redis_def zmembers_correct mz)
  show "set (rd_zrange mem_redis k m) = dom z \<and> distinct (rd_zrange mem_redis k m) \<and>
      sorted (map (score_of z) (rd_zrange mem_redis k m))"
    using zmembers_correct [of "mem_zset k m"] mz by (simp add: mem_redis_def)
  show "mem_view (rd_zremrangebyscore mem_redis k n m) =
      (mem_view m)(k := put_zset (\<lambda>m. if score_of z m \<le> n then None else z m))"
  proof -
    have "map_of (filter (\<lambda>e. \<not> score_of z (fst e) \<le> n) (mem_zset k m)) =
        (\<lambda>x. if score_of z x \<le> n then None else z x)"
      by (subst map_of_filter_score) (auto simp: mz)
    then show ?thesis by (simp add: mem_redis_def mem_view_put zscore_score_of mz)
  qed
  show "finite (dom z)" using mz finite_dom_map_of by metis
  show "set (rd_zrangebyscore mem_redis k n n' m) = {x \<in> dom z. n \<le> score_of z x \<and> score_of z x \<le> n'} \<and>
      distinct (rd_zrangebyscore mem_redis k n n' m) \<and>
      sorted (map (score_of z) (rd_zrangebyscore mem_redis k n n' m))" for n'
    using zmembers_correct [of "mem_zset k m"] mz
    by (auto simp: mem_redis_def zscore_score_of sorted_filter)
  show "set (rd_zdiff mem_redis k k' m) = dom z - dom z' \<and> distinct (rd_zdiff mem_redis k k' m)"
    if "as_zset (mem_view m k') = Some z'"
    using zmembers_correct [of "mem_zset k m"] mz mem_cells(4) [OF that]
      dom_map_of_conv_image_fst [of "mem_zset k' m"]
    by (auto simp: mem_redis_def)
  show "\<exists>x. fst (rd_zpopmin mem_redis k m) = Some x \<and> x \<in> dom z \<and>
        (\<forall>y \<in> dom z. score_of z x \<le> score_of z y) \<and>
        mem_view (snd (rd_zpopmin mem_redis k m)) = (mem_view m)(k := put_zset (z(x := None)))"
    if "z \<noteq> Map.empty"
  proof -
    have "zmembers (mem_zset k m) \<noteq> []" using that mz by (auto simp: zmembers_Nil_iff)
    then obtain x xs where "zmembers (mem_zset k m) = x # xs" by (cases "zmembers (mem_zset k m)") auto
    with zmembers_Cons [OF this] show ?thesis
      by (simp add: mem_redis_def mem_view_put delete_conv' mz)
  qed
next
  fix m :: mem and k :: string
  assume z: "as_zset (mem_view m k) = Some Map.empty"
  show "fst (rd_zpopmin mem_redis k m) = None \<and> mem_view (snd (rd_zpopmin mem_redis k m)) = mem_view m"
    using mem_cells(4) [OF z] by (simp add: mem_redis_def zmembers_Nil_iff split: list.splits)
      (simp add: zmembers_def)
next
  fix m :: mem and k :: string and s :: "string set" and xs :: "string list"
  assume s: "as_set (mem_view m k) = Some s"
  show "set (rd_smembers mem_redis k m) = s \<and> distinct (rd_smembers mem_redis k m)"
    using mem_cells(2) [OF s] by (simp add: mem_redis_def)
  show "mem_view (rd_sadd mem_redis k xs m) = (mem_view m)(k := put_set (s \<union> set xs))"
    using mem_cells(2) [OF s] by (simp add: mem_redis_def mem_view_put)
  have "set (filter (\<lambda>x. x \<notin> set xs) (mem_set k m)) = s - set xs" using mem_cells(2) [OF s] by auto
  then show "mem_view (rd_srem mem_redis k xs m) = (mem_view m)(k := put_set (s - set xs))"
    by (simp add: mem_redis_def mem_view_put)
qed (auto simp: mem_redis_def mem_cells mem_view_put)

end
