(* ===== verification/Dependency_Storage.thy ===== *)
theory Dependency_Storage
  imports Dependency_Ref Redis_Memory
begin

text \<open>
  \<open>backend/src/repositories/dependency-manager/dependency-storage-impl.ts\<close>: the index from
  dependencies to the repositories that use them, kept in the server as one set per
  repository and one per dependency; and
  \<open>backend/src/system/queue/active-repositories.ts\<close>, the set of the repositories that are built.
  The index is shown to implement a relation: \<open>lookup\<close> answers the repositories whose last
  \<open>update\<close> named one of the dependencies.
\<close>

section \<open>The index\<close>

definition sourceKey :: "source \<Rightarrow> string" where
  "sourceKey s = ''dependencies-source:'' @ src_id s @ '':'' @ src_path s"

definition refKey :: "string \<Rightarrow> string" where
  "refKey r = ''dependencies-refs:'' @ r"

definition dep_lookup :: "'db redis \<Rightarrow> dep_ref list \<Rightarrow> 'db \<Rightarrow> source list res" where
  "dep_lookup R refs db =
     (if refs \<noteq> [] then
        res_mapM source_deserialize
          (uniq (concat (map (\<lambda>r. rd_smembers R (refKey (dep_serialize r)) db) refs)))
      else Inr [])"

definition dep_update :: "'db redis \<Rightarrow> source \<Rightarrow> dep_ref list \<Rightarrow> 'db \<Rightarrow> 'db" where
  "dep_update R s refs db =
     (let newSerialized = map dep_serialize refs;
          existing = rd_smembers R (sourceKey s) db;
          toAdd = difference newSerialized existing;
          toRemove = difference existing newSerialized;
          db1 = rd_del R (sourceKey s) db;
          db2 = (if newSerialized \<noteq> [] then rd_sadd R (sourceKey s) newSerialized db1 else db1);
          db3 = fold (\<lambda>r. rd_sadd R (refKey r) [source_serialize s]) toAdd db2
      in fold (\<lambda>r. rd_srem R (refKey r) [source_serialize s]) toRemove db3)"

section \<open>Active repositories\<close>

definition activeRepositoryKey :: string where
  "activeRepositoryKey = ''active-directories''"

definition addActiveRepositories :: "'db redis \<Rightarrow> source list \<Rightarrow> 'db \<Rightarrow> 'db" where
  "addActiveRepositories R ss db =
     (if ss \<noteq> [] then rd_sadd R activeRepositoryKey (map source_serialize ss) db else db)"

definition removeActiveRepositories :: "'db redis \<Rightarrow> source list \<Rightarrow> 'db \<Rightarrow> 'db" where
  "removeActiveRepositories R ss db =
     (if ss \<noteq> [] then rd_srem R activeRepositoryKey (map source_serialize ss) db else db)"

definition activeRepositories :: "'db redis \<Rightarrow> 'db \<Rightarrow> source list res" where
  "activeRepositories R db = res_mapM source_deserialize (rd_smembers R activeRepositoryKey db)"

text \<open>\<open>sismember\<close> is read off the members.\<close>

definition isActive :: "'db redis \<Rightarrow> source \<Rightarrow> 'db \<Rightarrow> bool" where
  "isActive R s db \<longleftrightarrow> source_serialize s \<in> set (rd_smembers R activeRepositoryKey db)"

section \<open>Keys\<close>

lemma source_serialize_inject:
  "colon_free s \<Longrightarrow> colon_free t \<Longrightarrow> source_serialize s = source_serialize t \<longleftrightarrow> s = t"
  by (metis source_deserialize_serialize sum.inject(2))

lemma sourceKey_serialize: "sourceKey s = ''dependencies-source:'' @ source_serialize s"
  by (simp add: sourceKey_def source_serialize_def)

lemma keys_differ [simp]:
  "sourceKey s \<noteq> refKey r" "refKey r \<noteq> sourceKey s" "refKey r = refKey r' \<longleftrightarrow> r = r'"
  by (simp_all add: sourceKey_def refKey_def)

lemma sourceKey_inject [simp]:
  "colon_free s \<Longrightarrow> colon_free t \<Longrightarrow> sourceKey s = sourceKey t \<longleftrightarrow> s = t"
  by (simp add: sourceKey_serialize source_serialize_inject)

section \<open>The relation that the index implements\<close>

text \<open>
  \<open>D s\<close> is the set of dependencies of the repository \<open>s\<close>; a set of serialized repositories is
  stored for every serialized dependency.
\<close>

definition users :: "(source \<Rightarrow> dep_ref set) \<Rightarrow> string \<Rightarrow> string set" where
  "users D r = source_serialize ` {s. colon_free s \<and> r \<in> dep_serialize ` D s}"

definition index_of :: "('db \<Rightarrow> string \<Rightarrow> rvalue option) \<Rightarrow> 'db \<Rightarrow> (source \<Rightarrow> dep_ref set) \<Rightarrow> bool" where
  "index_of view db D \<longleftrightarrow>
     (\<forall>s. colon_free s \<longrightarrow> as_set (view db (sourceKey s)) = Some (dep_serialize ` D s)) \<and>
     (\<forall>r. as_set (view db (refKey r)) = Some (users D r)) \<and>
     (\<forall>s. D s \<subseteq> {r. dep_ok r})"

lemma users_update:
  assumes "colon_free s"
  shows "users (D(s := X)) r =
    (if r \<in> dep_serialize ` X then insert (source_serialize s) (users D r)
     else users D r - {source_serialize s})"
proof -
  let ?A = "{t. colon_free t \<and> r \<in> dep_serialize ` D t}"
  have inj: "inj_on source_serialize {t. colon_free t}"
    by (rule inj_onI) (simp add: source_serialize_inject)
  have A: "{t. colon_free t \<and> r \<in> dep_serialize ` (D(s := X)) t} =
      (if r \<in> dep_serialize ` X then insert s ?A else ?A - {s})"
    using assms by auto
  have "source_serialize ` (?A - {s}) = source_serialize ` ?A - source_serialize ` {s}"
    by (rule inj_on_image_set_diff [OF inj]) (use assms in auto)
  then show ?thesis unfolding users_def A by auto
qed

context redis_server
begin

lemma fold_sadd:
  assumes "\<And>r. as_set (view db (K r)) = Some (S r)" and "inj K"
  shows "view (fold (\<lambda>r. rd_sadd R (K r) [x]) rs db) =
    (\<lambda>k. if k \<in> K ` List.set rs then put_set (insert x (S (inv K k))) else view db k)"
  using assms(1)
proof (induction rs arbitrary: db S)
  case (Cons r rs)
  let ?S = "S(r := insert x (S r))"
  have step: "view (rd_sadd R (K r) [x] db) = (view db)(K r := put_set (insert x (S r)))"
    using sadd [OF Cons.prems] by simp
  have "as_set (view (rd_sadd R (K r) [x] db) (K q)) = Some (?S q)" for q
    using Cons.prems assms(2) by (auto simp: step dest: injD)
  from Cons.IH [OF this] show ?case
    using assms(2) by (auto simp: fun_eq_iff step)
qed simp

lemma fold_srem:
  assumes "\<And>r. as_set (view db (K r)) = Some (S r)" and "inj K"
  shows "view (fold (\<lambda>r. rd_srem R (K r) [x]) rs db) =
    (\<lambda>k. if k \<in> K ` List.set rs then put_set (S (inv K k) - {x}) else view db k)"
  using assms(1)
proof (induction rs arbitrary: db S)
  case (Cons r rs)
  let ?S = "S(r := S r - {x})"
  have step: "view (rd_srem R (K r) [x] db) = (view db)(K r := put_set (S r - {x}))"
    using srem [OF Cons.prems] by simp
  have "as_set (view (rd_srem R (K r) [x] db) (K q)) = Some (?S q)" for q
    using Cons.prems assms(2) by (auto simp: step dest: injD)
  from Cons.IH [OF this] show ?case
    using assms(2) by (auto simp: fun_eq_iff step)
qed simp

lemma inj_refKey: "inj refKey"
  by (rule injI) simp

lemma index_update:
  assumes ix: "index_of view db D" and s: "colon_free s" and ok: "list_all dep_ok refs"
  shows "index_of view (dep_update R s refs db) (D(s := List.set refs))"
proof -
  let ?new = "map dep_serialize refs" and ?x = "source_serialize s"
  define old where "old = rd_smembers R (sourceKey s) db"
  have old: "List.set old = dep_serialize ` D s"
    using ix s smembers [of db "sourceKey s"] by (simp add: old_def index_of_def)
  define db1 where "db1 = rd_del R (sourceKey s) db"
  define db2 where "db2 = (if ?new \<noteq> [] then rd_sadd R (sourceKey s) ?new db1 else db1)"
  have v1: "view db1 = (view db)(sourceKey s := None)" by (simp add: db1_def del)
  have v2: "view db2 = (view db)(sourceKey s := put_set (dep_serialize ` List.set refs))"
    using sadd [of db1 "sourceKey s" "{}" ?new] v1 by (auto simp: db2_def put_set_def)
  define db3 where "db3 = fold (\<lambda>r. rd_sadd R (refKey r) [?x]) (difference ?new old) db2"
  have r2: "as_set (view db2 (refKey r)) = Some (users D r)" for r
    using ix by (simp add: v2 index_of_def)
  have v3: "view db3 = (\<lambda>k. if k \<in> refKey ` (dep_serialize ` List.set refs - List.set old)
      then put_set (insert ?x (users D (inv refKey k))) else view db2 k)"
    unfolding db3_def using fold_sadd [OF r2 inj_refKey, of ?x "difference ?new old"] by simp
  define S3 where "S3 r = (if r \<in> dep_serialize ` List.set refs - List.set old then insert ?x (users D r)
      else users D r)" for r
  have r3: "as_set (view db3 (refKey r)) = Some (S3 r)" for r
    using r2 [of r] by (auto simp: v3 S3_def inv_f_f [OF inj_refKey])
  define db4 where "db4 = fold (\<lambda>r. rd_srem R (refKey r) [?x]) (difference old ?new) db3"
  have v4: "view db4 = (\<lambda>k. if k \<in> refKey ` (List.set old - dep_serialize ` List.set refs)
      then put_set (S3 (inv refKey k) - {?x}) else view db3 k)"
    unfolding db4_def using fold_srem [OF r3 inj_refKey, of ?x "difference old ?new"] by simp
  have "as_set (view db4 (refKey r)) = Some (users (D(s := List.set refs)) r)" for r
  proof -
    have mem: "?x \<in> users D r \<longleftrightarrow> r \<in> List.set old"
      using s source_serialize_inject [OF s] by (auto simp: users_def old)
    have "as_set (view db4 (refKey r)) = Some (if r \<in> List.set old - dep_serialize ` List.set refs
        then S3 r - {?x} else S3 r)"
      using r3 [of r] by (auto simp: v4 inv_f_f [OF inj_refKey])
    also have "\<dots> = Some (users (D(s := List.set refs)) r)"
      using mem by (auto simp: users_update [OF s] S3_def)
    finally show ?thesis .
  qed
  moreover have "as_set (view db4 (sourceKey t)) = Some (dep_serialize ` (D(s := List.set refs)) t)"
    if "colon_free t" for t
  proof -
    have "view db4 (sourceKey t) = view db2 (sourceKey t)" by (auto simp: v4 v3)
    then show ?thesis using ix s that by (auto simp: v2 index_of_def)
  qed
  moreover have "dep_update R s refs db = db4"
    by (simp add: dep_update_def Let_def db4_def db3_def db2_def db1_def old_def)
  ultimately show ?thesis
    using ix ok by (auto simp: index_of_def list_all_iff)
qed

lemma index_lookup:
  assumes ix: "index_of view db D" and ok: "list_all dep_ok refs"
  obtains ss where "dep_lookup R refs db = Inr ss" "distinct ss"
    "List.set ss = {s. colon_free s \<and> D s \<inter> List.set refs \<noteq> {}}"
proof -
  define strs where "strs = uniq (concat (map (\<lambda>r. rd_smembers R (refKey (dep_serialize r)) db) refs))"
  have "List.set (rd_smembers R (refKey r) db) = users D r" for r
    using ix smembers [of db "refKey r"] by (simp add: index_of_def)
  then have "List.set strs = (\<Union>r \<in> List.set refs. users D (dep_serialize r))"
    by (simp add: strs_def)
  also have "\<dots> = (\<Union>r \<in> List.set refs. source_serialize ` {s. colon_free s \<and> r \<in> D s})"
  proof (rule SUP_cong)
    fix r assume "r \<in> List.set refs"
    then have "dep_ok r" using ok by (simp add: list_all_iff)
    then have "dep_serialize r \<in> dep_serialize ` D s \<longleftrightarrow> r \<in> D s" for s
      using ix inj_on_image_mem_iff [OF dep_serialize_inj, of r "D s"] by (simp add: index_of_def)
    then show "users D (dep_serialize r) = source_serialize ` {s. colon_free s \<and> r \<in> D s}"
      by (simp add: users_def)
  qed simp
  also have "\<dots> = source_serialize ` {s. colon_free s \<and> D s \<inter> List.set refs \<noteq> {}}" by auto
  finally have strs: "List.set strs = source_serialize ` {s. colon_free s \<and> D s \<inter> List.set refs \<noteq> {}}" .
  let ?g = "\<lambda>x. case source_deserialize x of Inr s \<Rightarrow> s | Inl e \<Rightarrow> undefined"
  let ?A = "{s. colon_free s \<and> D s \<inter> List.set refs \<noteq> {}}"
  define ss where "ss = map ?g strs"
  have dec: "source_deserialize x = Inr (?g x)" "source_serialize (?g x) = x"
    if x: "x \<in> List.set strs" for x
  proof -
    from x strs obtain s where s: "colon_free s" "x = source_serialize s" by blast
    then show "source_deserialize x = Inr (?g x)" "source_serialize (?g x) = x" by simp_all
  qed
  have "res_mapM source_deserialize strs = Inr ss"
    unfolding ss_def by (rule res_mapM_Inr) (rule dec(1))
  then have "dep_lookup R refs db = Inr ss"
    by (cases "refs = []") (simp_all add: dep_lookup_def strs_def ss_def)
  moreover have "List.set ss = ?A"
  proof -
    have "List.set ss = (\<lambda>s. ?g (source_serialize s)) ` ?A" by (simp only: ss_def set_map strs image_image)
    also have "\<dots> = (\<lambda>s. s) ` ?A" by (rule image_cong) simp_all
    finally show ?thesis by simp
  qed
  moreover have "distinct ss"
    unfolding ss_def distinct_map
    by (intro conjI inj_on_inverseI [of _ source_serialize] dec(2)) (simp add: strs_def)
  ultimately show ?thesis using that by blast
qed

lemma index_updates:
  assumes "index_of view db D" and "list_all (\<lambda>u. colon_free (fst u) \<and> list_all dep_ok (snd u)) us"
  shows "index_of view (fold (\<lambda>u. dep_update R (fst u) (snd u)) us db)
    (fold (\<lambda>u D. D(fst u := List.set (snd u))) us D)"
  using assms by (induction us arbitrary: db D) (auto simp: index_update)

lemma index_empty: "view db = (\<lambda>k. None) \<Longrightarrow> index_of view db (\<lambda>s. {})"
  by (simp add: index_of_def users_def)

end

lemma fold_last_update:
  "fold (\<lambda>u D. D(fst u := set (snd u))) us D =
   (\<lambda>s. case map_of (rev us) s of Some refs \<Rightarrow> set refs | None \<Rightarrow> D s)"
  by (induction us arbitrary: D) (auto simp: fun_eq_iff map_add_def split: option.splits)

context redis_server
begin

lemma isActive_add:
  "as_set (view db activeRepositoryKey) = Some S \<Longrightarrow>
   isActive R s (addActiveRepositories R ss db) \<longleftrightarrow>
     source_serialize s \<in> S \<union> source_serialize ` List.set ss"
  using smembers [of db activeRepositoryKey S] sadd [of db activeRepositoryKey S "map source_serialize ss"]
    smembers [of "rd_sadd R activeRepositoryKey (map source_serialize ss) db" activeRepositoryKey]
  by (auto simp: isActive_def addActiveRepositories_def)

lemma isActive_remove:
  "as_set (view db activeRepositoryKey) = Some S \<Longrightarrow>
   isActive R s (removeActiveRepositories R ss db) \<longleftrightarrow>
     source_serialize s \<in> S - source_serialize ` List.set ss"
  using smembers [of db activeRepositoryKey S] srem [of db activeRepositoryKey S "map source_serialize ss"]
    smembers [of "rd_srem R activeRepositoryKey (map source_serialize ss) db" activeRepositoryKey]
  by (auto simp: isActive_def removeActiveRepositories_def)

end

section \<open>Properties\<close>

text \<open>C9
  The dependency index answers from the last update: on any server that keeps the laws of its
  commands, starting empty and after any sequence of updates, \<open>lookup\<close> does not fail and
  returns, without repetition, exactly the repositories whose last update named one of the
  dependencies asked for.
\<close>

theorem dependency_index_correct:
  assumes "redis_server R view" and "view db = (\<lambda>k. None)"
    and "list_all (\<lambda>u. colon_free (fst u) \<and> list_all dep_ok (snd u)) us"
    and "list_all dep_ok refs"
  shows "\<exists>ss. dep_lookup R refs (fold (\<lambda>u. dep_update R (fst u) (snd u)) us db) = Inr ss \<and>
    distinct ss \<and>
    set ss = {s. \<exists>deps. map_of (rev us) s = Some deps \<and> set deps \<inter> set refs \<noteq> {}}"
proof -
  note index = redis_server.index_updates [OF assms(1)
      redis_server.index_empty [OF assms(1,2)] assms(3), unfolded fold_last_update]
  obtain ss where ss: "dep_lookup R refs (fold (\<lambda>u. dep_update R (fst u) (snd u)) us db) = Inr ss"
    "distinct ss" "set ss = {s. colon_free s \<and>
      (case map_of (rev us) s of Some deps \<Rightarrow> set deps | None \<Rightarrow> {}) \<inter> set refs \<noteq> {}}"
    using redis_server.index_lookup [OF assms(1) index assms(4)] .
  have "colon_free s" if "map_of (rev us) s = Some deps" for s deps
    using map_of_SomeD [OF that] assms(3) by (auto simp: list_all_iff)
  then have "set ss = {s. \<exists>deps. map_of (rev us) s = Some deps \<and> set deps \<inter> set refs \<noteq> {}}"
    unfolding ss(3) by (auto split: option.splits)
  with ss(1,2) show ?thesis by blast
qed

theorem dependency_index_correct_witness:
  "\<exists>ss. dep_lookup mem_redis [ImageRef ''r'' ''i'']
      (fold (\<lambda>u. dep_update mem_redis (fst u) (snd u))
        [(mk_source ''g'' ''a'', [ImageRef ''r'' ''i'']), (mk_source ''g'' ''b'', [ImageRef ''r'' ''i'']),
         (mk_source ''g'' ''a'', [])] []) = Inr ss \<and> set ss = {mk_source ''g'' ''b''}"
proof -
  let ?us = "[(mk_source ''g'' ''a'', [ImageRef ''r'' ''i'']), (mk_source ''g'' ''b'', [ImageRef ''r'' ''i'']),
         (mk_source ''g'' ''a'', [])]"
  have "mem_view [] = (\<lambda>k. None)" by (simp add: mem_view_def fun_eq_iff)
  moreover have "list_all (\<lambda>u. colon_free (fst u) \<and> list_all dep_ok (snd u)) ?us"
    by (simp add: colon_free_def delim_safe_delimiter)
  moreover have "list_all dep_ok [ImageRef ''r'' ''i'']" by (simp add: delim_safe_delimiter)
  ultimately obtain ss where ss: "dep_lookup mem_redis [ImageRef ''r'' ''i'']
      (fold (\<lambda>u. dep_update mem_redis (fst u) (snd u)) ?us []) = Inr ss"
    "set ss = {s. \<exists>deps. map_of (rev ?us) s = Some deps \<and> set deps \<inter> set [ImageRef ''r'' ''i''] \<noteq> {}}"
    using dependency_index_correct [OF memory.redis_server_axioms] by blast
  have "set ss = {mk_source ''g'' ''b''}"
    unfolding ss(2) by (auto simp: mk_source_def split: if_splits)
  with ss(1) show ?thesis by blast
qed

end
