(* ===== verification/Normalized_Model.thy ===== *)
theory Normalized_Model
  imports Version Refs
begin

text \<open>
  \<open>backend/src/repositories/repository/normalized-model.ts\<close>: the names of branches and
  tags that have a meaning for releases (\<open>v1.2.3\<close>, \<open>major-2\<close>, \<open>patch-1\<close>,
  \<open>main\<close>), recognised with regular expressions.
\<close>

section \<open>Recognised references\<close>

datatype normalized =
    PatchBranchRef "int list"
  | MainBranchRef string
  | ReleaseTagRef "int list"
  | MajorTagRef int

fun isBranch :: "normalized \<Rightarrow> bool" where
  "isBranch (PatchBranchRef _) = True"
| "isBranch (MainBranchRef _) = True"
| "isBranch (ReleaseTagRef _) = False"
| "isBranch (MajorTagRef _) = False"

definition segments_full :: "int list \<Rightarrow> string" where
  "segments_full segs = join ''.'' (map show_int segs)"

definition segments_parent :: "int list \<Rightarrow> string" where
  "segments_parent segs = join ''.'' (map show_int (butlast segs))"

definition segments_patch :: "int list \<Rightarrow> int" where
  "segments_patch segs = last segs"

text \<open>\<open>\d+\<close> and \<open>\d+(?:\.\d+)*\<close> as tests on the whole string.\<close>

definition is_number :: "string \<Rightarrow> bool" where
  "is_number s \<longleftrightarrow> s \<noteq> [] \<and> list_all is_digit s"

definition is_dotted :: "string \<Rightarrow> bool" where
  "is_dotted s \<longleftrightarrow> list_all is_number (split ''.'' s)"

definition after :: "string \<Rightarrow> string \<Rightarrow> string option" where
  "after p s = (if take (length p) s = p then Some (drop (length p) s) else None)"

definition match_releaseTag :: "string \<Rightarrow> string option" where
  "match_releaseTag s = (case after ''v'' s of
     Some d \<Rightarrow> if is_dotted d \<and> length (split ''.'' d) = 3 then Some d else None
   | None \<Rightarrow> None)"

definition match_patchBranch :: "string \<Rightarrow> string option" where
  "match_patchBranch s = (case after ''patch-'' s of
     Some d \<Rightarrow> if is_dotted d then Some d else None
   | None \<Rightarrow> None)"

definition match_majorTag :: "string \<Rightarrow> string option" where
  "match_majorTag s = (case after ''major-'' s of
     Some d \<Rightarrow> if is_number d then Some d else None
   | None \<Rightarrow> None)"

definition match_mainBranch :: "string \<Rightarrow> string option" where
  "match_mainBranch s = (if s = ''main'' \<or> s = ''master'' then Some s else None)"

text \<open>
  \<open>parseInt\<close> of a piece that matched; it is never \<open>NaN\<close> there (\<open>parse_number\<close> below).
\<close>

definition to_int :: "string \<Rightarrow> int" where
  "to_int s = (case parse_int s of Some n \<Rightarrow> n | None \<Rightarrow> 0)"

definition convertToSegments :: "string \<Rightarrow> int list" where
  "convertToSegments s = map to_int (split ''.'' s)"

fun normalize :: "ref \<Rightarrow> normalized option" where
  "normalize (TagRef n) =
     (case match_releaseTag n of
        Some d \<Rightarrow> Some (ReleaseTagRef (convertToSegments d))
      | None \<Rightarrow> (case match_majorTag n of
          Some d \<Rightarrow> Some (MajorTagRef (to_int d))
        | None \<Rightarrow> None))"
| "normalize (ShaRef s) = None"
| "normalize r =
     (case match_mainBranch (ref_name r) of
        Some m \<Rightarrow> Some (MainBranchRef m)
      | None \<Rightarrow> (case match_patchBranch (ref_name r) of
          Some d \<Rightarrow> Some (PatchBranchRef (convertToSegments d))
        | None \<Rightarrow> None))"

section \<open>Lemmas\<close>

lemma parse_number: "is_number s \<Longrightarrow> parse_int s = Some (int (digits_val s))"
  by (simp add: is_number_def parse_int_digits)

lemma to_int_number [simp]: "is_number s \<Longrightarrow> to_int s = int (digits_val s)"
  by (simp add: to_int_def parse_number)

lemma to_int_show_int [simp]: "to_int (show_int n) = n"
  by (simp add: to_int_def)

lemma is_number_show_int [simp]: "is_number (show_int n) \<longleftrightarrow> 0 \<le> n"
  using show_nat_digits by (auto simp: is_number_def show_int_def is_digit_def)

lemma convertToSegments_nonneg:
  "is_dotted s \<Longrightarrow> list_all (\<lambda>n. 0 \<le> n) (convertToSegments s)"
  by (auto simp: is_dotted_def convertToSegments_def list_all_iff)

lemma convertToSegments_length [simp]:
  "length (convertToSegments s) = length (split ''.'' s)"
  by (simp add: convertToSegments_def)

lemma convertToSegments_nonempty [simp]: "convertToSegments s \<noteq> []"
  by (simp add: convertToSegments_def)

lemma split_dotted: "segs \<noteq> [] \<Longrightarrow> split ''.'' (segments_full segs) = map show_int segs"
  unfolding segments_full_def by (intro split_join) (simp_all add: list_all_iff)

lemma convertToSegments_full [simp]: "segs \<noteq> [] \<Longrightarrow> convertToSegments (segments_full segs) = segs"
  by (simp add: convertToSegments_def split_dotted comp_def)

lemma is_dotted_full [simp]:
  "segs \<noteq> [] \<Longrightarrow> is_dotted (segments_full segs) \<longleftrightarrow> list_all (\<lambda>n. 0 \<le> n) segs"
  by (simp add: is_dotted_def split_dotted list_all_iff)

lemma after_append [simp]: "after p (p @ s) = Some s"
  by (simp add: after_def)

lemma normalize_ReleaseTagRef:
  "normalize r = Some (ReleaseTagRef segs) \<Longrightarrow> length segs = 3 \<and> list_all (\<lambda>n. 0 \<le> n) segs"
  by (cases r) (auto simp: match_releaseTag_def convertToSegments_nonneg split: option.splits if_splits)

lemma normalize_PatchBranchRef:
  "normalize r = Some (PatchBranchRef segs) \<Longrightarrow> segs \<noteq> [] \<and> list_all (\<lambda>n. 0 \<le> n) segs"
  by (cases r) (auto simp: match_patchBranch_def convertToSegments_nonneg split: option.splits if_splits)

lemma normalize_MajorTagRef: "normalize r = Some (MajorTagRef m) \<Longrightarrow> 0 \<le> m"
  by (cases r) (auto simp: match_majorTag_def split: option.splits if_splits)

text \<open>
  Names of releases are recognised: the tag \<open>v\<close> followed by the printed form of any
  version with three segments that are not negative normalizes to a release with these
  segments, \<open>patch-\<close> followed by one or more numbers to a patch branch, \<open>major-\<close> and a
  number to a major tag; and whatever is recognised has three segments for a release, at
  least one for a patch branch, and no negative number.
\<close>

theorem normalize_names:
  "(list_all (\<lambda>n. 0 \<le> n) segs \<and> length segs = 3 \<longrightarrow>
      normalize (TagRef (''v'' @ version_string (Version segs))) = Some (ReleaseTagRef segs)) \<and>
   (list_all (\<lambda>n. 0 \<le> n) segs \<and> segs \<noteq> [] \<longrightarrow>
      normalize (BranchRef (''patch-'' @ segments_full segs)) = Some (PatchBranchRef segs)) \<and>
   (0 \<le> m \<longrightarrow> normalize (TagRef (''major-'' @ show_int m)) = Some (MajorTagRef m)) \<and>
   (case normalize r of
      Some (ReleaseTagRef s) \<Rightarrow> length s = 3 \<and> list_all (\<lambda>n. 0 \<le> n) s
    | Some (PatchBranchRef s) \<Rightarrow> s \<noteq> [] \<and> list_all (\<lambda>n. 0 \<le> n) s
    | Some (MajorTagRef n) \<Rightarrow> 0 \<le> n
    | Some (MainBranchRef n) \<Rightarrow> n = ''main'' \<or> n = ''master''
    | None \<Rightarrow> True)"
proof (intro conjI impI)
  assume a: "list_all (\<lambda>n. 0 \<le> n) segs \<and> length segs = 3"
  then have "segs \<noteq> []" by auto
  moreover have "version_string (Version segs) = segments_full segs"
    by (simp add: version_string_def segments_full_def)
  ultimately show "normalize (TagRef (''v'' @ version_string (Version segs))) = Some (ReleaseTagRef segs)"
    using a split_dotted [of segs] after_append [of "''v''" "segments_full segs"]
    by (simp add: match_releaseTag_def)
next
  assume "list_all (\<lambda>n. 0 \<le> n) segs \<and> segs \<noteq> []"
  then show "normalize (BranchRef (''patch-'' @ segments_full segs)) = Some (PatchBranchRef segs)"
    using after_append [of "''patch-''" "segments_full segs"]
    by (simp add: match_mainBranch_def match_patchBranch_def)
next
  assume "0 \<le> m"
  moreover have "match_releaseTag (''major-'' @ show_int m) = None"
    by (simp add: match_releaseTag_def after_def)
  ultimately show "normalize (TagRef (''major-'' @ show_int m)) = Some (MajorTagRef m)"
    using after_append [of "''major-''" "show_int m"] by (simp add: match_majorTag_def)
next
  have "n = ''main'' \<or> n = ''master''" if "normalize r = Some (MainBranchRef n)" for n
    using that by (cases r) (auto simp: match_mainBranch_def split: option.splits if_splits)
  then show "case normalize r of
      Some (ReleaseTagRef s) \<Rightarrow> length s = 3 \<and> list_all (\<lambda>n. 0 \<le> n) s
    | Some (PatchBranchRef s) \<Rightarrow> s \<noteq> [] \<and> list_all (\<lambda>n. 0 \<le> n) s
    | Some (MajorTagRef n) \<Rightarrow> 0 \<le> n
    | Some (MainBranchRef n) \<Rightarrow> n = ''main'' \<or> n = ''master''
    | None \<Rightarrow> True"
    using normalize_ReleaseTagRef [of r] normalize_PatchBranchRef [of r] normalize_MajorTagRef [of r]
    by (auto split: option.splits normalized.splits)
qed

theorem normalize_names_witness:
  "normalize (TagRef (''v'' @ version_string (Version [1, 20, 3]))) = Some (ReleaseTagRef [1, 20, 3]) \<and>
   normalize (BranchRef (''patch-'' @ segments_full [4])) = Some (PatchBranchRef [4]) \<and>
   normalize (TagRef (''major-'' @ show_int 7)) = Some (MajorTagRef 7)"
  using normalize_names [of "[1, 20, 3]" 7] normalize_names [of "[4]"] by simp

end
