(* ===== verification/Repository_Model.thy ===== *)
theory Repository_Model
  imports Normalized_Model
begin

text \<open>
  The model of a repository: \<open>domain-model/repository-model/repository-model.ts\<close> (the
  containers of majors, minors and releases), \<open>repositories/repository/raw-model.ts\<close>, the
  collection of the raw data from the references (\<open>getRawModelFromSource\<close> of
  \<open>raw-model-repository.ts\<close>), and the conversion \<open>raw-data-to-model-converter.ts\<close>.
\<close>

section \<open>Containers\<close>

record release =
  rel_patch :: int
  rel_sha :: string

record minor_container =
  mc_minor :: int
  mc_releases :: "release list"
  mc_branch :: "string option"

record main_branch =
  mb_name :: string
  mb_sha :: string

record main_container =
  main_major :: int
  main_main :: main_branch
  main_minors :: "minor_container list"
  main_start :: "string option"

record major_container =
  maj_major :: int
  maj_minors :: "minor_container list"
  maj_start :: "string option"
  maj_branch :: "string option"

record root =
  root_main :: main_container
  root_majors :: "major_container list"

text \<open>The interface \<open>TopContainer\<close> of main and major containers.\<close>

datatype top_container = Top_Main main_container | Top_Major major_container

fun top_major :: "top_container \<Rightarrow> int" where
  "top_major (Top_Main m) = main_major m"
| "top_major (Top_Major m) = maj_major m"

fun top_minors :: "top_container \<Rightarrow> minor_container list" where
  "top_minors (Top_Main m) = main_minors m"
| "top_minors (Top_Major m) = maj_minors m"

fun top_start :: "top_container \<Rightarrow> string option" where
  "top_start (Top_Main m) = main_start m"
| "top_start (Top_Major m) = maj_start m"

fun branchAndSha :: "top_container \<Rightarrow> (string \<times> string) option" where
  "branchAndSha (Top_Main m) = Some (mb_name (main_main m), mb_sha (main_main m))"
| "branchAndSha (Top_Major m) =
     (if truthy (maj_branch m) then Some (''patch-'' @ show_int (maj_major m), the (maj_branch m))
      else None)"

section \<open>Raw data\<close>

record raw_data =
  raw_main :: "string \<times> string"
  raw_releaseTags :: "(int list \<times> string) list"
  raw_patchBranches :: "(int list \<times> string) list"
  raw_majorTags :: "(int \<times> string) list"

record raw_acc =
  acc_main :: "(string \<times> string) option"
  acc_releases :: "(int list \<times> string) list"
  acc_patches :: "(int list \<times> string) list"
  acc_majors :: "(int \<times> string) list"

definition collect_entity :: "entity \<Rightarrow> raw_acc \<Rightarrow> raw_acc" where
  "collect_entity e acc =
     (case normalize (e_ref e) of
        None \<Rightarrow> acc
      | Some (ReleaseTagRef segs) \<Rightarrow> acc \<lparr> acc_releases := acc_releases acc @ [(segs, e_sha e)] \<rparr>
      | Some (PatchBranchRef segs) \<Rightarrow> acc \<lparr> acc_patches := acc_patches acc @ [(segs, e_sha e)] \<rparr>
      | Some (MajorTagRef m) \<Rightarrow> acc \<lparr> acc_majors := acc_majors acc @ [(m, e_sha e)] \<rparr>
      | Some (MainBranchRef n) \<Rightarrow> acc \<lparr> acc_main := Some (n, e_sha e) \<rparr>)"

definition getRawModel :: "entity list \<Rightarrow> raw_data res" where
  "getRawModel es =
     (let acc = fold collect_entity es
        \<lparr> acc_main = None, acc_releases = [], acc_patches = [], acc_majors = [] \<rparr>
      in case acc_main acc of
           Some m \<Rightarrow> Inr \<lparr> raw_main = m, raw_releaseTags = acc_releases acc,
             raw_patchBranches = acc_patches acc, raw_majorTags = acc_majors acc \<rparr>
         | None \<Rightarrow> Inl (Error ''Could not build repository model data. Missing main branch.''))"

section \<open>Builders\<close>

record minor_builder =
  nb_branch :: "string option"
  nb_releases :: "(int \<times> string) list"

record major_builder =
  jb_branch :: "string option"
  jb_start :: "string option"
  jb_minors :: "(int \<times> minor_builder) list"

type_synonym builders = "(int \<times> major_builder) list"

definition new_minor :: minor_builder where
  "new_minor = \<lparr> nb_branch = None, nb_releases = [] \<rparr>"

definition new_major :: major_builder where
  "new_major = \<lparr> jb_branch = None, jb_start = None, jb_minors = [] \<rparr>"

definition setDefaultBranchSha :: "string \<Rightarrow> major_builder \<Rightarrow> major_builder" where
  "setDefaultBranchSha sha b = b \<lparr> jb_branch := Some sha \<rparr>"

definition setStart :: "string \<Rightarrow> major_builder \<Rightarrow> major_builder" where
  "setStart sha b = b \<lparr> jb_start := Some sha \<rparr>"

definition addRelease :: "int \<Rightarrow> string \<Rightarrow> minor_builder \<Rightarrow> minor_builder" where
  "addRelease patch sha b = b \<lparr> nb_releases := AList.update patch sha (nb_releases b) \<rparr>"

definition with_minor :: "int \<Rightarrow> (minor_builder \<Rightarrow> minor_builder) \<Rightarrow> major_builder \<Rightarrow> major_builder" where
  "with_minor m f b = b \<lparr> jb_minors := upsert m new_minor f (jb_minors b) \<rparr>"

definition add_majorTag :: "int \<times> string \<Rightarrow> builders \<Rightarrow> builders" where
  "add_majorTag t bs = upsert (fst t) new_major (setStart (snd t)) bs"

text \<open>
  The condition of the source is the assignment \<open>patchBranch.numbers.length = 1\<close>: its value 1
  is true, so that the branch for two numbers is never taken.
\<close>

definition add_patchBranch :: "int list \<times> string \<Rightarrow> builders \<Rightarrow> builders" where
  "add_patchBranch p bs = upsert (hd (fst p)) new_major (setDefaultBranchSha (snd p)) bs"

definition add_releaseTag :: "int list \<times> string \<Rightarrow> builders \<Rightarrow> builders" where
  "add_releaseTag t bs =
     upsert (hd (fst t)) new_major
       (\<lambda>b. if length (fst t) = 3
            then with_minor (fst t ! 1) (addRelease (fst t ! 2) (snd t)) b else b) bs"

definition all_builders :: "raw_data \<Rightarrow> builders" where
  "all_builders raw =
     fold add_releaseTag (raw_releaseTags raw)
       (fold add_patchBranch (raw_patchBranches raw)
         (fold add_majorTag (raw_majorTags raw) []))"

section \<open>Building the model\<close>

definition buildReleases :: "minor_builder \<Rightarrow> release list" where
  "buildReleases b =
     sort_desc rel_patch (map (\<lambda>(p, s). \<lparr> rel_patch = p, rel_sha = s \<rparr>) (nb_releases b))"

definition build_minor :: "int \<times> minor_builder \<Rightarrow> minor_container" where
  "build_minor mb = \<lparr> mc_minor = fst mb, mc_releases = buildReleases (snd mb),
     mc_branch = nb_branch (snd mb) \<rparr>"

definition buildMinors :: "major_builder \<Rightarrow> minor_container list" where
  "buildMinors b = sort_desc mc_minor (map build_minor (jb_minors b))"

definition buildMainContainer :: "int \<times> major_builder \<Rightarrow> string \<Rightarrow> string \<Rightarrow> main_container" where
  "buildMainContainer mb name sha =
     \<lparr> main_major = fst mb, main_main = \<lparr> mb_name = name, mb_sha = sha \<rparr>,
       main_minors = buildMinors (snd mb), main_start = jb_start (snd mb) \<rparr>"

definition buildMajorContainer :: "int \<times> major_builder \<Rightarrow> major_container" where
  "buildMajorContainer mb =
     \<lparr> maj_major = fst mb, maj_minors = buildMinors (snd mb),
       maj_start = jb_start (snd mb), maj_branch = jb_branch (snd mb) \<rparr>"

definition convertModel :: "raw_data \<Rightarrow> root" where
  "convertModel raw =
     (let bs = all_builders raw; (name, sha) = raw_main raw in
      case max_by fst bs of
        Some hb \<Rightarrow>
          \<lparr> root_main = buildMainContainer hb name sha,
            root_majors = sort_desc maj_major (map buildMajorContainer (AList.delete (fst hb) bs)) \<rparr>
      | None \<Rightarrow>
          \<lparr> root_main = \<lparr> main_major = 0, main_main = \<lparr> mb_name = name, mb_sha = sha \<rparr>,
                           main_minors = [], main_start = None \<rparr>,
            root_majors = [] \<rparr>)"

definition getModelFromEntities :: "entity list \<Rightarrow> root res" where
  "getModelFromEntities es = res_bind (getRawModel es) (\<lambda>raw. Inr (convertModel raw))"

section \<open>What the builders hold\<close>

text \<open>
  Builders are well formed when every level has different keys, every minor was created by a
  release, and no minor has a branch.
\<close>

definition minor_builder_ok :: "minor_builder \<Rightarrow> bool" where
  "minor_builder_ok nb \<longleftrightarrow>
     distinct (map fst (nb_releases nb)) \<and> nb_releases nb \<noteq> [] \<and> nb_branch nb = None"

definition major_builder_ok :: "major_builder \<Rightarrow> bool" where
  "major_builder_ok jb \<longleftrightarrow>
     distinct (map fst (jb_minors jb)) \<and> list_all (\<lambda>e. minor_builder_ok (snd e)) (jb_minors jb)"

definition builders_ok :: "builders \<Rightarrow> bool" where
  "builders_ok bs \<longleftrightarrow> distinct (map fst bs) \<and> list_all (\<lambda>e. major_builder_ok (snd e)) bs"

lemma new_major_ok: "major_builder_ok new_major"
  by (simp add: major_builder_ok_def new_major_def)

lemma addRelease_ok:
  "distinct (map fst (nb_releases nb)) \<Longrightarrow> nb_branch nb = None \<Longrightarrow> minor_builder_ok (addRelease p s nb)"
  by (simp add: minor_builder_ok_def addRelease_def distinct_update update_nonempty)

lemma with_minor_ok:
  assumes "major_builder_ok jb"
  shows "major_builder_ok (with_minor m (addRelease p s) jb)"
proof -
  have "minor_builder_ok (addRelease p s new_minor)"
    by (rule addRelease_ok) (simp_all add: new_minor_def)
  moreover have "minor_builder_ok (addRelease p s nb)" if "minor_builder_ok nb" for nb
    using that by (intro addRelease_ok) (simp_all add: minor_builder_ok_def)
  ultimately show ?thesis using assms
    by (simp add: major_builder_ok_def with_minor_def upsert_all [where P = minor_builder_ok])
qed

lemma builders_ok_upsert:
  "builders_ok bs \<Longrightarrow> (\<And>jb. major_builder_ok jb \<Longrightarrow> major_builder_ok (f jb)) \<Longrightarrow>
   builders_ok (upsert k new_major f bs)"
  by (simp add: builders_ok_def upsert_all [where P = major_builder_ok] new_major_ok)

lemma builders_ok_fold:
  "builders_ok bs \<Longrightarrow> (\<And>x bs. builders_ok bs \<Longrightarrow> builders_ok (f x bs)) \<Longrightarrow> builders_ok (fold f xs bs)"
  by (induction xs arbitrary: bs) auto

lemma builder_steps_ok:
  "builders_ok bs \<Longrightarrow> builders_ok (add_majorTag t bs)"
  "builders_ok bs \<Longrightarrow> builders_ok (add_patchBranch p bs)"
  "builders_ok bs \<Longrightarrow> builders_ok (add_releaseTag r bs)"
  unfolding add_majorTag_def add_patchBranch_def add_releaseTag_def
  by (auto intro!: builders_ok_upsert with_minor_ok)
    (auto simp: major_builder_ok_def setStart_def setDefaultBranchSha_def)

lemma all_builders_ok: "builders_ok (all_builders raw)"
proof -
  have "builders_ok []" by (simp add: builders_ok_def)
  then show ?thesis unfolding all_builders_def by (intro builders_ok_fold builder_steps_ok)
qed

text \<open>The abstract content: a map of releases, and per major the branch and the start.\<close>

definition release_of :: "builders \<Rightarrow> int \<Rightarrow> int \<Rightarrow> int \<Rightarrow> string option" where
  "release_of bs a b c =
     Option.bind (map_of bs a) (\<lambda>jb. Option.bind (map_of (jb_minors jb) b) (\<lambda>nb.
       map_of (nb_releases nb) c))"

definition branch_of :: "builders \<Rightarrow> int \<Rightarrow> string option" where
  "branch_of bs a = Option.bind (map_of bs a) jb_branch"

definition start_of :: "builders \<Rightarrow> int \<Rightarrow> string option" where
  "start_of bs a = Option.bind (map_of bs a) jb_start"

lemma add_majorTag_content [simp]:
  "release_of (add_majorTag t bs) a b c = release_of bs a b c"
  "branch_of (add_majorTag t bs) a = branch_of bs a"
  "start_of (add_majorTag t bs) a = (if a = fst t then Some (snd t) else start_of bs a)"
  "fst ` set (add_majorTag t bs) = insert (fst t) (fst ` set bs)"
  by (auto simp: add_majorTag_def release_of_def branch_of_def start_of_def map_of_upsert
      setStart_def new_major_def split: option.splits)

lemma add_patchBranch_content [simp]:
  "release_of (add_patchBranch p bs) a b c = release_of bs a b c"
  "branch_of (add_patchBranch p bs) a = (if a = hd (fst p) then Some (snd p) else branch_of bs a)"
  "start_of (add_patchBranch p bs) a = start_of bs a"
  "fst ` set (add_patchBranch p bs) = insert (hd (fst p)) (fst ` set bs)"
  by (auto simp: add_patchBranch_def release_of_def branch_of_def start_of_def map_of_upsert
      setDefaultBranchSha_def new_major_def split: option.splits)

lemma map_of_update: "map_of (AList.update k v al) x = (if x = k then Some v else map_of al x)"
  by (simp add: update_conv')

lemma add_releaseTag_content [simp]:
  "release_of (add_releaseTag t bs) a b c =
     (if fst t = [a, b, c] then Some (snd t) else release_of bs a b c)"
  "branch_of (add_releaseTag t bs) a = branch_of bs a"
  "start_of (add_releaseTag t bs) a = start_of bs a"
  "fst ` set (add_releaseTag t bs) = insert (hd (fst t)) (fst ` set bs)"
proof -
  have "length ns = 3 \<longleftrightarrow> (\<exists>x y z. ns = [x, y, z])" for ns :: "int list"
    by (auto simp: numeral_3_eq_3 length_Suc_conv)
  then show "release_of (add_releaseTag t bs) a b c =
     (if fst t = [a, b, c] then Some (snd t) else release_of bs a b c)"
    by (auto simp: add_releaseTag_def release_of_def map_of_upsert with_minor_def addRelease_def
        new_minor_def new_major_def map_of_update split: option.splits)
qed (auto simp: add_releaseTag_def branch_of_def start_of_def map_of_upsert with_minor_def
      new_major_def split: option.splits)

lemma fold_content:
  "release_of (fold add_majorTag ms bs) a b c = release_of bs a b c"
  "release_of (fold add_patchBranch ps bs) a b c = release_of bs a b c"
  "release_of (fold add_releaseTag rs bs) a b c = (map_of rs' ++ map_of (rev rs)) [a, b, c]"
    if "release_of bs a b c = map_of rs' [a, b, c]"
  for rs' :: "(int list \<times> string) list"
proof -
  show "release_of (fold add_majorTag ms bs) a b c = release_of bs a b c"
    by (induction ms arbitrary: bs) auto
  show "release_of (fold add_patchBranch ps bs) a b c = release_of bs a b c"
    by (induction ps arbitrary: bs) auto
  show "release_of (fold add_releaseTag rs bs) a b c = (map_of rs' ++ map_of (rev rs)) [a, b, c]"
    using that
  proof (induction rs arbitrary: bs rs')
    case (Cons r rs)
    have "release_of (add_releaseTag r bs) a b c = map_of (r # rs') [a, b, c]"
      using Cons.prems by auto
    from Cons.IH [OF this] show ?case by (cases r) (simp add: map_add_def split: option.splits)
  qed simp
qed

lemma release_of_all_builders:
  "release_of (all_builders raw) a b c = map_of (rev (raw_releaseTags raw)) [a, b, c]"
proof -
  have "release_of [] a b c = map_of [] [a, b, c]" by (simp add: release_of_def)
  then have "release_of (fold add_patchBranch (raw_patchBranches raw) (fold add_majorTag (raw_majorTags raw) [])) a b c
      = map_of [] [a, b, c]"
    by (simp add: fold_content(1,2) [where rs' = "[]"])
  from fold_content(3) [OF this] show ?thesis by (simp add: all_builders_def)
qed

lemma content_Nil [simp]: "branch_of [] a = None" "start_of [] a = None"
  by (simp_all add: branch_of_def start_of_def)

lemma branch_of_folds:
  "branch_of (fold add_majorTag ms bs) a = branch_of bs a"
  "branch_of (fold add_releaseTag rs bs) a = branch_of bs a"
  "branch_of (fold add_patchBranch ps bs) a =
     (case map_of (rev (map (\<lambda>p. (hd (fst p), snd p)) ps)) a of
        Some s \<Rightarrow> Some s | None \<Rightarrow> branch_of bs a)"
proof -
  show "branch_of (fold add_majorTag ms bs) a = branch_of bs a"
    by (induction ms arbitrary: bs) auto
  show "branch_of (fold add_releaseTag rs bs) a = branch_of bs a"
    by (induction rs arbitrary: bs) auto
  show "branch_of (fold add_patchBranch ps bs) a =
     (case map_of (rev (map (\<lambda>p. (hd (fst p), snd p)) ps)) a of
        Some s \<Rightarrow> Some s | None \<Rightarrow> branch_of bs a)"
    by (induction ps arbitrary: bs) (auto simp: map_add_def split: option.splits)
qed

lemma start_of_folds:
  "start_of (fold add_patchBranch ps bs) a = start_of bs a"
  "start_of (fold add_releaseTag rs bs) a = start_of bs a"
  "start_of (fold add_majorTag ms bs) a =
     (case map_of (rev ms) a of Some s \<Rightarrow> Some s | None \<Rightarrow> start_of bs a)"
proof -
  show "start_of (fold add_patchBranch ps bs) a = start_of bs a"
    by (induction ps arbitrary: bs) auto
  show "start_of (fold add_releaseTag rs bs) a = start_of bs a"
    by (induction rs arbitrary: bs) auto
  show "start_of (fold add_majorTag ms bs) a =
     (case map_of (rev ms) a of Some s \<Rightarrow> Some s | None \<Rightarrow> start_of bs a)"
    by (induction ms arbitrary: bs) (auto simp: map_add_def split: option.splits)
qed

lemma branch_of_all_builders:
  "branch_of (all_builders raw) a =
     map_of (rev (map (\<lambda>p. (hd (fst p), snd p)) (raw_patchBranches raw))) a"
  by (simp add: all_builders_def branch_of_folds split: option.splits)

lemma start_of_all_builders: "start_of (all_builders raw) a = map_of (rev (raw_majorTags raw)) a"
  by (simp add: all_builders_def start_of_folds split: option.splits)

lemma keys_folds:
  "fst ` set (fold add_majorTag ms bs) = fst ` set ms \<union> fst ` set bs"
  "fst ` set (fold add_patchBranch ps bs) = (hd \<circ> fst) ` set ps \<union> fst ` set bs"
  "fst ` set (fold add_releaseTag rs bs) = (hd \<circ> fst) ` set rs \<union> fst ` set bs"
proof -
  show "fst ` set (fold add_majorTag ms bs) = fst ` set ms \<union> fst ` set bs"
    by (induction ms arbitrary: bs) auto
  show "fst ` set (fold add_patchBranch ps bs) = (hd \<circ> fst) ` set ps \<union> fst ` set bs"
    by (induction ps arbitrary: bs) auto
  show "fst ` set (fold add_releaseTag rs bs) = (hd \<circ> fst) ` set rs \<union> fst ` set bs"
    by (induction rs arbitrary: bs) auto
qed

definition raw_major_numbers :: "raw_data \<Rightarrow> int set" where
  "raw_major_numbers raw = (hd \<circ> fst) ` set (raw_releaseTags raw) \<union>
     (hd \<circ> fst) ` set (raw_patchBranches raw) \<union> fst ` set (raw_majorTags raw)"

lemma keys_all_builders: "fst ` set (all_builders raw) = raw_major_numbers raw"
  by (auto simp: all_builders_def keys_folds raw_major_numbers_def)

end
