(* ===== verification/Model_Reader.thy ===== *)
theory Model_Reader
  imports Repository_Model
begin

text \<open>
  \<open>backend/src/repositories/repository/repository-model-reader.ts\<close>: the questions that the
  other components ask of the model of a repository. A sha that is not well formed makes
  \<open>ShaRef.create\<close> throw, so that most answers are results.
\<close>

section \<open>Operations\<close>

datatype version_type = MINOR | PATCH

record write_branch =
  wb_sha :: string
  wb_branch :: ref
  wb_exists :: bool

definition getVersions :: "int \<Rightarrow> minor_container list \<Rightarrow> version list" where
  "getVersions mj ms =
     concat (map (\<lambda>m. map (\<lambda>r. Version [mj, mc_minor m, rel_patch r]) (mc_releases m)) ms)"

definition allVersions :: "root \<Rightarrow> version list" where
  "allVersions r =
     getVersions (main_major (root_main r)) (main_minors (root_main r)) @
     concat (map (\<lambda>m. getVersions (maj_major m) (maj_minors m)) (root_majors r))"

definition all_containers :: "root \<Rightarrow> top_container list" where
  "all_containers r = Top_Main (root_main r) # map Top_Major (root_majors r)"

definition top_containers :: "root \<Rightarrow> int \<Rightarrow> top_container list" where
  "top_containers r count =
     (if count > 0
      then Top_Main (root_main r) # map Top_Major (take (nat (count - 1)) (root_majors r))
      else [])"

definition find_major_container :: "root \<Rightarrow> int \<Rightarrow> major_container option" where
  "find_major_container r mj = List.find (\<lambda>m. maj_major m = mj) (root_majors r)"

definition findMajor :: "root \<Rightarrow> int \<Rightarrow> top_container option" where
  "findMajor r mj =
     (if mj = main_major (root_main r) then Some (Top_Main (root_main r))
      else map_option Top_Major (find_major_container r mj))"

definition findNextMajor :: "root \<Rightarrow> int \<Rightarrow> top_container option" where
  "findNextMajor r mj =
     (let all = all_containers r in
      case find_index (\<lambda>m. top_major m = mj) all of
        Some (Suc i) \<Rightarrow> Some (all ! i)
      | _ \<Rightarrow> None)"

definition findMinorBranch :: "int \<Rightarrow> int \<Rightarrow> minor_container list \<Rightarrow> entity option res" where
  "findMinorBranch mj mn ms =
     (case List.find (\<lambda>m. mc_minor m = mn) ms of
        None \<Rightarrow> Inr None
      | Some m \<Rightarrow>
          if truthy (mc_branch m)
          then res_bind (branch_create (''patch-'' @ show_int mj @ ''.'' @ show_int mn) (the (mc_branch m)))
            (\<lambda>b. Inr (Some b))
          else Inr None)"

definition findBranch :: "root \<Rightarrow> int \<Rightarrow> int option \<Rightarrow> entity option res" where
  "findBranch r mj minor =
     (let main = root_main r in
      if mj = main_major main then
        (case minor of
           Some mn \<Rightarrow> findMinorBranch mj mn (main_minors main)
         | None \<Rightarrow> res_bind (branch_create (mb_name (main_main main)) (mb_sha (main_main main)))
             (\<lambda>b. Inr (Some b)))
      else (case find_major_container r mj of
          None \<Rightarrow> Inr None
        | Some m \<Rightarrow>
            (case minor of
               Some mn \<Rightarrow> findMinorBranch mj mn (maj_minors m)
             | None \<Rightarrow>
                 (case maj_branch m of
                    Some sha \<Rightarrow> res_bind (branch_create (''patch-'' @ show_int mj) sha)
                      (\<lambda>b. Inr (Some b))
                  | None \<Rightarrow> Inr None))))"

definition getNextRelease :: "int \<Rightarrow> minor_container list \<Rightarrow> version_type \<Rightarrow> int list" where
  "getNextRelease mj ms vt =
     (case ms of
        [] \<Rightarrow> [mj, 0, 0]
      | lastMinor # _ \<Rightarrow>
          (case mc_releases lastMinor of
             [] \<Rightarrow> [mj, mc_minor lastMinor, 0]
           | lastRelease # _ \<Rightarrow>
               (case vt of
                  MINOR \<Rightarrow> [mj, mc_minor lastMinor + 1, 0]
                | PATCH \<Rightarrow> [mj, mc_minor lastMinor, rel_patch lastRelease + 1])))"

definition nextVersion :: "root \<Rightarrow> ref \<Rightarrow> version_type \<Rightarrow> version res" where
  "nextVersion r branch vt =
     (case normalize branch of
        None \<Rightarrow> Inl (Error (''Not a supported ref: '' @ ref_name branch))
      | Some (MainBranchRef n) \<Rightarrow>
          fromSegments (getNextRelease (main_major (root_main r)) (main_minors (root_main r)) vt)
      | Some (PatchBranchRef segs) \<Rightarrow>
          (case find_major_container r (hd segs) of
             Some m \<Rightarrow> fromSegments (getNextRelease (maj_major m) (maj_minors m) vt)
           | None \<Rightarrow> Inl (Error (''Could not release from '' @ ref_name branch @
               ''. Unknown major: '' @ show_int (hd segs) @ ''.'')))
      | Some (ReleaseTagRef segs) \<Rightarrow> Inl (Error ''Unknown branch type: ReleaseTagRef'')
      | Some (MajorTagRef m) \<Rightarrow> Inl (Error ''Unknown branch type: MajorTagRef''))"

definition some_sha :: "string \<Rightarrow> string option res" where
  "some_sha s = res_bind (sha_create s) (\<lambda>_. Inr (Some s))"

definition start_sha :: "string option \<Rightarrow> string option res" where
  "start_sha s = (if truthy s then some_sha (the s) else Inr None)"

definition resolveReadSha :: "root \<Rightarrow> int \<Rightarrow> string option res" where
  "resolveReadSha r mj =
     (let main = root_main r; majors = root_majors r in
      if main_major main = mj then some_sha (mb_sha (main_main main))
      else (case find_index (\<lambda>m. maj_major m = mj) majors of
          None \<Rightarrow> Inr None
        | Some i \<Rightarrow>
            if truthy (maj_branch (majors ! i)) then some_sha (the (maj_branch (majors ! i)))
            else (case i of
                0 \<Rightarrow> start_sha (main_start main)
              | Suc j \<Rightarrow> start_sha (maj_start (majors ! j)))))"

definition write_at :: "string \<Rightarrow> ref \<Rightarrow> bool \<Rightarrow> write_branch option res" where
  "write_at sha b ex =
     res_bind (sha_create sha) (\<lambda>_. Inr (Some \<lparr> wb_sha = sha, wb_branch = b, wb_exists = ex \<rparr>))"

definition resolveWriteBranch :: "root \<Rightarrow> int \<Rightarrow> write_branch option res" where
  "resolveWriteBranch r mj =
     (let main = root_main r; majors = root_majors r in
      if main_major main = mj then
        write_at (mb_sha (main_main main)) (BranchRef (mb_name (main_main main))) True
      else (case find_index (\<lambda>m. maj_major m = mj) majors of
          None \<Rightarrow> Inr None
        | Some i \<Rightarrow>
            let branchRef = BranchRef (''patch-'' @ show_int mj) in
            if truthy (maj_branch (majors ! i)) then
              write_at (the (maj_branch (majors ! i))) branchRef True
            else (case i of
                0 \<Rightarrow> if truthy (main_start main)
                     then write_at (the (main_start main)) branchRef False else Inr None
              | Suc j \<Rightarrow> if truthy (maj_start (majors ! j))
                     then write_at (the (maj_start (majors ! j))) branchRef False else Inr None)))"

definition MAX_SAFE_INTEGER :: int where
  "MAX_SAFE_INTEGER = 9007199254740991"

definition has_release :: "top_container \<Rightarrow> bool" where
  "has_release c \<longleftrightarrow> top_minors c \<noteq> [] \<and> mc_releases (hd (top_minors c)) \<noteq> []"

definition highestVersion :: "root \<Rightarrow> int option \<Rightarrow> version option" where
  "highestVersion r maxMajor =
     (let limit = (case maxMajor of Some n \<Rightarrow> n | None \<Rightarrow> MAX_SAFE_INTEGER);
          tops = filter (\<lambda>c. top_major c \<le> limit) (all_containers r)
      in case List.find has_release tops of
           Some c \<Rightarrow> (let minor = hd (top_minors c); release = hd (mc_releases minor)
              in Some (Version [top_major c, mc_minor minor, rel_patch release]))
         | None \<Rightarrow> None)"

definition versionSha :: "root \<Rightarrow> version \<Rightarrow> string option res" where
  "versionSha r v =
     (case segments v of
        [a, b, c] \<Rightarrow>
          (case findMajor r a of
             None \<Rightarrow> Inr None
           | Some m \<Rightarrow>
               (case List.find (\<lambda>mn. mc_minor mn = b) (top_minors m) of
                  None \<Rightarrow> Inr None
                | Some mn \<Rightarrow>
                    (case List.find (\<lambda>p. rel_patch p = c) (mc_releases mn) of
                       None \<Rightarrow> Inr None
                     | Some p \<Rightarrow> some_sha (rel_sha p))))
      | _ \<Rightarrow> Inr None)"

section \<open>The order of the containers\<close>

definition minors_ok :: "minor_container list \<Rightarrow> bool" where
  "minors_ok ms \<longleftrightarrow> descending mc_minor ms \<and>
     list_all (\<lambda>m. descending rel_patch (mc_releases m) \<and> mc_releases m \<noteq> [] \<and> mc_branch m = None) ms"

definition root_ok :: "root \<Rightarrow> bool" where
  "root_ok r \<longleftrightarrow> descending top_major (all_containers r) \<and>
     list_all (\<lambda>c. minors_ok (top_minors c)) (all_containers r)"

lemma build_minor_sel [simp]: "mc_minor (build_minor e) = fst e"
  "mc_releases (build_minor e) = buildReleases (snd e)" "mc_branch (build_minor e) = nb_branch (snd e)"
  by (simp_all add: build_minor_def)

lemma buildMajorContainer_sel [simp]: "maj_major (buildMajorContainer e) = fst e"
  "maj_minors (buildMajorContainer e) = buildMinors (snd e)"
  "maj_start (buildMajorContainer e) = jb_start (snd e)"
  "maj_branch (buildMajorContainer e) = jb_branch (snd e)"
  by (simp_all add: buildMajorContainer_def)

lemma buildMainContainer_sel [simp]: "main_major (buildMainContainer e n s) = fst e"
  "main_minors (buildMainContainer e n s) = buildMinors (snd e)"
  "main_start (buildMainContainer e n s) = jb_start (snd e)"
  "main_main (buildMainContainer e n s) = \<lparr> mb_name = n, mb_sha = s \<rparr>"
  by (simp_all add: buildMainContainer_def)

lemma map_sel_build:
  "map mc_minor (map build_minor ms) = map fst ms"
  "map maj_major (map buildMajorContainer bs) = map fst bs"
  by (simp_all add: comp_def)

lemma map_rel_patch: "map rel_patch (map (\<lambda>(p, s). \<lparr> rel_patch = p, rel_sha = s \<rparr>) rs) = map fst rs"
  by auto

lemma minors_ok_buildMinors:
  assumes "major_builder_ok jb"
  shows "minors_ok (buildMinors jb)"
proof -
  have "descending rel_patch (buildReleases nb)" "buildReleases nb \<noteq> []" "nb_branch nb = None"
    if "minor_builder_ok nb" for nb
    using that descending_sort_desc [of rel_patch "map (\<lambda>(p, s). \<lparr> rel_patch = p, rel_sha = s \<rparr>) (nb_releases nb)"]
    by (auto simp only: map_rel_patch minor_builder_ok_def buildReleases_def sort_desc_Nil_iff list.map_disc_iff)
  moreover have "descending mc_minor (buildMinors jb)"
    using assms unfolding buildMinors_def
    by (intro descending_sort_desc) (simp only: map_sel_build major_builder_ok_def)
  ultimately show ?thesis using assms
    by (auto simp: minors_ok_def list_all_iff buildMinors_def major_builder_ok_def)
qed

lemma convertModel_cases:
  obtains (none) "all_builders raw = []" "convertModel raw =
      \<lparr> root_main = \<lparr> main_major = 0,
          main_main = \<lparr> mb_name = fst (raw_main raw), mb_sha = snd (raw_main raw) \<rparr>,
          main_minors = [], main_start = None \<rparr>, root_majors = [] \<rparr>"
  | (some) hb where "hb \<in> set (all_builders raw)"
      "\<And>e. e \<in> set (all_builders raw) \<Longrightarrow> fst e \<le> fst hb"
      "convertModel raw =
      \<lparr> root_main = buildMainContainer hb (fst (raw_main raw)) (snd (raw_main raw)),
        root_majors = sort_desc maj_major
          (map buildMajorContainer (AList.delete (fst hb) (all_builders raw))) \<rparr>"
proof (cases "max_by fst (all_builders raw)")
  case None
  then show ?thesis by (intro none) (auto simp: convertModel_def Let_def split_beta)
next
  case (Some hb)
  with max_by_Some [OF Some] show ?thesis
    by (intro some [of hb]) (auto simp: convertModel_def Let_def split_beta)
qed

lemma distinct_delete_keys: "distinct (map fst al) \<Longrightarrow> distinct (map fst (AList.delete k al))"
  by (simp add: distinct_delete)

lemma root_ok_convertModel: "root_ok (convertModel raw)"
proof (cases rule: convertModel_cases [of raw])
  case none
  then show ?thesis by (simp add: root_ok_def all_containers_def minors_ok_def)
next
  case (some hb)
  let ?bs = "all_builders raw"
  let ?del = "AList.delete (fst hb) ?bs"
  have ok: "distinct (map fst ?bs)" "\<And>e. e \<in> set ?bs \<Longrightarrow> major_builder_ok (snd e)"
    using all_builders_ok [of raw] by (auto simp: builders_ok_def list_all_iff)
  have del: "set ?del = {e \<in> set ?bs. fst e \<noteq> fst hb}" by (auto simp: AList.delete_eq)
  have "descending maj_major (root_majors (convertModel raw))"
    unfolding some(3) using ok(1)
    by (simp, intro descending_sort_desc) (simp only: map_sel_build distinct_delete_keys)
  then have "descending top_major (map Top_Major (root_majors (convertModel raw)))"
    by (simp add: descending_def sorted_wrt_map)
  moreover have "\<forall>c \<in> set (root_majors (convertModel raw)). maj_major c < fst hb"
    using some(2) by (fastforce simp: some(3) del le_less)
  moreover have "minors_ok (maj_minors c)" if "c \<in> set (root_majors (convertModel raw))" for c
    using that ok(2) by (auto simp: some(3) del intro!: minors_ok_buildMinors)
  moreover have "minors_ok (buildMinors (snd hb))" using some(1) ok(2) by (intro minors_ok_buildMinors)
  ultimately show ?thesis
    by (auto simp: root_ok_def all_containers_def list_all_iff some(3))
qed

section \<open>Looking up a release\<close>

text \<open>The release that the containers hold, before its sha is checked.\<close>

definition model_release :: "root \<Rightarrow> int \<Rightarrow> int \<Rightarrow> int \<Rightarrow> string option" where
  "model_release r a b c =
     Option.bind (findMajor r a) (\<lambda>m.
     Option.bind (List.find (\<lambda>mn. mc_minor mn = b) (top_minors m)) (\<lambda>mn.
     map_option rel_sha (List.find (\<lambda>p. rel_patch p = c) (mc_releases mn))))"

lemma versionSha_model_release:
  "versionSha r (Version [a, b, c]) =
     (case model_release r a b c of None \<Rightarrow> Inr None | Some s \<Rightarrow> some_sha s)"
  by (simp add: versionSha_def model_release_def split: option.splits bind_split)

lemma find_release:
  "minor_builder_ok nb \<Longrightarrow>
   map_option rel_sha (List.find (\<lambda>p. rel_patch p = c) (buildReleases nb)) = map_of (nb_releases nb) c"
  unfolding buildReleases_def minor_builder_ok_def
  by (subst find_sort_desc) (auto simp: map_rel_patch find_map_keyed option.map_comp comp_def
      option.map_ident split_beta)

lemma find_minor:
  "major_builder_ok jb \<Longrightarrow>
   List.find (\<lambda>mn. mc_minor mn = b) (buildMinors jb) =
     map_option (\<lambda>nb. build_minor (b, nb)) (map_of (jb_minors jb) b)"
  unfolding buildMinors_def major_builder_ok_def
  by (subst find_sort_desc) (simp_all only: map_sel_build find_map_keyed build_minor_sel)

lemma find_major_convertModel:
  assumes "convertModel raw = \<lparr> root_main = m, root_majors = sort_desc maj_major
      (map buildMajorContainer (AList.delete k (all_builders raw))) \<rparr>"
  shows "find_major_container (convertModel raw) a =
    (if a = k then None else map_option (\<lambda>jb. buildMajorContainer (a, jb)) (map_of (all_builders raw) a))"
proof -
  have "distinct (map fst (AList.delete k (all_builders raw)))"
    using all_builders_ok [of raw] by (simp add: builders_ok_def distinct_delete_keys)
  then have "find_major_container (convertModel raw) a =
      List.find (\<lambda>m. maj_major m = a) (map buildMajorContainer (AList.delete k (all_builders raw)))"
    unfolding find_major_container_def assms
    by (simp del: map_map, intro find_sort_desc) (simp only: map_sel_build)
  also have "\<dots> = map_option (\<lambda>jb. buildMajorContainer (a, jb)) (map_of (AList.delete k (all_builders raw)) a)"
    by (rule find_map_keyed) simp
  finally show ?thesis by (simp add: delete_conv')
qed

lemma builder_ok_at: "map_of (all_builders raw) a = Some jb \<Longrightarrow> major_builder_ok jb"
  using all_builders_ok [of raw] by (auto simp: builders_ok_def list_all_iff dest: map_of_SomeD)

lemma findMajor_convertModel:
  "(case findMajor (convertModel raw) a of None \<Rightarrow> [] | Some m \<Rightarrow> top_minors m) =
   (case map_of (all_builders raw) a of None \<Rightarrow> [] | Some jb \<Rightarrow> buildMinors jb)"
proof (cases rule: convertModel_cases [of raw])
  case none
  then show ?thesis by (simp add: findMajor_def find_major_container_def)
next
  case (some hb)
  have "map_of (all_builders raw) (fst hb) = Some (snd hb)"
    using some(1) all_builders_ok [of raw] by (simp add: builders_ok_def)
  then show ?thesis
    using find_major_convertModel [OF some(3), of a]
    by (auto simp: findMajor_def some(3) split: option.splits)
qed

lemma model_release_convertModel:
  "model_release (convertModel raw) a b c = map_of (rev (raw_releaseTags raw)) [a, b, c]"
proof -
  have "model_release (convertModel raw) a b c =
     Option.bind (List.find (\<lambda>mn. mc_minor mn = b)
       (case findMajor (convertModel raw) a of None \<Rightarrow> [] | Some m \<Rightarrow> top_minors m))
     (\<lambda>mn. map_option rel_sha (List.find (\<lambda>p. rel_patch p = c) (mc_releases mn)))"
    by (simp add: model_release_def split: option.splits)
  also have "\<dots> = release_of (all_builders raw) a b c"
  proof (cases "map_of (all_builders raw) a")
    case None
    then show ?thesis by (simp add: findMajor_convertModel release_of_def)
  next
    case (Some jb)
    note ok = builder_ok_at [OF Some]
    have "minor_builder_ok nb" if "map_of (jb_minors jb) b = Some nb" for nb
      using ok that by (auto simp: major_builder_ok_def list_all_iff dest: map_of_SomeD)
    then show ?thesis
      by (cases "map_of (jb_minors jb) b")
        (simp_all add: findMajor_convertModel release_of_def Some find_minor [OF ok] find_release)
  qed
  finally show ?thesis by (simp add: release_of_all_builders)
qed

section \<open>All versions\<close>

lemma set_getVersions:
  "v \<in> set (getVersions mj ms) \<longleftrightarrow>
   (\<exists>m \<in> set ms. \<exists>p \<in> set (mc_releases m). v = Version [mj, mc_minor m, rel_patch p])"
  by (auto simp: getVersions_def)

lemma set_allVersions:
  "set (allVersions r) = (\<Union>c \<in> set (all_containers r). set (getVersions (top_major c) (top_minors c)))"
  by (auto simp: allVersions_def all_containers_def)

lemma getVersions_major: "v \<in> set (getVersions mj ms) \<Longrightarrow> major_of v = mj"
  by (auto simp: set_getVersions major_of_def)

lemma compare3:
  "Version [a, b, c] < Version [a', b', c'] \<longleftrightarrow>
   a < a' \<or> (a = a' \<and> (b < b' \<or> (b = b' \<and> c < c')))"
  "Version [a, b, c] \<le> Version [a', b', c'] \<longleftrightarrow>
   a < a' \<or> (a = a' \<and> (b < b' \<or> (b = b' \<and> c \<le> c')))"
  by (auto simp: Let_def)

text \<open>The first release of the first minor is the greatest version of a container.\<close>

lemma getVersions_hd:
  assumes "minors_ok ms" and "v \<in> set (getVersions mj ms)"
  shows "ms \<noteq> [] \<and> mc_releases (hd ms) \<noteq> [] \<and>
    v \<le> Version [mj, mc_minor (hd ms), rel_patch (hd (mc_releases (hd ms)))]"
proof -
  obtain m p where mp: "m \<in> set ms" "p \<in> set (mc_releases m)" "v = Version [mj, mc_minor m, rel_patch p]"
    using assms(2) by (auto simp: set_getVersions)
  then obtain m0 ms' where ms: "ms = m0 # ms'" by (cases ms) auto
  with assms(1) have r0: "mc_releases m0 \<noteq> []" "descending rel_patch (mc_releases m0)"
    by (auto simp: minors_ok_def)
  have "mc_minor m < mc_minor m0 \<or> m = m0" using assms(1) mp(1) ms by (auto simp: minors_ok_def)
  then have "v \<le> Version [mj, mc_minor m0, rel_patch (hd (mc_releases m0))]"
    using mp r0 descending_hd [of rel_patch "mc_releases m0" p] by (auto simp only: compare3 mp(3))
  with ms r0 show ?thesis by simp
qed

lemma getNextRelease_greater:
  assumes "minors_ok ms" and "v \<in> set (getVersions mj ms)"
  shows "v < Version (getNextRelease mj ms vt)"
proof -
  obtain m0 ms' r0 rs where ms: "ms = m0 # ms'" "mc_releases m0 = r0 # rs"
    using getVersions_hd [OF assms] by (metis hd_Cons_tl)
  have "v \<le> Version [mj, mc_minor m0, rel_patch r0]" using getVersions_hd [OF assms] ms by simp
  also have "\<dots> < Version (getNextRelease mj ms vt)"
    by (cases vt) (simp_all add: getNextRelease_def ms Let_def)
  finally show ?thesis .
qed

lemma getNextRelease_shape:
  "hd (getNextRelease mj ms vt) = mj \<and> length (getNextRelease mj ms vt) = 3"
  by (auto simp: getNextRelease_def split: list.splits version_type.splits)

lemma all_containers_unique:
  "root_ok r \<Longrightarrow> c \<in> set (all_containers r) \<Longrightarrow> d \<in> set (all_containers r) \<Longrightarrow>
   top_major c = top_major d \<Longrightarrow> c = d"
  using descending_distinct [of top_major "all_containers r"]
  by (auto simp: root_ok_def distinct_map dest: inj_onD)

lemma next_release_fresh:
  assumes ok: "root_ok r" and c: "c \<in> set (all_containers r)"
    and w: "w \<in> set (allVersions r)" "major_of w = top_major c"
  shows "w < Version (getNextRelease (top_major c) (top_minors c) vt)"
proof -
  obtain d where d: "d \<in> set (all_containers r)" "w \<in> set (getVersions (top_major d) (top_minors d))"
    using w(1) by (auto simp: set_allVersions)
  with w(2) have "top_major d = top_major c" by (simp add: getVersions_major)
  with ok c d have "d = c" by (intro all_containers_unique)
  moreover have "minors_ok (top_minors c)" using ok c by (simp add: root_ok_def list_all_iff)
  ultimately show ?thesis using d getNextRelease_greater by simp
qed

lemma nextVersion_container:
  assumes "nextVersion r b vt = Inr v"
  obtains c where "c \<in> set (all_containers r)"
    "v = Version (getNextRelease (top_major c) (top_minors c) vt)"
    "case normalize b of Some (PatchBranchRef segs) \<Rightarrow> top_major c = hd segs
     | _ \<Rightarrow> c = Top_Main (root_main r)"
proof -
  consider n where "normalize b = Some (MainBranchRef n)"
      "fromSegments (getNextRelease (main_major (root_main r)) (main_minors (root_main r)) vt) = Inr v"
    | segs m where "normalize b = Some (PatchBranchRef segs)" "find_major_container r (hd segs) = Some m"
      "fromSegments (getNextRelease (maj_major m) (maj_minors m) vt) = Inr v"
    using assms by (auto simp: nextVersion_def split: option.splits normalized.splits)
  then show ?thesis
  proof cases
    case 1
    then show ?thesis by (intro that [of "Top_Main (root_main r)"]) (auto simp: all_containers_def)
  next
    case 2
    then have "m \<in> set (root_majors r)" "maj_major m = hd segs"
      unfolding find_major_container_def by (auto simp: find_Some_iff)
    with 2 show ?thesis by (intro that [of "Top_Major m"]) (auto simp: all_containers_def)
  qed
qed

section \<open>The highest version\<close>

lemma find_has_release:
  assumes "descending top_major cs" and "list_all (\<lambda>c. minors_ok (top_minors c)) cs"
  shows "(case List.find has_release cs of
      None \<Rightarrow> (\<Union>c \<in> set cs. set (getVersions (top_major c) (top_minors c))) = {}
    | Some c \<Rightarrow>
        let v = Version [top_major c, mc_minor (hd (top_minors c)), rel_patch (hd (mc_releases (hd (top_minors c))))] in
        v \<in> (\<Union>c \<in> set cs. set (getVersions (top_major c) (top_minors c))) \<and>
        (\<forall>w \<in> (\<Union>c \<in> set cs. set (getVersions (top_major c) (top_minors c))). w \<le> v))"
  using assms
proof (induction cs)
  case (Cons c cs)
  show ?case
  proof (cases "has_release c")
    case True
    then obtain m ms p ps where c: "top_minors c = m # ms" "mc_releases m = p # ps"
      by (auto simp: has_release_def neq_Nil_conv)
    let ?v = "Version [top_major c, mc_minor m, rel_patch p]"
    have "?v \<in> set (getVersions (top_major c) (top_minors c))"
      by (auto simp: set_getVersions c)
    moreover have "w \<le> ?v" if "w \<in> set (getVersions (top_major c) (top_minors c))" for w
      using getVersions_hd [OF _ that] Cons.prems c by simp
    moreover have "w \<le> ?v" if "d \<in> set cs" "w \<in> set (getVersions (top_major d) (top_minors d))" for d w
      using Cons.prems that by (auto simp: set_getVersions compare_segments_Cons_le simp del: compare_segments.simps)
    ultimately show ?thesis using True c by auto
  next
    case False
    have "set (getVersions (top_major c) (top_minors c)) = {}"
    proof (rule equals0I)
      fix v assume "v \<in> set (getVersions (top_major c) (top_minors c))"
      from getVersions_hd [OF _ this] Cons.prems False show "False"
        by (auto simp: has_release_def)
    qed
    with Cons False show ?thesis by (simp add: Let_def split: option.splits)
  qed
qed simp

lemma highestVersion_root_ok:
  assumes "root_ok r"
  shows "highestVersion r mx =
     (let q = filter (\<lambda>v. major_of v \<le> (case mx of Some n \<Rightarrow> n | None \<Rightarrow> MAX_SAFE_INTEGER))
                (allVersions r)
      in if q = [] then None else Some (Max (set q)))"
proof -
  define limit where "limit = (case mx of Some n \<Rightarrow> n | None \<Rightarrow> MAX_SAFE_INTEGER)"
  define q where "q = filter (\<lambda>v. major_of v \<le> limit) (allVersions r)"
  let ?cs = "filter (\<lambda>c. top_major c \<le> limit) (all_containers r)"
  let ?U = "\<Union>c \<in> set ?cs. set (getVersions (top_major c) (top_minors c))"
  have U: "?U = set q" by (auto simp: q_def set_allVersions) (metis getVersions_major)+
  have "descending top_major ?cs" "list_all (\<lambda>c. minors_ok (top_minors c)) ?cs"
    using assms by (auto simp: root_ok_def descending_def sorted_wrt_filter list_all_iff)
  note f = find_has_release [OF this, unfolded U]
  show ?thesis
  proof (cases "List.find has_release ?cs")
    case None
    with f show ?thesis by (simp add: highestVersion_def flip: limit_def q_def)
  next
    case (Some c)
    let ?v = "Version [top_major c, mc_minor (hd (top_minors c)), rel_patch (hd (mc_releases (hd (top_minors c))))]"
    from f Some have "?v \<in> set q" "\<forall>w \<in> set q. w \<le> ?v" by (simp_all add: Let_def)
    then have "Max (set q) = ?v" "q \<noteq> []" by (auto intro: Max_eqI)
    with Some show ?thesis by (simp add: highestVersion_def Let_def flip: limit_def q_def)
  qed
qed

section \<open>Branches\<close>

definition highest_major :: "raw_data \<Rightarrow> int" where
  "highest_major raw = (if raw_major_numbers raw = {} then 0 else Max (raw_major_numbers raw))"

lemma delete_set: "set (AList.delete k al) = {e \<in> set al. fst e \<noteq> k}"
  by (auto simp: AList.delete_eq)

lemma convertModel_main:
  "main_major (root_main (convertModel raw)) = highest_major raw"
  "main_main (root_main (convertModel raw)) = \<lparr> mb_name = fst (raw_main raw), mb_sha = snd (raw_main raw) \<rparr>"
proof (atomize (full), cases rule: convertModel_cases [of raw])
  case none
  then show "main_major (root_main (convertModel raw)) = highest_major raw \<and>
    main_main (root_main (convertModel raw)) = \<lparr> mb_name = fst (raw_main raw), mb_sha = snd (raw_main raw) \<rparr>"
    using keys_all_builders [of raw] by (simp add: highest_major_def)
next
  case (some hb)
  have "Max (raw_major_numbers raw) = fst hb"
    unfolding keys_all_builders [symmetric] using some(1,2) by (intro Max_eqI) auto
  then show "main_major (root_main (convertModel raw)) = highest_major raw \<and>
    main_main (root_main (convertModel raw)) = \<lparr> mb_name = fst (raw_main raw), mb_sha = snd (raw_main raw) \<rparr>"
    using keys_all_builders [of raw] some(1) by (auto simp: highest_major_def some(3))
qed

lemma convertModel_containers:
  assumes "raw_major_numbers raw \<noteq> {}"
  shows "top_major ` set (all_containers (convertModel raw)) = raw_major_numbers raw \<and>
    list_all (\<lambda>c. top_start c = start_of (all_builders raw) (top_major c)) (all_containers (convertModel raw)) \<and>
    list_all (\<lambda>m. maj_branch m = branch_of (all_builders raw) (maj_major m)) (root_majors (convertModel raw))"
proof (cases rule: convertModel_cases [of raw])
  case none
  with assms keys_all_builders [of raw] show ?thesis by simp
next
  case (some hb)
  have dist: "distinct (map fst (all_builders raw))"
    using all_builders_ok [of raw] by (simp add: builders_ok_def)
  then have at: "map_of (all_builders raw) (fst e) = Some (snd e)" if "e \<in> set (all_builders raw)" for e
    using that by simp
  have "top_major ` set (all_containers (convertModel raw)) = fst ` set (all_builders raw)"
    using some(1) by (auto simp: all_containers_def some(3) image_image delete_set)
  with at some(1) show ?thesis
    by (auto simp: keys_all_builders all_containers_def some(3) list_all_iff delete_set
        start_of_def branch_of_def)
qed

text \<open>The branch to write to, in terms of the containers in their order.\<close>

lemma resolveWriteBranch_index:
  assumes "main_major (root_main r) \<noteq> mj" and "find_index (\<lambda>m. maj_major m = mj) (root_majors r) = Some i"
  shows "resolveWriteBranch r mj =
    (let b = maj_branch (root_majors r ! i); s = top_start (all_containers r ! i);
         ref = BranchRef (''patch-'' @ show_int mj) in
     if truthy b then write_at (the b) ref True
     else if truthy s then write_at (the s) ref False else Inr None)"
proof -
  have "i < length (root_majors r)" using find_index_Some [OF assms(2)] by simp
  then show ?thesis using assms
    by (cases i) (auto simp: resolveWriteBranch_def all_containers_def Let_def)
qed

lemma key_of_index:
  assumes "mj \<in> raw_major_numbers raw" and "mj \<noteq> highest_major raw"
  shows "mj \<in> maj_major ` set (root_majors (convertModel raw))"
proof -
  have "raw_major_numbers raw \<noteq> {}" using assms(1) by blast
  from conjunct1 [OF convertModel_containers [OF this]] assms(1)
  have "mj \<in> top_major ` set (all_containers (convertModel raw))" by simp
  with assms(2) show ?thesis by (auto simp: all_containers_def convertModel_main)
qed

lemma majors_nonempty:
  assumes "m \<in> set (root_majors (convertModel raw))"
  shows "raw_major_numbers raw \<noteq> {}"
proof
  assume "raw_major_numbers raw = {}"
  then have "all_builders raw = []" using keys_all_builders [of raw] by simp
  then have "root_majors (convertModel raw) = []" by (simp add: convertModel_def split_beta)
  with assms show False by simp
qed

lemma major_at_index:
  fixes raw i
  defines "r \<equiv> convertModel raw"
  assumes i: "i < length (root_majors r)"
  shows "maj_major (root_majors r ! i) \<in> raw_major_numbers raw \<and>
    maj_branch (root_majors r ! i) = branch_of (all_builders raw) (maj_major (root_majors r ! i)) \<and>
    top_start (all_containers r ! i) = start_of (all_builders raw)
      (Min {k \<in> raw_major_numbers raw. maj_major (root_majors r ! i) < k})"
proof -
  let ?all = "all_containers r"
  have m: "root_majors r ! i \<in> set (root_majors r)" using i by simp
  then have ne: "raw_major_numbers raw \<noteq> {}" unfolding r_def by (rule majors_nonempty)
  note c = convertModel_containers [OF ne, folded r_def]
  have suc: "Suc i < length ?all" "?all ! Suc i = Top_Major (root_majors r ! i)"
    using i by (simp_all add: all_containers_def)
  have "?all ! Suc i \<in> set ?all" using suc(1) by (rule nth_mem)
  then have "maj_major (root_majors r ! i) \<in> top_major ` set ?all"
    unfolding suc(2) by (rule rev_image_eqI) simp
  moreover have "descending top_major ?all"
    using root_ok_convertModel [of raw] by (simp add: root_ok_def r_def)
  from descending_predecessor [OF this suc(1)]
  have "top_major (?all ! i) = Min {k \<in> raw_major_numbers raw. maj_major (root_majors r ! i) < k}"
    by (simp only: conjunct1 [OF c] suc(2) top_major.simps)
  moreover have "top_start (?all ! i) = start_of (all_builders raw) (top_major (?all ! i))"
    using conjunct1 [OF conjunct2 [OF c]] suc(1) by (simp add: list_all_length)
  moreover have "maj_branch (root_majors r ! i) = branch_of (all_builders raw) (maj_major (root_majors r ! i))"
    using conjunct2 [OF conjunct2 [OF c]] m by (simp add: list_all_iff)
  ultimately show ?thesis by (simp only: conjunct1 [OF c])
qed

lemma resolveWriteBranch_convertModel:
  "resolveWriteBranch (convertModel raw) mj =
     (let ref = BranchRef (''patch-'' @ show_int mj);
          branch = branch_of (all_builders raw) mj;
          start = start_of (all_builders raw) (Min {k \<in> raw_major_numbers raw. mj < k})
      in if mj = highest_major raw then write_at (snd (raw_main raw)) (BranchRef (fst (raw_main raw))) True
         else if mj \<notin> raw_major_numbers raw then Inr None
         else if truthy branch then write_at (the branch) ref True
         else if truthy start then write_at (the start) ref False
         else Inr None)"
proof (cases "mj = highest_major raw")
  case True
  then show ?thesis by (simp add: resolveWriteBranch_def convertModel_main Let_def)
next
  case False
  let ?r = "convertModel raw"
  from False have main: "main_major (root_main ?r) \<noteq> mj" by (simp add: convertModel_main)
  show ?thesis
  proof (cases "find_index (\<lambda>m. maj_major m = mj) (root_majors ?r)")
    case None
    then have "mj \<notin> maj_major ` set (root_majors ?r)" by (auto simp: find_index_None)
    then have "mj \<notin> raw_major_numbers raw" using key_of_index False by blast
    with None False main show ?thesis by (simp add: resolveWriteBranch_def)
  next
    case (Some i)
    then have "i < length (root_majors ?r)" "maj_major (root_majors ?r ! i) = mj"
      using find_index_Some [OF Some] by simp_all
    with major_at_index [of i raw] resolveWriteBranch_index [OF main Some] False
    show ?thesis by (simp add: Let_def)
  qed
qed

lemma find_major_container_Some:
  "find_major_container r mj = Some m \<Longrightarrow> m \<in> set (root_majors r) \<and> maj_major m = mj"
  unfolding find_major_container_def by (auto simp: find_Some_iff)

lemma find_major_container_None:
  "find_major_container r mj = None \<longleftrightarrow> mj \<notin> maj_major ` set (root_majors r)"
  unfolding find_major_container_def by (rule find_key_None)

lemma findMinorBranch_none:
  assumes "root_ok r" and "c \<in> set (all_containers r)"
  shows "findMinorBranch mj mn (top_minors c) = Inr None"
proof (cases "List.find (\<lambda>m. mc_minor m = mn) (top_minors c)")
  case (Some m)
  then have "m \<in> set (top_minors c)" by (auto simp: find_Some_iff)
  then have "mc_branch m = None" using assms by (auto simp: root_ok_def minors_ok_def list_all_iff)
  with Some show ?thesis by (simp add: findMinorBranch_def)
qed (simp add: findMinorBranch_def)

lemma findBranch_minor: "findBranch (convertModel raw) mj (Some mn) = Inr None"
proof -
  note none = findMinorBranch_none [OF root_ok_convertModel, of _ raw mj mn]
  have "Top_Major m \<in> set (all_containers (convertModel raw))"
    if "find_major_container (convertModel raw) mj = Some m" for m
    using find_major_container_Some [OF that] by (simp add: all_containers_def)
  with none [of "Top_Main (root_main (convertModel raw))"] none [of "Top_Major m" for m]
  show ?thesis by (auto simp: findBranch_def Let_def all_containers_def split: option.splits)
qed

lemma branch_of_key: "branch_of (all_builders raw) mj = Some s \<Longrightarrow> mj \<in> raw_major_numbers raw"
  using keys_all_builders [of raw]
  by (force simp: branch_of_def bind_eq_Some_conv dest: map_of_SomeD)

lemma findBranch_major:
  "findBranch (convertModel raw) mj None =
     (if mj = highest_major raw then
        res_bind (branch_create (fst (raw_main raw)) (snd (raw_main raw))) (\<lambda>b. Inr (Some b))
      else case branch_of (all_builders raw) mj of
          None \<Rightarrow> Inr None
        | Some sha \<Rightarrow> res_bind (branch_create (''patch-'' @ show_int mj) sha) (\<lambda>b. Inr (Some b)))"
proof (cases "find_major_container (convertModel raw) mj")
  case None
  have "branch_of (all_builders raw) mj = None" if "mj \<noteq> highest_major raw"
  proof (rule ccontr)
    assume "branch_of (all_builders raw) mj \<noteq> None"
    then have k: "mj \<in> raw_major_numbers raw" using branch_of_key by blast
    from key_of_index [OF this that] None show False by (simp add: find_major_container_None)
  qed
  with None show ?thesis by (simp add: findBranch_def Let_def convertModel_main)
next
  case (Some m)
  note m = find_major_container_Some [OF Some]
  have "raw_major_numbers raw \<noteq> {}" using m majors_nonempty by blast
  from convertModel_containers [OF this] m have "maj_branch m = branch_of (all_builders raw) mj"
    by (auto simp: list_all_iff)
  with Some show ?thesis by (simp add: findBranch_def Let_def convertModel_main)
qed

section \<open>Properties\<close>

text \<open>C27
  The conversion establishes the order that every reader relies on: majors strictly descend
  with the main major first, minors strictly descend in every major, releases in every
  minor, and no minor is without a release.
\<close>

theorem convertModel_ordered:
  "descending top_major (all_containers (convertModel raw)) \<and>
   list_all (\<lambda>c. descending mc_minor (top_minors c) \<and>
     list_all (\<lambda>m. mc_releases m \<noteq> [] \<and> descending rel_patch (mc_releases m)) (top_minors c))
     (all_containers (convertModel raw))"
  using root_ok_convertModel [of raw] by (auto simp: root_ok_def minors_ok_def list_all_iff)

text \<open>
  The model answers for releases what the tags of the repository say: \<open>versionSha\<close> on the
  converted model is the sha of the last release tag with the numbers of the version, is
  undefined exactly when there is no such tag, and throws exactly when that sha is not well
  formed; a version that does not have three segments has no sha.
\<close>

theorem versionSha_is_last_tag:
  "versionSha (convertModel raw) (Version segs) =
     (if length segs \<noteq> 3 then Inr None
      else case map_of (rev (raw_releaseTags raw)) segs of
          None \<Rightarrow> Inr None
        | Some sha \<Rightarrow>
            if is_sha sha then Inr (Some sha) else Inl (Error (''Bad sha ref: '' @ sha)))"
proof (cases "length segs = 3")
  case True
  then obtain a b c where "segs = [a, b, c]" by (auto simp: numeral_3_eq_3 length_Suc_conv)
  then show ?thesis
    by (simp add: versionSha_model_release model_release_convertModel some_sha_def sha_create_def
        split: option.splits)
next
  case False
  then show ?thesis by (auto simp: versionSha_def split: list.splits)
qed

text \<open>C7
  \<open>nextVersion\<close> never proposes a version that exists: on a converted model, whatever the
  branch and the kind of step, a proposed version is greater than every released version of
  its major, hence new, and its major is the main major for \<open>main\<close> and \<open>master\<close>, and
  the number of the branch for a patch branch.
\<close>

theorem nextVersion_is_new:
  assumes "nextVersion (convertModel raw) b vt = Inr v"
  shows "list_all (\<lambda>w. major_of w \<noteq> major_of v \<or> w < v) (allVersions (convertModel raw)) \<and>
    v \<notin> set (allVersions (convertModel raw)) \<and>
    (case normalize b of
       Some (PatchBranchRef segs) \<Rightarrow> major_of v = hd segs
     | _ \<Rightarrow> major_of v = main_major (root_main (convertModel raw)))"
proof -
  let ?r = "convertModel raw"
  from assms obtain c where c: "c \<in> set (all_containers ?r)"
    and v: "v = Version (getNextRelease (top_major c) (top_minors c) vt)"
    and b: "case normalize b of Some (PatchBranchRef segs) \<Rightarrow> top_major c = hd segs
     | _ \<Rightarrow> c = Top_Main (root_main ?r)"
    by (rule nextVersion_container)
  have m: "major_of v = top_major c" by (simp add: v major_of_def getNextRelease_shape)
  have new: "w < v" if "w \<in> set (allVersions ?r)" "major_of w = major_of v" for w
    unfolding v using root_ok_convertModel c that by (intro next_release_fresh) (simp_all add: m)
  then have "v \<notin> set (allVersions ?r)" by blast
  with new b m show ?thesis by (auto simp: list_all_iff split: option.splits normalized.splits)
qed

theorem nextVersion_is_new_witness:
  "nextVersion (convertModel \<lparr> raw_main = (''master'', ''s''), raw_releaseTags = [([1, 0, 0], ''a''), ([1, 2, 5], ''b'')],
      raw_patchBranches = [], raw_majorTags = [] \<rparr>) (BranchRef ''master'') PATCH = Inr (Version [1, 2, 6]) \<and>
   Version [1, 2, 6] \<notin> set (allVersions (convertModel \<lparr> raw_main = (''master'', ''s''),
      raw_releaseTags = [([1, 0, 0], ''a''), ([1, 2, 5], ''b'')], raw_patchBranches = [], raw_majorTags = [] \<rparr>))"
proof -
  let ?raw = "\<lparr> raw_main = (''master'', ''s''), raw_releaseTags = [([1, 0, 0], ''a''), ([1, 2, 5], ''b'')],
      raw_patchBranches = [], raw_majorTags = [] \<rparr>"
  have "nextVersion (convertModel ?raw) (BranchRef ''master'') PATCH = Inr (Version [1, 2, 6])"
    by code_simp
  with nextVersion_is_new [OF this] show ?thesis by simp
qed

text \<open>
  \<open>highestVersion(max)\<close> on a converted model is the greatest of all its versions whose major
  is at most the limit (the largest safe integer when there is none), and undefined exactly
  when there is no such version.
\<close>

theorem highestVersion_is_max:
  "highestVersion (convertModel raw) mx =
     (let q = filter (\<lambda>v. major_of v \<le> (case mx of Some n \<Rightarrow> n | None \<Rightarrow> MAX_SAFE_INTEGER))
                (allVersions (convertModel raw))
      in if q = [] then None else Some (Max (set q)))"
  using highestVersion_root_ok [OF root_ok_convertModel] .

text \<open>
  Where changes for a major are written, on a converted model: to the main branch for the
  highest major that any tag or patch branch names (0 when there is none); for another
  major that is named, to its patch branch, at the sha of the last patch branch of that
  major when there is one, else at the start of the next higher major, as a branch that
  does not exist yet; and nowhere otherwise.
\<close>

theorem resolveWriteBranch_spec:
  "resolveWriteBranch (convertModel raw) mj =
     (let ref = BranchRef (''patch-'' @ show_int mj);
          branch = map_of (rev (map (\<lambda>p. (hd (fst p), snd p)) (raw_patchBranches raw))) mj;
          start = map_of (rev (raw_majorTags raw)) (Min {k \<in> raw_major_numbers raw. mj < k})
      in if mj = highest_major raw then write_at (snd (raw_main raw)) (BranchRef (fst (raw_main raw))) True
         else if mj \<notin> raw_major_numbers raw then Inr None
         else if truthy branch then write_at (the branch) ref True
         else if truthy start then write_at (the start) ref False
         else Inr None)"
  by (simp only: resolveWriteBranch_convertModel branch_of_all_builders start_of_all_builders)

text \<open>
  Reading and writing agree: for every model and major, the sha to read is the sha of the
  branch to write to, with the same errors and the same undefined answers.
\<close>

theorem readSha_is_write_sha:
  "resolveReadSha r mj =
     (case resolveWriteBranch r mj of
        Inl e \<Rightarrow> Inl e
      | Inr None \<Rightarrow> Inr None
      | Inr (Some w) \<Rightarrow> Inr (Some (wb_sha w)))"
proof -
  have sha: "some_sha s = (case write_at s b ex of Inl e \<Rightarrow> Inl e | Inr None \<Rightarrow> Inr None
      | Inr (Some w) \<Rightarrow> Inr (Some (wb_sha w)))" for s b ex
    by (simp add: some_sha_def write_at_def sha_create_def)
  show ?thesis
    by (cases "find_index (\<lambda>m. maj_major m = mj) (root_majors r)")
      (auto simp: resolveReadSha_def resolveWriteBranch_def Let_def start_sha_def
        sha [of _ _ True] sha [of _ _ False] split: nat.splits)
qed

text \<open>
  Patch branches of minors are lost: after the conversion \<open>findBranch\<close> finds no branch for
  any minor, and the branch of a major that is not the main one is the last patch branch
  whose first number it is, so \<open>patch-1.2\<close> replaces the sha of \<open>patch-1\<close>.
\<close>

theorem minor_branches_lost:
  "findBranch (convertModel raw) mj (Some mn) = Inr None \<and>
   findBranch (convertModel raw) mj None =
     (if mj = highest_major raw then
        res_bind (branch_create (fst (raw_main raw)) (snd (raw_main raw))) (\<lambda>b. Inr (Some b))
      else case map_of (rev (map (\<lambda>p. (hd (fst p), snd p)) (raw_patchBranches raw))) mj of
          None \<Rightarrow> Inr None
        | Some sha \<Rightarrow> res_bind (branch_create (''patch-'' @ show_int mj) sha) (\<lambda>b. Inr (Some b)))"
  by (simp add: findBranch_minor findBranch_major branch_of_all_builders)

text \<open>
  The version that is proposed for a patch branch of a minor is one of the last minor of the major:
  a release from \<open>patch-1.2\<close> becomes the next version of \<open>1.3\<close> when \<open>1.3\<close> has been released.
\<close>

lemma minor_of_patch_branch_is_ignored:
  assumes "normalize b = Some (PatchBranchRef segs)" and "normalize b' = Some (PatchBranchRef segs')"
    and "hd segs = hd segs'" and "find_major_container r (hd segs) \<noteq> None"
  shows "nextVersion r b vt = nextVersion r b' vt"
  using assms by (auto simp: nextVersion_def)

end
