(* ===== verification/Queue_Scripts.thy ===== *)
theory Queue_Scripts
  imports Job_Ref Redis_Memory
begin

text \<open>
  The build queues in the server: the scripts \<open>backend/lua/push.lua\<close>, \<open>start.lua\<close> and
  \<open>complete.lua\<close>, which the server runs atomically, and their invocation in
  \<open>backend/src/system/queue/queue-redis-impl.ts\<close>. Every queue has a sorted set of waiting
  canonical ids by time, a string with the last job of every waiting id, and a hash with the
  active job; two sorted sets count the waiting jobs per queue and name the busy queues.
\<close>

section \<open>The scripts\<close>

definition activeKey :: "string \<Rightarrow> string" where
  "activeKey q = q @ '':active''"

definition canonicalKey :: "string \<Rightarrow> string \<Rightarrow> string" where
  "canonicalKey q c = q @ '':canonical:'' @ c"

text \<open>\<open>push.lua\<close>: the size of the queue, the outdated job and the job to abort.\<close>

definition push_script ::
  "'db redis \<Rightarrow> string \<Rightarrow> string \<Rightarrow> string \<Rightarrow> string \<Rightarrow> string \<Rightarrow> int \<Rightarrow> 'db \<Rightarrow>
   (nat \<times> string option \<times> string option) \<times> 'db" where
  "push_script R q ready busy ser can score db =
     (let db1 = rd_zadd_nx R q score can db;
          size = rd_zcard R q db1;
          outdated = rd_get R (canonicalKey q can) db1;
          db2 = rd_set R (canonicalKey q can) ser db1;
          db3 = (if outdated = None then rd_zincrby R ready 1 q db2 else db2);
          activeCanonical = rd_hget R (activeKey q) ''canonical'' db3;
          activeSerialized = rd_hget R (activeKey q) ''serialized'' db3
      in if activeCanonical = Some can
         then ((size, outdated, activeSerialized), rd_zrem R busy q (rd_del R (activeKey q) db3))
         else ((size, outdated, None), db3))"

text \<open>
  \<open>takeQueue\<close> of \<open>start.lua\<close>. A missing job makes the \<open>HMSET\<close> fail and the script stop,
  with the effects so far.
\<close>

definition script_error :: error where
  "script_error = Error ''Lua redis() command arguments must be strings or integers''"

definition takeQueue ::
  "'db redis \<Rightarrow> string \<Rightarrow> string \<Rightarrow> string \<Rightarrow> string list \<Rightarrow> 'db \<Rightarrow> string list res \<times> 'db" where
  "takeQueue R ready busy q result db =
     (let db1 = rd_zincrby R ready (-1) q db;
          db2 = rd_zadd R busy 1 q db1;
          (popped, db3) = rd_zpopmin R q db2
      in case popped of
           None \<Rightarrow> (Inr result, db3)
         | Some can \<Rightarrow>
             let serialized = rd_get R (canonicalKey q can) db3;
                 db4 = rd_del R (canonicalKey q can) db3
             in (case serialized of
                   None \<Rightarrow> (Inl script_error, db4)
                 | Some ser \<Rightarrow>
                     (Inr (result @ [ser]),
                      rd_hset R (activeKey q) [(''canonical'', can), (''serialized'', ser)] db4)))"

fun takeQueues ::
  "'db redis \<Rightarrow> string \<Rightarrow> string \<Rightarrow> string list \<Rightarrow> string list \<Rightarrow> 'db \<Rightarrow> string list res \<times> 'db" where
  "takeQueues R ready busy [] result db = (Inr result, db)"
| "takeQueues R ready busy (q # qs) result db =
     (case takeQueue R ready busy q result db of
        (Inl e, db') \<Rightarrow> (Inl e, db')
      | (Inr result', db') \<Rightarrow> takeQueues R ready busy qs result' db')"

definition start_script ::
  "'db redis \<Rightarrow> string \<Rightarrow> string \<Rightarrow> nat \<Rightarrow> 'db \<Rightarrow> string list res \<times> 'db" where
  "start_script R ready busy maxCount db =
     (let startables = take maxCount (rd_zdiff R ready busy db)
      in case takeQueues R ready busy startables [] db of
           (Inl e, db') \<Rightarrow> (Inl e, db')
         | (Inr result, db') \<Rightarrow> (Inr result, rd_zremrangebyscore R ready 0 db'))"

definition complete_script ::
  "'db redis \<Rightarrow> string \<Rightarrow> string \<Rightarrow> string \<Rightarrow> string \<Rightarrow> 'db \<Rightarrow> bool \<times> 'db" where
  "complete_script R q ready busy ser db =
     (if rd_hget R (activeKey q) ''serialized'' db = Some ser
      then (True, rd_zrem R busy q (rd_del R (activeKey q) db))
      else (False, db))"

section \<open>Their invocation\<close>

definition localQueueKey :: "job_key \<Rightarrow> string" where
  "localQueueKey job =
     ''queue:'' @ source_asString (jk_source job) @ '':local:'' @ queueId (jk_ref job)"

definition readyKey :: string where
  "readyKey = ''queue:ready''"

definition busyKey :: string where
  "busyKey = ''queue:active''"

record push_result =
  pr_size :: nat
  pr_cancel :: "job_key option"
  pr_abort :: "job_key option"

definition parse_key :: "string option \<Rightarrow> job_key option res" where
  "parse_key s = (if truthy s then res_bind (key_deserialize (the s)) (\<lambda>k. Inr (Some k)) else Inr None)"

definition redis_push :: "'db redis \<Rightarrow> job_key \<Rightarrow> int \<Rightarrow> 'db \<Rightarrow> push_result res \<times> 'db" where
  "redis_push R job time db =
     (let ((size, cancel, abort), db') =
        push_script R (localQueueKey job) readyKey busyKey (key_serialize job) (canonicalId (jk_ref job)) time db
      in (res_bind (parse_key cancel) (\<lambda>c. res_bind (parse_key abort) (\<lambda>a.
            Inr \<lparr> pr_size = size, pr_cancel = c, pr_abort = a \<rparr>)), db'))"

definition redis_start :: "'db redis \<Rightarrow> int \<Rightarrow> 'db \<Rightarrow> job_key list res \<times> 'db" where
  "redis_start R maxCount db =
     (if maxCount > 0 then
        (let (result, db') = start_script R readyKey busyKey (nat maxCount) db
         in (res_bind result (res_mapM key_deserialize), db'))
      else (Inr [], db))"

definition redis_complete :: "'db redis \<Rightarrow> job_key \<Rightarrow> 'db \<Rightarrow> bool \<times> 'db" where
  "redis_complete R job db =
     complete_script R (localQueueKey job) readyKey busyKey (key_serialize job) db"

section \<open>Keys of different purpose differ\<close>

text \<open>
  A queue of the server is named by a printed repository and a queue id, neither of which has
  a colon; counting the colons tells the keys apart.
\<close>

definition is_queue :: "string \<Rightarrow> bool" where
  "is_queue q \<longleftrightarrow> (\<exists>a b. q = ''queue:'' @ a @ '':local:'' @ b \<and>
     CHR '':'' \<notin> set a \<and> CHR ''/'' \<in> set a \<and> CHR '':'' \<notin> set b)"

lemma split_queue:
  assumes "CHR '':'' \<notin> set a" and "CHR '':'' \<notin> set b"
  shows "split '':'' (''queue:'' @ a @ '':local:'' @ b) = [''queue'', a, ''local'', b]"
    and "split '':'' (''queue:'' @ a @ '':local:'' @ b @ CHR '':'' # r) = [''queue'', a, ''local'', b] @ split '':'' r"
proof -
  have q: "split '':'' (''queue:'' @ x) = ''queue'' # split '':'' x" for x
    using split_Cons_safe [of "CHR '':''" "''queue''" x] by simp
  have l: "split '':'' (''local:'' @ x) = ''local'' # split '':'' x" for x
    using split_Cons_safe [of "CHR '':''" "''local''" x] by simp
  show "split '':'' (''queue:'' @ a @ '':local:'' @ b) = [''queue'', a, ''local'', b]"
    using assms q [of "a @ '':local:'' @ b"] l [of b] split_Cons_safe [of "CHR '':''" a "''local:'' @ b"]
    by (simp add: split_last)
  show "split '':'' (''queue:'' @ a @ '':local:'' @ b @ CHR '':'' # r) = [''queue'', a, ''local'', b] @ split '':'' r"
    using assms q [of "a @ '':local:'' @ b @ CHR '':'' # r"] l [of "b @ CHR '':'' # r"]
      split_Cons_safe [of "CHR '':''" a "''local:'' @ b @ CHR '':'' # r"]
      split_Cons_safe [of "CHR '':''" b r]
    by simp
qed

lemma is_queue_split:
  assumes "is_queue q"
  obtains a b where "split '':'' q = [''queue'', a, ''local'', b]"
    "\<And>r. split '':'' (q @ CHR '':'' # r) = [''queue'', a, ''local'', b] @ split '':'' r"
    "CHR ''/'' \<in> set a"
proof -
  from assms obtain a b where q: "q = ''queue:'' @ a @ '':local:'' @ b"
    "CHR '':'' \<notin> set a" "CHR '':'' \<notin> set b" "CHR ''/'' \<in> set a" by (auto simp: is_queue_def)
  show ?thesis
    using split_queue [OF q(2,3)] by (intro that [of a b]) (simp_all add: q(1,4))
qed

lemma split_suffixes:
  "split '':'' ''active'' = [''active'']"
  "split '':'' (''canonical:'' @ c) = ''canonical'' # split '':'' c"
  "split '':'' readyKey = [''queue'', ''ready'']" "split '':'' busyKey = [''queue'', ''active'']"
  using split_Cons_safe [of "CHR '':''" "''canonical''" c]
  by (simp_all add: split_eval readyKey_def busyKey_def)

lemma canonicalKey_alt: "canonicalKey q c = q @ CHR '':'' # (''canonical:'' @ c)"
  by (simp add: canonicalKey_def)

lemma queue_keys:
  assumes "is_queue q" and "is_queue q'"
  shows "activeKey q \<noteq> q'" "canonicalKey q c \<noteq> q'" "activeKey q \<noteq> canonicalKey q' c"
    "activeKey q = activeKey q' \<longleftrightarrow> q = q'"
    "canonicalKey q c = canonicalKey q' c' \<longleftrightarrow> q = q' \<and> c = c'"
    "q \<noteq> readyKey" "q \<noteq> busyKey" "activeKey q \<noteq> readyKey" "activeKey q \<noteq> busyKey"
    "canonicalKey q c \<noteq> readyKey" "canonicalKey q c \<noteq> busyKey"
proof -
  from assms obtain a b a' b' where s: "split '':'' q = [''queue'', a, ''local'', b]"
    "split '':'' q' = [''queue'', a', ''local'', b']"
    "\<And>r. split '':'' (q @ CHR '':'' # r) = [''queue'', a, ''local'', b] @ split '':'' r"
    "\<And>r. split '':'' (q' @ CHR '':'' # r) = [''queue'', a', ''local'', b'] @ split '':'' r"
    by (metis is_queue_split)
  have act: "split '':'' (activeKey q) = [''queue'', a, ''local'', b, ''active'']"
    using s(3) [of "''active''"] by (simp add: activeKey_def split_suffixes)
  have can: "split '':'' (canonicalKey q c) = [''queue'', a, ''local'', b, ''canonical''] @ split '':'' c"
    by (simp only: canonicalKey_alt s(3) split_suffixes(2)) simp
  have can': "split '':'' (canonicalKey q' c) = [''queue'', a', ''local'', b', ''canonical''] @ split '':'' c" for c
    by (simp only: canonicalKey_alt s(4) split_suffixes(2)) simp
  show "activeKey q \<noteq> q'" using act s(2) by auto
  show "canonicalKey q c \<noteq> q'" using can s(2) by auto
  show "activeKey q \<noteq> canonicalKey q' c" using act can' [of c] by auto
  show "activeKey q = activeKey q' \<longleftrightarrow> q = q'" by (simp add: activeKey_def)
  show "q \<noteq> readyKey" "q \<noteq> busyKey" using s(1) split_suffixes(3,4) by auto
  show "activeKey q \<noteq> readyKey" "activeKey q \<noteq> busyKey" using act split_suffixes(3,4) by auto
  show "canonicalKey q c \<noteq> readyKey" "canonicalKey q c \<noteq> busyKey" using can split_suffixes(3,4) by auto
  show "canonicalKey q c = canonicalKey q' c' \<longleftrightarrow> q = q' \<and> c = c'"
  proof
    assume eq: "canonicalKey q c = canonicalKey q' c'"
    with can can' [of c'] have "a = a'" "b = b'" by simp_all
    with s(1,2) have "split '':'' q = split '':'' q'" by simp
    then have "q = q'" using join_split [of "'':''"] by (metis list.distinct(1))
    with eq show "q = q' \<and> c = c'" by (simp add: canonicalKey_def)
  qed simp
qed

end
