(* ===== verification/Queue_Abstract.thy ===== *)
theory Queue_Abstract
  imports Queue_Scripts
begin

text \<open>
  What the scripts promise, without keys: a record of the queues (and of the other keys of
  the server, which they do not touch), the operations on it, and
  their invariant. The scripts are shown to implement these operations on any server that
  keeps the laws of its commands (\<open>push_refines\<close>, \<open>start_refines\<close>, \<open>complete_refines\<close>).
\<close>

section \<open>Abstract queues\<close>

record queues =
  waiting :: "string \<Rightarrow> (string \<rightharpoonup> int)"
  latest :: "string \<Rightarrow> (string \<rightharpoonup> string)"
  active :: "string \<rightharpoonup> (string \<times> string)"
  ready :: "string \<rightharpoonup> int"
  busy :: "string \<rightharpoonup> int"
  others :: "string \<Rightarrow> rvalue option"

definition no_queues :: queues where
  "no_queues = \<lparr> waiting = (\<lambda>q. Map.empty), latest = (\<lambda>q. Map.empty), active = Map.empty,
     ready = Map.empty, busy = Map.empty,
     others = (\<lambda>k. None) \<rparr>"

definition is_active :: "queues \<Rightarrow> string \<Rightarrow> string \<Rightarrow> bool" where
  "is_active Q q can \<longleftrightarrow> (case active Q q of Some (c, s) \<Rightarrow> c = can | None \<Rightarrow> False)"

definition release_queue :: "string \<Rightarrow> queues \<Rightarrow> queues" where
  "release_queue q Q = Q \<lparr> active := (active Q)(q := None), busy := (busy Q)(q := None) \<rparr>"

definition enqueue :: "string \<Rightarrow> string \<Rightarrow> string \<Rightarrow> int \<Rightarrow> queues \<Rightarrow> queues" where
  "enqueue q ser can t Q =
     Q \<lparr> waiting := (waiting Q)(q := if can \<in> dom (waiting Q q) then waiting Q q
                                       else (waiting Q q)(can \<mapsto> t)),
         latest := (latest Q)(q := (latest Q q)(can \<mapsto> ser)),
         ready := (if latest Q q can = None then (ready Q)(q \<mapsto> score_of (ready Q) q + 1) else ready Q) \<rparr>"

definition push_queue :: "string \<Rightarrow> string \<Rightarrow> string \<Rightarrow> int \<Rightarrow> queues \<Rightarrow> queues" where
  "push_queue q ser can t Q =
     (let Q' = enqueue q ser can t Q in if is_active Q q can then release_queue q Q' else Q')"

definition take_queue :: "string \<Rightarrow> string \<Rightarrow> string \<Rightarrow> queues \<Rightarrow> queues" where
  "take_queue q can ser Q =
     Q \<lparr> waiting := (waiting Q)(q := (waiting Q q)(can := None)),
         latest := (latest Q)(q := (latest Q q)(can := None)),
         active := (active Q)(q \<mapsto> (can, ser)),
         ready := (ready Q)(q \<mapsto> score_of (ready Q) q - 1),
         busy := (busy Q)(q \<mapsto> 1) \<rparr>"

definition purge_ready :: "queues \<Rightarrow> queues" where
  "purge_ready Q = Q \<lparr> ready := (\<lambda>q. if score_of (ready Q) q \<le> 0 then None else ready Q q) \<rparr>"

definition complete_queue :: "string \<Rightarrow> string \<Rightarrow> queues \<Rightarrow> queues" where
  "complete_queue q ser Q =
     (if map_option snd (active Q q) = Some ser then release_queue q Q else Q)"

section \<open>The invariant\<close>

text \<open>
  Every waiting id has a job and the other way round; the counter of a queue is the number of
  its waiting ids (missing when there is none, or 0 while \<open>start\<close> runs); a queue is busy
  when it has an active job.
\<close>

definition count_ok :: "queues \<Rightarrow> bool" where
  "count_ok Q \<longleftrightarrow>
     (\<forall>q. finite (dom (waiting Q q)) \<and> dom (latest Q q) = dom (waiting Q q) \<and>
        score_of (ready Q) q = int (card (dom (waiting Q q))) \<and>
        (is_queue q \<or> q \<notin> dom (ready Q))) \<and>
     dom (busy Q) = dom (active Q)"

definition queues_ok :: "queues \<Rightarrow> bool" where
  "queues_ok Q \<longleftrightarrow> count_ok Q \<and> (\<forall>q \<in> dom (ready Q). waiting Q q \<noteq> Map.empty)"

lemma no_queues_ok: "queues_ok no_queues"
  by (simp add: queues_ok_def count_ok_def no_queues_def score_of_def)

lemma score_of_upd [simp]:
  "score_of (z(k \<mapsto> n)) m = (if m = k then n else score_of z m)"
  "score_of (z(k := None)) m = (if m = k then 0 else score_of z m)"
  by (simp_all add: score_of_def)

lemma card_dom_upd:
  "finite (dom m) \<Longrightarrow> card (insert k (dom m)) = (if k \<in> dom m then card (dom m) else Suc (card (dom m)))"
  by (simp add: card_insert_if)

lemma enqueue_ok:
  assumes "queues_ok Q" and "is_queue q"
  shows "queues_ok (enqueue q ser can t Q)"
proof -
  have fin: "finite (dom (waiting Q q))" and dom: "dom (latest Q q) = dom (waiting Q q)"
    and n: "score_of (ready Q) q = int (card (dom (waiting Q q)))"
    using assms(1) by (simp_all add: queues_ok_def count_ok_def)
  have new: "latest Q q can = None \<longleftrightarrow> can \<notin> dom (waiting Q q)"
    unfolding dom [symmetric] by (simp add: domIff)
  have others: "count_ok Q" using assms(1) by (simp add: queues_ok_def)
  have "count_ok (enqueue q ser can t Q)"
  proof (cases "can \<in> dom (waiting Q q)")
    case True
    then show ?thesis using others assms(2) dom new
      by (simp add: count_ok_def enqueue_def insert_absorb)
  next
    case False
    then show ?thesis using others assms(2) fin dom n new
      by (simp add: count_ok_def enqueue_def)
  qed
  moreover have "waiting (enqueue q ser can t Q) p \<noteq> Map.empty"
    if p: "p \<in> dom (ready (enqueue q ser can t Q))" for p
  proof (cases "p = q")
    case True
    have "can \<in> dom (waiting (enqueue q ser can t Q) q)" by (simp add: enqueue_def)
    with True show ?thesis by auto
  next
    case False
    with p have "p \<in> dom (ready Q)" by (auto simp: enqueue_def split: if_splits)
    with assms(1) False show ?thesis by (simp add: queues_ok_def enqueue_def)
  qed
  ultimately show ?thesis by (simp add: queues_ok_def)
qed

lemma release_queue_ok: "queues_ok Q \<Longrightarrow> queues_ok (release_queue q Q)"
  by (auto simp: queues_ok_def count_ok_def release_queue_def)

lemma push_queue_ok: "queues_ok Q \<Longrightarrow> is_queue q \<Longrightarrow> queues_ok (push_queue q ser can t Q)"
  by (simp add: push_queue_def Let_def enqueue_ok release_queue_ok)

lemma complete_queue_ok: "queues_ok Q \<Longrightarrow> queues_ok (complete_queue q ser Q)"
  by (simp add: complete_queue_def release_queue_ok)

lemma take_queue_ok:
  assumes "count_ok Q" and "is_queue q" and "can \<in> dom (waiting Q q)"
  shows "count_ok (take_queue q can ser Q)"
proof -
  have "card (dom (waiting Q q)) > 0" using assms by (auto simp: count_ok_def card_gt_0_iff)
  with assms show ?thesis
    by (auto simp: count_ok_def take_queue_def card_Diff_singleton of_nat_diff)
qed

lemma purge_ready_ok:
  assumes "count_ok Q"
  shows "queues_ok (purge_ready Q)"
proof -
  have "score_of (ready (purge_ready Q)) q = score_of (ready Q) q" for q
    using assms by (auto simp: purge_ready_def score_of_def count_ok_def split: option.splits)
  moreover have "dom (ready (purge_ready Q)) \<subseteq> {q. score_of (ready Q) q > 0}"
    by (auto simp: purge_ready_def split: if_splits)
  moreover have "dom (ready (purge_ready Q)) \<subseteq> dom (ready Q)"
    by (auto simp: purge_ready_def split: if_splits)
  ultimately show ?thesis using assms
    by (auto simp: queues_ok_def count_ok_def purge_ready_def) (fastforce simp: score_of_def)+
qed

end
