(* ===== verification/Queue_Refinement.thy ===== *)
theory Queue_Refinement
  imports Queue_Abstract
begin

text \<open>
  The scripts implement the abstract queues on every server that keeps the laws of its
  commands.
\<close>

section \<open>The relation to the keys of the server\<close>

definition hash_of :: "(string \<times> string) option \<Rightarrow> (string \<rightharpoonup> string)" where
  "hash_of a = (case a of None \<Rightarrow> Map.empty
     | Some (c, s) \<Rightarrow> [''canonical'' \<mapsto> c, ''serialized'' \<mapsto> s])"

lemma hash_of_simps [simp]:
  "hash_of None = Map.empty"
  "hash_of (Some p) = [''canonical'' \<mapsto> fst p, ''serialized'' \<mapsto> snd p]"
  by (simp_all add: hash_of_def split: prod.splits)

definition is_other :: "string \<Rightarrow> bool" where
  "is_other k \<longleftrightarrow> k \<noteq> readyKey \<and> k \<noteq> busyKey \<and>
     (\<forall>q. is_queue q \<longrightarrow> k \<noteq> q \<and> k \<noteq> activeKey q \<and> (\<forall>c. k \<noteq> canonicalKey q c))"

definition queues_of :: "('db \<Rightarrow> string \<Rightarrow> rvalue option) \<Rightarrow> 'db \<Rightarrow> queues \<Rightarrow> bool" where
  "queues_of view db Q \<longleftrightarrow>
     (\<forall>q. is_queue q \<longrightarrow>
        as_zset (view db q) = Some (waiting Q q) \<and>
        as_hash (view db (activeKey q)) = Some (hash_of (active Q q)) \<and>
        (\<forall>c. as_str (view db (canonicalKey q c)) = Some (latest Q q c))) \<and>
     as_zset (view db readyKey) = Some (ready Q) \<and>
     as_zset (view db busyKey) = Some (busy Q) \<and>
     (\<forall>k. is_other k \<longrightarrow> view db k = others Q k)"

lemma queues_ofD:
  assumes "queues_of view db Q"
  shows "is_queue q \<Longrightarrow> as_zset (view db q) = Some (waiting Q q)"
    "is_queue q \<Longrightarrow> as_hash (view db (activeKey q)) = Some (hash_of (active Q q))"
    "is_queue q \<Longrightarrow> as_str (view db (canonicalKey q c)) = Some (latest Q q c)"
    "as_zset (view db readyKey) = Some (ready Q)"
    "as_zset (view db busyKey) = Some (busy Q)"
  using assms by (simp_all add: queues_of_def)

lemma ready_busy_differ [simp]: "readyKey \<noteq> busyKey" "busyKey \<noteq> readyKey"
  by (simp_all add: readyKey_def busyKey_def)

lemma not_queue [simp]:
  "\<not> is_queue readyKey" "\<not> is_queue busyKey"
  "is_queue q \<Longrightarrow> \<not> is_queue (activeKey q)" "is_queue q \<Longrightarrow> \<not> is_queue (canonicalKey q c)"
  using queue_keys(1,2,6,7) by blast+

lemma key_simps:
  assumes "is_queue q" and "is_queue q'"
  shows "activeKey q \<noteq> q'" "q' \<noteq> activeKey q" "canonicalKey q c \<noteq> q'" "q' \<noteq> canonicalKey q c"
    "activeKey q \<noteq> canonicalKey q' c" "canonicalKey q' c \<noteq> activeKey q"
    "activeKey q = activeKey q' \<longleftrightarrow> q = q'"
    "canonicalKey q c = canonicalKey q' c' \<longleftrightarrow> q = q' \<and> c = c'"
    "q \<noteq> readyKey" "readyKey \<noteq> q" "q \<noteq> busyKey" "busyKey \<noteq> q"
    "activeKey q \<noteq> readyKey" "readyKey \<noteq> activeKey q" "activeKey q \<noteq> busyKey" "busyKey \<noteq> activeKey q"
    "canonicalKey q c \<noteq> readyKey" "readyKey \<noteq> canonicalKey q c"
    "canonicalKey q c \<noteq> busyKey" "busyKey \<noteq> canonicalKey q c"
  using queue_keys [OF assms] by metis+

text \<open>An update of one key is an update of one component.\<close>

lemma queues_of_waiting:
  "queues_of view db Q \<Longrightarrow> is_queue q \<Longrightarrow> view db' = (view db)(q := put_zset z) \<Longrightarrow>
   queues_of view db' (Q \<lparr> waiting := (waiting Q)(q := z) \<rparr>)"
  by (simp add: queues_of_def key_simps is_other_def)

lemma queues_of_latest:
  "queues_of view db Q \<Longrightarrow> is_queue q \<Longrightarrow> view db' = (view db)(canonicalKey q c := map_option RStr s) \<Longrightarrow>
   queues_of view db' (Q \<lparr> latest := (latest Q)(q := (latest Q q)(c := s)) \<rparr>)"
  by (cases s) (simp_all add: queues_of_def key_simps is_other_def)

lemma queues_of_active:
  "queues_of view db Q \<Longrightarrow> is_queue q \<Longrightarrow> as_hash v = Some (hash_of a) \<Longrightarrow>
   view db' = (view db)(activeKey q := v) \<Longrightarrow>
   queues_of view db' (Q \<lparr> active := (active Q)(q := a) \<rparr>)"
  by (simp add: queues_of_def key_simps is_other_def)

lemma queues_of_ready:
  "queues_of view db Q \<Longrightarrow> view db' = (view db)(readyKey := put_zset z) \<Longrightarrow>
   queues_of view db' (Q \<lparr> ready := z \<rparr>)"
  by (auto simp: queues_of_def key_simps is_other_def)

lemma queues_of_busy:
  "queues_of view db Q \<Longrightarrow> view db' = (view db)(busyKey := put_zset z) \<Longrightarrow>
   queues_of view db' (Q \<lparr> busy := z \<rparr>)"
  by (auto simp: queues_of_def key_simps is_other_def)

section \<open>The commands\<close>

context redis_server
begin

lemma release_refines:
  assumes "queues_of view db Q" and "is_queue q"
  shows "queues_of view (rd_zrem R busyKey q (rd_del R (activeKey q) db)) (release_queue q Q)"
proof -
  have 1: "queues_of view (rd_del R (activeKey q) db) (Q \<lparr> active := (active Q)(q := None) \<rparr>)"
    using queues_of_active [OF assms, of None None] del [of "activeKey q" db] by simp
  from queues_of_busy [OF this zrem [OF queues_ofD(5) [OF this], of q]]
  show ?thesis by (simp add: release_queue_def fun_upd_def)
qed

lemma hget_active:
  assumes "queues_of view db Q" and "is_queue q"
  shows "rd_hget R (activeKey q) ''canonical'' db = map_option fst (active Q q)"
    "rd_hget R (activeKey q) ''serialized'' db = map_option snd (active Q q)"
  using hget [OF queues_ofD(2) [OF assms]] by (cases "active Q q"; simp)+

lemma push_refines:
  assumes rel: "queues_of view db Q" and q: "is_queue q"
  shows "queues_of view (snd (push_script R q readyKey busyKey ser can t db)) (push_queue q ser can t Q)"
    and "fst (push_script R q readyKey busyKey ser can t db) =
      (card (dom (waiting (push_queue q ser can t Q) q)), latest Q q can,
       if is_active Q q can then map_option snd (active Q q) else None)"
proof -
  define z where "z = (if can \<in> dom (waiting Q q) then waiting Q q else (waiting Q q)(can \<mapsto> t))"
  define db1 where "db1 = rd_zadd_nx R q t can db"
  define Q1 where "Q1 = Q \<lparr> waiting := (waiting Q)(q := z) \<rparr>"
  have r1: "queues_of view db1 Q1"
    using queues_of_waiting [OF rel q zadd_nx [OF queues_ofD(1) [OF rel q]]]
    by (simp add: db1_def Q1_def z_def)
  have size: "rd_zcard R q db1 = card (dom z)"
    using zcard [OF queues_ofD(1) [OF r1 q]] by (simp add: Q1_def)
  have out: "rd_get R (canonicalKey q can) db1 = latest Q q can"
    using get [OF queues_ofD(3) [OF r1 q]] by (simp add: Q1_def)
  define db2 where "db2 = rd_set R (canonicalKey q can) ser db1"
  define Q2 where "Q2 = Q1 \<lparr> latest := (latest Q1)(q := (latest Q1 q)(can := Some ser)) \<rparr>"
  have r2: "queues_of view db2 Q2"
    using queues_of_latest [OF r1 q, of db2 can "Some ser"] set [of "canonicalKey q can" ser db1]
    by (simp add: db2_def Q2_def)
  define db3 where "db3 = (if latest Q q can = None then rd_zincrby R readyKey 1 q db2 else db2)"
  have Q3: "enqueue q ser can t Q = (if latest Q q can = None
      then Q2 \<lparr> ready := (ready Q2)(q \<mapsto> score_of (ready Q2) q + 1) \<rparr> else Q2)"
    by (simp add: enqueue_def Q2_def Q1_def z_def)
  have r3: "queues_of view db3 (enqueue q ser can t Q)"
    using queues_of_ready [OF r2 zincrby [OF queues_ofD(4) [OF r2], of 1 q]] r2 by (simp add: db3_def Q3 fun_upd_def)
  have act: "active (enqueue q ser can t Q) = active Q" by (simp add: enqueue_def)
  note hg = hget_active [OF r3 q, unfolded act]
  have wait: "waiting (push_queue q ser can t Q) q = z"
    by (simp add: push_queue_def Let_def enqueue_def release_queue_def z_def)
  have script: "push_script R q readyKey busyKey ser can t db =
      (if is_active Q q can
       then ((card (dom z), latest Q q can, map_option snd (active Q q)),
             rd_zrem R busyKey q (rd_del R (activeKey q) db3))
       else ((card (dom z), latest Q q can, None), db3))"
    by (cases "active Q q")
      (auto simp: push_script_def Let_def size [unfolded db1_def] out [unfolded db1_def]
        hg [unfolded db3_def db2_def db1_def] is_active_def db3_def db2_def db1_def)
  show "queues_of view (snd (push_script R q readyKey busyKey ser can t db)) (push_queue q ser can t Q)"
    using r3 release_refines [OF r3 q] by (simp add: script push_queue_def Let_def)
  show "fst (push_script R q readyKey busyKey ser can t db) =
      (card (dom (waiting (push_queue q ser can t Q) q)), latest Q q can,
       if is_active Q q can then map_option snd (active Q q) else None)"
    by (simp add: script wait)
qed

lemma complete_refines:
  assumes "queues_of view db Q" and "is_queue q"
  shows "queues_of view (snd (complete_script R q readyKey busyKey ser db)) (complete_queue q ser Q)"
    and "fst (complete_script R q readyKey busyKey ser db) = (map_option snd (active Q q) = Some ser)"
  using release_refines [OF assms] assms
  by (simp_all add: complete_script_def complete_queue_def hget_active [OF assms])

end

section \<open>Starting\<close>

text \<open>One queue: the id that waits longest becomes the active job.\<close>

definition takes :: "string \<Rightarrow> string \<Rightarrow> string \<Rightarrow> queues \<Rightarrow> queues \<Rightarrow> bool" where
  "takes q can ser Q Q' \<longleftrightarrow> can \<in> dom (waiting Q q) \<and>
     (\<forall>c \<in> dom (waiting Q q). score_of (waiting Q q) can \<le> score_of (waiting Q q) c) \<and>
     latest Q q can = Some ser \<and> Q' = take_queue q can ser Q"

inductive take_all :: "string list \<Rightarrow> string list \<Rightarrow> queues \<Rightarrow> queues \<Rightarrow> bool" where
  take_none: "take_all [] [] Q Q"
| take_next: "takes q can ser Q Q' \<Longrightarrow> take_all qs sers Q' Q'' \<Longrightarrow> take_all (q # qs) (ser # sers) Q Q''"

inductive_cases take_all_ConsE: "take_all (q # qs) sers Q Q'"
inductive_simps take_all_Nil [simp]: "take_all [] sers Q Q'"

text \<open>The queues that \<open>start\<close> may take from: not empty and not busy.\<close>

definition startable :: "queues \<Rightarrow> string set" where
  "startable Q = dom (ready Q) - dom (busy Q)"

definition starts :: "nat \<Rightarrow> string list \<Rightarrow> string list \<Rightarrow> queues \<Rightarrow> queues \<Rightarrow> bool" where
  "starts n qs sers Q Q' \<longleftrightarrow> distinct qs \<and> set qs \<subseteq> startable Q \<and>
     length qs = min n (card (startable Q)) \<and>
     (\<exists>Q1. take_all qs sers Q Q1 \<and> Q' = purge_ready Q1)"

context redis_server
begin

lemma takeQueue_refines:
  assumes rel: "queues_of view db Q" and q: "is_queue q" and ok: "count_ok Q"
    and ne: "waiting Q q \<noteq> Map.empty"
  obtains can ser db' where "takeQueue R readyKey busyKey q result db = (Inr (result @ [ser]), db')"
    "takes q can ser Q (take_queue q can ser Q)" "queues_of view db' (take_queue q can ser Q)"
proof -
  define db1 where "db1 = rd_zincrby R readyKey (-1) q db"
  define Q1 where "Q1 = Q \<lparr> ready := (ready Q)(q \<mapsto> score_of (ready Q) q - 1) \<rparr>"
  have r1: "queues_of view db1 Q1"
    using queues_of_ready [OF rel zincrby [OF queues_ofD(4) [OF rel], of "-1" q]]
    by (simp add: db1_def Q1_def fun_upd_def)
  define db2 where "db2 = rd_zadd R busyKey 1 q db1"
  define Q2 where "Q2 = Q1 \<lparr> busy := (busy Q1)(q \<mapsto> 1) \<rparr>"
  have r2: "queues_of view db2 Q2"
    using queues_of_busy [OF r1 zadd [OF queues_ofD(5) [OF r1], of 1 q]]
    by (simp add: db2_def Q2_def fun_upd_def)
  have w2: "waiting Q2 q = waiting Q q" "latest Q2 = latest Q" by (simp_all add: Q2_def Q1_def)
  obtain can where can: "fst (rd_zpopmin R q db2) = Some can" "can \<in> dom (waiting Q q)"
    "\<forall>c \<in> dom (waiting Q q). score_of (waiting Q q) can \<le> score_of (waiting Q q) c"
    "view (snd (rd_zpopmin R q db2)) = (view db2)(q := put_zset ((waiting Q q)(can := None)))"
    using zpopmin [OF queues_ofD(1) [OF r2 q], unfolded w2, OF ne] by blast
  define db3 where "db3 = snd (rd_zpopmin R q db2)"
  define Q3 where "Q3 = Q2 \<lparr> waiting := (waiting Q2)(q := (waiting Q q)(can := None)) \<rparr>"
  have r3: "queues_of view db3 Q3"
    using queues_of_waiting [OF r2 q can(4)] by (simp add: db3_def Q3_def fun_upd_def)
  from ok can(2) obtain ser where ser: "latest Q q can = Some ser"
    by (fastforce simp: count_ok_def)
  have g3: "rd_get R (canonicalKey q can) db3 = Some ser"
    using get [OF queues_ofD(3) [OF r3 q]] ser by (simp add: Q3_def w2)
  define db4 where "db4 = rd_del R (canonicalKey q can) db3"
  define Q4 where "Q4 = Q3 \<lparr> latest := (latest Q3)(q := (latest Q3 q)(can := None)) \<rparr>"
  have r4: "queues_of view db4 Q4"
    using queues_of_latest [OF r3 q, of db4 can None] del [of "canonicalKey q can" db3]
    by (simp add: db4_def Q4_def)
  define db5 where "db5 = rd_hset R (activeKey q) [(''canonical'', can), (''serialized'', ser)] db4"
  define h where "h = hash_of (active Q4 q) ++ map_of (rev [(''canonical'', can), (''serialized'', ser)])"
  have h: "h = hash_of (Some (can, ser))"
  proof (rule ext)
    fix x show "h x = hash_of (Some (can, ser)) x"
      by (cases "active Q4 q") (simp_all add: h_def map_add_def)
  qed
  have v5: "view db5 = (view db4)(activeKey q := put_hash h)"
    unfolding h_def db5_def by (rule hset [OF queues_ofD(2) [OF r4 q]])
  have r5: "queues_of view db5 (Q4 \<lparr> active := (active Q4)(q \<mapsto> (can, ser)) \<rparr>)"
    by (rule queues_of_active [OF r4 q _ v5]) (simp add: h fun_upd_def)
  have Q5: "Q4 \<lparr> active := (active Q4)(q \<mapsto> (can, ser)) \<rparr> = take_queue q can ser Q"
    by (simp add: take_queue_def Q4_def Q3_def Q2_def Q1_def)
  have "takeQueue R readyKey busyKey q result db = (Inr (result @ [ser]), db5)"
    using can(1) g3
    by (simp add: takeQueue_def Let_def split_beta db5_def db4_def db3_def db2_def db1_def)
  moreover have "takes q can ser Q (take_queue q can ser Q)"
    using can ser by (simp add: takes_def)
  ultimately show ?thesis using that r5 [unfolded Q5] by blast
qed

lemma takeQueues_refines:
  assumes "queues_of view db Q" and "count_ok Q" and "distinct qs"
    and "\<And>q. q \<in> List.set qs \<Longrightarrow> is_queue q \<and> waiting Q q \<noteq> Map.empty"
  shows "\<exists>sers db' Q'. takeQueues R readyKey busyKey qs result db = (Inr (result @ sers), db') \<and>
    take_all qs sers Q Q' \<and> queues_of view db' Q' \<and> count_ok Q'"
  using assms
proof (induction qs arbitrary: result db Q)
  case Nil
  then show ?case by auto
next
  case (Cons q qs)
  have q: "is_queue q" "waiting Q q \<noteq> Map.empty" using Cons.prems by auto
  obtain can ser db' where take: "takeQueue R readyKey busyKey q result db = (Inr (result @ [ser]), db')"
    "takes q can ser Q (take_queue q can ser Q)" "queues_of view db' (take_queue q can ser Q)"
    using takeQueue_refines [OF Cons.prems(1) q(1) Cons.prems(2) q(2)] .
  have ok: "count_ok (take_queue q can ser Q)"
    using take_queue_ok [OF Cons.prems(2) q(1)] take(2) by (simp add: takes_def)
  have "is_queue p \<and> waiting (take_queue q can ser Q) p \<noteq> Map.empty" if "p \<in> List.set qs" for p
    using Cons.prems(3,4) that by (auto simp: take_queue_def)
  from Cons.IH [OF take(3) ok _ this, of "result @ [ser]"] Cons.prems(3) obtain sers db'' Q'' where
    "takeQueues R readyKey busyKey qs (result @ [ser]) db' = (Inr ((result @ [ser]) @ sers), db'')"
    "take_all qs sers (take_queue q can ser Q) Q''" "queues_of view db'' Q''" "count_ok Q''" by auto
  then have "takeQueues R readyKey busyKey (q # qs) result db = (Inr (result @ (ser # sers)), db'')"
    "take_all (q # qs) (ser # sers) Q Q''"
    using take(1,2) by (simp_all add: take_next)
  then show ?case using \<open>queues_of view db'' Q''\<close> \<open>count_ok Q''\<close> by blast
qed

lemma startable_queues:
  "queues_ok Q \<Longrightarrow> q \<in> startable Q \<Longrightarrow> is_queue q \<and> waiting Q q \<noteq> Map.empty"
  by (auto simp: queues_ok_def count_ok_def startable_def)

lemma start_refines:
  assumes rel: "queues_of view db Q" and ok: "queues_ok Q"
  obtains qs sers db' Q' where "start_script R readyKey busyKey n db = (Inr sers, db')"
    "starts n qs sers Q Q'" "queues_of view db' Q'" "queues_ok Q'"
proof -
  define all where "all = rd_zdiff R readyKey busyKey db"
  define qs where "qs = take n all"
  have all: "List.set all = startable Q" "distinct all"
    using zdiff [OF queues_ofD(4,5) [OF rel]] by (simp_all add: all_def startable_def)
  then have qs: "List.set qs \<subseteq> startable Q" "distinct qs" "length qs = min n (card (startable Q))"
    using set_take_subset [of n all] distinct_card [of all] by (auto simp: qs_def)
  have cnt: "count_ok Q" using ok by (simp add: queues_ok_def)
  have "is_queue q \<and> waiting Q q \<noteq> Map.empty" if "q \<in> List.set qs" for q
    using startable_queues [OF ok] qs(1) that by blast
  from takeQueues_refines [OF rel cnt qs(2) this, of "[]"] obtain sers db1 Q1 where
    take: "takeQueues R readyKey busyKey qs [] db = (Inr sers, db1)"
      "take_all qs sers Q Q1" "queues_of view db1 Q1" "count_ok Q1" by auto
  have "queues_of view (rd_zremrangebyscore R readyKey 0 db1) (purge_ready Q1)"
    using queues_of_ready [OF take(3) zremrangebyscore [OF queues_ofD(4) [OF take(3)], of 0]]
    by (simp add: purge_ready_def)
  moreover have "start_script R readyKey busyKey n db = (Inr sers, rd_zremrangebyscore R readyKey 0 db1)"
    using take(1) by (simp add: start_script_def Let_def qs_def all_def)
  moreover have "starts n qs sers Q (purge_ready Q1)"
    using qs take(2) by (auto simp: starts_def)
  ultimately show ?thesis using that purge_ready_ok [OF take(4)] by blast
qed

end

end
