(* ===== verification/Queue_Redis.thy ===== *)
theory Queue_Redis
  imports Queue_Refinement
begin

text \<open>
  The queues as the service \<open>QueueRedisImpl\<close> of
  \<open>backend/src/system/queue/queue-redis-impl.ts\<close> uses them: every state of the server that
  pushes, starts and completions can reach has the invariant of the abstract queues, and the
  printed jobs in it parse.
\<close>

section \<open>Jobs in the queues\<close>

text \<open>Jobs whose printed form can be parsed and whose queue is named without a colon.\<close>

definition queueable :: "job_key \<Rightarrow> bool" where
  "queueable job \<longleftrightarrow> key_ok job \<and> CHR '':'' \<notin> set (source_asString (jk_source job)) \<and>
     CHR '':'' \<notin> set (queueId (jk_ref job))"

lemma localQueueKey_is_queue: "queueable job \<Longrightarrow> is_queue (localQueueKey job)"
proof -
  assume "queueable job"
  moreover have "CHR ''/'' \<in> set (source_asString (jk_source job))" by (simp add: source_asString_def)
  ultimately show ?thesis unfolding queueable_def localQueueKey_def is_queue_def by blast
qed

definition printed_job :: "string \<Rightarrow> string \<Rightarrow> string \<Rightarrow> bool" where
  "printed_job q can ser \<longleftrightarrow> (\<exists>job. queueable job \<and> ser = key_serialize job \<and>
     localQueueKey job = q \<and> canonicalId (jk_ref job) = can)"

definition jobs_ok :: "queues \<Rightarrow> bool" where
  "jobs_ok Q \<longleftrightarrow> (\<forall>q can ser. latest Q q can = Some ser \<longrightarrow> printed_job q can ser) \<and>
     (\<forall>q can ser. active Q q = Some (can, ser) \<longrightarrow> printed_job q can ser)"

lemma no_queues_jobs_ok: "jobs_ok no_queues"
  by (simp add: jobs_ok_def no_queues_def)

lemma printed_jobE:
  assumes "printed_job q can ser"
  obtains job where "queueable job" "ser = key_serialize job" "localQueueKey job = q"
    "canonicalId (jk_ref job) = can" "key_deserialize ser = Inr job" "ser \<noteq> []"
proof -
  from assms obtain job where "queueable job" "ser = key_serialize job" "localQueueKey job = q"
    "canonicalId (jk_ref job) = can" by (auto simp: printed_job_def)
  moreover from this have "key_deserialize ser = Inr job" by (simp add: queueable_def)
  moreover have "ser \<noteq> []" unfolding calculation(2) by (simp add: key_serialize_def)
  ultimately show ?thesis by (rule that)
qed

lemma release_queue_jobs_ok: "jobs_ok Q \<Longrightarrow> jobs_ok (release_queue q Q)"
  by (simp add: jobs_ok_def release_queue_def)

lemma enqueue_jobs_ok: "jobs_ok Q \<Longrightarrow> printed_job q can ser \<Longrightarrow> jobs_ok (enqueue q ser can t Q)"
  by (simp add: jobs_ok_def enqueue_def)

lemma push_queue_jobs_ok: "jobs_ok Q \<Longrightarrow> printed_job q can ser \<Longrightarrow> jobs_ok (push_queue q ser can t Q)"
  by (simp add: push_queue_def Let_def enqueue_jobs_ok release_queue_jobs_ok)

lemma complete_queue_jobs_ok: "jobs_ok Q \<Longrightarrow> jobs_ok (complete_queue q ser Q)"
  by (simp add: complete_queue_def release_queue_jobs_ok)

lemma purge_ready_jobs_ok: "jobs_ok Q \<Longrightarrow> jobs_ok (purge_ready Q)"
  by (simp add: jobs_ok_def purge_ready_def)

lemma takes_jobs_ok: "takes q can ser Q Q' \<Longrightarrow> jobs_ok Q \<Longrightarrow> jobs_ok Q'"
  by (auto simp: takes_def jobs_ok_def take_queue_def split: if_splits)

lemma take_all_jobs_ok: "take_all qs sers Q Q' \<Longrightarrow> jobs_ok Q \<Longrightarrow> jobs_ok Q'"
  by (induction rule: take_all.induct) (auto intro: takes_jobs_ok)

lemma starts_jobs_ok: "starts n qs sers Q Q' \<Longrightarrow> jobs_ok Q \<Longrightarrow> jobs_ok Q'"
  by (auto simp: starts_def purge_ready_jobs_ok dest: take_all_jobs_ok)

text \<open>Taking from one queue does not change the others.\<close>

definition longest_waiting :: "queues \<Rightarrow> string \<Rightarrow> string \<Rightarrow> string \<Rightarrow> bool" where
  "longest_waiting Q q can ser \<longleftrightarrow> can \<in> dom (waiting Q q) \<and> latest Q q can = Some ser \<and>
     (\<forall>c \<in> dom (waiting Q q). score_of (waiting Q q) can \<le> score_of (waiting Q q) c)"

lemma take_all_longest:
  "take_all qs sers Q Q' \<Longrightarrow> distinct qs \<Longrightarrow>
   list_all2 (\<lambda>q ser. \<exists>can. longest_waiting Q q can ser) qs sers"
proof (induction rule: take_all.induct)
  case (take_next q can ser Q Q' qs sers Q'')
  have same: "waiting Q' p = waiting Q p \<and> latest Q' p = latest Q p" if "p \<noteq> q" for p
    using take_next.hyps(1) that by (simp add: takes_def take_queue_def)
  have "list_all2 (\<lambda>q ser. \<exists>can. longest_waiting Q' q can ser) qs sers"
    using take_next by simp
  then have "list_all2 (\<lambda>q ser. \<exists>can. longest_waiting Q q can ser) qs sers"
    using take_next.prems same by (auto simp: list_all2_conv_all_nth longest_waiting_def) (metis nth_mem)+
  with take_next.hyps(1) show ?case by (auto simp: takes_def longest_waiting_def)
qed simp

section \<open>Reachable states\<close>

inductive queue_reach :: "'db redis \<Rightarrow> ('db \<Rightarrow> string \<Rightarrow> rvalue option) \<Rightarrow> 'db \<Rightarrow> bool"
  for R view where
  reach_empty: "view db = (\<lambda>k. None) \<Longrightarrow> queue_reach R view db"
| reach_push: "queue_reach R view db \<Longrightarrow> queueable job \<Longrightarrow>
    queue_reach R view (snd (redis_push R job t db))"
| reach_start: "queue_reach R view db \<Longrightarrow> queue_reach R view (snd (redis_start R n db))"
| reach_complete: "queue_reach R view db \<Longrightarrow> queueable job \<Longrightarrow>
    queue_reach R view (snd (redis_complete R job db))"

definition queue_state :: "('db \<Rightarrow> string \<Rightarrow> rvalue option) \<Rightarrow> 'db \<Rightarrow> queues \<Rightarrow> bool" where
  "queue_state view db Q \<longleftrightarrow> queues_of view db Q \<and> queues_ok Q \<and> jobs_ok Q"

lemma parse_key_printed:
  "printed_job q can ser \<Longrightarrow> \<exists>job. parse_key (Some ser) = Inr (Some job) \<and> key_serialize job = ser
     \<and> queueable job \<and> localQueueKey job = q \<and> canonicalId (jk_ref job) = can"
  by (erule printed_jobE) (auto simp: parse_key_def)

lemma parse_key_None [simp]: "parse_key None = Inr None"
  by (simp add: parse_key_def)

lemma res_mapM_printed:
  "list_all (\<lambda>ser. \<exists>q can. printed_job q can ser) sers \<Longrightarrow>
   \<exists>jobs. res_mapM key_deserialize sers = Inr jobs \<and> map key_serialize jobs = sers \<and> list_all queueable jobs"
proof (induction sers)
  case (Cons ser sers)
  then obtain jobs where jobs: "res_mapM key_deserialize sers = Inr jobs"
    "map key_serialize jobs = sers" "list_all queueable jobs" by auto
  from Cons.prems obtain q can where "printed_job q can ser" by auto
  then obtain job where "queueable job" "ser = key_serialize job" "key_deserialize ser = Inr job"
    by (rule printed_jobE)
  with jobs show ?case by (intro exI [of _ "job # jobs"]) simp
qed simp

context redis_server
begin

lemma queue_state_empty: "view db = (\<lambda>k. None) \<Longrightarrow> queue_state view db no_queues"
  using no_queues_ok no_queues_jobs_ok
  by (simp add: queue_state_def queues_of_def) (simp add: no_queues_def)

lemma push_state:
  assumes st: "queue_state view db Q" and job: "queueable job"
  defines "q \<equiv> localQueueKey job" and "can \<equiv> canonicalId (jk_ref job)"
  shows "queue_state view (snd (redis_push R job t db)) (push_queue q (key_serialize job) can t Q)"
    and "\<exists>cancel abort. fst (redis_push R job t db) =
        Inr \<lparr> pr_size = card (dom (waiting (push_queue q (key_serialize job) can t Q) q)),
              pr_cancel = cancel, pr_abort = abort \<rparr> \<and>
      map_option key_serialize cancel = latest Q q can \<and>
      map_option key_serialize abort = (if is_active Q q can then map_option snd (active Q q) else None)"
proof -
  note rel = queue_state_def [THEN iffD1, OF st]
  have q: "is_queue q" unfolding q_def by (rule localQueueKey_is_queue [OF job])
  have pj: "printed_job q can (key_serialize job)" using job by (auto simp: printed_job_def q_def can_def)
  note push = push_refines [OF conjunct1 [OF rel] q, of "key_serialize job" can t]
  obtain cancel where c: "parse_key (latest Q q can) = Inr cancel" "map_option key_serialize cancel = latest Q q can"
  proof (cases "latest Q q can")
    case (Some s)
    with rel have "printed_job q can s" by (auto simp: jobs_ok_def)
    from parse_key_printed [OF this] that Some show ?thesis by auto
  qed (simp add: that)
  define ab where "ab = (if is_active Q q can then map_option snd (active Q q) else None)"
  obtain abort where a: "parse_key ab = Inr abort" "map_option key_serialize abort = ab"
  proof (cases "is_active Q q can")
    case True
    then obtain s where s: "active Q q = Some (can, s)" by (auto simp: is_active_def split: option.splits)
    with rel have "printed_job q can s" by (auto simp: jobs_ok_def)
    from parse_key_printed [OF this] that True s show ?thesis by (auto simp: ab_def)
  qed (simp add: ab_def that)
  show "queue_state view (snd (redis_push R job t db)) (push_queue q (key_serialize job) can t Q)"
    using push(1) rel push_queue_ok [OF _ q] push_queue_jobs_ok [OF _ pj]
    by (simp add: queue_state_def redis_push_def q_def can_def split_beta)
  show "\<exists>cancel abort. fst (redis_push R job t db) =
        Inr \<lparr> pr_size = card (dom (waiting (push_queue q (key_serialize job) can t Q) q)),
              pr_cancel = cancel, pr_abort = abort \<rparr> \<and>
      map_option key_serialize cancel = latest Q q can \<and>
      map_option key_serialize abort = (if is_active Q q can then map_option snd (active Q q) else None)"
    using push(2) c a
    by (intro exI [of _ cancel] exI [of _ abort])
      (simp add: redis_push_def split_beta flip: q_def can_def ab_def)
qed

lemma complete_state:
  assumes st: "queue_state view db Q" and job: "queueable job"
  defines "q \<equiv> localQueueKey job"
  shows "queue_state view (snd (redis_complete R job db)) (complete_queue q (key_serialize job) Q)"
    and "fst (redis_complete R job db) = (map_option snd (active Q q) = Some (key_serialize job))"
proof -
  have q: "is_queue q" unfolding q_def by (rule localQueueKey_is_queue [OF job])
  note c = complete_refines [OF _ q, of db Q "key_serialize job"]
  show "queue_state view (snd (redis_complete R job db)) (complete_queue q (key_serialize job) Q)"
    using c st complete_queue_ok complete_queue_jobs_ok
    by (simp add: queue_state_def redis_complete_def flip: q_def)
  show "fst (redis_complete R job db) = (map_option snd (active Q q) = Some (key_serialize job))"
    using c st by (simp add: queue_state_def redis_complete_def flip: q_def)
qed

text \<open>What a call of \<open>start\<close> does to the abstract queues and which jobs it returns.\<close>

lemma start_state:
  assumes st: "queue_state view db Q"
  obtains jobs Q' where "fst (redis_start R n db) = Inr jobs"
    "queue_state view (snd (redis_start R n db)) Q'"
    "list_all queueable jobs"
    "distinct (map localQueueKey jobs)" "List.set (map localQueueKey jobs) \<subseteq> startable Q"
    "length jobs = min (nat n) (card (startable Q))"
    "list_all (\<lambda>job. longest_waiting Q (localQueueKey job) (canonicalId (jk_ref job)) (key_serialize job)) jobs"
    "starts (nat n) (map localQueueKey jobs) (map key_serialize jobs) Q Q' \<or> n \<le> 0 \<and> Q' = Q"
proof (cases "n > 0")
  case False
  then show ?thesis using st by (intro that [of "[]" Q]) (auto simp: redis_start_def)
next
  case True
  note rel = queue_state_def [THEN iffD1, OF st]
  obtain qs sers db' Q' where s: "start_script R readyKey busyKey (nat n) db = (Inr sers, db')"
    "starts (nat n) qs sers Q Q'" "queues_of view db' Q'" "queues_ok Q'"
    using start_refines [OF conjunct1 [OF rel] conjunct1 [OF conjunct2 [OF rel]]] .
  then obtain Q1 where take: "take_all qs sers Q Q1" "distinct qs" "List.set qs \<subseteq> startable Q"
    "length qs = min (nat n) (card (startable Q))" by (auto simp: starts_def)
  note long = take_all_longest [OF take(1,2)]
  have "\<exists>q can. printed_job q can ser" if ser: "ser \<in> List.set sers" for ser
  proof -
    obtain i where "i < length sers" "ser = sers ! i" using ser by (auto simp: in_set_conv_nth)
    with long obtain can where "longest_waiting Q (qs ! i) can ser"
      by (auto simp: list_all2_conv_all_nth)
    then have "latest Q (qs ! i) can = Some ser" by (simp add: longest_waiting_def)
    with rel show ?thesis unfolding jobs_ok_def by blast
  qed
  then obtain jobs where jobs: "res_mapM key_deserialize sers = Inr jobs"
    "map key_serialize jobs = sers" "list_all queueable jobs"
    using res_mapM_printed [of sers] by (auto simp: list_all_iff)
  have len: "length qs = length jobs" using list_all2_lengthD [OF long] jobs(2) by auto
  have at: "localQueueKey (jobs ! i) = qs ! i \<and>
      longest_waiting Q (qs ! i) (canonicalId (jk_ref (jobs ! i))) (key_serialize (jobs ! i))"
    if i: "i < length jobs" for i
  proof -
    have "sers ! i = key_serialize (jobs ! i)" using i unfolding jobs(2) [symmetric] by simp
    then obtain can where can: "longest_waiting Q (qs ! i) can (key_serialize (jobs ! i))"
      using list_all2_nthD [OF long, of i] i len by auto
    then have "latest Q (qs ! i) can = Some (key_serialize (jobs ! i))" by (simp add: longest_waiting_def)
    with rel have "printed_job (qs ! i) can (key_serialize (jobs ! i))" unfolding jobs_ok_def by blast
    then obtain job where "queueable job" "key_serialize (jobs ! i) = key_serialize job"
      "localQueueKey job = qs ! i" "canonicalId (jk_ref job) = can" unfolding printed_job_def by blast
    moreover have "queueable (jobs ! i)" using jobs(3) i by (simp add: list_all_length)
    note job = calculation this
    have "jobs ! i = job"
      by (rule inj_onD [OF key_serialize_inj job(2)]) (use job(1,5) in \<open>simp_all add: queueable_def\<close>)
    with can job(3,4) show ?thesis by simp
  qed
  have qs: "map localQueueKey jobs = qs" using at len by (simp add: list_eq_iff_nth_eq)
  show ?thesis
  proof (rule that [of jobs Q'])
    show "fst (redis_start R n db) = Inr jobs" using True s(1) jobs(1) by (simp add: redis_start_def)
    show "queue_state view (snd (redis_start R n db)) Q'"
      using True s rel starts_jobs_ok [OF s(2)] by (simp add: redis_start_def queue_state_def)
    show "list_all queueable jobs" by (rule jobs(3))
    show "distinct (map localQueueKey jobs)" "List.set (map localQueueKey jobs) \<subseteq> startable Q"
      unfolding qs by (rule take(2), rule take(3))
    show "length jobs = min (nat n) (card (startable Q))" using take(4) len by simp
    show "list_all (\<lambda>job. longest_waiting Q (localQueueKey job) (canonicalId (jk_ref job)) (key_serialize job)) jobs"
      using at by (simp add: list_all_length)
    show "starts (nat n) (map localQueueKey jobs) (map key_serialize jobs) Q Q' \<or> n \<le> 0 \<and> Q' = Q"
      using s(2) by (simp only: qs jobs(2)) simp
  qed
qed

lemma reach_state: "queue_reach R view db \<Longrightarrow> \<exists>Q. queue_state view db Q"
proof (induction rule: queue_reach.induct)
  case (reach_empty db)
  then show ?case using queue_state_empty by blast
next
  case (reach_push db job t)
  then show ?case using push_state(1) by blast
next
  case (reach_start db n)
  then obtain Q where "queue_state view db Q" by blast
  from start_state [OF this] show ?case by blast
next
  case (reach_complete db job)
  then show ?case using complete_state(1) by blast
qed

end

section \<open>Properties\<close>

text \<open>C1
  In every state of the server that pushes, starts and completions can reach from an empty
  one, the keys of the queues have the invariant: every waiting canonical id of every queue
  has exactly one job that parses and belongs to that queue, the counter of a queue is the
  number of its waiting ids and is missing when there are none, and the busy queues are
  those with an active job.
\<close>

theorem queue_invariant:
  assumes "redis_server R view" and "queue_reach R view db"
  shows "\<exists>Q. queues_of view db Q \<and> jobs_ok Q \<and> dom (busy Q) = dom (active Q) \<and>
    (\<forall>q. finite (dom (waiting Q q)) \<and> dom (latest Q q) = dom (waiting Q q) \<and>
      ready Q q = (if waiting Q q = Map.empty then None else Some (int (card (dom (waiting Q q))))))"
proof -
  obtain Q where Q: "queue_state view db Q" using redis_server.reach_state [OF assms] by blast
  have "ready Q q = (if waiting Q q = Map.empty then None else Some (int (card (dom (waiting Q q)))))" for q
  proof (cases "ready Q q")
    case None
    then have "score_of (ready Q) q = 0" by (simp add: score_of_def)
    moreover have "finite (dom (waiting Q q))" "score_of (ready Q) q = int (card (dom (waiting Q q)))"
      using Q by (simp_all add: queue_state_def queues_ok_def count_ok_def)
    ultimately show ?thesis using None by simp
  next
    case (Some n)
    then have "waiting Q q \<noteq> Map.empty" "score_of (ready Q) q = n"
      using Q by (auto simp: queue_state_def queues_ok_def score_of_def)
    then show ?thesis using Q Some by (simp add: queue_state_def queues_ok_def count_ok_def)
  qed
  with Q show ?thesis by (intro exI [of _ Q]) (simp add: queue_state_def queues_ok_def count_ok_def)
qed

text \<open>C2
  \<open>start(n)\<close> starts as many jobs as it may and no two of one queue: in every reachable state
  it returns the smaller of \<open>n\<close> and the number of queues that have waiting jobs and no active
  one, each job from a different one of these queues, and each the last pushed job of the
  id that waits longest in its queue; it never fails.
\<close>

theorem start_takes_longest_waiting:
  assumes "redis_server R view" and "queue_reach R view db"
  shows "\<exists>Q jobs. queues_of view db Q \<and> fst (redis_start R n db) = Inr jobs \<and>
    distinct (map localQueueKey jobs) \<and>
    list_all (\<lambda>job. active Q (localQueueKey job) = None) jobs \<and>
    length jobs = min (nat n) (card {q. waiting Q q \<noteq> Map.empty \<and> active Q q = None}) \<and>
    list_all (\<lambda>job. longest_waiting Q (localQueueKey job) (canonicalId (jk_ref job)) (key_serialize job)) jobs"
proof -
  obtain Q where Q: "queue_state view db Q" using redis_server.reach_state [OF assms] by blast
  have cnt: "count_ok Q" "queues_ok Q" using Q by (simp_all add: queue_state_def queues_ok_def)
  have "q \<in> dom (ready Q) \<longleftrightarrow> waiting Q q \<noteq> Map.empty" for q
  proof
    show "q \<in> dom (ready Q) \<Longrightarrow> waiting Q q \<noteq> Map.empty" using cnt(2) by (simp add: queues_ok_def)
    assume "waiting Q q \<noteq> Map.empty"
    then have "score_of (ready Q) q > 0" using cnt(1) by (auto simp: count_ok_def card_gt_0_iff)
    then show "q \<in> dom (ready Q)" by (auto simp: score_of_def split: option.splits)
  qed
  then have st: "startable Q = {q. waiting Q q \<noteq> Map.empty \<and> active Q q = None}"
    using cnt(1) by (auto simp: startable_def count_ok_def domIff)
  obtain jobs where "fst (redis_start R n db) = Inr jobs" "distinct (map localQueueKey jobs)"
    "set (map localQueueKey jobs) \<subseteq> startable Q" "length jobs = min (nat n) (card (startable Q))"
    "list_all (\<lambda>job. longest_waiting Q (localQueueKey job) (canonicalId (jk_ref job)) (key_serialize job)) jobs"
    using redis_server.start_state [OF assms(1) Q] .
  with Q show ?thesis unfolding st
    by (intro exI [of _ Q] exI [of _ jobs]) (auto simp: queue_state_def list_all_iff)
qed

text \<open>C25
  \<open>push\<close> supersedes: in every reachable state, pushing a job makes it the job of its id in its
  queue, where it waits since the first push of that id that has not been started; the result
  names the job it replaces there (to cancel), and the active job of that queue when it has
  the same id (to abort), which is then not active any more; an active job with another id
  stays active.
\<close>

theorem push_supersedes:
  assumes "redis_server R view" and "queue_reach R view db" and "queueable job"
  shows "\<exists>Q Q' cancel abort.
    queues_of view db Q \<and> queues_of view (snd (redis_push R job t db)) Q' \<and>
    (let q = localQueueKey job; can = canonicalId (jk_ref job) in
     fst (redis_push R job t db) =
       Inr \<lparr> pr_size = card (dom (waiting Q' q)), pr_cancel = cancel, pr_abort = abort \<rparr> \<and>
     latest Q' q can = Some (key_serialize job) \<and>
     waiting Q' q can = Some (case waiting Q q can of Some t' \<Rightarrow> t' | None \<Rightarrow> t) \<and>
     map_option key_serialize cancel = latest Q q can \<and>
     (if is_active Q q can
      then map_option key_serialize abort = map_option snd (active Q q) \<and> active Q' q = None
      else abort = None \<and> active Q' q = active Q q))"
proof -
  obtain Q where Q: "queue_state view db Q" using redis_server.reach_state [OF assms(1,2)] by blast
  let ?q = "localQueueKey job" and ?can = "canonicalId (jk_ref job)"
  let ?Q' = "push_queue ?q (key_serialize job) ?can t Q"
  note push = redis_server.push_state [OF assms(1) Q assms(3), of t]
  obtain cancel abort where res: "fst (redis_push R job t db) =
        Inr \<lparr> pr_size = card (dom (waiting ?Q' ?q)), pr_cancel = cancel, pr_abort = abort \<rparr>"
    "map_option key_serialize cancel = latest Q ?q ?can"
    "map_option key_serialize abort = (if is_active Q ?q ?can then map_option snd (active Q ?q) else None)"
    using push(2) by blast
  have "latest ?Q' ?q ?can = Some (key_serialize job)"
    "waiting ?Q' ?q ?can = Some (case waiting Q ?q ?can of Some t' \<Rightarrow> t' | None \<Rightarrow> t)"
    "active ?Q' ?q = (if is_active Q ?q ?can then None else active Q ?q)"
    by (auto simp: push_queue_def Let_def enqueue_def release_queue_def split: option.splits)
  with Q push(1) res show ?thesis
    by (intro exI [of _ Q] exI [of _ ?Q'] exI [of _ cancel] exI [of _ abort],
        cases "is_active Q ?q ?can") (auto simp: queue_state_def Let_def)
qed

text \<open>
  \<open>complete\<close> reports true exactly when the job is the active job of its queue; then the queue
  has no active job any more and may be started again, and otherwise nothing changes. No
  other queue, and no waiting job, is touched.
\<close>

theorem complete_frees_queue:
  assumes "redis_server R view" and "queue_reach R view db" and "queueable job"
  shows "\<exists>Q Q'. queues_of view db Q \<and> queues_of view (snd (redis_complete R job db)) Q' \<and>
    fst (redis_complete R job db) = (map_option snd (active Q (localQueueKey job)) = Some (key_serialize job)) \<and>
    waiting Q' = waiting Q \<and> latest Q' = latest Q \<and>
    active Q' = (if fst (redis_complete R job db) then (active Q)(localQueueKey job := None) else active Q)"
proof -
  obtain Q where Q: "queue_state view db Q" using redis_server.reach_state [OF assms(1,2)] by blast
  note c = redis_server.complete_state [OF assms(1) Q assms(3)]
  show ?thesis
    using Q c by (intro exI [of _ Q] exI [of _ "complete_queue (localQueueKey job) (key_serialize job) Q"])
      (simp add: queue_state_def complete_queue_def release_queue_def)
qed

section \<open>Witnesses\<close>

definition sample_job :: "string \<Rightarrow> string \<Rightarrow> job_key" where
  "sample_job i branch = mk_job_key (mk_source ''g'' ''p'') (UpdateJob i branch (replicate 40 (CHR ''a'')))"

lemma sample_job_queueable: "list_all (\<lambda>c. c \<notin> {CHR '':'', CHR ''|''}) (i @ branch) \<Longrightarrow> queueable (sample_job i branch)"
proof -
  assume a: "list_all (\<lambda>c. c \<notin> {CHR '':'', CHR ''|''}) (i @ branch)"
  then have s: "delim_safe delimiter i" "delim_safe delimiter branch"
    by (auto simp: list_all_iff intro!: delim_safe_delimiter)
  have "is_sha (replicate 40 (CHR ''a''))" by (simp add: is_sha_def hex_val_def list_all_iff)
  with a s show ?thesis
    by (auto simp: queueable_def key_ok_def sample_job_def source_asString_def job_serialize_def
        list_all_iff delimiter_def)
qed

lemma empty_memory: "mem_view [] = (\<lambda>k. None)"
  by (simp add: mem_view_def fun_eq_iff)

lemma memory_reach:
  "queue_reach mem_redis mem_view (snd (redis_push mem_redis (sample_job ''7'' ''master'') 1 []))"
  by (intro queue_reach.intros sample_job_queueable empty_memory) simp

theorem queue_invariant_witness:
  "\<exists>Q. queues_of mem_view (snd (redis_push mem_redis (sample_job ''7'' ''master'') 1 [])) Q \<and> jobs_ok Q"
  using queue_invariant [OF memory.redis_server_axioms memory_reach] by blast

theorem start_takes_longest_waiting_witness:
  "\<exists>jobs. fst (redis_start mem_redis 5 (snd (redis_push mem_redis (sample_job ''7'' ''master'') 1 []))) = Inr jobs \<and>
    distinct (map localQueueKey jobs)"
  using start_takes_longest_waiting [OF memory.redis_server_axioms memory_reach, of 5] by blast

theorem push_supersedes_witness:
  "\<exists>r. fst (redis_push mem_redis (sample_job ''7'' ''master'') 2
     (snd (redis_push mem_redis (sample_job ''7'' ''master'') 1 []))) = Inr r"
  using push_supersedes [OF memory.redis_server_axioms memory_reach sample_job_queueable, of "''7''" "''master''" 2]
  by (auto simp: Let_def)

theorem complete_frees_queue_witness:
  "\<exists>Q (Q' :: queues). queues_of mem_view (snd (redis_push mem_redis (sample_job ''7'' ''master'') 1 [])) Q \<and>
    waiting Q' = waiting Q"
  using complete_frees_queue [OF memory.redis_server_axioms memory_reach sample_job_queueable, of "''7''" "''master''"]
  by auto

end
