(* ===== verification/Queue_States.thy ===== *)
theory Queue_States
  imports Main
begin

text \<open>
  The life of a job: \<open>State\<close>, \<open>StateTransitions\<close>, \<open>isStateTerminal\<close> and
  \<open>isTransitionValid\<close> of \<open>backend/src/system/queue/queue.ts\<close>.
\<close>

datatype state = QUEUED | STARTING | STARTED | CANCELLED | SUCCESS | FAILURE | ABORTED | ERROR
  | TIMEOUT | CONFLICT | DEPENDENCY | REBASED

fun state_string :: "state \<Rightarrow> string" where
  "state_string QUEUED = ''queued''"
| "state_string STARTING = ''starting''"
| "state_string STARTED = ''started''"
| "state_string CANCELLED = ''cancelled''"
| "state_string SUCCESS = ''success''"
| "state_string FAILURE = ''failure''"
| "state_string ABORTED = ''aborted''"
| "state_string ERROR = ''error''"
| "state_string TIMEOUT = ''timeout''"
| "state_string CONFLICT = ''conflict''"
| "state_string DEPENDENCY = ''dependency''"
| "state_string REBASED = ''rebased''"

definition all_states :: "state list" where
  "all_states = [QUEUED, STARTING, STARTED, CANCELLED, SUCCESS, FAILURE, ABORTED, ERROR,
     TIMEOUT, CONFLICT, DEPENDENCY, REBASED]"

fun StateTransitions :: "state \<Rightarrow> state list" where
  "StateTransitions QUEUED = [STARTING, CANCELLED]"
| "StateTransitions STARTING =
     [REBASED, CONFLICT, ABORTED, STARTED, ERROR, TIMEOUT, FAILURE, ABORTED, DEPENDENCY]"
| "StateTransitions STARTED = [ABORTED, FAILURE, SUCCESS, ERROR, TIMEOUT]"
| "StateTransitions _ = []"

definition isStateTerminal :: "state \<Rightarrow> bool" where
  "isStateTerminal s \<longleftrightarrow> length (StateTransitions s) = 0"

definition isTransitionValid :: "state \<Rightarrow> state \<Rightarrow> bool" where
  "isTransitionValid a b \<longleftrightarrow> List.find (\<lambda>s. s = b) (StateTransitions a) \<noteq> None"

text \<open>A stored string as a state; the source casts it.\<close>

definition parse_state :: "string \<Rightarrow> state option" where
  "parse_state x = List.find (\<lambda>s. state_string s = x) all_states"

lemma parse_state_string [simp]: "parse_state (state_string s) = Some s"
  by (cases s) (simp_all add: parse_state_def all_states_def)

lemma state_string_inject [simp]: "state_string s = state_string t \<longleftrightarrow> s = t"
  by (metis option.inject parse_state_string)

lemma state_string_nonempty [simp]: "state_string s \<noteq> []"
  by (cases s) simp_all

lemma parse_state_Some: "parse_state x = Some s \<longleftrightarrow> x = state_string s"
  by (metis (mono_tags, lifting) find_Some_iff parse_state_def parse_state_string)

lemma isTransitionValid_iff: "isTransitionValid a b \<longleftrightarrow> b \<in> set (StateTransitions a)"
  by (auto simp: isTransitionValid_def find_None_iff)

lemma isStateTerminal_iff: "isStateTerminal s \<longleftrightarrow> s \<notin> {QUEUED, STARTING, STARTED}"
  by (cases s) (simp_all add: isStateTerminal_def)

text \<open>The steps left in the life of a job.\<close>

fun steps_left :: "state \<Rightarrow> nat" where
  "steps_left QUEUED = 3"
| "steps_left STARTING = 2"
| "steps_left STARTED = 1"
| "steps_left _ = 0"

lemma transition_decreases: "isTransitionValid a b \<Longrightarrow> steps_left b < steps_left a"
  by (cases a; cases b) (simp_all add: isTransitionValid_iff)

lemma terminal_no_transition: "isStateTerminal a \<Longrightarrow> \<not> isTransitionValid a b"
  by (simp add: isStateTerminal_def isTransitionValid_iff)

end
