(* ===== verification/Queue_Service.thy ===== *)
theory Queue_Service
  imports Queue_Redis Queue_States
begin

text \<open>
  \<open>backend/src/system/queue/queue-impl.ts\<close>: the queue service, which keeps the state of every
  job in the server beside the queues and tells its listener every change of state. The
  notifications, which the source schedules after the transaction, are returned in order.
\<close>

section \<open>Operations\<close>

record transition =
  tr_job :: job_key
  tr_state :: state
  tr_previous :: "string option"

definition jobStatusKey :: "job_key \<Rightarrow> string" where
  "jobStatusKey job = ''queue:status:'' @ key_serialize job"

fun setState :: "'db redis \<Rightarrow> state \<Rightarrow> job_key list \<Rightarrow> 'db \<Rightarrow> transition list \<times> 'db" where
  "setState R s [] db = ([], db)"
| "setState R s (job # jobs) db =
     (let old = rd_get R (jobStatusKey job) db;
          (ts, db') = setState R s jobs (rd_set R (jobStatusKey job) (state_string s) db)
      in (\<lparr> tr_job = job, tr_state = s, tr_previous = old \<rparr> # ts, db'))"

definition getState :: "'db redis \<Rightarrow> job_key \<Rightarrow> 'db \<Rightarrow> string option" where
  "getState R job db = (let r = rd_get R (jobStatusKey job) db in if truthy r then r else None)"

definition queue_start :: "'db redis \<Rightarrow> int \<Rightarrow> 'db \<Rightarrow> job_key list res \<times> transition list \<times> 'db" where
  "queue_start R maxCount db =
     (case redis_start R maxCount db of
        (Inl e, db') \<Rightarrow> (Inl e, [], db')
      | (Inr jobs, db') \<Rightarrow> (let (ts, db'') = setState R STARTING jobs db' in (Inr jobs, ts, db'')))"

definition opt_list :: "'a option \<Rightarrow> 'a list" where
  "opt_list x = (case x of None \<Rightarrow> [] | Some y \<Rightarrow> [y])"

definition queue_push :: "'db redis \<Rightarrow> job_key \<Rightarrow> int \<Rightarrow> 'db \<Rightarrow> unit res \<times> transition list \<times> 'db" where
  "queue_push R job time db =
     (case redis_push R job time db of
        (Inl e, db0) \<Rightarrow> (Inl e, [], db0)
      | (Inr r, db0) \<Rightarrow>
          (let (t1, db1) = setState R QUEUED [job] db0;
               (t2, db2) = setState R ABORTED (opt_list (pr_abort r)) db1;
               (t3, db3) = setState R CANCELLED (opt_list (pr_cancel r)) db2
           in (Inr (), t1 @ t2 @ t3, db3)))"

definition queue_addState ::
  "'db redis \<Rightarrow> job_key \<Rightarrow> state \<Rightarrow> 'db \<Rightarrow> bool res \<times> transition list \<times> 'db" where
  "queue_addState R job new db =
     (case getState R job db of
        None \<Rightarrow> (Inl (Error ''undefined''), [], db)
      | Some old \<Rightarrow>
          (case parse_state old of
             None \<Rightarrow> (Inl (Error ''StateTransitions[state] is undefined''), [], db)
           | Some s \<Rightarrow>
               if isTransitionValid s new then
                 (if isStateTerminal new then
                    (let (_, db1) = redis_complete R job db;
                         (ts, db2) = setState R new [job] db1
                     in (Inr True, ts, db2))
                  else (let (ts, db1) = setState R new [job] db in (Inr False, ts, db1)))
               else (Inl (Error (''State transition '' @ old @ ''->'' @ state_string new @
                       '' is illegal ('' @ key_toString job @ '').'')), [], db)))"

section \<open>The status keys\<close>

lemma jobStatusKey_inject: "key_ok j \<Longrightarrow> key_ok k \<Longrightarrow> jobStatusKey j = jobStatusKey k \<longleftrightarrow> j = k"
  using inj_onD [OF key_serialize_inj, of j k] by (auto simp: jobStatusKey_def)

lemma jobStatusKey_eq: "jobStatusKey j = jobStatusKey k \<longleftrightarrow> key_serialize j = key_serialize k"
  by (simp add: jobStatusKey_def)

lemma jobStatusKey_mem: "jobStatusKey j \<in> jobStatusKey ` J \<longleftrightarrow> key_serialize j \<in> key_serialize ` J"
  by (auto simp: jobStatusKey_eq image_iff)

lemma split_status: "split '':'' (jobStatusKey j) = ''queue'' # ''status'' # split '':'' (key_serialize j)"
  using split_Cons_safe [of "CHR '':''" "''queue''" "''status:'' @ key_serialize j"]
    split_Cons_safe [of "CHR '':''" "''status''" "key_serialize j"]
  by (simp add: jobStatusKey_def)

lemma status_not_queue:
  assumes "is_queue q"
  shows "jobStatusKey j \<noteq> q" "jobStatusKey j \<noteq> activeKey q" "jobStatusKey j \<noteq> canonicalKey q c"
proof -
  obtain a b where s: "split '':'' q = [''queue'', a, ''local'', b]"
    "\<And>r. split '':'' (q @ CHR '':'' # r) = [''queue'', a, ''local'', b] @ split '':'' r"
    "CHR ''/'' \<in> set a" by (metis is_queue_split [OF assms])
  then have a: "a \<noteq> ''status''" by auto
  with s split_status [of j] show "jobStatusKey j \<noteq> q" by auto
  have "split '':'' (activeKey q) = [''queue'', a, ''local'', b] @ split '':'' ''active''"
    using s(2) [of "''active''"] by (simp add: activeKey_def)
  with a split_status [of j] show "jobStatusKey j \<noteq> activeKey q" by auto
  have "split '':'' (canonicalKey q c) = [''queue'', a, ''local'', b] @ split '':'' (''canonical:'' @ c)"
    by (simp only: canonicalKey_alt s(2))
  with a split_status [of j] show "jobStatusKey j \<noteq> canonicalKey q c" by auto
qed

lemma status_not_global [simp]: "jobStatusKey j \<noteq> readyKey" "jobStatusKey j \<noteq> busyKey"
  by (simp_all add: jobStatusKey_def readyKey_def busyKey_def)

text \<open>Setting states leaves the queues alone, and queue operations leave the states alone.\<close>

lemma status_is_other [simp]: "is_other (jobStatusKey j)"
  using status_not_queue by (auto simp: is_other_def)

lemma queues_of_others:
  assumes "queues_of view db Q" and "\<And>k. k \<notin> K \<Longrightarrow> view db' k = view db k" and "\<And>k. k \<in> K \<Longrightarrow> is_other k"
  shows "queues_of view db' (Q \<lparr> others := view db' \<rparr>)"
proof -
  have "view db' k = view db k" if "\<not> is_other k" for k using assms(2,3) that by blast
  then have "view db' q = view db q" "view db' (activeKey q) = view db (activeKey q)"
    "view db' (canonicalKey q c) = view db (canonicalKey q c)" if "is_queue q" for q c
    using that by (auto simp: is_other_def)
  moreover have "view db' readyKey = view db readyKey" "view db' busyKey = view db busyKey"
    using assms(2,3) by (auto simp: is_other_def)
  ultimately show ?thesis using assms(1) by (simp add: queues_of_def)
qed

lemma queue_state_others:
  "queue_state view db Q \<Longrightarrow> queues_of view db' (Q \<lparr> others := w \<rparr>) \<Longrightarrow>
   queue_state view db' (Q \<lparr> others := w \<rparr>)"
  by (simp add: queue_state_def queues_ok_def count_ok_def jobs_ok_def)

definition status :: "queues \<Rightarrow> job_key \<Rightarrow> rvalue option" where
  "status Q job = others Q (jobStatusKey job)"

context redis_server
begin

lemma setState_view:
  "view (snd (setState R s jobs db)) =
    (\<lambda>k. if k \<in> jobStatusKey ` List.set jobs then Some (RStr (state_string s)) else view db k)"
proof (induction jobs arbitrary: db)
  case (Cons job jobs)
  show ?case by (auto simp: split_beta Let_def Cons.IH set fun_eq_iff)
qed simp

lemma setState_state:
  assumes st: "queue_state view db Q"
  obtains Q' where "queue_state view (snd (setState R s jobs db)) Q'"
    "waiting Q' = waiting Q" "latest Q' = latest Q" "active Q' = active Q"
    "\<And>j. status Q' j = (if key_serialize j \<in> key_serialize ` List.set jobs
        then Some (RStr (state_string s)) else status Q j)"
proof -
  let ?db' = "snd (setState R s jobs db)"
  let ?Q' = "Q \<lparr> others := view ?db' \<rparr>"
  have rel: "queues_of view db Q" using st by (simp add: queue_state_def)
  have "queues_of view ?db' ?Q'"
    by (rule queues_of_others [OF rel, of "jobStatusKey ` List.set jobs"])
      (auto simp: setState_view)
  from queue_state_others [OF st this] have "queue_state view ?db' ?Q'" .
  moreover have "status ?Q' j = (if key_serialize j \<in> key_serialize ` List.set jobs
        then Some (RStr (state_string s)) else status Q j)" for j
    using rel status_is_other by (simp add: status_def setState_view queues_of_def jobStatusKey_mem)
  ultimately show ?thesis by (intro that [of ?Q']) simp_all
qed

end

section \<open>Active jobs are starting or started\<close>

definition running :: "rvalue option \<Rightarrow> bool" where
  "running v \<longleftrightarrow> v \<in> {Some (RStr (state_string STARTING)), Some (RStr (state_string STARTED))}"

definition active_running :: "queues \<Rightarrow> bool" where
  "active_running Q \<longleftrightarrow> (\<forall>q can job. active Q q = Some (can, key_serialize job) \<and> queueable job \<longrightarrow>
     running (status Q job))"

definition status_strings :: "queues \<Rightarrow> bool" where
  "status_strings Q \<longleftrightarrow> (\<forall>job. \<exists>x. as_str (status Q job) = Some x)"

definition service_state :: "('db \<Rightarrow> string \<Rightarrow> rvalue option) \<Rightarrow> 'db \<Rightarrow> queues \<Rightarrow> bool" where
  "service_state view db Q \<longleftrightarrow> queue_state view db Q \<and> active_running Q \<and> status_strings Q"

lemma key_serialize_inject:
  "queueable j \<Longrightarrow> queueable k \<Longrightarrow> key_serialize j = key_serialize k \<longleftrightarrow> j = k"
  using inj_onD [OF key_serialize_inj, of j k] by (auto simp: queueable_def)

lemma jobStatusKey_inject': "queueable j \<Longrightarrow> queueable k \<Longrightarrow> jobStatusKey j = jobStatusKey k \<longleftrightarrow> j = k"
  by (simp add: queueable_def jobStatusKey_inject)

lemma printed_job_unique:
  "printed_job q c s \<Longrightarrow> printed_job q' c' s \<Longrightarrow> q = q' \<and> c = c'"
  unfolding printed_job_def by (metis key_serialize_inject)

lemma jobs_ok_printed:
  "jobs_ok Q \<Longrightarrow> latest Q q can = Some ser \<Longrightarrow> printed_job q can ser"
  "jobs_ok Q \<Longrightarrow> active Q q = Some (can, ser) \<Longrightarrow> printed_job q can ser"
  by (simp_all add: jobs_ok_def)

lemma queueable_printed:
  "queueable job \<Longrightarrow> printed_job (localQueueKey job) (canonicalId (jk_ref job)) (key_serialize job)"
  by (auto simp: printed_job_def)

lemma take_all_active:
  "take_all qs sers Q Q' \<Longrightarrow> active Q' q = Some (can, ser) \<Longrightarrow> active Q q = Some (can, ser) \<or> ser \<in> set sers"
proof (induction rule: take_all.induct)
  case (take_next p c s Q Q' qs sers Q'')
  then have "active Q' q = Some (can, ser) \<or> ser \<in> set sers" by blast
  moreover have "active Q' = (active Q)(p \<mapsto> (c, s))"
    using take_next.hyps(1) by (simp add: takes_def take_queue_def)
  ultimately show ?case by (auto split: if_splits)
qed simp

lemma take_all_others: "take_all qs sers Q Q' \<Longrightarrow> others Q' = others Q"
  by (induction rule: take_all.induct) (auto simp: takes_def take_queue_def)

lemma starts_effect:
  assumes "starts n qs sers Q Q'"
  shows "others Q' = others Q"
    "active Q' q = Some (can, ser) \<Longrightarrow> active Q q = Some (can, ser) \<or> ser \<in> set sers"
proof -
  obtain Q1 where Q1: "take_all qs sers Q Q1" "Q' = purge_ready Q1" using assms by (auto simp: starts_def)
  then show "others Q' = others Q" by (simp add: purge_ready_def take_all_others)
  show "active Q' q = Some (can, ser) \<Longrightarrow> active Q q = Some (can, ser) \<or> ser \<in> set sers"
    using take_all_active [OF Q1(1)] Q1(2) by (simp add: purge_ready_def)
qed

lemma push_queue_effect:
  "others (push_queue q ser can t Q) = others Q"
  "active (push_queue q ser can t Q) = (if is_active Q q can then (active Q)(q := None) else active Q)"
  by (simp_all add: push_queue_def Let_def enqueue_def release_queue_def)

text \<open>The states after some settings, seen from the queues.\<close>

lemma active_running_upd:
  assumes "active_running Q" and "active Q' = active Q"
    and "\<And>j. status Q' j = (if key_serialize j \<in> key_serialize ` set jobs then Some (RStr (state_string s)) else status Q j)"
    and "s \<in> {STARTING, STARTED} \<or>
      (\<forall>q can ser. active Q q = Some (can, ser) \<longrightarrow> ser \<notin> key_serialize ` set jobs)"
  shows "active_running Q'"
proof -
  have "running (status Q' job)" if a: "active Q q = Some (can, key_serialize job)" and j: "queueable job" for q can job
  proof (cases "key_serialize job \<in> key_serialize ` set jobs")
    case True
    with assms(4) a j have "s \<in> {STARTING, STARTED}" by blast
    with True show ?thesis by (auto simp: assms(3) running_def)
  next
    case False
    then show ?thesis using assms(1) a j by (auto simp: assms(3) active_running_def)
  qed
  then show ?thesis by (auto simp: active_running_def assms(2))
qed

lemma status_strings_upd:
  assumes "status_strings Q"
    and "\<And>j. status Q' j = (if key_serialize j \<in> key_serialize ` set jobs then Some (RStr (state_string s)) else status Q j)"
  shows "status_strings Q'"
  using assms(1) by (auto simp: status_strings_def assms(2))

context redis_server
begin

lemma setState_service:
  assumes st: "service_state view db Q"
    and run: "s \<in> {STARTING, STARTED} \<or>
      (\<forall>q can ser. active Q q = Some (can, ser) \<longrightarrow> ser \<notin> key_serialize ` List.set jobs)"
  obtains Q' where "service_state view (snd (setState R s jobs db)) Q'"
    "waiting Q' = waiting Q" "latest Q' = latest Q" "active Q' = active Q"
    "\<And>j. status Q' j = (if key_serialize j \<in> key_serialize ` List.set jobs
        then Some (RStr (state_string s)) else status Q j)"
proof -
  have qs: "queue_state view db Q" using st by (simp add: service_state_def)
  from setState_state [OF qs, of s jobs] obtain Q' where Q': "queue_state view (snd (setState R s jobs db)) Q'"
    "waiting Q' = waiting Q" "latest Q' = latest Q" "active Q' = active Q"
    "\<And>j. status Q' j = (if key_serialize j \<in> key_serialize ` List.set jobs
        then Some (RStr (state_string s)) else status Q j)" by blast
  have "service_state view (snd (setState R s jobs db)) Q'"
    using Q'(1) st active_running_upd [OF _ Q'(4,5) run] status_strings_upd [OF _ Q'(5)]
    by (simp add: service_state_def)
  with Q' that show ?thesis by blast
qed

lemma getState_status:
  assumes "service_state view db Q"
  shows "getState R job db = (case status Q job of Some (RStr x) \<Rightarrow> if x = [] then None else Some x | _ \<Rightarrow> None)"
proof -
  have v: "view db (jobStatusKey job) = status Q job"
    using assms by (simp add: service_state_def queue_state_def queues_of_def status_def)
  obtain x where x: "as_str (status Q job) = Some x" using assms by (auto simp: service_state_def status_strings_def)
  then have "rd_get R (jobStatusKey job) db = x" using get [of db "jobStatusKey job"] v by simp
  moreover from x have "status Q job = None \<and> x = None \<or> (\<exists>s. status Q job = Some (RStr s) \<and> x = Some s)"
    by (auto simp: as_str_def split: option.splits rvalue.splits)
  ultimately show ?thesis by (auto simp: getState_def Let_def)
qed

text \<open>Every operation keeps the invariant.\<close>

lemma push_service:
  assumes st: "service_state view db Q" and job: "queueable job"
  obtains Q' where "fst (queue_push R job t db) = Inr ()" "service_state view (snd (snd (queue_push R job t db))) Q'"
    "waiting Q' = waiting (push_queue (localQueueKey job) (key_serialize job) (canonicalId (jk_ref job)) t Q)"
    "latest Q' = latest (push_queue (localQueueKey job) (key_serialize job) (canonicalId (jk_ref job)) t Q)"
    "active Q' = active (push_queue (localQueueKey job) (key_serialize job) (canonicalId (jk_ref job)) t Q)"
    "status Q' job = (if latest Q (localQueueKey job) (canonicalId (jk_ref job)) = Some (key_serialize job)
        then Some (RStr (state_string CANCELLED))
      else if active Q (localQueueKey job) = Some (canonicalId (jk_ref job), key_serialize job)
        then Some (RStr (state_string ABORTED))
      else Some (RStr (state_string QUEUED)))"
proof -
  let ?q = "localQueueKey job" and ?can = "canonicalId (jk_ref job)"
  define Q0 where "Q0 = push_queue ?q (key_serialize job) ?can t Q"
  have qs: "queue_state view db Q" and jo: "jobs_ok Q"
    using st by (simp_all add: service_state_def queue_state_def)
  note push = push_state [OF qs job, of t, folded Q0_def]
  define db0 where "db0 = snd (redis_push R job t db)"
  obtain cancel abort where res: "fst (redis_push R job t db) =
      Inr \<lparr> pr_size = card (dom (waiting Q0 ?q)), pr_cancel = cancel, pr_abort = abort \<rparr>"
    "map_option key_serialize cancel = latest Q ?q ?can"
    "map_option key_serialize abort = (if is_active Q ?q ?can then map_option snd (active Q ?q) else None)"
    using push(2) by blast
  note eff = push_queue_effect [of ?q "key_serialize job" ?can t Q, folded Q0_def]
  have act0: "active Q p = Some (can, s) \<and> (p = ?q \<longrightarrow> can \<noteq> ?can)"
    if "active Q0 p = Some (can, s)" for p can s
    using that by (auto simp: eff(2) is_active_def split: if_splits option.splits)
  have oth: "status Q0 = status Q" by (simp add: fun_eq_iff status_def eff(1))
  have "active_running Q0"
    using st act0 by (simp add: service_state_def active_running_def oth) blast
  then have s0: "service_state view db0 Q0"
    using push(1) st by (simp add: service_state_def status_strings_def oth db0_def)
  have away: "s \<notin> {x. printed_job ?q ?can x}" if "active Q0 p = Some (can, s)" for p can s
    using act0 [OF that] printed_job_unique [of p can s ?q ?can] jobs_ok_printed(2) [OF jo, of p can s] by auto
  have pj: "key_serialize ` List.set [job] \<subseteq> {x. printed_job ?q ?can x}"
    "key_serialize ` List.set (opt_list abort) \<subseteq> {x. printed_job ?q ?can x}"
    "key_serialize ` List.set (opt_list cancel) \<subseteq> {x. printed_job ?q ?can x}"
    using queueable_printed [OF job] res(2,3) jobs_ok_printed [OF jo]
    by (auto simp: opt_list_def is_active_def split: option.splits if_splits)
  have keep: "\<forall>p can s. active Q' p = Some (can, s) \<longrightarrow> s \<notin> key_serialize ` List.set js"
    if "active Q' = active Q0" "key_serialize ` List.set js \<subseteq> {x. printed_job ?q ?can x}" for Q' :: queues and js
    using away that by auto
  obtain Q1 where Q1: "service_state view (snd (setState R QUEUED [job] db0)) Q1"
    "waiting Q1 = waiting Q0" "latest Q1 = latest Q0" "active Q1 = active Q0"
    "\<And>j. status Q1 j = (if key_serialize j \<in> key_serialize ` List.set [job] then Some (RStr (state_string QUEUED)) else status Q0 j)"
    using setState_service [OF s0 disjI2 [OF keep [OF refl pj(1)]], of QUEUED] by blast
  obtain Q2 where Q2: "service_state view (snd (setState R ABORTED (opt_list abort) (snd (setState R QUEUED [job] db0)))) Q2"
    "waiting Q2 = waiting Q1" "latest Q2 = latest Q1" "active Q2 = active Q1"
    "\<And>j. status Q2 j = (if key_serialize j \<in> key_serialize ` List.set (opt_list abort) then Some (RStr (state_string ABORTED)) else status Q1 j)"
    using setState_service [OF Q1(1) disjI2 [OF keep [OF Q1(4) pj(2)]], of ABORTED] by blast
  have a2: "active Q2 = active Q0" using Q1(4) Q2(4) by simp
  obtain Q3 where Q3: "service_state view (snd (setState R CANCELLED (opt_list cancel) (snd (setState R ABORTED (opt_list abort) (snd (setState R QUEUED [job] db0)))))) Q3"
    "waiting Q3 = waiting Q2" "latest Q3 = latest Q2" "active Q3 = active Q2"
    "\<And>j. status Q3 j = (if key_serialize j \<in> key_serialize ` List.set (opt_list cancel) then Some (RStr (state_string CANCELLED)) else status Q2 j)"
    using setState_service [OF Q2(1) disjI2 [OF keep [OF a2 pj(3)]], of CANCELLED] by blast
  have run: "fst (queue_push R job t db) = Inr ()"
    "snd (snd (queue_push R job t db)) = snd (setState R CANCELLED (opt_list cancel) (snd (setState R ABORTED (opt_list abort) (snd (setState R QUEUED [job] db0)))))"
    using res(1) by (auto simp: queue_push_def db0_def split_beta Let_def split: prod.splits sum.splits)
  have mem: "key_serialize job \<in> key_serialize ` List.set (opt_list cancel) \<longleftrightarrow> latest Q ?q ?can = Some (key_serialize job)"
    "key_serialize job \<in> key_serialize ` List.set (opt_list abort) \<longleftrightarrow> active Q ?q = Some (?can, key_serialize job)"
    using res(2,3) by (auto simp: opt_list_def is_active_def split: option.splits if_splits)
  show ?thesis
  proof (rule that [of Q3])
    show "fst (queue_push R job t db) = Inr ()" by (rule run(1))
    show "service_state view (snd (snd (queue_push R job t db))) Q3" unfolding run(2) by (rule Q3(1))
    show "status Q3 job = (if latest Q ?q ?can = Some (key_serialize job) then Some (RStr (state_string CANCELLED))
      else if active Q ?q = Some (?can, key_serialize job) then Some (RStr (state_string ABORTED))
      else Some (RStr (state_string QUEUED)))"
      using mem by (simp add: Q3(5) Q2(5) Q1(5))
  qed (simp_all add: Q1 Q2 Q3 flip: Q0_def)
qed

lemma start_service:
  assumes st: "service_state view db Q"
  obtains jobs Q' where "fst (queue_start R n db) = Inr jobs" "service_state view (snd (snd (queue_start R n db))) Q'"
    "list_all (\<lambda>job. status Q' job = Some (RStr (state_string STARTING))) jobs"
proof -
  have qs: "queue_state view db Q" using st by (simp add: service_state_def)
  obtain jobs Q0 where jobs: "fst (redis_start R n db) = Inr jobs"
    "queue_state view (snd (redis_start R n db)) Q0"
    "starts (nat n) (map localQueueKey jobs) (map key_serialize jobs) Q Q0 \<or> n \<le> 0 \<and> Q0 = Q"
    using start_state [OF qs, of n] by blast
  have eff: "status Q0 = status Q"
    "active Q0 p = Some (can, s) \<Longrightarrow> active Q p = Some (can, s) \<or> s \<in> key_serialize ` List.set jobs" for p can s
    using jobs(3) starts_effect [of "nat n" "map localQueueKey jobs" "map key_serialize jobs" Q Q0]
    by (auto simp: fun_eq_iff status_def)
  obtain Q1 where Q1: "queue_state view (snd (setState R STARTING jobs (snd (redis_start R n db)))) Q1"
    "active Q1 = active Q0"
    "\<And>j. status Q1 j = (if key_serialize j \<in> key_serialize ` List.set jobs then Some (RStr (state_string STARTING)) else status Q0 j)"
    using setState_state [OF jobs(2), of STARTING jobs] by blast
  have "running (status Q1 job)" if a: "active Q1 p = Some (can, key_serialize job)" and j: "queueable job" for p can job
  proof (cases "key_serialize job \<in> key_serialize ` List.set jobs")
    case True
    then show ?thesis by (simp add: Q1(3) running_def)
  next
    case False
    then have "active Q p = Some (can, key_serialize job)" using eff(2) a Q1(2) by auto
    with False st j show ?thesis by (auto simp: Q1(3) eff(1) service_state_def active_running_def)
  qed
  then have "active_running Q1" unfolding active_running_def by blast
  moreover have "status_strings Q1"
    using st by (intro status_strings_upd [of Q Q1 jobs STARTING]) (simp_all add: service_state_def Q1(3) eff(1))
  ultimately have "service_state view (snd (setState R STARTING jobs (snd (redis_start R n db)))) Q1"
    using Q1(1) by (simp add: service_state_def)
  moreover have "fst (queue_start R n db) = Inr jobs"
    "snd (snd (queue_start R n db)) = snd (setState R STARTING jobs (snd (redis_start R n db)))"
    using jobs(1) by (auto simp: queue_start_def split_beta Let_def split: prod.splits)
  moreover have "list_all (\<lambda>job. status Q1 job = Some (RStr (state_string STARTING))) jobs"
    by (simp add: list_all_iff Q1(3))
  ultimately show ?thesis using that by simp
qed

lemma addState_service:
  fixes new :: state
  assumes st: "service_state view db Q" and job: "queueable job"
  defines "cur \<equiv> getState R job db" and "out \<equiv> queue_addState R job new db"
  obtains Q' where "service_state view (snd (snd out)) Q'"
    "case cur of
       Some x \<Rightarrow> (case parse_state x of
           Some s \<Rightarrow> if isTransitionValid s new
             then fst out = Inr (isStateTerminal new) \<and> status Q' job = Some (RStr (state_string new)) \<and>
               (if isStateTerminal new then active Q' (localQueueKey job) \<noteq> Some (canonicalId (jk_ref job), key_serialize job)
                else active Q' = active Q)
             else (\<exists>e. fst out = Inl e) \<and> snd (snd out) = db
         | None \<Rightarrow> (\<exists>e. fst out = Inl e) \<and> snd (snd out) = db)
     | None \<Rightarrow> (\<exists>e. fst out = Inl e) \<and> snd (snd out) = db"
proof (cases "\<exists>x s. cur = Some x \<and> parse_state x = Some s \<and> isTransitionValid s new")
  case False
  then have "(\<exists>e. fst out = Inl e) \<and> snd (snd out) = db"
    by (auto simp: out_def queue_addState_def simp flip: cur_def split: option.splits)
  with False st show ?thesis by (intro that [of Q]) (auto split: option.splits)
next
  case True
  then obtain x s where cur: "cur = Some x" "parse_state x = Some s" "isTransitionValid s new" by blast
  have qs: "queue_state view db Q" and jo: "jobs_ok Q" and ss: "status_strings Q" and ar: "active_running Q"
    using st by (simp_all add: service_state_def queue_state_def)
  show ?thesis
  proof (cases "isStateTerminal new")
    case True
    let ?q = "localQueueKey job"
    define Q0 where "Q0 = complete_queue ?q (key_serialize job) Q"
    note c = complete_state [OF qs job, folded Q0_def]
    have act0: "active Q0 p = Some (can, ser) \<Longrightarrow> active Q p = Some (can, ser) \<and> ser \<noteq> key_serialize job" for p can ser
      using printed_job_unique [OF queueable_printed [OF job], of p can] jobs_ok_printed(2) [OF jo, of p can ser]
      by (auto simp: Q0_def complete_queue_def release_queue_def split: if_splits)
    have oth: "status Q0 = status Q"
      by (simp add: fun_eq_iff status_def Q0_def complete_queue_def release_queue_def)
    have "active_running Q0" using ar act0 by (simp add: active_running_def oth) blast
    then have "service_state view (snd (redis_complete R job db)) Q0"
      using c(1) ss by (simp add: service_state_def status_strings_def oth)
    moreover have "\<forall>q can ser. active Q0 q = Some (can, ser) \<longrightarrow> ser \<notin> key_serialize ` List.set [job]"
      using act0 by auto
    ultimately obtain Q1 where Q1: "service_state view (snd (setState R new [job] (snd (redis_complete R job db)))) Q1"
      "active Q1 = active Q0"
      "\<And>j. status Q1 j = (if key_serialize j \<in> key_serialize ` List.set [job] then Some (RStr (state_string new)) else status Q0 j)"
      using setState_service [of "snd (redis_complete R job db)" Q0 new "[job]"] by blast
    have "out = (Inr True, fst (setState R new [job] (snd (redis_complete R job db))),
        snd (setState R new [job] (snd (redis_complete R job db))))"
      using cur True by (simp add: out_def queue_addState_def split_beta Let_def flip: cur_def)
    moreover have "active Q1 ?q \<noteq> Some (canonicalId (jk_ref job), key_serialize job)"
      using act0 Q1(2) by metis
    ultimately show ?thesis using Q1 cur True by (intro that [of Q1]) simp_all
  next
    case False
    then have "new \<in> {STARTING, STARTED}" using cur(3) by (cases s; cases new) (simp_all add: isTransitionValid_iff isStateTerminal_iff)
    then obtain Q1 where Q1: "service_state view (snd (setState R new [job] db)) Q1"
      "active Q1 = active Q"
      "\<And>j. status Q1 j = (if key_serialize j \<in> key_serialize ` List.set [job] then Some (RStr (state_string new)) else status Q j)"
      using setState_service [OF st, of new "[job]"] by blast
    have "out = (Inr False, fst (setState R new [job] db), snd (setState R new [job] db))"
      using cur False by (simp add: out_def queue_addState_def split_beta Let_def flip: cur_def)
    with Q1 cur False show ?thesis by (intro that [of Q1]) simp_all
  qed
qed

end

section \<open>Reachable states of the service\<close>

inductive service_reach :: "'db redis \<Rightarrow> ('db \<Rightarrow> string \<Rightarrow> rvalue option) \<Rightarrow> 'db \<Rightarrow> bool"
  for R view where
  service_empty: "view db = (\<lambda>k. None) \<Longrightarrow> service_reach R view db"
| service_push: "service_reach R view db \<Longrightarrow> queueable job \<Longrightarrow>
    service_reach R view (snd (snd (queue_push R job t db)))"
| service_start: "service_reach R view db \<Longrightarrow> service_reach R view (snd (snd (queue_start R n db)))"
| service_addState: "service_reach R view db \<Longrightarrow> queueable job \<Longrightarrow>
    service_reach R view (snd (snd (queue_addState R job s db)))"

context redis_server
begin

lemma service_reach_state: "service_reach R view db \<Longrightarrow> \<exists>Q. service_state view db Q"
proof (induction rule: service_reach.induct)
  case (service_empty db)
  then have "queue_state view db no_queues" by (rule queue_state_empty)
  then have "service_state view db no_queues"
    by (simp add: service_state_def active_running_def status_strings_def status_def no_queues_def)
  then show ?case by blast
next
  case (service_push db job t)
  then obtain Q where "service_state view db Q" by blast
  from push_service [OF this service_push.hyps(2), of t] show ?case by blast
next
  case (service_start db n)
  then obtain Q where "service_state view db Q" by blast
  from start_service [OF this, of n] show ?case by blast
next
  case (service_addState db job s)
  then obtain Q where "service_state view db Q" by blast
  from addState_service [OF this service_addState.hyps(2), of s] show ?case by blast
qed

end

section \<open>Properties\<close>

text \<open>C26
  Queues and states agree: in every state of the server that pushes, starts and changes of
  state of the service can reach, the active job of a queue is in one of the states
  \<open>starting\<close> and \<open>started\<close>. So a job whose state is terminal is not active any more, and
  does not block its queue.
\<close>

theorem active_jobs_are_running:
  assumes "redis_server R view" and "service_reach R view db"
  shows "\<exists>Q. queues_of view db Q \<and>
    (\<forall>q can ser. active Q q = Some (can, ser) \<longrightarrow>
      (\<exists>job. key_serialize job = ser \<and> localQueueKey job = q \<and> canonicalId (jk_ref job) = can \<and>
        (getState R job db = Some ''starting'' \<or> getState R job db = Some ''started'')))"
proof -
  obtain Q where Q: "service_state view db Q" using redis_server.service_reach_state [OF assms] by blast
  have "\<exists>job. key_serialize job = ser \<and> localQueueKey job = q \<and> canonicalId (jk_ref job) = can \<and>
        (getState R job db = Some ''starting'' \<or> getState R job db = Some ''started'')"
    if "active Q q = Some (can, ser)" for q can ser
  proof -
    have "printed_job q can ser" using Q that jobs_ok_printed(2) by (auto simp: service_state_def queue_state_def)
    then obtain job where job: "queueable job" "ser = key_serialize job" "localQueueKey job = q"
      "canonicalId (jk_ref job) = can" by (auto simp: printed_job_def)
    then have "running (status Q job)" using Q that by (auto simp: service_state_def active_running_def)
    then show ?thesis using job redis_server.getState_status [OF assms(1) Q, of job]
      by (intro exI [of _ job]) (auto simp: running_def)
  qed
  with Q show ?thesis by (intro exI [of _ Q]) (simp add: service_state_def queue_state_def)
qed

text \<open>C4
  \<open>addState\<close> follows the table of transitions: in every reachable state it succeeds exactly
  when the job has a stored state from which the table allows the new one, then that is the
  stored state, the result tells whether it is terminal, and the steps that the job has left
  decrease; otherwise it rejects and the server is unchanged. A job in a terminal state thus
  accepts no further state, and no job takes more than three steps after \<open>queued\<close>.
\<close>

theorem addState_follows_transitions:
  assumes "redis_server R view" and "service_reach R view db" and "queueable job"
  shows "case queue_addState R job new db of (result, _, db') \<Rightarrow>
    (case result of
       Inr b \<Rightarrow> \<exists>old. getState R job db = Some (state_string old) \<and> new \<in> set (StateTransitions old) \<and>
         getState R job db' = Some (state_string new) \<and> b = isStateTerminal new \<and>
         steps_left new < steps_left old \<and> b = (steps_left new = 0)
     | Inl e \<Rightarrow> db' = db \<and>
         (\<forall>old. getState R job db = Some (state_string old) \<longrightarrow> new \<notin> set (StateTransitions old)))"
proof -
  obtain Q where Q: "service_state view db Q" using redis_server.service_reach_state [OF assms(1,2)] by blast
  define out where "out = queue_addState R job new db"
  obtain Q' where Q': "service_state view (snd (snd out)) Q'"
    "case getState R job db of
       Some x \<Rightarrow> (case parse_state x of
           Some s \<Rightarrow> if isTransitionValid s new
             then fst out = Inr (isStateTerminal new) \<and> status Q' job = Some (RStr (state_string new)) \<and>
               (if isStateTerminal new then active Q' (localQueueKey job) \<noteq> Some (canonicalId (jk_ref job), key_serialize job)
                else active Q' = active Q)
             else (\<exists>e. fst out = Inl e) \<and> snd (snd out) = db
         | None \<Rightarrow> (\<exists>e. fst out = Inl e) \<and> snd (snd out) = db)
     | None \<Rightarrow> (\<exists>e. fst out = Inl e) \<and> snd (snd out) = db"
    unfolding out_def by (rule redis_server.addState_service [OF assms(1) Q assms(3)])
  have fin: "isStateTerminal new = (steps_left new = 0)" by (cases new) (simp_all add: isStateTerminal_iff)
  show ?thesis
  proof (cases "\<exists>s. getState R job db = Some (state_string s) \<and> isTransitionValid s new")
    case True
    then obtain s where s: "getState R job db = Some (state_string s)" "isTransitionValid s new" by blast
    with Q'(2) have "fst out = Inr (isStateTerminal new)" "status Q' job = Some (RStr (state_string new))" by simp_all
    moreover from this(2) have "getState R job (snd (snd out)) = Some (state_string new)"
      using redis_server.getState_status [OF assms(1) Q'(1), of job] by simp
    ultimately show ?thesis using s transition_decreases [OF s(2)] fin
      by (auto simp: isTransitionValid_iff split_beta simp flip: out_def)
  next
    case False
    with Q'(2) have "(\<exists>e. fst out = Inl e) \<and> snd (snd out) = db"
      by (auto simp: parse_state_Some split: option.splits if_splits)
    with False show ?thesis
      by (auto simp: isTransitionValid_iff split_beta simp flip: out_def)
  qed
qed

text \<open>C31
  Pushing a waiting job again cancels it although it stays in its queue: when the pushed job
  is the one that already waits under its id, it still waits there afterwards, while its
  stored state is \<open>cancelled\<close> (which is terminal); when it is the active job of its queue
  it waits again and its state is \<open>aborted\<close>. Only a new job ends in \<open>queued\<close>.
\<close>

theorem repush_leaves_cancelled_job_waiting:
  assumes "redis_server R view" and "service_reach R view db" and "queueable job"
  shows "\<exists>Q Q'. queues_of view db Q \<and> queues_of view (snd (snd (queue_push R job t db))) Q' \<and>
    (let q = localQueueKey job; can = canonicalId (jk_ref job); ser = key_serialize job in
     can \<in> dom (waiting Q' q) \<and> latest Q' q can = Some ser \<and>
     getState R job (snd (snd (queue_push R job t db))) =
       Some (if latest Q q can = Some ser then ''cancelled''
             else if active Q q = Some (can, ser) then ''aborted''
             else ''queued''))"
proof -
  obtain Q where Q: "service_state view db Q" using redis_server.service_reach_state [OF assms(1,2)] by blast
  let ?q = "localQueueKey job" and ?can = "canonicalId (jk_ref job)" and ?ser = "key_serialize job"
  obtain Q' where Q': "service_state view (snd (snd (queue_push R job t db))) Q'"
    "waiting Q' = waiting (push_queue ?q ?ser ?can t Q)" "latest Q' = latest (push_queue ?q ?ser ?can t Q)"
    "status Q' job = (if latest Q ?q ?can = Some ?ser then Some (RStr (state_string CANCELLED))
      else if active Q ?q = Some (?can, ?ser) then Some (RStr (state_string ABORTED))
      else Some (RStr (state_string QUEUED)))"
    using redis_server.push_service [OF assms(1) Q assms(3), of t] by blast
  have "?can \<in> dom (waiting Q' ?q)" "latest Q' ?q ?can = Some ?ser"
    unfolding Q'(2,3) by (auto simp: push_queue_def Let_def enqueue_def release_queue_def)
  with Q Q'(1,4) redis_server.getState_status [OF assms(1) Q'(1), of job] show ?thesis
    by (intro exI [of _ Q] exI [of _ Q']) (auto simp: Let_def service_state_def queue_state_def)
qed

section \<open>Witnesses\<close>

lemma memory_service_reach:
  "service_reach mem_redis mem_view (snd (snd (queue_push mem_redis (sample_job ''7'' ''master'') 1 [])))"
  by (intro service_reach.intros sample_job_queueable empty_memory) simp

theorem active_jobs_are_running_witness:
  "\<exists>Q. queues_of mem_view (snd (snd (queue_push mem_redis (sample_job ''7'' ''master'') 1 []))) Q"
  using active_jobs_are_running [OF memory.redis_server_axioms memory_service_reach] by blast

theorem addState_follows_transitions_witness:
  "case queue_addState mem_redis (sample_job ''7'' ''master'') STARTED
      (snd (snd (queue_push mem_redis (sample_job ''7'' ''master'') 1 []))) of
    (result, _, db') \<Rightarrow> (case result of Inr b \<Rightarrow> b = isStateTerminal STARTED
      | Inl e \<Rightarrow> db' = snd (snd (queue_push mem_redis (sample_job ''7'' ''master'') 1 [])))"
  using addState_follows_transitions [OF memory.redis_server_axioms memory_service_reach sample_job_queueable,
      of "''7''" "''master''" STARTED]
  by (auto split: prod.splits sum.splits)

theorem repush_leaves_cancelled_job_waiting_witness:
  "\<exists>Q'. queues_of mem_view (snd (snd (queue_push mem_redis (sample_job ''7'' ''master'') 2
      (snd (snd (queue_push mem_redis (sample_job ''7'' ''master'') 1 [])))))) Q' \<and>
    canonicalId (jk_ref (sample_job ''7'' ''master'')) \<in> dom (waiting Q' (localQueueKey (sample_job ''7'' ''master'')))"
  using repush_leaves_cancelled_job_waiting [OF memory.redis_server_axioms memory_service_reach sample_job_queueable,
      of "''7''" "''master''" 2]
  by (auto simp: Let_def)

end
