(* ===== verification/Grouping.thy ===== *)
theory Grouping
  imports Repository_Source
begin

text \<open>
  Maps from strings to lists that the source fills by appending: the keys come in the order
  of their first occurrence, and the values of a key in the order of the input.
\<close>

definition append_at :: "'k \<Rightarrow> 'v list \<Rightarrow> ('k \<times> 'v list) list \<Rightarrow> ('k \<times> 'v list) list" where
  "append_at k vs m = upsert k [] (\<lambda>ws. ws @ vs) m"

definition group_lists :: "('k \<times> 'v list) list \<Rightarrow> ('k \<times> 'v list) list" where
  "group_lists xs = fold (\<lambda>x m. append_at (fst x) (snd x) m) xs []"

definition values_of :: "'k \<Rightarrow> ('k \<times> 'v list) list \<Rightarrow> 'v list" where
  "values_of k xs = concat (map snd (filter (\<lambda>x. fst x = k) xs))"

lemma upsert_alt:
  assumes "distinct (map fst al)"
  shows "upsert k d f al =
    (if k \<in> fst ` set al then map (\<lambda>e. (fst e, if fst e = k then f (snd e) else snd e)) al
     else al @ [(k, f d)])"
proof (cases "k \<in> fst ` set al")
  case False
  then have "map_of al k = None" by (simp add: map_of_eq_None_iff)
  with False show ?thesis by (simp add: upsert_def update_absent)
next
  case True
  then obtain v where v: "map_of al k = Some v" by (cases "map_of al k") (auto simp: map_of_eq_None_iff)
  have "AList.update k (f v) al = map (\<lambda>e. (fst e, if fst e = k then f (snd e) else snd e)) al"
    using assms v
  proof (induction al)
    case (Cons e al)
    have "map (\<lambda>e. (fst e, if fst e = k then f (snd e) else snd e)) al = al" if "k \<notin> fst ` set al"
      using that by (intro map_idI) (auto simp: rev_image_eqI)
    with Cons show ?case by (cases e) auto
  qed simp
  with True v show ?thesis by (simp add: upsert_def)
qed

lemma uniq_snoc: "uniq (xs @ [x]) = (if x \<in> set xs then uniq xs else uniq xs @ [x])"
  by (induction xs) (auto simp: filter_id_conv)

lemma values_of_snoc: "values_of k (xs @ [x]) = values_of k xs @ (if fst x = k then snd x else [])"
  by (simp add: values_of_def)

lemma values_of_absent: "k \<notin> fst ` set xs \<Longrightarrow> values_of k xs = []"
  by (induction xs) (auto simp: values_of_def)

theorem group_lists_spec: "group_lists xs = map (\<lambda>k. (k, values_of k xs)) (uniq (map fst xs))"
proof (induction xs rule: rev_induct)
  case (snoc x xs)
  let ?m = "map (\<lambda>k. (k, values_of k xs)) (uniq (map fst xs))"
  have "distinct (map fst ?m)" by (simp add: comp_def)
  moreover have "fst ` set ?m = fst ` set xs" by (force simp: image_image)
  ultimately have "upsert (fst x) [] (\<lambda>ws. ws @ snd x) ?m =
      (if fst x \<in> fst ` set xs
       then map (\<lambda>k. (k, values_of k xs @ (if fst x = k then snd x else []))) (uniq (map fst xs))
       else ?m @ [(fst x, snd x)])"
    by (subst upsert_alt) (auto simp: comp_def)
  also have "\<dots> = map (\<lambda>k. (k, values_of k (xs @ [x]))) (uniq (map fst (xs @ [x])))"
    by (auto simp: uniq_snoc values_of_snoc values_of_absent)
  finally show ?case using snoc by (simp add: group_lists_def append_at_def)
qed (simp add: group_lists_def)

lemma uniq_uniq_append: "uniq (uniq xs @ ys) = uniq (xs @ ys)"
proof (induction ys rule: rev_induct)
  case (snoc y ys)
  then show ?case using uniq_snoc [of "uniq xs @ ys" y] uniq_snoc [of "xs @ ys" y] by simp
qed simp

text \<open>Keys and values under injective printing.\<close>

lemma values_of_inj:
  assumes "inj_on f (insert k (fst ` set xs))"
  shows "values_of (f k) (map (\<lambda>x. (f (fst x), map g (snd x))) xs) = map g (values_of k xs)"
  using assms by (induction xs) (auto simp: values_of_def inj_on_def)

lemma group_lists_inj:
  assumes "inj_on f (fst ` set xs)"
  shows "group_lists (map (\<lambda>x. (f (fst x), map g (snd x))) xs) =
    map (\<lambda>e. (f (fst e), map g (snd e))) (group_lists xs)"
proof -
  have "uniq (map f (map fst xs)) = map f (uniq (map fst xs))"
    using assms by (intro uniq_map_inj) simp
  moreover have "values_of (f k) (map (\<lambda>x. (f (fst x), map g (snd x))) xs) = map g (values_of k xs)"
    if "k \<in> fst ` set xs" for k
    using values_of_inj [of f k xs g] assms that by (simp add: insert_absorb)
  ultimately show ?thesis by (simp add: group_lists_spec comp_def)
qed

end
