(* ===== verification/Dependency_Graph.thy ===== *)
theory Dependency_Graph
  imports Grouping Dependency_Ref Version
begin

text \<open>
  Dependencies with their versions: the graph of a repository and its problems
  (\<open>scanner/dependency-graph-impl.ts\<close>), maps from dependencies to versions
  (\<open>dependency-map-utils.ts\<close>), the collection of all dependencies of a repository
  (\<open>scanner-impl.ts\<close>), the results of a scan (\<open>scanner.ts\<close>) and the choice of labels
  (\<open>label-criteria.ts\<close>), all under \<open>backend/src/repositories/scanner\<close>.
\<close>

section \<open>The graph\<close>

datatype graph_tree = GraphTree (g_ref: dep_ref) (g_version: version) (g_dependencies: "graph_tree list")

text \<open>What a visitor of \<open>traverse\<close> sees, in order.\<close>

fun traverse_graph :: "nat \<Rightarrow> graph_tree \<Rightarrow> (dep_ref \<times> version \<times> nat) list" where
  "traverse_graph d (GraphTree r v gs) = (r, v, d) # concat (map (traverse_graph (d + 1)) gs)"

definition traverse :: "graph_tree list \<Rightarrow> (dep_ref \<times> version \<times> nat) list" where
  "traverse gs = concat (map (traverse_graph 0) gs)"

record problem =
  p_ref :: dep_ref
  p_versions :: "version list"

definition problem_message :: "problem \<Rightarrow> string" where
  "problem_message p = ''Multiple versions of '' @ dep_toString (p_ref p) @ '' ('' @
     join '', '' (map version_string (p_versions p)) @ '')''"

definition TOOL_IMAGE :: dep_ref where
  "TOOL_IMAGE = ImageRef ''artcsp-docker.ara-artifactory.volvocars.biz'' ''vcc/common-build-agent''"

text \<open>\<open>traverseGraph\<close> of \<open>getProblems\<close> appends the version of every node to its reference.\<close>

fun collect_versions :: "graph_tree \<Rightarrow> (string \<times> string list) list \<Rightarrow> (string \<times> string list) list" where
  "collect_versions (GraphTree r v gs) m =
     fold collect_versions gs (append_at (dep_serialize r) [version_string v] m)"

fun problems_of :: "(string \<times> string list) list \<Rightarrow> problem list res" where
  "problems_of [] = Inr []"
| "problems_of ((ref, versions) # rest) =
     (let unique = uniq versions in
      if length unique > 1 then
        res_bind (dep_deserialize ref) (\<lambda>r.
          if \<not> dep_equals r TOOL_IMAGE then
            res_bind (res_mapM version_create unique) (\<lambda>vs.
            res_bind (problems_of rest) (\<lambda>ps. Inr (\<lparr> p_ref = r, p_versions = vs \<rparr> # ps)))
          else problems_of rest)
      else problems_of rest)"

definition getProblems :: "graph_tree list \<Rightarrow> problem list res" where
  "getProblems gs = problems_of (fold collect_versions gs [])"

section \<open>Maps from dependencies to versions\<close>

type_synonym dep_map = "(dep_ref \<times> version list) list"

definition map_toObject :: "dep_map \<Rightarrow> (string \<times> string list) list" where
  "map_toObject m = fold (\<lambda>e obj. AList.update (dep_serialize (fst e)) (map version_string (snd e)) obj) m []"

definition parse_entry :: "string \<times> string list \<Rightarrow> (dep_ref \<times> version list) res" where
  "parse_entry e =
     res_bind (res_mapM version_create (snd e)) (\<lambda>vs.
     res_bind (dep_deserialize (fst e)) (\<lambda>r. Inr (r, vs)))"

definition map_fromObject :: "(string \<times> string list) list \<Rightarrow> dep_map res" where
  "map_fromObject obj = res_mapM parse_entry obj"

definition map_merge :: "dep_map list \<Rightarrow> dep_map res" where
  "map_merge maps =
     (let serialized = fold (\<lambda>m acc. fold (\<lambda>e. append_at (dep_serialize (fst e)) (map version_string (snd e))) m acc) maps []
      in res_mapM (\<lambda>e. parse_entry (fst e, uniq (snd e))) serialized)"

text \<open>\<open>ScannerImpl.getDependencies\<close>: \<open>uniq\<close> after every step.\<close>

definition scanner_getDependencies :: "(dep_ref \<times> version) list list \<Rightarrow> dep_map res" where
  "scanner_getDependencies provided =
     (let strings = fold (\<lambda>d m. upsert (dep_serialize (fst d)) [] (\<lambda>vs. uniq (vs @ [version_string (snd d)])) m)
        (concat provided) []
      in res_mapM parse_entry strings)"

section \<open>Results of a scan\<close>

record dependency_update =
  du_label :: string
  du_path :: string
  du_content :: string

record scan_result =
  sr_all :: "dep_ref list"
  sr_updates :: "dependency_update list"

definition updateLabels :: "scan_result \<Rightarrow> string list" where
  "updateLabels r = uniq (map du_label (sr_updates r))"

definition updatesByLabel :: "scan_result \<Rightarrow> string \<Rightarrow> dependency_update list" where
  "updatesByLabel r l = filter (\<lambda>u. du_label u = l) (sr_updates r)"

text \<open>\<open>_.union\<close> compares objects by identity: the results of the providers are distinct objects.\<close>

definition scan_merge :: "scan_result list \<Rightarrow> scan_result" where
  "scan_merge rs = foldl (\<lambda>acc next. \<lparr> sr_all = sr_all acc @ sr_all next,
     sr_updates = sr_updates acc @ sr_updates next \<rparr>) \<lparr> sr_all = [], sr_updates = [] \<rparr> rs"

section \<open>Label criteria\<close>

datatype criteria = Exclude "string list" | Include "string list" | IncludeAll

definition DEFAULT_LABEL_NAME :: string where
  "DEFAULT_LABEL_NAME = ''default''"

fun criteria_include :: "criteria \<Rightarrow> string list \<Rightarrow> string list" where
  "criteria_include (Exclude excludes) labels = uniq (difference labels excludes)"
| "criteria_include (Include includes) labels = uniq (intersection includes labels)"
| "criteria_include IncludeAll labels = uniq labels"

lemma criteria_include_set:
  "set (criteria_include c labels) = {l \<in> set labels. case c of Exclude ls \<Rightarrow> l \<notin> set ls
     | Include ls \<Rightarrow> l \<in> set ls | IncludeAll \<Rightarrow> True} \<and> distinct (criteria_include c labels)"
  by (cases c) auto

section \<open>Lemmas\<close>

lemma inj_on_dep: "X \<subseteq> {r. dep_ok r} \<Longrightarrow> inj_on dep_serialize X"
  using dep_serialize_inj inj_on_subset by blast

lemma res_mapM_create:
  "list_all valid_version vs \<Longrightarrow> res_mapM version_create (map version_string vs) = Inr vs"
  by (induction vs) auto

lemma uniq_version_strings:
  assumes "list_all valid_version vs"
  shows "uniq (map version_string vs) = map version_string (uniq vs)"
  using assms by (intro uniq_map_inj inj_onI) (auto simp: list_all_iff version_string_inject)

definition entry_ok :: "dep_ref \<times> version list \<Rightarrow> bool" where
  "entry_ok e \<longleftrightarrow> dep_ok (fst e) \<and> list_all valid_version (snd e)"

definition print_entry :: "dep_ref \<times> version list \<Rightarrow> string \<times> string list" where
  "print_entry e = (dep_serialize (fst e), map version_string (snd e))"

lemma parse_print_entry [simp]: "entry_ok e \<Longrightarrow> parse_entry (print_entry e) = Inr e"
  by (cases e) (simp add: entry_ok_def parse_entry_def print_entry_def res_mapM_create)

lemma parse_uniq_entry:
  "entry_ok e \<Longrightarrow> parse_entry (fst (print_entry e), uniq (snd (print_entry e))) = Inr (fst e, uniq (snd e))"
  by (simp add: entry_ok_def parse_entry_def print_entry_def uniq_version_strings res_mapM_create list_all_iff)

lemma values_of_ok: "list_all entry_ok es \<Longrightarrow> list_all valid_version (values_of r es)"
  by (induction es) (auto simp: values_of_def entry_ok_def)

lemma group_ok: "list_all entry_ok es \<Longrightarrow> list_all entry_ok (group_lists es)"
  using values_of_ok [of es] by (auto simp: group_lists_spec list_all_iff entry_ok_def)

lemma group_print:
  "list_all entry_ok es \<Longrightarrow> group_lists (map print_entry es) = map print_entry (group_lists es)"
  unfolding print_entry_def
  by (intro group_lists_inj inj_on_dep) (auto simp: list_all_iff entry_ok_def)

lemma fold_append_at: "fold (\<lambda>e. append_at (fst (f e)) (snd (f e))) es m =
    fold (\<lambda>x. append_at (fst x) (snd x)) (map f es) m"
  by (simp add: fold_map comp_def)

definition grouped_versions :: "dep_map \<Rightarrow> dep_map" where
  "grouped_versions es = map (\<lambda>r. (r, uniq (values_of r es))) (uniq (map fst es))"

lemma map_merge_spec:
  assumes "list_all entry_ok (concat maps)"
  shows "map_merge maps = Inr (grouped_versions (concat maps))"
proof -
  let ?es = "concat maps"
  have "fold (\<lambda>m acc. fold (\<lambda>e. append_at (dep_serialize (fst e)) (map version_string (snd e))) m acc) maps []
      = group_lists (map print_entry ?es)"
    unfolding group_lists_def
    by (induction maps rule: rev_induct) (simp_all add: fold_map comp_def print_entry_def)
  then have "map_merge maps = res_mapM (\<lambda>e. parse_entry (fst e, uniq (snd e))) (map print_entry (group_lists ?es))"
    using group_print [OF assms] by (simp add: map_merge_def)
  also have "\<dots> = Inr (map (\<lambda>e. (fst e, uniq (snd e))) (group_lists ?es))"
  proof -
    have "res_mapM (\<lambda>e. parse_entry (fst e, uniq (snd e))) (map print_entry gs) =
        Inr (map (\<lambda>e. (fst e, uniq (snd e))) gs)" if "list_all entry_ok gs" for gs
      using that by (induction gs) (simp_all add: parse_uniq_entry)
    then show ?thesis using group_ok [OF assms] by blast
  qed
  finally show ?thesis by (simp add: grouped_versions_def group_lists_spec comp_def)
qed

lemma upsert_map_values:
  assumes "\<And>v. h (f v) = g (h v)" and "h d = d'"
  shows "upsert k d' g (map (\<lambda>e. (fst e, h (snd e))) al) = map (\<lambda>e. (fst e, h (snd e))) (upsert k d f al)"
proof -
  have "map_of (map (\<lambda>e. (fst e, h (snd e))) al) k = map_option h (map_of al k)"
    by (induction al) auto
  moreover have "AList.update k (h v) (map (\<lambda>e. (fst e, h (snd e))) al) =
      map (\<lambda>e. (fst e, h (snd e))) (AList.update k v al)" for v
    by (induction al) auto
  ultimately show ?thesis using assms
    by (cases "map_of al k") (simp_all add: upsert_def flip: assms)
qed

lemma scanner_getDependencies_merge:
  "scanner_getDependencies provided = map_merge [map (\<lambda>d. (fst d, [snd d])) (concat provided)]"
proof -
  let ?h = "\<lambda>m. map (\<lambda>e. (fst e, uniq (snd e))) m" and ?ds = "concat provided"
  have step: "upsert k [] (\<lambda>vs. uniq (vs @ [w])) (?h m) = ?h (append_at k [w] m)" for k :: string and w m
    unfolding append_at_def by (rule upsert_map_values) (simp_all add: uniq_uniq_append)
  have "fold (\<lambda>d m. upsert (dep_serialize (fst d)) [] (\<lambda>vs. uniq (vs @ [version_string (snd d)])) m) ds (?h m) =
      ?h (fold (\<lambda>d. append_at (dep_serialize (fst d)) [version_string (snd d)]) ds m)" for ds m
    by (induction ds arbitrary: m) (simp_all add: step)
  from this [of ?ds "[]"]
  have "scanner_getDependencies provided =
      res_mapM parse_entry (?h (fold (\<lambda>d. append_at (dep_serialize (fst d)) [version_string (snd d)]) ?ds []))"
    by (simp add: scanner_getDependencies_def)
  also have "\<dots> = map_merge [map (\<lambda>d. (fst d, [snd d])) ?ds]"
  proof -
    have "res_mapM parse_entry (?h m) = res_mapM (\<lambda>e. parse_entry (fst e, uniq (snd e))) m" for m
      by (induction m) simp_all
    then show ?thesis by (simp add: map_merge_def fold_map comp_def)
  qed
  finally show ?thesis .
qed

lemma collect_versions_traverse:
  "collect_versions g m = fold (\<lambda>x. append_at (dep_serialize (fst x)) [version_string (fst (snd x))]) (traverse_graph d g) m"
proof (induction d g arbitrary: m rule: traverse_graph.induct)
  case (1 d r v gs)
  have "fold collect_versions gs m =
      fold (\<lambda>x. append_at (dep_serialize (fst x)) [version_string (fst (snd x))]) (concat (map (traverse_graph (d + 1)) gs)) m" for m
    using 1 by (induction gs arbitrary: m) auto
  then show ?case by simp
qed

lemma problems_of_spec:
  assumes "list_all entry_ok es"
  shows "problems_of (map print_entry es) = Inr (map (\<lambda>e. \<lparr> p_ref = fst e, p_versions = uniq (snd e) \<rparr>)
    (filter (\<lambda>e. length (uniq (snd e)) > 1 \<and> fst e \<noteq> TOOL_IMAGE) es))"
  using assms
proof (induction es)
  case (Cons e es)
  have "dep_ok TOOL_IMAGE" by (simp add: TOOL_IMAGE_def delimiter_def delim_safe_Cons)
  moreover have "dep_ok (fst e)" "list_all valid_version (uniq (snd e))"
    "uniq (map version_string (snd e)) = map version_string (uniq (snd e))"
    using Cons.prems by (simp_all add: entry_ok_def uniq_version_strings list_all_iff)
  ultimately show ?case using Cons
    by (simp add: print_entry_def Let_def dep_equals_iff res_mapM_create)
qed simp

definition occurrences :: "graph_tree list \<Rightarrow> dep_map" where
  "occurrences gs = map (\<lambda>x. (fst x, [fst (snd x)])) (traverse gs)"

lemma getProblems_spec:
  assumes "list_all entry_ok (occurrences gs)"
  shows "getProblems gs = Inr (map (\<lambda>e. \<lparr> p_ref = fst e, p_versions = snd e \<rparr>)
    (filter (\<lambda>e. length (snd e) > 1 \<and> fst e \<noteq> TOOL_IMAGE) (grouped_versions (occurrences gs))))"
proof -
  have "fold collect_versions gs m =
      fold (\<lambda>x. append_at (dep_serialize (fst x)) [version_string (fst (snd x))]) (traverse gs) m" for m
    unfolding traverse_def
    by (induction gs arbitrary: m) (simp_all add: collect_versions_traverse [of _ _ 0])
  then have "fold collect_versions gs [] = group_lists (map print_entry (occurrences gs))"
    by (simp add: group_lists_def occurrences_def print_entry_def fold_map comp_def)
  then show ?thesis
    using problems_of_spec [OF group_ok [OF assms]] group_print [OF assms]
    by (simp add: getProblems_def grouped_versions_def group_lists_spec filter_map comp_def)
qed

lemma set_values_of: "set (values_of r es) = (\<Union>e \<in> {e \<in> set es. fst e = r}. set (snd e))"
  by (auto simp: values_of_def)

lemma length_gt_1_iff: "distinct vs \<Longrightarrow> length vs > 1 \<longleftrightarrow> (\<exists>v \<in> set vs. \<exists>w \<in> set vs. v \<noteq> w)"
proof -
  assume d: "distinct vs"
  show ?thesis
  proof
    assume "length vs > 1"
    then obtain a b cs where "vs = a # b # cs" by (cases vs; cases "tl vs") auto
    with d show "\<exists>v \<in> set vs. \<exists>w \<in> set vs. v \<noteq> w" by auto
  next
    assume "\<exists>v \<in> set vs. \<exists>w \<in> set vs. v \<noteq> w"
    then show "length vs > 1" by (cases vs; cases "tl vs") auto
  qed
qed

lemma values_of_singletons:
  "values_of r (map (\<lambda>d. (fst d, [snd d])) ds) = map snd (filter (\<lambda>d. fst d = r) ds)"
  by (induction ds) (auto simp: values_of_def)

section \<open>Properties\<close>

text \<open>
  The problems of a dependency graph are exactly the conflicts in it: \<open>getProblems\<close> reports,
  once each, the references other than the tool image that \<open>traverse\<close> visits with two
  different versions, with all the versions they are visited with.
\<close>

theorem graph_problems_are_conflicts:
  assumes "list_all (\<lambda>x. dep_ok (fst x) \<and> valid_version (fst (snd x))) (traverse gs)"
  shows "\<exists>ps. getProblems gs = Inr ps \<and> distinct (map p_ref ps) \<and>
    set (map p_ref ps) = {r. r \<noteq> TOOL_IMAGE \<and>
      (\<exists>v w i j. (r, v, i) \<in> set (traverse gs) \<and> (r, w, j) \<in> set (traverse gs) \<and> v \<noteq> w)} \<and>
    list_all (\<lambda>p. distinct (p_versions p) \<and>
      set (p_versions p) = {v. \<exists>i. (p_ref p, v, i) \<in> set (traverse gs)}) ps"
proof -
  let ?es = "occurrences gs"
  have ok: "list_all entry_ok ?es" using assms by (auto simp: occurrences_def list_all_iff entry_ok_def)
  define ps where "ps = map (\<lambda>e. \<lparr> p_ref = fst e, p_versions = snd e \<rparr>)
    (filter (\<lambda>e. length (snd e) > 1 \<and> fst e \<noteq> TOOL_IMAGE) (grouped_versions ?es))"
  have vals: "set (values_of r ?es) = {v. \<exists>i. (r, v, i) \<in> set (traverse gs)}" for r
    by (force simp: set_values_of occurrences_def)
  have keys: "r \<in> fst ` set ?es \<longleftrightarrow> (\<exists>v i. (r, v, i) \<in> set (traverse gs))" for r
    by (force simp: occurrences_def)
  have "distinct (map p_ref ps)"
    by (simp add: ps_def grouped_versions_def comp_def filter_map distinct_filter)
  moreover have "set (map p_ref ps) = {r. r \<noteq> TOOL_IMAGE \<and>
      (\<exists>v w i j. (r, v, i) \<in> set (traverse gs) \<and> (r, w, j) \<in> set (traverse gs) \<and> v \<noteq> w)}"
  proof (rule set_eqI)
    fix r
    have "r \<in> set (map p_ref ps) \<longleftrightarrow> r \<in> fst ` set ?es \<and> r \<noteq> TOOL_IMAGE \<and> length (uniq (values_of r ?es)) > 1"
      by (auto simp: ps_def grouped_versions_def image_iff)
    also have "\<dots> \<longleftrightarrow> r \<noteq> TOOL_IMAGE \<and>
      (\<exists>v w i j. (r, v, i) \<in> set (traverse gs) \<and> (r, w, j) \<in> set (traverse gs) \<and> v \<noteq> w)"
      unfolding length_gt_1_iff [OF distinct_uniq] set_uniq keys vals by blast
    finally show "r \<in> set (map p_ref ps) \<longleftrightarrow> r \<in> {r. r \<noteq> TOOL_IMAGE \<and>
      (\<exists>v w i j. (r, v, i) \<in> set (traverse gs) \<and> (r, w, j) \<in> set (traverse gs) \<and> v \<noteq> w)}" by simp
  qed
  moreover have "list_all (\<lambda>p. distinct (p_versions p) \<and>
      set (p_versions p) = {v. \<exists>i. (p_ref p, v, i) \<in> set (traverse gs)}) ps"
    by (auto simp: list_all_iff ps_def grouped_versions_def vals)
  ultimately show ?thesis using getProblems_spec [OF ok] unfolding ps_def [symmetric] by blast
qed

theorem graph_problems_are_conflicts_witness:
  "\<exists>ps. getProblems [GraphTree (ImageRef ''r'' ''a'') (Version [1, 0]) [GraphTree (ImageRef ''r'' ''b'') (Version [2, 0]) []],
      GraphTree (ImageRef ''r'' ''b'') (Version [3, 0]) []] = Inr ps \<and> distinct (map p_ref ps)"
  using graph_problems_are_conflicts [of "[GraphTree (ImageRef ''r'' ''a'') (Version [1, 0]) [GraphTree (ImageRef ''r'' ''b'') (Version [2, 0]) []],
      GraphTree (ImageRef ''r'' ''b'') (Version [3, 0]) []]"]
  by (auto simp: traverse_def valid_version_def delim_safe_delimiter)

text \<open>
  Collecting and merging dependencies group them: the scanner's \<open>getDependencies\<close> over the
  answers of its providers, and \<open>merge\<close> over maps, list every dependency once, in the order
  of first occurrence, with its versions without repetition in the order of occurrence.
\<close>

theorem dependencies_are_grouped:
  assumes "list_all (\<lambda>d. dep_ok (fst d) \<and> valid_version (snd d)) (concat provided)"
    and "list_all (\<lambda>e. dep_ok (fst e) \<and> list_all valid_version (snd e)) (concat maps)"
  shows "scanner_getDependencies provided =
      Inr (map (\<lambda>r. (r, uniq (map snd (filter (\<lambda>d. fst d = r) (concat provided)))))
        (uniq (map fst (concat provided)))) \<and>
    map_merge maps =
      Inr (map (\<lambda>r. (r, uniq (concat (map snd (filter (\<lambda>e. fst e = r) (concat maps))))))
        (uniq (map fst (concat maps))))"
proof
  let ?es = "map (\<lambda>d. (fst d, [snd d])) (concat provided)"
  have "list_all entry_ok (concat [?es])"
    using assms(1) by (simp add: list_all_iff entry_ok_def)
  then have "map_merge [?es] = Inr (grouped_versions ?es)" by (simp add: map_merge_spec del: map_concat)
  moreover have "grouped_versions ?es = map (\<lambda>r. (r, uniq (map snd (filter (\<lambda>d. fst d = r) (concat provided)))))
      (uniq (map fst (concat provided)))"
    unfolding grouped_versions_def values_of_singletons by (simp add: comp_def del: map_concat)
  ultimately show "scanner_getDependencies provided =
      Inr (map (\<lambda>r. (r, uniq (map snd (filter (\<lambda>d. fst d = r) (concat provided)))))
        (uniq (map fst (concat provided))))"
    unfolding scanner_getDependencies_merge by (rule trans [OF _ arg_cong])
  have "list_all entry_ok (concat maps)" using assms(2) by (simp add: list_all_iff entry_ok_def)
  from map_merge_spec [OF this] show "map_merge maps =
      Inr (map (\<lambda>r. (r, uniq (concat (map snd (filter (\<lambda>e. fst e = r) (concat maps))))))
        (uniq (map fst (concat maps))))"
    by (simp add: grouped_versions_def values_of_def)
qed

theorem dependencies_are_grouped_witness:
  "scanner_getDependencies [[(ImageRef ''r'' ''a'', Version [1, 0])], [(ImageRef ''r'' ''b'', Version [1, 0]), (ImageRef ''r'' ''a'', Version [1, 0])]] =
   Inr [(ImageRef ''r'' ''a'', [Version [1, 0]]), (ImageRef ''r'' ''b'', [Version [1, 0]])]"
  using dependencies_are_grouped [of "[[(ImageRef ''r'' ''a'', Version [1, 0])], [(ImageRef ''r'' ''b'', Version [1, 0]), (ImageRef ''r'' ''a'', Version [1, 0])]]" "[]"]
  by (simp add: valid_version_def delim_safe_delimiter)

end
