(* ===== verification/System_Config.thy ===== *)
theory System_Config
  imports Js_Text
begin

text \<open>
  The configuration files of a repository as the services see them, after parsing:
  \<open>build-config.ts\<close>, \<open>dependencies-config.ts\<close>, \<open>publication-config.ts\<close>,
  \<open>repository-config.ts\<close> and \<open>service-config.ts\<close> under
  \<open>backend/src/domain-model/system-config\<close>, and the choice of an action for a change
  (\<open>system/action-calculator.ts\<close>). Parsing and printing of the files is done by a YAML
  library and an object mapper and is a parameter where it is used. A map keeps the order of
  its entries; a field that may be undefined is an option.
\<close>

definition systemFilePath :: "string \<Rightarrow> string" where
  "systemFilePath name = join ''/'' [''.common-build'', name]"

section \<open>build.yml\<close>

record compose_node =
  cn_image :: string
  cn_dependsOn :: "string list option"
  cn_internalPorts :: "int list option"
  cn_entryPoint :: "string option"
  cn_labels :: "string option"

record node_command =
  nc_cmd :: string
  nc_node :: "string option"

record compose_step =
  cs_nodes :: "(string \<times> compose_node) list"
  cs_commands :: "node_command list"
  cs_secrets :: "(string \<times> string) list"

record docker_step =
  ds_name :: string
  ds_file :: string
  ds_target :: "string option"
  ds_labels :: "string option"
  ds_secrets :: "(string \<times> string) list"

record jenkins_step =
  js_jobName :: string
  js_jobToken :: string
  js_jenkinsId :: string

datatype build_step =
    Compose compose_step
  | DockerBuild docker_step
  | Native string
  | Jenkins jenkins_step

record build_config =
  bc_toolImage :: string
  bc_version :: int
  bc_steps :: "build_step list"

text \<open>The name of a step's class in the file.\<close>

fun step_type :: "build_step \<Rightarrow> string" where
  "step_type (Compose s) = ''compose''"
| "step_type (DockerBuild s) = ''build''"
| "step_type (Native c) = ''native''"
| "step_type (Jenkins s) = ''jenkins''"

definition BUILD_FILE_PATH :: string where
  "BUILD_FILE_PATH = systemFilePath ''build.yml''"

section \<open>dependencies.yml\<close>

record artifact_file =
  af_name :: string
  af_rename :: "string option"
  af_toDir :: "string option"

record dep_artifact =
  da_remote :: "string option"
  da_repository :: "string option"
  da_path :: string
  da_revision :: string
  da_toDir :: "string option"
  da_labels :: "string option"
  da_files :: "artifact_file list"

record dep_artifacts =
  das_remote :: string
  das_repository :: string
  das_items :: "dep_artifact list"
  das_toDir :: "string option"
  das_logFile :: "string option"

record dep_image =
  di_repository :: string
  di_revision :: string
  di_remote :: "string option"
  di_labels :: "string option"

record dep_images =
  dis_remote :: string
  dis_images :: "dep_image list"

record dependencies_config =
  dc_version :: int
  dc_artifacts :: "dep_artifacts option"
  dc_images :: "dep_images option"

definition DEPENDENCIES_FILE_PATH :: string where
  "DEPENDENCIES_FILE_PATH = systemFilePath ''dependencies.yml''"

section \<open>publish.yml\<close>

datatype pack_mode = PackYes | PackAuto | PackNo

record qualifier =
  q_src :: string
  q_name :: "string option"
  q_pack :: "pack_mode option"

record pub_artifact =
  pa_path :: string
  pa_qualifiers :: "qualifier list"
  pa_remote :: "string option"
  pa_repository :: "string option"
  pa_properties :: "(string \<times> string) list option"

record pub_artifacts =
  pas_items :: "pub_artifact list"
  pas_remote :: string
  pas_repository :: string

record pub_image =
  pi_name :: string
  pi_remote :: "string option"

record pub_images =
  pis_items :: "pub_image list"
  pis_remote :: string

record publication_config =
  pc_artifacts :: "pub_artifacts option"
  pc_images :: "pub_images option"

definition PUBLISH_FILE_PATH :: string where
  "PUBLISH_FILE_PATH = systemFilePath ''publish.yml''"

section \<open>config.yml\<close>

record major_serie =
  ms_id :: string
  ms_autoApply :: bool

datatype action = Nothing | Merge | Release

record label_action =
  la_id :: string
  la_action :: action

record build_automation =
  ba_default :: action
  ba_labels :: "label_action list"

text \<open>
  Nothing in the program calls \<open>findAction\<close>: what is done with a change is calculated by \<open>calculateAction\<close> below.
\<close>

definition findAction :: "build_automation \<Rightarrow> string \<Rightarrow> action" where
  "findAction ba label =
     (case List.find (\<lambda>l. la_id l = label) (ba_labels ba) of
        Some l \<Rightarrow> la_action l
      | None \<Rightarrow> ba_default ba)"

record repository_config =
  rc_version :: int
  rc_majorSerie :: "major_serie option"
  rc_buildAutomation :: build_automation
  rc_activeSystem :: "string option"

section \<open>Services\<close>

datatype source_service =
    GerritSourceService (ss_id: string) (ss_ssh: string) (ss_https: string) (ss_cynosure: "string option")
  | GitlabSourceService (ss_id: string) (ss_https: string)

fun service_toString :: "source_service \<Rightarrow> string" where
  "service_toString (GerritSourceService i ssh https cyn) =
     ''GerritSource['' @ i @ ''] ssh='' @ ssh @ '' https='' @ https @ '' cynosure='' @ or_else cyn ''Na''"
| "service_toString (GitlabSourceService i https) = ''GitlabSource['' @ i @ ''] https='' @ https"

record docker_registry =
  dr_host :: string
  dr_artifactoryHost :: string
  dr_registryRepository :: string

definition registry_toString :: "docker_registry \<Rightarrow> string" where
  "registry_toString r = ''ArtifactoryDockerRegistry: '' @ dr_host r @ '' => '' @
     dr_artifactoryHost r @ ''/'' @ dr_registryRepository r"

record services =
  sv_sources :: "source_service list"
  sv_dockerRegistries :: "docker_registry list"

section \<open>The action for a change\<close>

definition DEFAULT_TOOL_LABEL :: string where
  "DEFAULT_TOOL_LABEL = ''build-tools''"

definition calculateAction :: "string list \<Rightarrow> label_action list \<Rightarrow> action option" where
  "calculateAction updateLabels configActions =
     (let validConfigActions = filter (\<lambda>ca. la_id ca \<in> set updateLabels) configActions;
          allActions = map la_action validConfigActions @
            (if List.find (\<lambda>ca. la_id ca = DEFAULT_TOOL_LABEL) validConfigActions = None \<and>
                DEFAULT_TOOL_LABEL \<in> set updateLabels then [Merge] else [])
      in if Release \<in> set allActions then Some Release
         else if Merge \<in> set allActions then Some Merge
         else if Nothing \<in> set allActions then Some Nothing
         else None)"

text \<open>What is configured for a label: the tool label merges when nothing is configured for it.\<close>

definition configured :: "label_action list \<Rightarrow> string \<Rightarrow> action set" where
  "configured cas l =
     (let given = set (map la_action (filter (\<lambda>ca. la_id ca = l) cas)) in
      if l = DEFAULT_TOOL_LABEL \<and> given = {} then {Merge} else given)"

fun strength :: "action \<Rightarrow> nat" where
  "strength Nothing = 0"
| "strength Merge = 1"
| "strength Release = 2"

text \<open>Actions are ordered by how much they do to a change.\<close>

instantiation action :: linorder
begin

definition less_eq_action :: "action \<Rightarrow> action \<Rightarrow> bool" where
  "less_eq_action a b \<longleftrightarrow> strength a \<le> strength b"

definition less_action :: "action \<Rightarrow> action \<Rightarrow> bool" where
  "less_action a b \<longleftrightarrow> strength a < strength b"

instance
proof
  fix a b :: action
  show "a \<le> b \<Longrightarrow> b \<le> a \<Longrightarrow> a = b"
    by (cases a; cases b) (simp_all add: less_eq_action_def)
qed (auto simp: less_eq_action_def less_action_def)

end

lemma le_action [simp]:
  "a \<le> Release" "a \<le> Merge \<longleftrightarrow> a \<noteq> Release" "a \<le> Nothing \<longleftrightarrow> a = Nothing"
  by (cases a; simp add: less_eq_action_def)+

lemma all_action: "(\<forall>b. P b) \<longleftrightarrow> P Nothing \<and> P Merge \<and> P Release"
  by (metis action.exhaust)

lemma find_tool_label:
  "List.find (\<lambda>ca. la_id ca = l) (filter (\<lambda>ca. la_id ca \<in> set ls) cas) = None \<longleftrightarrow>
   (l \<in> set ls \<longrightarrow> filter (\<lambda>ca. la_id ca = l) cas = [])"
  by (auto simp: find_None_iff filter_empty_conv)

lemma all_actions_configured:
  "set (map la_action (filter (\<lambda>ca. la_id ca \<in> set ls) cas) @
      (if List.find (\<lambda>ca. la_id ca = DEFAULT_TOOL_LABEL) (filter (\<lambda>ca. la_id ca \<in> set ls) cas) = None \<and>
          DEFAULT_TOOL_LABEL \<in> set ls then [Merge] else [])) = (\<Union>l \<in> set ls. configured cas l)"
  unfolding find_tool_label by (auto simp: configured_def Let_def filter_empty_conv split: if_splits)

section \<open>Properties\<close>

text \<open>
  The action for a change is the strongest of the actions that are configured for one of its
  labels, where the tool label merges unless it has an action of its own, and undefined exactly
  when no action is configured for any of them.
\<close>

theorem calculateAction_is_strongest:
  "(calculateAction ls cas = None \<longleftrightarrow> (\<Union>l \<in> set ls. configured cas l) = {}) \<and>
   (calculateAction ls cas = Some a \<longleftrightarrow>
      a \<in> (\<Union>l \<in> set ls. configured cas l) \<and> (\<forall>b. b \<in> (\<Union>l \<in> set ls. configured cas l) \<longrightarrow> b \<le> a))"
proof -
  define A where "A = (\<Union>l \<in> set ls. configured cas l)"
  have calc: "calculateAction ls cas = (if Release \<in> A then Some Release else if Merge \<in> A then Some Merge
      else if Nothing \<in> A then Some Nothing else None)"
    unfolding calculateAction_def Let_def all_actions_configured A_def ..
  have "A = {} \<longleftrightarrow> Release \<notin> A \<and> Merge \<notin> A \<and> Nothing \<notin> A"
    using all_action [of "\<lambda>b. b \<notin> A"] by blast
  moreover have "a \<in> A \<and> (\<forall>b. b \<in> A \<longrightarrow> b \<le> a) \<longleftrightarrow>
      (a = Release \<and> Release \<in> A) \<or> (a = Merge \<and> Merge \<in> A \<and> Release \<notin> A) \<or>
      (a = Nothing \<and> Nothing \<in> A \<and> Merge \<notin> A \<and> Release \<notin> A)"
    unfolding all_action by (cases a) auto
  ultimately show ?thesis unfolding A_def [symmetric] calc by (cases a) auto
qed

theorem calculateAction_is_strongest_witness:
  "calculateAction [''build-tools'', ''default''] [\<lparr> la_id = ''default'', la_action = Nothing \<rparr>] = Some Merge"
proof -
  have "configured [\<lparr> la_id = ''default'', la_action = Nothing \<rparr>] ''build-tools'' = {Merge}"
    "configured [\<lparr> la_id = ''default'', la_action = Nothing \<rparr>] ''default'' = {Nothing}"
    by (simp_all add: configured_def DEFAULT_TOOL_LABEL_def)
  then show ?thesis
    using calculateAction_is_strongest [of "[''build-tools'', ''default'']" "[\<lparr> la_id = ''default'', la_action = Nothing \<rparr>]" Merge]
    by (auto simp: less_eq_action_def)
qed

end
