(* ===== verification/Scanner_Text.thy ===== *)
theory Scanner_Text
  imports Version System_Config
begin

text \<open>
  The texts that the scanners read: image references (\<open>domain-model/image-version-util.ts\<close>),
  the \<open>FROM\<close> line of a docker file (\<open>scanner/providers/docker-utils.ts\<close>), revisions of a
  manifest (\<open>scanner/providers/revision-util.ts\<close>), label lists (\<open>utils/string-util.ts\<close>) and
  the remotes of a manifest (\<open>domain-model/default-xml-extractor.ts\<close>). Each regular
  expression is written out as the function it computes.
\<close>

section \<open>Characters\<close>

definition code :: "char \<Rightarrow> nat" where
  "code c = of_char c"

definition lower :: "char \<Rightarrow> char" where
  "lower c = (if 65 \<le> code c \<and> code c \<le> 90 then char_of (code c + 32) else c)"

definition is_word :: "char \<Rightarrow> bool" where
  "is_word c \<longleftrightarrow> is_digit c \<or> (65 \<le> code c \<and> code c \<le> 90) \<or> (97 \<le> code c \<and> code c \<le> 122) \<or> c = CHR ''_''"

text \<open>What \<open>.\<close> of a regular expression does not match (below 256).\<close>

definition is_newline :: "char \<Rightarrow> bool" where
  "is_newline c \<longleftrightarrow> code c = 10 \<or> code c = 13"

text \<open>\<open>(.+?)c\<close> at the start of a text: a non-empty piece up to the first separator behind it.\<close>

definition lazy_split :: "char \<Rightarrow> string \<Rightarrow> (string \<times> string) option" where
  "lazy_split c s =
     (case s of
        [] \<Rightarrow> None
      | x # xs \<Rightarrow>
          (case dropWhile (\<lambda>y. y \<noteq> c) xs of
             [] \<Rightarrow> None
           | y # rest \<Rightarrow> Some (x # takeWhile (\<lambda>z. z \<noteq> c) xs, rest)))"

section \<open>Images\<close>

record image_version =
  iv_registry :: string
  iv_repository :: string
  iv_version :: version

definition image_string :: "image_version \<Rightarrow> string" where
  "image_string i = iv_registry i @ ''/'' @ iv_repository i @ '':'' @ version_string (iv_version i)"

definition withVersion :: "image_version \<Rightarrow> version \<Rightarrow> image_version" where
  "withVersion i v = \<lparr> iv_registry = iv_registry i, iv_repository = iv_repository i, iv_version = v \<rparr>"

text \<open>
  \<open>^(.+?)\/(.+?):(.+?)$\<close>: when the first separators leave nothing to match, later ones do not
  either, so the lazy groups never have to grow past them.
\<close>

definition image_parse :: "string \<Rightarrow> image_version option" where
  "image_parse raw =
     (if list_ex is_newline raw then None
      else (case lazy_split (CHR ''/'') raw of
          None \<Rightarrow> None
        | Some (registry, r1) \<Rightarrow>
            (case lazy_split (CHR '':'') r1 of
               None \<Rightarrow> None
             | Some (repository, v) \<Rightarrow>
                 if v = [] then None
                 else map_option (\<lambda>version. \<lparr> iv_registry = registry, iv_repository = repository,
                        iv_version = version \<rparr>) (version_parse v))))"

definition image_char :: "char \<Rightarrow> bool" where
  "image_char c \<longleftrightarrow> is_word c \<or> c = CHR '':'' \<or> c = CHR ''-'' \<or> c = CHR ''.'' \<or> c = CHR ''/''"

definition findFrom :: "string \<Rightarrow> string option" where
  "findFrom content =
     (let t = dropWhile is_space content; r = drop 4 t in
      if map lower (take 4 t) = ''from'' \<and> r \<noteq> [] \<and> is_space (hd r)
      then (let image = takeWhile image_char (dropWhile is_space r) in
            if image = [] then None else Some image)
      else None)"

text \<open>\<open>s.replace(a, b)\<close> with a string \<open>a\<close>: the first occurrence.\<close>

fun replace_first :: "string \<Rightarrow> string \<Rightarrow> string \<Rightarrow> string" where
  "replace_first a b [] = (if a = [] then b else [])"
| "replace_first a b (c # cs) =
     (if prefix a (c # cs) then b @ drop (length a) (c # cs) else c # replace_first a b cs)"

section \<open>Revisions\<close>

definition extractVersion :: "string \<Rightarrow> version option" where
  "extractVersion revision =
     (let t = (if map lower (take 10 revision) = ''refs/tags/'' then drop 10 revision else revision) in
      case t of
        [] \<Rightarrow> None
      | c # ds \<Rightarrow>
          if lower c = CHR ''v'' \<and> ds \<noteq> [] \<and> list_all (\<lambda>d. is_digit d \<or> d = CHR ''.'') ds
          then version_parse ds else None)"

definition encodeVersion :: "version \<Rightarrow> string" where
  "encodeVersion v = ''refs/tags/v'' @ version_string v"

section \<open>Labels\<close>

fun split_by :: "(char \<Rightarrow> bool) \<Rightarrow> string \<Rightarrow> string list" where
  "split_by P [] = [[]]"
| "split_by P (c # cs) = (if P c then [] # split_by P cs
     else (c # hd (split_by P cs)) # tl (split_by P cs))"

text \<open>\<open>\s+|,\<close> takes a run of white space at once, which only differs in empty pieces.\<close>

definition splitAndFilter :: "string \<Rightarrow> string list" where
  "splitAndFilter s =
     filter (\<lambda>w. w \<noteq> []) (map trim (split_by (\<lambda>c. is_space c \<or> c = CHR '','') s))"

section \<open>Manifests\<close>

type_synonym attrs = "string \<rightharpoonup> string"

text \<open>The elements of a manifest that the services read, in document order.\<close>

record manifest =
  mf_remotes :: "attrs list"
  mf_defaults :: "attrs list"
  mf_projects :: "attrs list"

datatype protocol = Https | Ssh

record host_extract =
  he_name :: string
  he_host :: string
  he_protocol :: "protocol option"
  he_path :: "string option"

definition trim_chars :: "char set \<Rightarrow> string \<Rightarrow> string" where
  "trim_chars cs s = rev (dropWhile (\<lambda>c. c \<in> cs) (rev (dropWhile (\<lambda>c. c \<in> cs) s)))"

text \<open>\<open>^\s*(ssh|https):\/\/([^\/]+)(.*)$\<close>, without regard to case.\<close>

definition url_match :: "string \<Rightarrow> (string \<times> string \<times> string) option" where
  "url_match url =
     (let t = dropWhile is_space url;
          p = (if map lower (take 6 t) = ''ssh://'' then 3
               else if map lower (take 8 t) = ''https://'' then 5 else 0);
          r = drop (p + 3) t;
          host = takeWhile (\<lambda>c. c \<noteq> CHR ''/'') r;
          path = dropWhile (\<lambda>c. c \<noteq> CHR ''/'') r
      in if p = 0 \<or> host = [] \<or> list_ex is_newline path then None
         else Some (take p t, host, path))"

text \<open>The enumeration is indexed by the text as it was written.\<close>

definition protocol_of :: "string \<Rightarrow> protocol option" where
  "protocol_of s = (if s = ''https'' then Some Https else if s = ''ssh'' then Some Ssh else None)"

definition extract_remote :: "attrs \<Rightarrow> host_extract list" where
  "extract_remote item =
     (case (item ''fetch'', item ''name'') of
        (Some url, Some name) \<Rightarrow>
          if url \<noteq> [] \<and> name \<noteq> [] then
            (case url_match url of
               None \<Rightarrow> []
             | Some (proto, host, p) \<Rightarrow>
                 (let path = trim_chars {CHR '' '', CHR ''/''} (trim p) in
                  [\<lparr> he_name = name, he_host = host, he_protocol = protocol_of proto,
                     he_path = (if path \<noteq> [] then Some path else None) \<rparr>]))
          else []
      | _ \<Rightarrow> [])"

definition extractHosts :: "manifest \<Rightarrow> host_extract list" where
  "extractHosts xml = concat (map extract_remote (mf_remotes xml))"

text \<open>\<open>name.replace(/\.git$/i, "")\<close>.\<close>

definition strip_git :: "string \<Rightarrow> string" where
  "strip_git name =
     (if length name \<ge> 4 \<and> map lower (drop (length name - 4) name) = ''.git''
      then take (length name - 4) name else name)"

section \<open>Images print and parse\<close>

definition image_ok :: "image_version \<Rightarrow> bool" where
  "image_ok i \<longleftrightarrow> iv_registry i \<noteq> [] \<and> iv_repository i \<noteq> [] \<and>
     CHR ''/'' \<notin> set (tl (iv_registry i)) \<and> CHR '':'' \<notin> set (tl (iv_repository i)) \<and>
     \<not> list_ex is_newline (iv_registry i) \<and> \<not> list_ex is_newline (iv_repository i) \<and>
     valid_version (iv_version i)"

lemma lazy_split_append:
  assumes "x \<noteq> []" and "c \<notin> set (tl x)"
  shows "lazy_split c (x @ c # r) = Some (x, r)"
proof -
  obtain a as where x: "x = a # as" using assms by (cases x) auto
  with assms have "takeWhile (\<lambda>y. y \<noteq> c) (as @ c # r) = as" "dropWhile (\<lambda>y. y \<noteq> c) (as @ c # r) = c # r"
    by (auto simp: takeWhile_append dropWhile_append)
  with x show ?thesis by (simp add: lazy_split_def)
qed

lemma lazy_split_Some:
  assumes "lazy_split c s = Some (x, r)"
  shows "x \<noteq> [] \<and> c \<notin> set (tl x) \<and> s = x @ c # r"
proof -
  obtain a as y where s: "s = a # as" and d: "dropWhile (\<lambda>y. y \<noteq> c) as = y # r"
    and x: "x = a # takeWhile (\<lambda>z. z \<noteq> c) as"
    using assms by (auto simp: lazy_split_def split: list.splits)
  from d have "y = c" using hd_dropWhile [of "\<lambda>y. y \<noteq> c" as] by simp
  with d have "as = takeWhile (\<lambda>z. z \<noteq> c) as @ c # r"
    using takeWhile_dropWhile_id [of "\<lambda>z. z \<noteq> c" as] by simp
  moreover have "c \<notin> set (takeWhile (\<lambda>z. z \<noteq> c) as)" by (auto dest: set_takeWhileD)
  ultimately show ?thesis using s x by simp
qed

lemma version_no_newline: "\<not> list_ex is_newline (version_string v)"
  by (auto simp: list_ex_iff is_newline_def code_def is_digit_def Let_def dest!: version_string_chars)

lemma version_string_nonempty: "valid_version v \<Longrightarrow> version_string v \<noteq> []"
  using version_parse_string [of v] by (auto simp: version_parse_def)

lemma image_parse_string [simp]:
  assumes "image_ok i"
  shows "image_parse (image_string i) = Some i"
proof -
  have "lazy_split (CHR ''/'') (image_string i) = Some (iv_registry i, iv_repository i @ CHR '':'' # version_string (iv_version i))"
    "lazy_split (CHR '':'') (iv_repository i @ CHR '':'' # version_string (iv_version i)) = Some (iv_repository i, version_string (iv_version i))"
    using assms by (simp_all add: image_string_def image_ok_def lazy_split_append)
  moreover have "\<not> list_ex is_newline (image_string i)"
    using assms version_no_newline [of "iv_version i"]
    by (simp add: image_string_def image_ok_def) (simp add: is_newline_def code_def)
  ultimately show ?thesis
    using assms by (simp add: image_parse_def image_ok_def version_string_nonempty)
qed

lemma image_parse_Some:
  assumes "image_parse raw = Some i"
  shows "image_ok i \<and> (\<exists>v. raw = iv_registry i @ ''/'' @ iv_repository i @ '':'' @ v)"
proof -
  obtain r1 v where a: "lazy_split (CHR ''/'') raw = Some (iv_registry i, r1)"
    and b: "lazy_split (CHR '':'') r1 = Some (iv_repository i, v)"
    and n: "\<not> list_ex is_newline raw" and p: "version_parse v = Some (iv_version i)"
    using assms by (auto simp: image_parse_def split: if_splits option.splits)
  note a' = lazy_split_Some [OF a] and b' = lazy_split_Some [OF b]
  with n version_parse_valid [OF p] show ?thesis by (auto simp: image_ok_def)
qed

lemma image_ok_with [simp]: "image_ok i \<Longrightarrow> valid_version w \<Longrightarrow> image_ok (withVersion i w)"
  by (simp add: image_ok_def withVersion_def)

lemma withVersion_sel [simp]: "iv_version (withVersion i w) = w" "iv_registry (withVersion i w) = iv_registry i"
  "iv_repository (withVersion i w) = iv_repository i"
  by (simp_all add: withVersion_def)

lemma image_parse_with:
  "image_parse raw = Some i \<Longrightarrow> valid_version w \<Longrightarrow>
   image_parse (image_string (withVersion i w)) = Some (withVersion i w)"
  using image_parse_Some by simp

section \<open>Replacing the image of a docker file\<close>

lemma replace_first_skip:
  assumes "c \<in> set a" and "c \<notin> set pre" and "b \<notin> set a" and "pre = [] \<or> last pre = b"
  shows "replace_first a x (pre @ a @ post) = pre @ x @ post"
  using assms(2,4)
proof (induction pre)
  case Nil
  then obtain y ys where "a = y # ys" using assms(1) by (cases a) auto
  then show ?case by simp
next
  case (Cons p pre)
  have "\<not> prefix a (p # pre @ a @ post)"
  proof
    assume "prefix a (p # pre @ a @ post)"
    moreover have "prefix (p # pre) (p # pre @ a @ post)" by simp
    ultimately consider "prefix a (p # pre)" | "prefix (p # pre) a" using prefix_same_cases by blast
    then show False
    proof cases
      case 1
      then have "set a \<subseteq> set (p # pre)" by (rule set_mono_prefix)
      with assms(1) Cons.prems show False by auto
    next
      case 2
      then have "set (p # pre) \<subseteq> set a" by (rule set_mono_prefix)
      moreover have "last (p # pre) \<in> set (p # pre)" by (rule last_in_set) simp
      ultimately show False using Cons.prems assms(3) by auto
    qed
  qed
  with Cons show ?case by (cases "pre = []") auto
qed

lemma lower_letter: "lower c \<noteq> CHR ''/'' \<or> c = CHR ''/''"
  by (auto simp: lower_def code_def of_char_eq_iff dest: arg_cong [of _ _ "of_char :: char \<Rightarrow> nat"])

lemma image_char_not_space: "image_char c \<Longrightarrow> \<not> is_space c"
  by (auto simp: image_char_def is_word_def is_digit_def is_space_def code_def Let_def)

definition from_parts :: "string \<Rightarrow> string \<Rightarrow> string \<Rightarrow> string \<Rightarrow> string \<Rightarrow> bool" where
  "from_parts ws f sp raw post \<longleftrightarrow> list_all is_space ws \<and> map lower f = ''from'' \<and>
     sp \<noteq> [] \<and> list_all is_space sp \<and> raw \<noteq> [] \<and> list_all image_char raw \<and>
     (post = [] \<or> \<not> image_char (hd post))"

lemma dropWhile_run: "list_all P xs \<Longrightarrow> ys = [] \<or> \<not> P (hd ys) \<Longrightarrow> dropWhile P (xs @ ys) = ys"
  by (induction xs) (auto simp: dropWhile_id)

lemma takeWhile_run: "list_all P xs \<Longrightarrow> ys = [] \<or> \<not> P (hd ys) \<Longrightarrow> takeWhile P (xs @ ys) = xs"
  by (induction xs) (auto simp: takeWhile_eq_Nil_iff)

lemma takeWhile_dropWhile_run: "xs = takeWhile P xs @ dropWhile P xs \<and> list_all P (takeWhile P xs) \<and>
   (dropWhile P xs = [] \<or> \<not> P (hd (dropWhile P xs)))"
  using hd_dropWhile [of P xs] by (auto simp: list_all_iff dest: set_takeWhileD)

lemma from_parts_hd: "from_parts ws f sp raw post \<Longrightarrow> f \<noteq> [] \<and> \<not> is_space (hd f) \<and> length f = 4"
proof -
  assume "from_parts ws f sp raw post"
  then have m: "map lower f = ''from''" by (simp add: from_parts_def)
  then have "length (map lower f) = 4" by simp
  then obtain a as where f: "f = a # as" "length f = 4" by (cases f) auto
  with m have "lower a = CHR ''f''" by simp
  then have "\<not> is_space a"
    by (auto simp: lower_def is_space_def code_def Let_def dest: arg_cong [of _ _ "of_char :: char \<Rightarrow> nat"] split: if_splits)
  with f show ?thesis by simp
qed

lemma findFrom_parts:
  assumes "from_parts ws f sp raw post"
  shows "findFrom (ws @ f @ sp @ raw @ post) = Some raw"
proof -
  note f = from_parts_hd [OF assms]
  have raw: "raw \<noteq> []" "list_all image_char raw" "post = [] \<or> \<not> image_char (hd post)"
    using assms by (simp_all add: from_parts_def)
  have sp: "sp \<noteq> []" "list_all is_space sp" "is_space (hd sp)"
    using assms by (cases sp; simp add: from_parts_def)+
  have "image_char (hd raw)" using raw by (cases raw) auto
  then have "\<not> is_space (hd (raw @ post))" using raw by (simp add: image_char_not_space)
  then have "dropWhile is_space (sp @ raw @ post) = raw @ post"
    using sp by (intro dropWhile_run) simp_all
  moreover have "dropWhile is_space (ws @ f @ sp @ raw @ post) = f @ sp @ raw @ post"
    using assms f by (intro dropWhile_run) (simp_all add: from_parts_def)
  moreover have "takeWhile image_char (raw @ post) = raw" using raw by (intro takeWhile_run) simp_all
  ultimately show ?thesis
    using assms f raw sp by (simp add: findFrom_def from_parts_def Let_def)
qed

lemma findFrom_Some:
  assumes "findFrom content = Some raw"
  shows "\<exists>ws f sp post. content = ws @ f @ sp @ raw @ post \<and> from_parts ws f sp raw post"
proof -
  define t where "t = dropWhile is_space content"
  define r where "r = drop 4 t"
  have m: "map lower (take 4 t) = ''from''" and r: "r \<noteq> []" "is_space (hd r)"
    and raw: "raw = takeWhile image_char (dropWhile is_space r)" "raw \<noteq> []"
    using assms by (auto simp: findFrom_def Let_def t_def r_def split: if_splits)
  let ?ws = "takeWhile is_space content" and ?sp = "takeWhile is_space r"
    and ?post = "dropWhile image_char (dropWhile is_space r)"
  have "content = ?ws @ take 4 t @ r" by (simp add: t_def r_def)
  moreover have "r = ?sp @ raw @ ?post" by (simp add: raw)
  moreover have "?sp \<noteq> []" using r by (simp add: takeWhile_eq_Nil_iff)
  then have "from_parts ?ws (take 4 t) ?sp raw ?post"
    using m raw takeWhile_dropWhile_run [of content is_space] takeWhile_dropWhile_run [of r is_space]
      takeWhile_dropWhile_run [of "dropWhile is_space r" image_char]
    by (simp add: from_parts_def)
  ultimately show ?thesis by (metis append.assoc)
qed

lemma is_digit_image: "is_digit c \<Longrightarrow> image_char c"
  by (simp add: image_char_def is_word_def)

theorem findFrom_replace:
  assumes "findFrom content = Some raw" and "image_parse raw = Some i" and "valid_version w"
  defines "new \<equiv> image_string (withVersion i w)"
  shows "findFrom (replace_first raw new content) = Some new"
proof -
  obtain ws f sp post where content: "content = ws @ f @ sp @ raw @ post"
    and parts: "from_parts ws f sp raw post" using findFrom_Some [OF assms(1)] by blast
  note ok = image_parse_Some [OF assms(2)]
  have slash: "CHR ''/'' \<in> set raw" using ok by auto
  have "CHR ''/'' \<notin> set (map lower f)" using parts by (simp add: from_parts_def)
  moreover have "lower (CHR ''/'') = CHR ''/''" by (simp add: lower_def code_def)
  ultimately have "CHR ''/'' \<notin> set f" by force
  moreover have "\<not> is_space (CHR ''/'')" by (simp add: is_space_def)
  ultimately have "CHR ''/'' \<notin> set (ws @ f @ sp)"
    using parts by (auto simp: from_parts_def list_all_iff)
  moreover
  have sp: "is_space (last sp)" "sp \<noteq> []"
    using parts last_in_set [of sp] by (auto simp: from_parts_def list_all_iff)
  have "\<forall>c \<in> set raw. \<not> is_space c"
    using parts image_char_not_space unfolding from_parts_def list_all_iff by blast
  with sp have "last sp \<notin> set raw" by blast
  moreover have "last (ws @ f @ sp) = last sp" using sp by simp
  ultimately have replaced: "replace_first raw new content = ws @ f @ sp @ new @ post"
    using replace_first_skip [OF slash, of "ws @ f @ sp" "last sp" new post] content by simp
  have "list_all image_char (iv_registry i)" "list_all image_char (iv_repository i)"
    using parts ok by (auto simp: from_parts_def)
  moreover have "list_all image_char (version_string w)"
    by (auto simp: list_all_iff is_digit_image dest!: version_string_chars) (simp_all add: image_char_def)
  ultimately have "from_parts ws f sp new post"
    using parts by (simp add: new_def image_string_def from_parts_def) (simp add: image_char_def)
  then show ?thesis unfolding replaced by (rule findFrom_parts)
qed

section \<open>Revisions print and parse\<close>

definition nonnegative :: "version \<Rightarrow> bool" where
  "nonnegative v \<longleftrightarrow> list_all (\<lambda>n. 0 \<le> n) (segments v)"

lemma nonnegative_chars:
  assumes "nonnegative v" and "c \<in> set (version_string v)"
  shows "is_digit c \<or> c = CHR ''.''"
proof -
  have "is_digit d" if "d \<in> set (show_int n)" "0 \<le> n" for d n
    using that by (auto simp: show_int_def dest: show_nat_digit_set)
  with assms show ?thesis
    by (auto simp: version_string_def nonnegative_def list_all_iff dest!: set_join)
qed

theorem extract_encode [simp]:
  assumes "valid_version v" and "nonnegative v"
  shows "extractVersion (encodeVersion v) = Some v"
proof -
  have "list_all (\<lambda>d. is_digit d \<or> d = CHR ''.'') (version_string v)"
    using nonnegative_chars [OF assms(2)] by (auto simp: list_all_iff)
  moreover have "map lower ''refs/tags/'' = ''refs/tags/''" "lower (CHR ''v'') = CHR ''v''"
    by (simp_all add: lower_def code_def)
  ultimately show ?thesis
    using assms version_string_nonempty [OF assms(1)]
    by (simp add: extractVersion_def encodeVersion_def)
qed

end
