(* ===== verification/Json.thy ===== *)
theory Json
  imports Js_Text
begin

text \<open>
  \<open>JSON.stringify\<close> and \<open>JSON.parse\<close> of the language. Numbers are the integers that the
  source stores, and characters are code units below 256: a fraction, an exponent or an
  escape for a greater code unit is refused by the parser here. An object is the list of its
  fields in their order; a repeated key keeps its first place and its last value. The printer
  takes the line break of a level and the colon as parameters, so that it is both
  \<open>JSON.stringify(x)\<close> and \<open>JSON.stringify(x, null, 2)\<close>; a field whose value is undefined
  is left out by whoever builds the object.
\<close>

datatype json =
    JNull
  | JBool bool
  | JNum int
  | JStr string
  | JArr "json list"
  | JObj "(string \<times> json) list"

section \<open>Printing\<close>

definition hex_digit :: "nat \<Rightarrow> char" where
  "hex_digit n = (if n < 10 then char_of (48 + n) else char_of (87 + n))"

definition backslash :: char where
  "backslash = char_of (92 :: nat)"

definition escape :: "char \<Rightarrow> string" where
  "escape c =
     (let n = (of_char c :: nat) in
      if n = 34 \<or> n = 92 then [backslash, c]
      else if n = 8 then backslash # ''b'' else if n = 9 then backslash # ''t''
      else if n = 10 then backslash # ''n'' else if n = 12 then backslash # ''f''
      else if n = 13 then backslash # ''r''
      else if n < 32 then backslash # ''u00'' @ [hex_digit (n div 16), hex_digit (n mod 16)]
      else [c])"

definition quote_char :: char where
  "quote_char = char_of (34 :: nat)"

definition quoted :: "string \<Rightarrow> string" where
  "quoted s = quote_char # concat (map escape s) @ [quote_char]"

fun print_json :: "(nat \<Rightarrow> string) \<Rightarrow> string \<Rightarrow> nat \<Rightarrow> json \<Rightarrow> string" where
  "print_json nl colon l JNull = ''null''"
| "print_json nl colon l (JBool b) = (if b then ''true'' else ''false'')"
| "print_json nl colon l (JNum n) = show_int n"
| "print_json nl colon l (JStr s) = quoted s"
| "print_json nl colon l (JArr vs) =
     (if vs = [] then ''[]''
      else ''['' @ nl (l + 1) @ join ('','' @ nl (l + 1)) (map (print_json nl colon (l + 1)) vs) @ nl l @ '']'')"
| "print_json nl colon l (JObj fs) =
     (if fs = [] then ''{}''
      else ''{'' @ nl (l + 1) @
        join ('','' @ nl (l + 1)) (map (\<lambda>(k, v). quoted k @ colon @ print_json nl colon (l + 1) v) fs) @
        nl l @ ''}'')"

definition stringify :: "json \<Rightarrow> string" where
  "stringify v = print_json (\<lambda>l. []) '':'' 0 v"

definition stringify2 :: "json \<Rightarrow> string" where
  "stringify2 v = print_json (\<lambda>l. CHR 0x0A # replicate (2 * l) (CHR '' '')) '': '' 0 v"

section \<open>Parsing\<close>

definition json_ws :: "char \<Rightarrow> bool" where
  "json_ws c = ((of_char c :: nat) \<in> {9, 10, 13, 32})"

definition skip_ws :: "string \<Rightarrow> string" where
  "skip_ws s = dropWhile json_ws s"

definition unescape :: "char \<Rightarrow> char option" where
  "unescape c =
     (let n = (of_char c :: nat) in
      if n = 34 \<or> n = 92 \<or> n = 47 then Some c
      else if n = 98 then Some (CHR 0x08) else if n = 102 then Some (CHR 0x0C)
      else if n = 110 then Some (CHR 0x0A) else if n = 114 then Some (CHR 0x0D)
      else if n = 116 then Some (CHR 0x09) else None)"

definition hex4 :: "char \<Rightarrow> char \<Rightarrow> char \<Rightarrow> char \<Rightarrow> char option" where
  "hex4 a b c d =
     (case (hex_val a, hex_val b, hex_val c, hex_val d) of
        (Some w, Some x, Some y, Some z) \<Rightarrow>
          if w = 0 \<and> x = 0 then Some (char_of (16 * y + z)) else None
      | _ \<Rightarrow> None)"

text \<open>The rest of a string literal behind its opening quote.\<close>

fun parse_chars :: "string \<Rightarrow> (string \<times> string) option" where
  "parse_chars [] = None"
| "parse_chars (c # cs) =
     (if c = quote_char then Some ([], cs)
      else if c = backslash then
        (case cs of
           [] \<Rightarrow> None
         | e # r \<Rightarrow>
             if e = CHR ''u'' then
               (case r of
                  h1 # h2 # h3 # h4 # r' \<Rightarrow>
                    (case hex4 h1 h2 h3 h4 of
                       None \<Rightarrow> None
                     | Some x \<Rightarrow> map_option (\<lambda>(s, t). (x # s, t)) (parse_chars r'))
                | _ \<Rightarrow> None)
             else
               (case unescape e of
                  None \<Rightarrow> None
                | Some x \<Rightarrow> map_option (\<lambda>(s, t). (x # s, t)) (parse_chars r)))
      else if (of_char c :: nat) < 32 then None
      else map_option (\<lambda>(s, t). (c # s, t)) (parse_chars cs))"

definition number_end :: "string \<Rightarrow> bool" where
  "number_end r \<longleftrightarrow> r = [] \<or> \<not> (is_digit (hd r) \<or> hd r = CHR ''.'' \<or> hd r = CHR ''e'' \<or> hd r = CHR ''E'')"

definition parse_digits :: "string \<Rightarrow> (nat \<times> string) option" where
  "parse_digits s =
     (let ds = takeWhile is_digit s; r = dropWhile is_digit s in
      if ds = [] \<or> (hd ds = CHR ''0'' \<and> length ds > 1) \<or> \<not> number_end r then None
      else Some (digits_val ds, r))"

definition parse_number :: "string \<Rightarrow> (json \<times> string) option" where
  "parse_number s =
     (if take 1 s = ''-''
      then map_option (\<lambda>(n, r). (JNum (- int n), r)) (parse_digits (drop 1 s))
      else map_option (\<lambda>(n, r). (JNum (int n), r)) (parse_digits s))"

definition parse_atom :: "string \<Rightarrow> (json \<times> string) option" where
  "parse_atom s =
     (if prefix ''null'' s then Some (JNull, drop 4 s)
      else if prefix ''true'' s then Some (JBool True, drop 4 s)
      else if prefix ''false'' s then Some (JBool False, drop 5 s)
      else if take 1 s = [quote_char] then map_option (\<lambda>(x, r). (JStr x, r)) (parse_chars (drop 1 s))
      else parse_number s)"

text \<open>A key and its colon.\<close>

definition parse_key :: "string \<Rightarrow> (string \<times> string) option" where
  "parse_key s =
     (if take 1 (skip_ws s) = [quote_char] then
        (case parse_chars (drop 1 (skip_ws s)) of
           None \<Rightarrow> None
         | Some (k, r) \<Rightarrow> if take 1 (skip_ws r) = '':'' then Some (k, drop 1 (skip_ws r)) else None)
      else None)"

text \<open>The fuel bounds the nesting and the length of lists; the length of the text is enough.\<close>

fun parse_value :: "nat \<Rightarrow> string \<Rightarrow> (json \<times> string) option"
  and parse_elems :: "nat \<Rightarrow> string \<Rightarrow> (json list \<times> string) option"
  and parse_fields :: "nat \<Rightarrow> string \<Rightarrow> ((string \<times> json) list \<times> string) option" where
  "parse_value 0 s = None"
| "parse_value (Suc n) s =
     (let t = skip_ws s in
      if take 1 t = ''['' then
        (let r = skip_ws (drop 1 t) in
         if take 1 r = '']'' then Some (JArr [], drop 1 r)
         else map_option (\<lambda>(vs, q). (JArr vs, q)) (parse_elems n r))
      else if take 1 t = ''{'' then
        (let r = skip_ws (drop 1 t) in
         if take 1 r = ''}'' then Some (JObj [], drop 1 r)
         else map_option (\<lambda>(fs, q). (JObj (fold (\<lambda>(k, v). AList.update k v) fs []), q)) (parse_fields n r))
      else parse_atom t)"
| "parse_elems 0 s = None"
| "parse_elems (Suc n) s =
     (case parse_value n s of
        None \<Rightarrow> None
      | Some (v, r) \<Rightarrow>
          (let t = skip_ws r in
           if take 1 t = '','' then map_option (\<lambda>(vs, q). (v # vs, q)) (parse_elems n (drop 1 t))
           else if take 1 t = '']'' then Some ([v], drop 1 t)
           else None))"
| "parse_fields 0 s = None"
| "parse_fields (Suc n) s =
     (case parse_key s of
        None \<Rightarrow> None
      | Some (k, s') \<Rightarrow>
          (case parse_value n s' of
             None \<Rightarrow> None
           | Some (v, r) \<Rightarrow>
               (let t = skip_ws r in
                if take 1 t = '','' then map_option (\<lambda>(fs, q). ((k, v) # fs, q)) (parse_fields n (drop 1 t))
                else if take 1 t = ''}'' then Some ([(k, v)], drop 1 t)
                else None)))"

definition json_parse :: "string \<Rightarrow> json option" where
  "json_parse s =
     (case parse_value (length s) s of
        Some (v, r) \<Rightarrow> if skip_ws r = [] then Some v else None
      | None \<Rightarrow> None)"

section \<open>White space\<close>

lemma skip_ws_append: "list_all json_ws ws \<Longrightarrow> skip_ws (ws @ s) = skip_ws s"
  by (induction ws) (auto simp: skip_ws_def)

lemma skip_ws_id: "s \<noteq> [] \<Longrightarrow> \<not> json_ws (hd s) \<Longrightarrow> skip_ws s = s"
  by (cases s) (auto simp: skip_ws_def)

lemma parse_value_ws: "list_all json_ws ws \<Longrightarrow> parse_value n (ws @ s) = parse_value n s"
  by (cases n) (simp_all add: skip_ws_append)

lemma parse_elems_ws: "list_all json_ws ws \<Longrightarrow> parse_elems n (ws @ s) = parse_elems n s"
  by (cases n) (simp_all add: parse_value_ws)

lemma parse_key_ws: "list_all json_ws ws \<Longrightarrow> parse_key (ws @ s) = parse_key s"
  by (simp add: parse_key_def skip_ws_append)

lemma parse_fields_ws: "list_all json_ws ws \<Longrightarrow> parse_fields n (ws @ s) = parse_fields n s"
  by (cases n) (simp_all add: parse_key_ws)

section \<open>Strings\<close>

lemma hex_val_digit: "n < 16 \<Longrightarrow> hex_val (hex_digit n) = Some n"
  by (auto simp: hex_val_def hex_digit_def Let_def)

lemma hex4_low:
  assumes "n < 32"
  shows "hex4 (CHR ''0'') (CHR ''0'') (hex_digit (n div 16)) (hex_digit (n mod 16)) = Some (char_of n)"
  using assms hex_val_digit [of "n div 16"] hex_val_digit [of "n mod 16"]
  by (simp add: hex4_def) (simp add: hex_val_def)

lemma of_code: "of_char c = (n :: nat) \<Longrightarrow> char_of n = c"
  by auto

lemma char_codes: "char_of (8 :: nat) = CHR 0x08" "char_of (9 :: nat) = CHR 0x09"
  "char_of (10 :: nat) = CHR 0x0A" "char_of (12 :: nat) = CHR 0x0C" "char_of (13 :: nat) = CHR 0x0D"
  "char_of (34 :: nat) = CHR 0x22" "char_of (92 :: nat) = CHR 0x5C"
  by (rule of_code, simp)+

lemma parse_chars_escape:
  "parse_chars (escape c @ t) = map_option (\<lambda>(s, r). (c # s, r)) (parse_chars t)"
proof -
  define n where "n = (of_char c :: nat)"
  then have c: "c = char_of n" and n: "of_char c = n" by simp_all
  consider "n = 34" | "n = 92" | "n \<in> {8, 9, 10, 12, 13}" | "n < 32" "n \<notin> {8, 9, 10, 12, 13}"
    | "32 \<le> n" "n \<noteq> 34" "n \<noteq> 92" by force
  then show ?thesis
  proof cases
    case 4
    then have "escape c @ t = backslash # CHR ''u'' # CHR ''0'' # CHR ''0'' # hex_digit (n div 16) # hex_digit (n mod 16) # t"
      by (simp add: escape_def n [symmetric] Let_def)
    then show ?thesis using hex4_low [OF 4(1)] c by (simp add: backslash_def quote_char_def)
  next
    case 5
    then have "c \<noteq> quote_char" "c \<noteq> backslash" using n by (auto simp: quote_char_def backslash_def)
    with 5 show ?thesis using n by (simp add: escape_def Let_def)
  qed (auto simp: c escape_def unescape_def backslash_def quote_char_def char_codes)
qed

lemma parse_chars_quoted [simp]: "parse_chars (concat (map escape s) @ quote_char # r) = Some (s, r)"
  by (induction s) (simp_all add: parse_chars_escape)

section \<open>Numbers\<close>

lemma show_nat_hd: "n > 0 \<Longrightarrow> hd (show_nat n) \<noteq> CHR ''0''"
proof (induction n rule: show_nat.induct)
  case (1 n)
  show ?case
  proof (cases "n < 10")
    case True
    have "digit_char n \<noteq> CHR ''0''"
      using True 1(2) of_char_digit_char [of n] by (auto simp del: of_char_digit_char)
    with True show ?thesis by (subst show_nat.simps) simp
  next
    case False
    with 1 show ?thesis by (subst show_nat.simps) (simp add: div_greater_zero_iff)
  qed
qed

lemma parse_digits_show:
  assumes "number_end r"
  shows "parse_digits (show_nat n @ r) = Some (n, r)"
proof -
  have d: "list_all is_digit (show_nat n)" by (rule show_nat_digits)
  have r: "r = [] \<or> \<not> is_digit (hd r)" using assms by (auto simp: number_end_def)
  have "takeWhile is_digit (show_nat n @ r) = show_nat n" "dropWhile is_digit (show_nat n @ r) = r"
    using d r by (cases r; simp add: list_all_iff takeWhile_append dropWhile_append)+
  moreover have "\<not> (hd (show_nat n) = CHR ''0'' \<and> length (show_nat n) > 1)"
    using show_nat_hd [of n] by (cases "n = 0") (simp_all add: show_nat.simps [of 0])
  ultimately show ?thesis using assms by (simp add: parse_digits_def Let_def)
qed

lemma hd_show_nat: "is_digit (hd (show_nat n))"
  by (rule show_nat_digit_set [of _ n]) simp

lemma parse_number_show [simp]:
  assumes "number_end r"
  shows "parse_number (show_int n @ r) = Some (JNum n, r)"
proof (cases "n < 0")
  case True
  then show ?thesis using parse_digits_show [OF assms] by (simp add: parse_number_def show_int_def)
next
  case False
  have "take 1 (show_nat (nat n) @ r) \<noteq> ''-''"
    using hd_show_nat [of "nat n"] by (cases "show_nat (nat n)") (auto simp: is_digit_def Let_def)
  with False show ?thesis using parse_digits_show [OF assms] by (simp add: parse_number_def show_int_def)
qed

section \<open>Values\<close>

text \<open>The keys of an object differ.\<close>

fun json_ok :: "json \<Rightarrow> bool" where
  "json_ok (JArr vs) = list_all json_ok vs"
| "json_ok (JObj fs) = (distinct (map fst fs) \<and> list_all (\<lambda>f. json_ok (snd f)) fs)"
| "json_ok v = True"

definition json_start :: "string \<Rightarrow> bool" where
  "json_start s \<longleftrightarrow> s \<noteq> [] \<and> \<not> json_ws (hd s) \<and> hd s \<noteq> CHR '']'' \<and> hd s \<noteq> CHR ''}''"

lemma json_start_append: "json_start s \<Longrightarrow> json_start (s @ r)"
  by (cases s) (simp_all add: json_start_def)

lemma json_start_skip: "json_start s \<Longrightarrow> skip_ws s = s"
  by (simp add: json_start_def skip_ws_id)

lemma hd_show_int: "is_digit (hd (show_int n)) \<or> hd (show_int n) = CHR ''-''"
  by (simp add: show_int_def hd_show_nat)

lemma quoted_start: "json_start (quoted s)"
  by (simp add: json_start_def quoted_def quote_char_def json_ws_def char_codes)

lemma print_start: "json_start (print_json nl colon l v)"
proof (cases v)
  case (JNum n)
  then show ?thesis using hd_show_int [of n]
    by (auto simp: json_start_def json_ws_def is_digit_def Let_def)
qed (simp_all add: quoted_start, simp_all add: json_start_def json_ws_def)

lemma start_number_end: "list_all json_ws nl \<Longrightarrow> c \<in> {CHR '','', CHR '']'', CHR ''}''} \<Longrightarrow> number_end (nl @ c # r)"
  by (cases nl) (auto simp: number_end_def json_ws_def is_digit_def Let_def)

lemma take1: "take 1 s = [c] \<longleftrightarrow> s \<noteq> [] \<and> hd s = c"
  by (cases s) auto

lemma parse_atom_quoted: "parse_atom (quoted s @ r) = Some (JStr s, r)"
  by (simp add: parse_atom_def quoted_def) (simp add: quote_char_def char_codes)

lemma parse_atom_show:
  assumes "number_end r"
  shows "parse_atom (show_int n @ r) = Some (JNum n, r)"
proof -
  obtain c cs where s: "show_int n = c # cs" by (cases "show_int n") auto
  with hd_show_int [of n] have "is_digit c \<or> c = CHR ''-''" by simp
  then have "c \<noteq> CHR ''n''" "c \<noteq> CHR ''t''" "c \<noteq> CHR ''f''" "c \<noteq> quote_char"
    by (auto simp: is_digit_def Let_def quote_char_def char_codes)
  then have "parse_atom (show_int n @ r) = parse_number (show_int n @ r)"
    by (simp add: parse_atom_def s)
  with assms show ?thesis by simp
qed

lemma parse_key_quoted:
  assumes "colon = '':'' @ ws"
  shows "parse_key (quoted k @ colon @ r) = Some (k, ws @ r)"
proof -
  have "skip_ws (quoted k @ colon @ r) = quoted k @ colon @ r"
    by (intro json_start_skip json_start_append quoted_start)
  moreover have "skip_ws (colon @ r) = colon @ r"
    by (rule skip_ws_id) (simp_all add: assms json_ws_def)
  ultimately show ?thesis by (simp add: parse_key_def quoted_def assms)
qed

lemma parse_value_start:
  assumes "json_start s" and "hd s \<noteq> CHR ''[''" and "hd s \<noteq> CHR ''{''"
  shows "parse_value (Suc n) (s @ r) = parse_atom (s @ r)"
proof -
  have "take 1 (s @ r) = [hd s]" using assms(1) by (cases s) (simp_all add: json_start_def)
  with assms show ?thesis by (simp add: json_start_skip json_start_append)
qed

lemma skip_ws_comma: "skip_ws (CHR '','' # s) = CHR '','' # s"
  by (simp add: skip_ws_def json_ws_def)

lemma parse_elems_comma:
  "parse_value m s = Some (v, CHR '','' # q) \<Longrightarrow>
   parse_elems (Suc m) s = map_option (\<lambda>(vs, r). (v # vs, r)) (parse_elems m q)"
  by (simp add: skip_ws_comma)

lemma parse_elems_end:
  "parse_value m s = Some (v, q) \<Longrightarrow> skip_ws q = CHR '']'' # r \<Longrightarrow> parse_elems (Suc m) s = Some ([v], r)"
  by simp

lemma parse_fields_comma:
  "parse_key s = Some (k, s') \<Longrightarrow> parse_value m s' = Some (v, CHR '','' # q) \<Longrightarrow>
   parse_fields (Suc m) s = map_option (\<lambda>(fs, r). ((k, v) # fs, r)) (parse_fields m q)"
  by (simp add: skip_ws_comma)

lemma parse_fields_end:
  "parse_key s = Some (k, s') \<Longrightarrow> parse_value m s' = Some (v, q) \<Longrightarrow> skip_ws q = CHR ''}'' # r \<Longrightarrow>
   parse_fields (Suc m) s = Some ([(k, v)], r)"
  by simp

lemma join_map_Cons2: "join d (map f (x # y # zs)) = f x @ d @ join d (map f (y # zs))"
  by simp

lemma skip_ws_close: "list_all json_ws nl \<Longrightarrow> skip_ws (nl @ CHR '']'' # r) = CHR '']'' # r"
  "list_all json_ws nl \<Longrightarrow> skip_ws (nl @ CHR ''}'' # r) = CHR ''}'' # r"
  by (subst skip_ws_append, assumption, simp add: skip_ws_def json_ws_def)+

lemma skip_ws_open: "skip_ws (CHR ''['' # s) = CHR ''['' # s" "skip_ws (CHR ''{'' # s) = CHR ''{'' # s"
  by (simp_all add: skip_ws_def json_ws_def)

lemma parse_value_arr:
  assumes "skip_ws q = t" and "json_start t" and "parse_elems m t = Some (vs, r)"
  shows "parse_value (Suc m) (CHR ''['' # q) = Some (JArr vs, r)"
proof -
  have "take 1 t \<noteq> '']''" using assms(2) unfolding take1 json_start_def by blast
  with assms show ?thesis by (simp add: skip_ws_open)
qed

lemma parse_value_obj:
  assumes "skip_ws q = t" and "json_start t" and "parse_fields m t = Some (fs, r)" and "distinct (map fst fs)"
  shows "parse_value (Suc m) (CHR ''{'' # q) = Some (JObj fs, r)"
proof -
  have "take 1 t \<noteq> ''}''" using assms(2) unfolding take1 json_start_def by blast
  moreover have "fold (\<lambda>(k, v). AList.update k v) fs [] = fs"
    using fold_update_distinct [of "[]" fs] assms(4) by simp
  ultimately show ?thesis using assms by (simp add: skip_ws_open)
qed

locale json_layout =
  fixes nl :: "nat \<Rightarrow> string" and colon ws :: string
  assumes nl: "list_all json_ws (nl l)" and colon: "colon = '':'' @ ws" and ws: "list_all json_ws ws"
begin

abbreviation print :: "nat \<Rightarrow> json \<Rightarrow> string" where
  "print \<equiv> print_json nl colon"

definition field :: "nat \<Rightarrow> string \<times> json \<Rightarrow> string" where
  "field l f = quoted (fst f) @ colon @ print l (snd f)"

definition reads :: "nat \<Rightarrow> json \<Rightarrow> bool" where
  "reads l v \<longleftrightarrow> (\<forall>n r. length (print l v) \<le> n \<longrightarrow> number_end r \<longrightarrow>
     parse_value n (print l v @ r) = Some (v, r))"

lemma parse_elems_print:
  assumes "vs \<noteq> []" and "\<forall>v \<in> set vs. reads l v" and "length (join ('','' @ nl l) (map (print l) vs)) < n"
  shows "parse_elems n (join ('','' @ nl l) (map (print l) vs) @ nl l' @ CHR '']'' # r) = Some (vs, r)"
  using assms
proof (induction vs arbitrary: n rule: induct_list012)
  case (2 v)
  then obtain m where n: "n = Suc m" "length (print l v) \<le> m" by (cases n) auto
  then have "parse_value m (print l v @ nl l' @ CHR '']'' # r) = Some (v, nl l' @ CHR '']'' # r)"
    using 2 start_number_end [OF nl] by (simp add: reads_def)
  then show ?case using n parse_elems_end [OF _ skip_ws_close(1) [OF nl]] by simp
next
  case (3 v w vs)
  let ?J = "join ('','' @ nl l) (map (print l) (w # vs))"
  let ?r = "?J @ nl l' @ CHR '']'' # r"
  have J: "join ('','' @ nl l) (map (print l) (v # w # vs)) = print l v @ '','' @ nl l @ ?J"
    unfolding join_map_Cons2 by simp
  obtain m where n: "n = Suc m" "length (print l v) \<le> m" "length ?J < m"
    using 3(5) unfolding J by (cases n) auto
  have "parse_value m (print l v @ CHR '','' # nl l @ ?r) = Some (v, CHR '','' # nl l @ ?r)"
    using 3(4) n(2) start_number_end [of "[]" "CHR '',''"] unfolding reads_def by simp
  moreover have "parse_elems m (nl l @ ?r) = Some (w # vs, r)"
    unfolding parse_elems_ws [OF nl] by (rule 3(2)) (use 3(4) n(3) in auto)
  ultimately have "parse_elems (Suc m) (print l v @ CHR '','' # nl l @ ?r) = Some (v # w # vs, r)"
    using parse_elems_comma by simp
  then show ?case unfolding J n(1) by simp
qed simp

lemma parse_fields_print:
  assumes "fs \<noteq> []" and "\<forall>f \<in> set fs. reads l (snd f)" and "length (join ('','' @ nl l) (map (field l) fs)) < n"
  shows "parse_fields n (join ('','' @ nl l) (map (field l) fs) @ nl l' @ CHR ''}'' # r) = Some (fs, r)"
  using assms
proof (induction fs arbitrary: n rule: induct_list012)
  case (2 f)
  then obtain m where n: "n = Suc m" "length (print l (snd f)) \<le> m" by (cases n) (auto simp: field_def)
  then have "parse_value m (ws @ print l (snd f) @ nl l' @ CHR ''}'' # r) = Some (snd f, nl l' @ CHR ''}'' # r)"
    using 2 start_number_end [OF nl] by (simp add: reads_def parse_value_ws ws)
  then show ?case using n parse_fields_end [OF parse_key_quoted [OF colon] _ skip_ws_close(2) [OF nl]]
    by (simp add: field_def)
next
  case (3 f g fs)
  let ?J = "join ('','' @ nl l) (map (field l) (g # fs))"
  let ?r = "?J @ nl l' @ CHR ''}'' # r"
  have J: "join ('','' @ nl l) (map (field l) (f # g # fs)) = quoted (fst f) @ colon @ print l (snd f) @ '','' @ nl l @ ?J"
    unfolding join_map_Cons2 by (simp add: field_def)
  obtain m where n: "n = Suc m" "length (print l (snd f)) \<le> m" "length ?J < m"
    using 3(5) unfolding J by (cases n) auto
  have "parse_value m (ws @ print l (snd f) @ CHR '','' # nl l @ ?r) = Some (snd f, CHR '','' # nl l @ ?r)"
    using 3(4) n(2) start_number_end [of "[]" "CHR '',''"] unfolding reads_def by (simp add: parse_value_ws ws)
  moreover have "parse_fields m (nl l @ ?r) = Some (g # fs, r)"
    unfolding parse_fields_ws [OF nl] by (rule 3(2)) (use 3(4) n(3) in auto)
  ultimately have "parse_fields (Suc m) (quoted (fst f) @ colon @ print l (snd f) @ CHR '','' # nl l @ ?r) =
      Some ((fst f, snd f) # g # fs, r)"
    using parse_fields_comma [OF parse_key_quoted [OF colon]] by simp
  then show ?case unfolding J n(1) by simp
qed simp

lemma join_start: "xs \<noteq> [] \<Longrightarrow> \<forall>x \<in> set xs. json_start x \<Longrightarrow> json_start (join d xs)"
  by (cases xs; cases "tl xs") (auto intro: json_start_append)

theorem parse_print: "json_ok v \<Longrightarrow> reads l v"
proof (induction v arbitrary: l)
  case (JArr vs)
  show ?case unfolding reads_def
  proof (intro allI impI)
    fix n r assume n: "length (print l (JArr vs)) \<le> n" and r: "number_end r"
    then obtain m where m: "n = Suc m" by (cases n) (auto split: if_splits)
    show "parse_value n (print l (JArr vs) @ r) = Some (JArr vs, r)"
    proof (cases "vs = []")
      case True
      then show ?thesis by (simp add: m skip_ws_def json_ws_def)
    next
      case False
      let ?J = "join ('','' @ nl (l + 1)) (map (print (l + 1)) vs)"
      have start: "json_start (?J @ nl l @ CHR '']'' # r)"
        using False by (intro json_start_append join_start) (auto simp: print_start)
      then have "skip_ws (nl (l + 1) @ ?J @ nl l @ CHR '']'' # r) = ?J @ nl l @ CHR '']'' # r"
        unfolding skip_ws_append [OF nl] by (rule json_start_skip)
      moreover have "parse_elems m (?J @ nl l @ CHR '']'' # r) = Some (vs, r)"
        using JArr False n m by (intro parse_elems_print) (auto simp: list_all_iff)
      ultimately show ?thesis using False parse_value_arr [OF _ start] by (simp add: m)
    qed
  qed
next
  case (JObj fs)
  show ?case unfolding reads_def
  proof (intro allI impI)
    fix n r assume n: "length (print l (JObj fs)) \<le> n" and r: "number_end r"
    then obtain m where m: "n = Suc m" by (cases n) (auto split: if_splits)
    show "parse_value n (print l (JObj fs) @ r) = Some (JObj fs, r)"
    proof (cases "fs = []")
      case True
      then show ?thesis by (simp add: m skip_ws_def json_ws_def)
    next
      case False
      let ?J = "join ('','' @ nl (l + 1)) (map (field (l + 1)) fs)"
      have print: "print l (JObj fs) = CHR ''{'' # nl (l + 1) @ ?J @ nl l @ ''}''"
        using False by (simp add: field_def [abs_def] case_prod_unfold)
      have start: "json_start (?J @ nl l @ CHR ''}'' # r)"
        using False by (intro json_start_append join_start) (auto simp: field_def intro: json_start_append quoted_start)
      then have "skip_ws (nl (l + 1) @ ?J @ nl l @ CHR ''}'' # r) = ?J @ nl l @ CHR ''}'' # r"
        unfolding skip_ws_append [OF nl] by (rule json_start_skip)
      moreover have "\<forall>f \<in> set fs. reads (l + 1) (snd f)"
        using JObj by (auto simp: list_all_iff)
      then have "parse_fields m (?J @ nl l @ CHR ''}'' # r) = Some (fs, r)"
        using False n m unfolding print by (intro parse_fields_print) auto
      ultimately show ?thesis using JObj.prems parse_value_obj [OF _ start] unfolding print by (simp add: m)
    qed
  qed
next
  case (JStr s)
  have q: "hd (quoted s) = CHR 0x22" "length (quoted s) > 0" by (simp_all add: quoted_def quote_char_def char_codes)
  show ?case unfolding reads_def
  proof (intro allI impI)
    fix n r assume "length (print l (JStr s)) \<le> n"
    with q obtain m where "n = Suc m" by (cases n) auto
    then show "parse_value n (print l (JStr s) @ r) = Some (JStr s, r)"
      using q(1) parse_value_start [OF quoted_start] parse_atom_quoted by simp
  qed
next
  case (JNum k)
  have start: "json_start (show_int k)" using print_start [of nl colon l "JNum k"] by simp
  have ends: "hd (show_int k) \<noteq> CHR ''[''" "hd (show_int k) \<noteq> CHR ''{''"
    using hd_show_int [of k] by (auto simp: is_digit_def Let_def)
  show ?case unfolding reads_def
  proof (intro allI impI)
    fix n r assume "length (print l (JNum k)) \<le> n" "number_end r"
    moreover from this obtain m where "n = Suc m" by (cases n) auto
    ultimately show "parse_value n (print l (JNum k) @ r) = Some (JNum k, r)"
      using parse_value_start [OF start ends] parse_atom_show by simp
  qed
qed (auto simp: reads_def parse_atom_def skip_ws_def json_ws_def dest!: Suc_le_D)

lemma json_parse_print:
  assumes "json_ok v"
  shows "json_parse (print 0 v) = Some v"
proof -
  have "parse_value (length (print 0 v)) (print 0 v @ []) = Some (v, [])"
    using parse_print [OF assms] unfolding reads_def number_end_def by blast
  then show ?thesis by (simp add: json_parse_def skip_ws_def)
qed

end

interpretation compact: json_layout "\<lambda>l. []" "'':''" "[]"
  by unfold_locales simp_all

interpretation indented: json_layout "\<lambda>l. CHR 0x0A # replicate (2 * l) (CHR '' '')" "'': ''" "'' ''"
  by unfold_locales (simp_all add: list_all_iff json_ws_def)

lemma parse_stringify [simp]: "json_ok v \<Longrightarrow> json_parse (stringify v) = Some v"
  unfolding stringify_def by (rule compact.json_parse_print)

lemma parse_stringify2 [simp]: "json_ok v \<Longrightarrow> json_parse (stringify2 v) = Some v"
  unfolding stringify2_def by (rule indented.json_parse_print)

lemma stringify_nonempty [simp]: "stringify v \<noteq> []" "stringify2 v \<noteq> []"
  using print_start unfolding stringify_def stringify2_def json_start_def by blast+

end
