(* ===== verification/Task_Queue.thy ===== *)
theory Task_Queue
  imports Redis_Memory
begin

text \<open>
  \<open>backend/src/task-queue\<close>: durations (\<open>time.ts\<close>) and the queue of delayed tasks of
  \<open>task-queue-impl.ts\<close>, programs over the commands of the server. A transaction is one step;
  the selection of the expired tasks and the transaction that takes them are two, so other
  clients may run between them. Expiry of the data and of the handled marks is not modelled.
\<close>

section \<open>Durations\<close>

text \<open>Milliseconds.\<close>

datatype duration = Duration (duration_ms: int)

definition duration_seconds :: "duration \<Rightarrow> int" where
  "duration_seconds d = duration_ms d div 1000"

definition duration_add :: "duration \<Rightarrow> duration \<Rightarrow> duration" where
  "duration_add d e = Duration (duration_ms d + duration_ms e)"

definition fromMilliSeconds :: "int \<Rightarrow> duration" where
  "fromMilliSeconds n = Duration n"

definition fromSeconds :: "int \<Rightarrow> duration" where
  "fromSeconds n = Duration (n * 1000)"

definition fromMinutes :: "int \<Rightarrow> duration" where
  "fromMinutes n = Duration (n * 60 * 1000)"

definition fromHours :: "int \<Rightarrow> duration" where
  "fromHours n = Duration (n * 60 * 60 * 1000)"

definition fromDays :: "int \<Rightarrow> duration" where
  "fromDays n = Duration (n * 24 * 60 * 60 * 1000)"

definition NO_DURATION :: duration where
  "NO_DURATION = Duration 0"

text \<open>Points in time, in milliseconds.\<close>

datatype time = Time (epochMs: int)

definition time_seconds :: "time \<Rightarrow> int" where
  "time_seconds t = epochMs t div 1000"

definition addSeconds :: "time \<Rightarrow> int \<Rightarrow> time" where
  "addSeconds t n = Time (epochMs t + n * 1000)"

definition addDuration :: "time \<Rightarrow> duration \<Rightarrow> time" where
  "addDuration t d = Time (epochMs t + duration_ms d)"

definition fromEpochSeconds :: "int \<Rightarrow> time" where
  "fromEpochSeconds n = Time (n * 1000)"

section \<open>The queue\<close>

definition dataKey :: "string \<Rightarrow> string \<Rightarrow> string" where
  "dataKey queueId uid = ''task:data:'' @ queueId @ '':'' @ uid"

definition handledKey :: "string \<Rightarrow> string \<Rightarrow> string" where
  "handledKey queueId uid = ''task:handled:'' @ queueId @ '':'' @ uid"

definition entryKey :: "string \<Rightarrow> string" where
  "entryKey queueId = ''task:entries:'' @ queueId"

text \<open>\<open>now\<close> is the clock of \<open>Time\<close>, \<open>stamp\<close> that of the time provider.\<close>

definition upsert_task ::
    "'db redis \<Rightarrow> string \<Rightarrow> time \<Rightarrow> int \<Rightarrow> string \<Rightarrow> duration \<Rightarrow> string \<Rightarrow> 'db \<Rightarrow> 'db" where
  "upsert_task R queueId now stamp uid wait data db =
     rd_del R (handledKey queueId uid)
       (rd_zadd R (dataKey queueId uid) stamp data
         (rd_zadd R (entryKey queueId) (epochMs (addDuration now wait)) uid db))"

record task_entry =
  te_uid :: string
  te_data :: "string list"

record task_entries =
  tes_entries :: "task_entry list"
  tes_hasMore :: bool

definition select_expired :: "'db redis \<Rightarrow> string \<Rightarrow> nat \<Rightarrow> time \<Rightarrow> 'db \<Rightarrow> string list" where
  "select_expired R queueId maxCount until db =
     take maxCount (rd_zrangebyscore R (entryKey queueId) 0 (epochMs until) db)"

text \<open>\<open>SET key dummy NX\<close>: the answer is \<open>OK\<close> when the key was missing.\<close>

definition set_nx :: "'db redis \<Rightarrow> string \<Rightarrow> 'db \<Rightarrow> bool \<times> 'db" where
  "set_nx R k db = (if rd_get R k db = None then (True, rd_set R k ''dummy'' db) else (False, db))"

fun take_tasks :: "'db redis \<Rightarrow> string \<Rightarrow> string list \<Rightarrow> 'db \<Rightarrow> task_entry list \<times> 'db" where
  "take_tasks R queueId [] db = ([], db)"
| "take_tasks R queueId (uid # uids) db =
     (let data = take 1001 (rd_zrange R (dataKey queueId uid) db);
          (toBeHandled, db1) = set_nx R (handledKey queueId uid) db;
          (entries, db2) = take_tasks R queueId uids db1
      in (if toBeHandled then \<lparr> te_uid = uid, te_data = data \<rparr> # entries else entries, db2))"

text \<open>The transaction of \<open>popExpired\<close> for the tasks that were selected.\<close>

definition take_selected :: "'db redis \<Rightarrow> string \<Rightarrow> string list \<Rightarrow> 'db \<Rightarrow> task_entry list \<times> 'db" where
  "take_selected R queueId uids db =
     (let (entries, db1) = take_tasks R queueId uids db
      in (entries, fold (\<lambda>uid. rd_zrem R (entryKey queueId) uid) uids db1))"

definition popExpired :: "'db redis \<Rightarrow> string \<Rightarrow> nat \<Rightarrow> time \<Rightarrow> 'db \<Rightarrow> task_entries \<times> 'db" where
  "popExpired R queueId maxCount until db =
     (let uids = select_expired R queueId maxCount until db in
      if uids \<noteq> [] then
        (let (entries, db1) = take_selected R queueId uids db
         in (\<lparr> tes_entries = entries,
               tes_hasMore = (length entries \<noteq> length uids \<or> length uids = maxCount) \<rparr>, db1))
      else (\<lparr> tes_entries = [], tes_hasMore = False \<rparr>, db))"

section \<open>Lemmas\<close>

lemma task_keys [simp]:
  "dataKey q u \<noteq> handledKey q' v" "handledKey q' v \<noteq> dataKey q u" "entryKey q \<noteq> dataKey q' u"
  "dataKey q' u \<noteq> entryKey q" "entryKey q \<noteq> handledKey q' u" "handledKey q' u \<noteq> entryKey q"
  "handledKey q u = handledKey q v \<longleftrightarrow> u = v" "dataKey q u = dataKey q v \<longleftrightarrow> u = v"
  by (simp_all add: dataKey_def handledKey_def entryKey_def)

text \<open>The three kinds of keys of a queue hold values of their type.\<close>

definition queue_typed :: "('db \<Rightarrow> string \<Rightarrow> rvalue option) \<Rightarrow> string \<Rightarrow> 'db \<Rightarrow> bool" where
  "queue_typed view q db \<longleftrightarrow> as_zset (view db (entryKey q)) \<noteq> None \<and>
     (\<forall>u. as_zset (view db (dataKey q u)) \<noteq> None) \<and> (\<forall>u. as_str (view db (handledKey q u)) \<noteq> None)"

definition handled :: "('db \<Rightarrow> string \<Rightarrow> rvalue option) \<Rightarrow> string \<Rightarrow> 'db \<Rightarrow> string set" where
  "handled view q db = {u. as_str (view db (handledKey q u)) \<noteq> Some None}"

text \<open>The tasks that wait, with the time from which they are due.\<close>

definition waiting :: "('db \<Rightarrow> string \<Rightarrow> rvalue option) \<Rightarrow> string \<Rightarrow> 'db \<Rightarrow> string \<rightharpoonup> int" where
  "waiting view q db = the (as_zset (view db (entryKey q)))"

context redis_server
begin

lemma set_nx_view:
  assumes "queue_typed view q db"
  shows "fst (set_nx R (handledKey q u) db) \<longleftrightarrow> u \<notin> handled view q db"
    and "queue_typed view q (snd (set_nx R (handledKey q u) db))"
    and "handled view q (snd (set_nx R (handledKey q u) db)) = insert u (handled view q db)"
    and "waiting view q (snd (set_nx R (handledKey q u) db)) = waiting view q db"
    and "view (snd (set_nx R (handledKey q u) db)) (dataKey q v) = view db (dataKey q v)"
proof -
  obtain x where x: "as_str (view db (handledKey q u)) = Some x" using assms by (auto simp: queue_typed_def)
  note g = get [OF x]
  show "fst (set_nx R (handledKey q u) db) \<longleftrightarrow> u \<notin> handled view q db"
    using g x by (simp add: set_nx_def handled_def)
  show "queue_typed view q (snd (set_nx R (handledKey q u) db))"
    using assms by (simp add: set_nx_def queue_typed_def set)
  show "handled view q (snd (set_nx R (handledKey q u) db)) = insert u (handled view q db)"
    using g x by (auto simp: set_nx_def handled_def set)
  show "waiting view q (snd (set_nx R (handledKey q u) db)) = waiting view q db"
    "view (snd (set_nx R (handledKey q u) db)) (dataKey q v) = view db (dataKey q v)"
    by (simp_all add: set_nx_def waiting_def set)
qed

lemma take_tasks_spec:
  assumes "queue_typed view q db"
  shows "queue_typed view q (snd (take_tasks R q uids db)) \<and>
    handled view q (snd (take_tasks R q uids db)) = handled view q db \<union> List.set uids \<and>
    waiting view q (snd (take_tasks R q uids db)) = waiting view q db \<and>
    (distinct uids \<longrightarrow> map te_uid (fst (take_tasks R q uids db)) = filter (\<lambda>u. u \<notin> handled view q db) uids) \<and>
    te_uid ` List.set (fst (take_tasks R q uids db)) = List.set uids - handled view q db"
  using assms
proof (induction uids arbitrary: db)
  case (Cons u uids)
  let ?s = "set_nx R (handledKey q u) db"
  note step = set_nx_view [OF Cons.prems, of u]
  have ne: "distinct (u # uids) \<Longrightarrow> filter (\<lambda>v. v \<noteq> u \<and> v \<notin> handled view q db) uids = filter (\<lambda>v. v \<notin> handled view q db) uids"
    by (rule filter_cong) auto
  from Cons.IH [OF step(2)] step(1,3,4) ne show ?case
    by (cases ?s; cases "take_tasks R q uids (snd ?s)") auto
qed simp

lemma fold_zrem:
  assumes "queue_typed view q db"
  shows "queue_typed view q (fold (\<lambda>u. rd_zrem R (entryKey q) u) uids db) \<and>
    handled view q (fold (\<lambda>u. rd_zrem R (entryKey q) u) uids db) = handled view q db \<and>
    waiting view q (fold (\<lambda>u. rd_zrem R (entryKey q) u) uids db) = waiting view q db |` (- List.set uids)"
  using assms
proof (induction uids arbitrary: db)
  case (Cons u uids)
  obtain z where z: "as_zset (view db (entryKey q)) = Some z" using Cons.prems by (auto simp: queue_typed_def)
  have "queue_typed view q (rd_zrem R (entryKey q) u db)"
    "handled view q (rd_zrem R (entryKey q) u db) = handled view q db"
    "waiting view q (rd_zrem R (entryKey q) u db) = (waiting view q db)(u := None)"
    using Cons.prems by (simp_all add: queue_typed_def handled_def waiting_def zrem [OF z] z)
  with Cons.IH show ?case by (auto simp: restrict_map_def fun_eq_iff)
qed (simp add: restrict_map_def)

lemma take_selected_spec:
  assumes "queue_typed view q db"
  shows "queue_typed view q (snd (take_selected R q uids db)) \<and>
    handled view q (snd (take_selected R q uids db)) = handled view q db \<union> List.set uids \<and>
    waiting view q (snd (take_selected R q uids db)) = waiting view q db |` (- List.set uids) \<and>
    te_uid ` List.set (fst (take_selected R q uids db)) = List.set uids - handled view q db"
  using take_tasks_spec [OF assms, of uids] fold_zrem
  by (auto simp: take_selected_def split: prod.splits)

lemma select_expired_spec:
  assumes "queue_typed view q db"
  shows "List.set (select_expired R q n t db) \<subseteq> {u. \<exists>due. waiting view q db u = Some due \<and> 0 \<le> due \<and> due \<le> epochMs t} \<and>
    distinct (select_expired R q n t db) \<and>
    length (select_expired R q n t db) = min n (card {u. \<exists>due. waiting view q db u = Some due \<and> 0 \<le> due \<and> due \<le> epochMs t})"
proof -
  obtain z where z: "as_zset (view db (entryKey q)) = Some z" using assms by (auto simp: queue_typed_def)
  let ?xs = "rd_zrangebyscore R (entryKey q) 0 (epochMs t) db"
  have due: "List.set ?xs = {u. \<exists>due. waiting view q db u = Some due \<and> 0 \<le> due \<and> due \<le> epochMs t}" "distinct ?xs"
    using zrangebyscore [OF z, of 0 "epochMs t"] by (auto simp: waiting_def z score_of_def split: option.splits)
  then have "length ?xs = card {u. \<exists>due. waiting view q db u = Some due \<and> 0 \<le> due \<and> due \<le> epochMs t}"
    using distinct_card by metis
  then show ?thesis using due set_take_subset [of n ?xs] by (auto simp: select_expired_def)
qed

lemma upsert_spec:
  assumes "queue_typed view q db"
  shows "queue_typed view q (upsert_task R q now stamp u wait d db)"
    and "handled view q (upsert_task R q now stamp u wait d db) = handled view q db - {u}"
    and "waiting view q (upsert_task R q now stamp u wait d db) = (waiting view q db)(u \<mapsto> epochMs now + duration_ms wait)"
proof -
  obtain z where z: "as_zset (view db (entryKey q)) = Some z" using assms by (auto simp: queue_typed_def)
  obtain zd where zd: "as_zset (view db (dataKey q u)) = Some zd" using assms by (auto simp: queue_typed_def)
  let ?db = "rd_zadd R (entryKey q) (epochMs (addDuration now wait)) u db"
  have zd': "as_zset (view ?db (dataKey q u)) = Some zd" using zd by (simp add: zadd [OF z])
  note [simp] = upsert_task_def zadd [OF z] zadd [OF zd'] del z
  show "queue_typed view q (upsert_task R q now stamp u wait d db)"
    using assms by (simp add: queue_typed_def)
  show "handled view q (upsert_task R q now stamp u wait d db) = handled view q db - {u}"
    by (auto simp: handled_def)
  show "waiting view q (upsert_task R q now stamp u wait d db) = (waiting view q db)(u \<mapsto> epochMs now + duration_ms wait)"
    by (simp add: waiting_def) (simp add: addDuration_def)
qed

text \<open>
  The selection and the transaction are not one step: a client that selected a task before
  another one took it and put it back hands it out early and removes it from the queue.
\<close>

lemma stale_selection_takes_again:
  assumes "queue_typed view q db"
  shows "u \<in> te_uid ` List.set (fst (take_selected R q [u] (upsert_task R q now stamp u wait d db))) \<and>
    waiting view q (snd (take_selected R q [u] (upsert_task R q now stamp u wait d db))) u = None"
  using take_selected_spec [OF upsert_spec(1) [OF assms], of "[u]"] upsert_spec(2) [OF assms] by simp

end

section \<open>Properties\<close>

text \<open>The transactions of several clients, one after the other.\<close>

fun take_all :: "'db redis \<Rightarrow> string \<Rightarrow> string list list \<Rightarrow> 'db \<Rightarrow> task_entry list \<times> 'db" where
  "take_all R q [] db = ([], db)"
| "take_all R q (uids # uss) db =
     (let (entries, db1) = take_selected R q uids db; (rest, db2) = take_all R q uss db1
      in (entries @ rest, db2))"

text \<open>C12
  A task is handed out once: on any server that keeps the laws of its commands, whatever the
  clients of a queue selected and in whatever order their transactions run, every selected
  task that was not handled yet is handed out by exactly one of them.
\<close>

theorem tasks_taken_once:
  assumes "redis_server R view" and "queue_typed view q db" and "list_all distinct uss"
  shows "distinct (map te_uid (fst (take_all R q uss db))) \<and>
    set (map te_uid (fst (take_all R q uss db))) = set (concat uss) - handled view q db"
  using assms(2,3)
proof (induction uss arbitrary: db)
  case (Cons uids uss)
  let ?t = "take_selected R q uids db"
  note spec = redis_server.take_selected_spec [OF assms(1) Cons.prems(1), of uids]
  have "distinct (map te_uid (fst ?t))"
    using redis_server.take_tasks_spec [OF assms(1) Cons.prems(1), of uids] Cons.prems(2)
    by (auto simp: take_selected_def split: prod.splits)
  moreover have "distinct (map te_uid (fst (take_all R q uss (snd ?t))))"
    "set (map te_uid (fst (take_all R q uss (snd ?t)))) = set (concat uss) - handled view q (snd ?t)"
    using Cons.IH [of "snd ?t"] spec Cons.prems(2) by simp_all
  moreover have "take_all R q (uids # uss) db =
      (fst ?t @ fst (take_all R q uss (snd ?t)), snd (take_all R q uss (snd ?t)))"
    by (simp split: prod.splits)
  ultimately show ?case using spec by auto
qed simp

theorem tasks_taken_once_witness:
  "set (map te_uid (fst (take_all mem_redis ''q'' [[''a'', ''b''], [''b'', ''a'']] []))) = {''a'', ''b''}"
proof -
  have "mem_view [] = (\<lambda>k. None)" by (simp add: mem_view_def fun_eq_iff)
  then have "queue_typed mem_view ''q'' []" "handled mem_view ''q'' [] = {}"
    by (simp_all add: queue_typed_def handled_def)
  with tasks_taken_once [OF memory.redis_server_axioms, of "''q''" "[]" "[[''a'', ''b''], [''b'', ''a'']]"]
  show ?thesis by (auto simp del: take_all.simps)
qed

text \<open>
  Popping expired tasks: every task that is handed out was due, is marked as handled and
  leaves the queue; what is not due stays as it is; and when \<open>hasMore\<close> is false no due task is
  left behind.
\<close>

theorem popExpired_delivers:
  assumes "redis_server R view" and "queue_typed view q db" and "0 < maxCount"
    and "popExpired R q maxCount until db = (es, db')"
  shows "(\<forall>e \<in> set (tes_entries es). \<exists>due. waiting view q db (te_uid e) = Some due \<and> due \<le> epochMs until \<and>
        waiting view q db' (te_uid e) = None \<and> te_uid e \<in> handled view q db') \<and>
    (\<forall>u due. waiting view q db u = Some due \<and> epochMs until < due \<longrightarrow> waiting view q db' u = Some due) \<and>
    (\<not> tes_hasMore es \<longrightarrow> (\<forall>u due. waiting view q db' u = Some due \<and> 0 \<le> due \<longrightarrow> epochMs until < due))"
proof -
  define uids where "uids = select_expired R q maxCount until db"
  let ?D = "{u. \<exists>due. waiting view q db u = Some due \<and> 0 \<le> due \<and> due \<le> epochMs until}"
  have sel: "set uids \<subseteq> ?D" "distinct uids" "length uids = min maxCount (card ?D)"
    using redis_server.select_expired_spec [OF assms(1,2)] by (simp_all add: uids_def)
  have fin: "finite ?D"
  proof -
    obtain z where z: "as_zset (view db (entryKey q)) = Some z" using assms(2) by (auto simp: queue_typed_def)
    have "?D \<subseteq> dom z" by (auto simp: waiting_def z)
    then show ?thesis using redis_server.zset_finite [OF assms(1) z] finite_subset by blast
  qed
  have all: "set uids = ?D" if "length uids \<noteq> maxCount"
    using that sel fin by (intro card_subset_eq) (auto simp: distinct_card)
  show ?thesis
  proof (cases "uids = []")
    case True
    then have "es = \<lparr> tes_entries = [], tes_hasMore = False \<rparr>" "db' = db"
      using assms(4) by (auto simp: popExpired_def uids_def Let_def)
    moreover from True all assms(3) have "?D = {}" by auto
    then have "\<forall>u due. waiting view q db u = Some due \<and> 0 \<le> due \<longrightarrow> epochMs until < due" by force
    ultimately show ?thesis by simp
  next
    case False
    note spec = redis_server.take_selected_spec [OF assms(1,2), of uids]
    have es: "tes_entries es = fst (take_selected R q uids db)" "db' = snd (take_selected R q uids db)"
      "\<not> tes_hasMore es \<Longrightarrow> length uids \<noteq> maxCount"
      using assms(4) False by (auto simp: popExpired_def Let_def simp flip: uids_def split: prod.splits)
    have w: "waiting view q db' u = (if u \<in> set uids then None else waiting view q db u)" for u
      using spec es(2) by (simp add: restrict_map_def)
    have "te_uid e \<in> set uids" if "e \<in> set (tes_entries es)" for e using spec es(1) that by force
    moreover have "set uids \<subseteq> handled view q db'" using spec es(2) by auto
    moreover have "epochMs until < due" if "\<not> tes_hasMore es" "waiting view q db' u = Some due" "0 \<le> due" for u due
      using all [OF es(3) [OF that(1)]] that w by (cases "u \<in> ?D") (auto split: if_splits)
    ultimately show ?thesis using sel(1) w by (fastforce split: if_splits)
  qed
qed

theorem popExpired_delivers_witness:
  "let db = upsert_task mem_redis ''q'' (Time 0) 0 ''a'' (Duration 3) ''d'' [];
       r = popExpired mem_redis ''q'' 2 (Time 5) db
   in tes_hasMore (fst r) \<or>
      (\<forall>u due. waiting mem_view ''q'' (snd r) u = Some due \<and> 0 \<le> due \<longrightarrow> 5 < due)"
proof -
  let ?db = "upsert_task mem_redis ''q'' (Time 0) 0 ''a'' (Duration 3) ''d'' []"
  let ?r = "popExpired mem_redis ''q'' 2 (Time 5) ?db"
  have "mem_view [] = (\<lambda>k. None)" by (simp add: mem_view_def fun_eq_iff)
  then have "queue_typed mem_view ''q'' []" by (simp add: queue_typed_def)
  then have "queue_typed mem_view ''q'' ?db" by (rule memory.upsert_spec(1))
  from popExpired_delivers [OF memory.redis_server_axioms this zero_less_numeral prod.collapse [symmetric],
      of "num.Bit0 num.One" "Time 5"]
  have "\<not> tes_hasMore (fst ?r) \<longrightarrow>
      (\<forall>u due. waiting mem_view ''q'' (snd ?r) u = Some due \<and> 0 \<le> due \<longrightarrow> epochMs (Time 5) < due)"
    by (elim conjE)
  then show ?thesis unfolding Let_def time.sel by blast
qed

end
