(* ===== verification/Dependency_Lookup.thy ===== *)
theory Dependency_Lookup
  imports Json Dependency_Ref Version_Container System_Config Task_Queue
begin

text \<open>
  The versions of a dependency and the choice among them:
  \<open>scanner/dependency-lookup.ts\<close> (selectors), \<open>scanner/dependency-provider-impl.ts\<close>,
  \<open>scanner/dependency-lookup-cache-impl.ts\<close> and the printing of a version container
  (\<open>scanner/version-container.ts\<close>), under \<open>backend/src/repositories\<close>. The artifact store and
  the docker registries are parameters. Cached answers expire: the server is kept together with
  the times at which its keys end.
\<close>

section \<open>Version containers as text\<close>

fun composite_json :: "composite \<Rightarrow> json" where
  "composite_json (Composite bs rs) =
     JObj [(''branches'', JArr (map (\<lambda>(i, m). JObj [(''index'', JNum i), (''model'', composite_json m)]) bs)),
           (''releases'', JArr (map JNum rs))]"

definition json_num :: "json \<Rightarrow> int option" where
  "json_num j = (case j of JNum n \<Rightarrow> Some n | _ \<Rightarrow> None)"

definition json_str :: "json \<Rightarrow> string option" where
  "json_str j = (case j of JStr s \<Rightarrow> Some s | _ \<Rightarrow> None)"

text \<open>Only the shape that is printed is read; the object mapper of the source is more lenient.\<close>

definition branch_of_json :: "(json \<Rightarrow> composite option) \<Rightarrow> json \<Rightarrow> (int \<times> composite) option" where
  "branch_of_json model b =
     (case b of
        JObj gs \<Rightarrow>
          (case (map_of gs ''index'', map_of gs ''model'') of
             (Some (JNum i), Some m) \<Rightarrow> map_option (Pair i) (model m)
           | _ \<Rightarrow> None)
      | _ \<Rightarrow> None)"

lemma json_field_size: "map_of fs k = Some v \<Longrightarrow> size v < size (JObj fs)"
  by (induction fs) (auto split: if_splits)

lemma json_elem_size: "v \<in> set vs \<Longrightarrow> size v < size (JArr vs)"
  by (induction vs) auto

lemma branch_cong [fundef_cong]:
  "b = b' \<Longrightarrow> (\<And>m. size m < size b' \<Longrightarrow> model m = model' m) \<Longrightarrow> branch_of_json model b = branch_of_json model' b'"
  by (auto simp: branch_of_json_def dest: json_field_size split: json.splits option.splits)

function composite_of_json :: "json \<Rightarrow> composite option" where
  "composite_of_json j =
     (case j of
        JObj fs \<Rightarrow>
          (case map_of fs ''branches'' of
             Some (JArr bs) \<Rightarrow>
               (case map_of fs ''releases'' of
                  Some (JArr rs) \<Rightarrow>
                    (case (those (map (branch_of_json composite_of_json) bs), those (map json_num rs)) of
                       (Some bs', Some rs') \<Rightarrow> Some (Composite bs' rs')
                     | _ \<Rightarrow> None)
                | _ \<Rightarrow> None)
           | _ \<Rightarrow> None)
      | _ \<Rightarrow> None)"
  by pat_completeness auto
termination
  by (relation "measure size") (fastforce dest!: json_field_size json_elem_size)+

declare composite_of_json.simps [simp del]

definition container_serialize :: "composite \<Rightarrow> string" where
  "container_serialize m = stringify2 (composite_json m)"

definition container_deserialize :: "string \<Rightarrow> composite res" where
  "container_deserialize s =
     (case json_parse s of
        None \<Rightarrow> Inl (Error ''SyntaxError'')
      | Some j \<Rightarrow> (case composite_of_json j of None \<Rightarrow> Inl (Error ''TypeError'') | Some m \<Rightarrow> Inr m))"

section \<open>Selectors\<close>

datatype selector =
    HighestInMajorOrHighest int string
  | HighestInMajorOrKeepMajor int string
  | Highest
  | HighestMinorKeepMajor

fun pick :: "selector \<Rightarrow> composite \<Rightarrow> version \<Rightarrow> string option \<Rightarrow> version option res" where
  "pick (HighestInMajorOrHighest targetMajor targetSerie) versions current serieName =
     (if Some targetSerie = serieName then container_highest (Some targetMajor) versions
      else container_highest None versions)"
| "pick (HighestInMajorOrKeepMajor targetMajor targetSerie) versions current serieName =
     (if Some targetSerie = serieName then container_highest (Some targetMajor) versions
      else container_highest (Some (major_of current)) versions)"
| "pick Highest versions current serieName = container_highest None versions"
| "pick HighestMinorKeepMajor versions current serieName =
     container_highest (Some (major_of current)) versions"

text \<open>The shared instance of \<open>HighestMinorKeepMajorDependencySelector\<close> is of the other class.\<close>

definition HighestMinorKeepMajor_INSTANCE :: selector where
  "HighestMinorKeepMajor_INSTANCE = Highest"

definition Highest_INSTANCE :: selector where
  "Highest_INSTANCE = Highest"

section \<open>The provider\<close>

record cache_entry =
  ce_container :: composite
  ce_origin :: "source option"

definition serie_id :: "repository_config option \<Rightarrow> string option" where
  "serie_id config = (case config of
     None \<Rightarrow> None
   | Some c \<Rightarrow> map_option ms_id (rc_majorSerie c))"

definition getDependencySerie ::
    "(source \<Rightarrow> repository_config option res) \<Rightarrow> cache_entry \<Rightarrow> string option res" where
  "getDependencySerie getRepositoryConfig entry =
     (case ce_origin entry of
        Some origin \<Rightarrow> res_bind (getRepositoryConfig origin) (\<lambda>config. Inr (serie_id config))
      | None \<Rightarrow> Inr None)"

definition provider_getVersion ::
    "(dep_ref \<Rightarrow> cache_entry option res) \<Rightarrow> (source \<Rightarrow> repository_config option res) \<Rightarrow> selector \<Rightarrow>
     dep_ref \<Rightarrow> version \<Rightarrow> version option res" where
  "provider_getVersion getAllVersions getRepositoryConfig selector ref current =
     res_bind (getAllVersions ref) (\<lambda>entry.
       case entry of
         Some e \<Rightarrow> res_bind (getDependencySerie getRepositoryConfig e)
           (\<lambda>maybeSerie. pick selector (ce_container e) current maybeSerie)
       | None \<Rightarrow> Inr None)"

section \<open>The cache\<close>

record artifact =
  art_version :: string
  art_properties :: "(string \<times> string) list"

text \<open>What the cache asks: the versions of a repository, artifacts, and tags of images.\<close>

record version_sources =
  vs_repository :: "source \<Rightarrow> version list res"
  vs_artifacts :: "string \<Rightarrow> string \<Rightarrow> string \<Rightarrow> artifact list res"
  vs_tags :: "string \<Rightarrow> (string \<Rightarrow> string list res) option"

definition PublicationRepositoryMetaDataKeys_id :: string where
  "PublicationRepositoryMetaDataKeys_id = ''repository.id''"

text \<open>The first repository name that is not empty, and the versions that parse.\<close>

definition artifact_repository :: "artifact list \<Rightarrow> string option" where
  "artifact_repository as =
     fold (\<lambda>a acc. js_or acc (map_of (art_properties a) PublicationRepositoryMetaDataKeys_id)) as None"

definition parsed_versions :: "string list \<Rightarrow> version list" where
  "parsed_versions ss = List.map_filter version_parse ss"

fun createContainer :: "version_sources \<Rightarrow> dep_ref \<Rightarrow> (composite \<times> source option) res" where
  "createContainer vs (GitRef s) =
     res_bind (vs_repository vs s) (\<lambda>all. Inr (container_of all, Some s))"
| "createContainer vs (ArtifactRef remote repository path) =
     res_bind (vs_artifacts vs remote repository path) (\<lambda>as.
       (let container = container_of (parsed_versions (map art_version as)) in
        if truthy (artifact_repository as)
        then res_bind (source_createFromString (the (artifact_repository as))) (\<lambda>s. Inr (container, Some s))
        else Inr (container, None)))"
| "createContainer vs (ImageRef remote repository) =
     (case vs_tags vs remote of
        Some getTags \<Rightarrow> res_bind (getTags repository) (\<lambda>tags. Inr (container_of (parsed_versions tags), None))
      | None \<Rightarrow> Inl (Error (''Could not find DockerRegistry config for '' @ remote)))"

definition cacheKey :: "dep_ref \<Rightarrow> string" where
  "cacheKey ref = ''dependency-lookup-cache:'' @ dep_serialize ref"

definition INVALID_KEY :: string where
  "INVALID_KEY = ''CACHE_INVALID''"

text \<open>A server with keys that expire (\<open>expire\<close>): a key whose time has come is gone when it is used next.\<close>

record 'db expiring =
  ex_db :: 'db
  ex_ends :: "string \<Rightarrow> time option"

definition drop_key :: "'db redis \<Rightarrow> string \<Rightarrow> 'db expiring \<Rightarrow> 'db expiring" where
  "drop_key R k t = t \<lparr> ex_db := rd_del R k (ex_db t), ex_ends := (ex_ends t)(k := None) \<rparr>"

definition drop_expired :: "'db redis \<Rightarrow> time \<Rightarrow> string \<Rightarrow> 'db expiring \<Rightarrow> 'db expiring" where
  "drop_expired R now k t =
     (case ex_ends t k of
        Some e \<Rightarrow> if epochMs e \<le> epochMs now then drop_key R k t else t
      | None \<Rightarrow> t)"

text \<open>The transaction of \<open>hmset\<close> and \<open>expire\<close>, which takes seconds.\<close>

definition store_expiring ::
    "'db redis \<Rightarrow> time \<Rightarrow> duration \<Rightarrow> string \<Rightarrow> (string \<times> string) list \<Rightarrow> 'db expiring \<Rightarrow> 'db expiring" where
  "store_expiring R now ttl k fs t =
     t \<lparr> ex_db := rd_hset R k fs (ex_db t), ex_ends := (ex_ends t)(k \<mapsto> addSeconds now (duration_seconds ttl)) \<rparr>"

definition CacheTTL_SUCCESS :: duration where
  "CacheTTL_SUCCESS = fromMinutes 15"

definition CacheTTL_FAILURE :: duration where
  "CacheTTL_FAILURE = fromMinutes 3"

definition invalidate :: "'db redis \<Rightarrow> dep_ref list \<Rightarrow> 'db expiring \<Rightarrow> 'db expiring" where
  "invalidate R refs t = fold (\<lambda>r. drop_key R (cacheKey r)) refs t"

definition cached_entry :: "string \<Rightarrow> string option \<Rightarrow> cache_entry option res" where
  "cached_entry serializedContainer serializedRepo =
     (if serializedContainer = INVALID_KEY then Inr None
      else res_bind (container_deserialize serializedContainer) (\<lambda>container.
        if truthy serializedRepo
        then res_bind (source_deserialize (the serializedRepo)) (\<lambda>s.
          Inr (Some \<lparr> ce_container = container, ce_origin = Some s \<rparr>))
        else Inr (Some \<lparr> ce_container = container, ce_origin = None \<rparr>)))"

definition entry_fields :: "composite \<Rightarrow> source option \<Rightarrow> (string \<times> string) list" where
  "entry_fields container origin =
     (''serialized'', container_serialize container) #
       (case origin of Some s \<Rightarrow> [(''repository'', source_serialize s)] | None \<Rightarrow> [])"

definition getAllVersions ::
    "'db redis \<Rightarrow> version_sources \<Rightarrow> time \<Rightarrow> dep_ref \<Rightarrow> 'db expiring \<Rightarrow> cache_entry option res \<times> 'db expiring" where
  "getAllVersions R vs now ref t0 =
     (let key = cacheKey ref;
          t = drop_expired R now key t0;
          serializedContainer = rd_hget R key ''serialized'' (ex_db t);
          serializedRepo = rd_hget R key ''repository'' (ex_db t)
      in if truthy serializedContainer
         then (cached_entry (the serializedContainer) serializedRepo, t)
         else (case createContainer vs ref of
             Inr (container, origin) \<Rightarrow>
               (Inr (Some \<lparr> ce_container = container, ce_origin = origin \<rparr>),
                store_expiring R now CacheTTL_SUCCESS key (entry_fields container origin) t)
           | Inl e \<Rightarrow> (Inr None, store_expiring R now CacheTTL_FAILURE key [(''serialized'', INVALID_KEY)] t)))"

section \<open>Printing and reading a container\<close>

lemma composite_json_ok: "json_ok (composite_json m)"
  by (induction m rule: composite_json.induct) (auto simp: list_all_iff)

lemma those_map_Some: "(\<And>x. x \<in> set xs \<Longrightarrow> f x = Some (g x)) \<Longrightarrow> those (map f xs) = Some (map g xs)"
  by (induction xs) auto

lemma composite_of_json_json [simp]: "composite_of_json (composite_json m) = Some m"
proof (induction m rule: composite_json.induct)
  case (1 bs rs)
  have "those (map (branch_of_json composite_of_json)
      (map (\<lambda>(i, m). JObj [(''index'', JNum i), (''model'', composite_json m)]) bs)) = Some (map (\<lambda>x. x) bs)"
    unfolding map_map by (rule those_map_Some) (use 1 in \<open>auto simp: branch_of_json_def\<close>)
  moreover have "those (map json_num (map JNum rs)) = Some (map (\<lambda>x. x) rs)"
    unfolding map_map by (rule those_map_Some) (simp add: json_num_def)
  ultimately show ?case by (subst composite_of_json.simps) (simp del: map_map)
qed

lemma container_roundtrip [simp]: "container_deserialize (container_serialize m) = Inr m"
  by (simp add: container_deserialize_def container_serialize_def composite_json_ok)

lemma container_text: "container_serialize m \<noteq> []" "container_serialize m \<noteq> INVALID_KEY"
proof -
  show "container_serialize m \<noteq> []" by (simp add: container_serialize_def)
  have "hd (container_serialize m) = CHR ''{''"
    by (cases m) (simp add: container_serialize_def stringify2_def)
  then show "container_serialize m \<noteq> INVALID_KEY" by (auto simp: INVALID_KEY_def)
qed

section \<open>The cache keeps an answer\<close>

definition answer_of :: "(composite \<times> source option) res \<Rightarrow> cache_entry option" where
  "answer_of r = (case r of Inr (c, origin) \<Rightarrow> Some \<lparr> ce_container = c, ce_origin = origin \<rparr> | Inl e \<Rightarrow> None)"

definition origin_ok :: "(composite \<times> source option) res \<Rightarrow> bool" where
  "origin_ok r = (case r of Inr (c, Some s) \<Rightarrow> colon_free s | _ \<Rightarrow> True)"

lemma source_serialize_nonempty [simp]: "source_serialize s \<noteq> []"
  by (simp add: source_serialize_def)

lemma cached_entry_fields:
  assumes "origin_ok (Inr (c, origin))"
  shows "cached_entry (container_serialize c) (map_of (entry_fields c origin) ''repository'') =
    Inr (Some \<lparr> ce_container = c, ce_origin = origin \<rparr>)"
  using assms container_text [of c]
  by (cases origin) (simp_all add: cached_entry_def entry_fields_def origin_ok_def)

text \<open>How long an answer is kept.\<close>

definition answer_ttl :: "(composite \<times> source option) res \<Rightarrow> duration" where
  "answer_ttl r = (case r of Inr _ \<Rightarrow> fromMinutes 15 | Inl _ \<Rightarrow> fromMinutes 3)"

text \<open>Further uses of the cache: lookups at some time, with what the services say then, and invalidations.\<close>

datatype cache_use = Lookup version_sources time dep_ref | Invalidate "dep_ref list"

fun use_cache :: "'db redis \<Rightarrow> cache_use \<Rightarrow> 'db expiring \<Rightarrow> 'db expiring" where
  "use_cache R (Lookup vs now ref) t = snd (getAllVersions R vs now ref t)"
| "use_cache R (Invalidate refs) t = invalidate R refs t"

text \<open>Uses after which a dependency is still cached that expires at a time.\<close>

fun keeps :: "dep_ref \<Rightarrow> time \<Rightarrow> cache_use \<Rightarrow> bool" where
  "keeps ref end (Lookup vs now r) \<longleftrightarrow> dep_ok r \<and> (r = ref \<longrightarrow> epochMs now < epochMs end)"
| "keeps ref end (Invalidate refs) \<longleftrightarrow> list_all dep_ok refs \<and> ref \<notin> set refs"

lemma cacheKey_inject: "dep_ok r \<Longrightarrow> dep_ok q \<Longrightarrow> cacheKey r = cacheKey q \<longleftrightarrow> r = q"
  using dep_serialize_inj by (auto simp: cacheKey_def inj_on_def)

context redis_server
begin

text \<open>The keys of the cache hold hashes or nothing.\<close>

definition cache_hashes :: "'db expiring \<Rightarrow> bool" where
  "cache_hashes t \<longleftrightarrow> (\<forall>r. as_hash (view (ex_db t) (cacheKey r)) \<noteq> None)"

lemma drop_key_view [simp]:
  "view (ex_db (drop_key R k t)) = (view (ex_db t))(k := None)" "ex_ends (drop_key R k t) = (ex_ends t)(k := None)"
  by (simp_all add: drop_key_def del)

lemma drop_key_hashes: "cache_hashes t \<Longrightarrow> cache_hashes (drop_key R k t)"
  by (simp add: cache_hashes_def)

lemma drop_expired_hashes: "cache_hashes t \<Longrightarrow> cache_hashes (drop_expired R now k t)"
  by (auto simp: drop_expired_def drop_key_hashes split: option.split)

lemma store_view:
  assumes "cache_hashes t"
  obtains h where "as_hash (view (ex_db t) (cacheKey r)) = Some h"
    "view (ex_db (store_expiring R now ttl (cacheKey r) fs t)) = (view (ex_db t))(cacheKey r := put_hash (h ++ map_of (rev fs)))"
proof -
  from assms obtain h where h: "as_hash (view (ex_db t) (cacheKey r)) = Some h" unfolding cache_hashes_def by blast
  with hset [OF h, of fs] that show ?thesis by (simp add: store_expiring_def)
qed

lemma store_hashes:
  assumes "cache_hashes t"
  shows "cache_hashes (store_expiring R now ttl (cacheKey r) fs t)"
proof -
  obtain h where "view (ex_db (store_expiring R now ttl (cacheKey r) fs t)) = (view (ex_db t))(cacheKey r := put_hash (h ++ map_of (rev fs)))"
    using store_view [OF assms] by metis
  with assms show ?thesis by (simp add: cache_hashes_def)
qed

lemma getAllVersions_hashes:
  assumes "cache_hashes t"
  shows "cache_hashes (snd (getAllVersions R vs now r t))"
  using drop_expired_hashes [OF assms] store_hashes
  by (auto simp: getAllVersions_def Let_def split: sum.splits)

text \<open>Another key is not touched by a lookup.\<close>

lemma getAllVersions_other:
  assumes "cache_hashes t" and "k \<noteq> cacheKey r"
  shows "view (ex_db (snd (getAllVersions R vs now r t))) k = view (ex_db t) k \<and>
    ex_ends (snd (getAllVersions R vs now r t)) k = ex_ends t k"
proof -
  let ?t = "drop_expired R now (cacheKey r) t"
  have same: "view (ex_db ?t) k = view (ex_db t) k" "ex_ends ?t k = ex_ends t k"
    using assms(2) by (auto simp: drop_expired_def split: option.split)
  have stored: "view (ex_db (store_expiring R now ttl (cacheKey r) fs ?t)) k = view (ex_db ?t) k \<and>
      ex_ends (store_expiring R now ttl (cacheKey r) fs ?t) k = ex_ends ?t k" for ttl fs
  proof -
    obtain h where "view (ex_db (store_expiring R now ttl (cacheKey r) fs ?t)) = (view (ex_db ?t))(cacheKey r := put_hash (h ++ map_of (rev fs)))"
      using store_view [OF drop_expired_hashes [OF assms(1)]] by metis
    with assms(2) show ?thesis by (simp add: store_expiring_def)
  qed
  show ?thesis
  proof (cases "truthy (rd_hget R (cacheKey r) ''serialized'' (ex_db ?t))")
    case True
    with same show ?thesis by (simp add: getAllVersions_def Let_def)
  next
    case False
    with same stored show ?thesis
      by (cases "createContainer vs r") (auto simp: getAllVersions_def Let_def split del: if_split)
  qed
qed

text \<open>What is cached for a key, and until when.\<close>

definition caches :: "dep_ref \<Rightarrow> cache_entry option \<Rightarrow> time \<Rightarrow> 'db expiring \<Rightarrow> bool" where
  "caches ref a end t \<longleftrightarrow> ex_ends t (cacheKey ref) = Some end \<and>
     (\<exists>h. as_hash (view (ex_db t) (cacheKey ref)) = Some h \<and> truthy (h ''serialized'') \<and>
        cached_entry (the (h ''serialized'')) (h ''repository'') = Inr a)"

lemma caches_cong:
  "view (ex_db t') (cacheKey ref) = view (ex_db t) (cacheKey ref) \<Longrightarrow> ex_ends t' (cacheKey ref) = ex_ends t (cacheKey ref) \<Longrightarrow>
   caches ref a end t' = caches ref a end t"
  by (simp add: caches_def)

lemma lookup_cached:
  assumes "caches ref a end t" and "epochMs now < epochMs end"
  shows "getAllVersions R vs now ref t = (Inr a, t)"
proof -
  from assms(1) obtain h where h: "as_hash (view (ex_db t) (cacheKey ref)) = Some h" "truthy (h ''serialized'')"
    "cached_entry (the (h ''serialized'')) (h ''repository'') = Inr a" unfolding caches_def by blast
  have "drop_expired R now (cacheKey ref) t = t"
    using assms by (simp add: drop_expired_def caches_def)
  with h hget [OF h(1)] show ?thesis by (simp add: getAllVersions_def Let_def)
qed

definition uncached :: "dep_ref \<Rightarrow> 'db expiring \<Rightarrow> bool" where
  "uncached ref t \<longleftrightarrow> as_hash (view (ex_db t) (cacheKey ref)) = Some Map.empty"

lemma getAllVersions_uncached:
  assumes "uncached ref (drop_expired R now (cacheKey ref) t)"
  shows "fst (getAllVersions R vs now ref t) = Inr (answer_of (createContainer vs ref))"
  using hget [of "ex_db (drop_expired R now (cacheKey ref) t)" "cacheKey ref"] assms
  by (auto simp: uncached_def getAllVersions_def Let_def answer_of_def split: sum.splits)

lemma stored_answer:
  assumes "uncached ref t" and "truthy (map_of (rev fs) ''serialized'')"
    and "cached_entry (the (map_of (rev fs) ''serialized'')) (map_of (rev fs) ''repository'') = Inr a"
  shows "caches ref a (addSeconds now (duration_seconds ttl)) (store_expiring R now ttl (cacheKey ref) fs t)"
proof -
  have "as_hash (view (ex_db (store_expiring R now ttl (cacheKey ref) fs t)) (cacheKey ref)) = Some (map_of (rev fs))"
    using assms(1) hset [of "ex_db t" "cacheKey ref" Map.empty fs] by (simp add: uncached_def store_expiring_def)
  with assms(2,3) show ?thesis by (simp add: caches_def store_expiring_def)
qed

lemma getAllVersions_stores:
  assumes "uncached ref (drop_expired R now (cacheKey ref) t)" and "origin_ok (createContainer vs ref)"
  shows "caches ref (answer_of (createContainer vs ref)) (addDuration now (answer_ttl (createContainer vs ref)))
    (snd (getAllVersions R vs now ref t))"
proof -
  let ?k = "cacheKey ref" and ?t = "drop_expired R now (cacheKey ref) t"
  have miss: "rd_hget R ?k f (ex_db ?t) = None" for f
    using assms(1) hget [of "ex_db ?t" ?k Map.empty f] by (simp add: uncached_def)
  have seconds: "addSeconds now (duration_seconds CacheTTL_SUCCESS) = addDuration now (fromMinutes 15)"
    "addSeconds now (duration_seconds CacheTTL_FAILURE) = addDuration now (fromMinutes 3)"
    by (simp_all add: addSeconds_def duration_seconds_def CacheTTL_SUCCESS_def CacheTTL_FAILURE_def addDuration_def fromMinutes_def)
  show ?thesis
  proof (cases "createContainer vs ref")
    case (Inl e)
    have "truthy (map_of (rev [(''serialized'', INVALID_KEY)]) ''serialized'')" by (simp add: INVALID_KEY_def)
    from stored_answer [OF assms(1) this, of None now CacheTTL_FAILURE] Inl show ?thesis
      by (simp add: getAllVersions_def Let_def miss answer_of_def answer_ttl_def seconds cached_entry_def)
  next
    case (Inr r)
    obtain c origin where r: "r = (c, origin)" by (cases r)
    let ?fs = "entry_fields c origin"
    have fields: "map_of (rev ?fs) ''serialized'' = Some (container_serialize c)"
      "map_of (rev ?fs) ''repository'' = map_of ?fs ''repository''"
      by (simp_all add: entry_fields_def split: option.splits)
    from stored_answer [OF assms(1), of ?fs "Some \<lparr> ce_container = c, ce_origin = origin \<rparr>" now CacheTTL_SUCCESS]
      Inr r assms(2) container_text(1) [of c] cached_entry_fields [of c origin] fields
    show ?thesis by (simp add: getAllVersions_def Let_def miss answer_of_def answer_ttl_def seconds)
  qed
qed

lemma invalidate_view:
  "cache_hashes t \<Longrightarrow> cache_hashes (invalidate R refs t) \<and>
   (\<forall>k. view (ex_db (invalidate R refs t)) k = (if k \<in> cacheKey ` set refs then None else view (ex_db t) k) \<and>
      ex_ends (invalidate R refs t) k = (if k \<in> cacheKey ` set refs then None else ex_ends t k))"
  by (induction refs arbitrary: t) (auto simp: invalidate_def drop_key_hashes)

lemma use_keeps:
  assumes "cache_hashes t" and "caches ref a end t" and "keeps ref end u" and "dep_ok ref"
  shows "cache_hashes (use_cache R u t) \<and> caches ref a end (use_cache R u t)"
proof (cases u)
  case (Lookup vs now r)
  show ?thesis
  proof (cases "r = ref")
    case True
    with Lookup assms lookup_cached [OF assms(2), of now vs] show ?thesis by simp
  next
    case False
    with Lookup assms(3,4) have "cacheKey ref \<noteq> cacheKey r" by (simp add: cacheKey_inject)
    from getAllVersions_other [OF assms(1) this, of vs now]
    have "caches ref a end (snd (getAllVersions R vs now r t)) = caches ref a end t" by (intro caches_cong) simp_all
    with assms(2) getAllVersions_hashes [OF assms(1)] Lookup show ?thesis by simp
  qed
next
  case (Invalidate refs)
  with assms(3,4) have "cacheKey ref \<notin> cacheKey ` set refs" by (auto simp: cacheKey_inject list_all_iff)
  with invalidate_view [OF assms(1), of refs] have "caches ref a end (invalidate R refs t) = caches ref a end t"
    by (intro caches_cong) simp_all
  with invalidate_view [OF assms(1), of refs] Invalidate assms(2) show ?thesis by simp
qed

lemma uses_keep:
  "cache_hashes t \<Longrightarrow> caches ref a end t \<Longrightarrow> list_all (keeps ref end) us \<Longrightarrow> dep_ok ref \<Longrightarrow>
   cache_hashes (fold (use_cache R) us t) \<and> caches ref a end (fold (use_cache R) us t)"
  by (induction us arbitrary: t) (auto dest: use_keeps)

lemma expired_uncached:
  assumes "caches ref a end t" and "epochMs end \<le> epochMs now"
  shows "uncached ref (drop_expired R now (cacheKey ref) t)"
  using assms by (simp add: caches_def uncached_def drop_expired_def split: option.split)

lemma invalidated_uncached:
  assumes "cache_hashes t" and "ref \<in> set refs"
  shows "uncached ref (drop_expired R now (cacheKey ref) (invalidate R refs t))"
  using invalidate_view [OF assms(1), of refs] assms(2)
  by (simp add: uncached_def drop_expired_def split: option.split)

end

section \<open>Selectors are stable\<close>

lemma selected_again:
  assumes "1 < k" and "list_all (\<lambda>v. length (segments v) = k) vs"
    and "pick sel (container_of vs) current serie = Inr (Some w)"
  shows "w \<in> set vs \<and> pick sel (container_of vs) w serie = Inr (Some w)"
proof -
  have highest: "w \<in> set vs \<and> (major_of w \<le> n \<or> mx = None) \<and>
      container_highest (Some (major_of w)) (container_of vs) = Inr (Some w)"
    if h: "container_highest mx (container_of vs) = Inr (Some w)" and n: "mx = Some n \<or> mx = None" for mx n
  proof -
    let ?q = "filter (\<lambda>v. case mx of None \<Rightarrow> True | Some n \<Rightarrow> major_of v \<le> n) vs"
    have ne: "?q \<noteq> []" and w: "w = Max (set ?q)"
      using h unfolding container_highest_is_max [OF assms(1,2)] by (auto simp: Let_def split: if_splits)
    have in_q: "w \<in> set ?q" unfolding w by (rule Max_in) (use ne in \<open>simp_all del: set_filter\<close>)
    have "v \<le> w" if "v \<in> set ?q" for v unfolding w using that by simp
    moreover have "v \<in> set ?q" if "v \<in> set vs" "major_of v \<le> major_of w" for v
      using in_q that by (cases mx) auto
    ultimately have "Max (set (filter (\<lambda>v. major_of v \<le> major_of w) vs)) = w"
      using in_q by (intro Max_eqI) auto
    moreover have "filter (\<lambda>v. major_of v \<le> major_of w) vs \<noteq> []"
      using in_q by (auto simp: filter_empty_conv)
    ultimately have "container_highest (Some (major_of w)) (container_of vs) = Inr (Some w)"
      unfolding container_highest_is_max [OF assms(1,2)] by simp
    with in_q n show ?thesis by auto
  qed
  show ?thesis
    using assms(3) highest [of "Some (major_of current)" "major_of current"] highest [of None]
    by (cases sel) (auto split: if_splits dest: highest)
qed

section \<open>Properties\<close>

text \<open>C30
  The lookup cache answers like the services it asks, for a while: on any server that keeps the laws of its
  commands and whose keys of the cache hold hashes, the first lookup of a dependency answers what the services
  say, or nothing when they fail. For 15 minutes, or 3 when they failed, every lookup gives that answer,
  whatever the services would say by then, whatever is looked up and whichever other dependencies are
  invalidated in between; after that time, or when it was invalidated, the services are asked again.
\<close>

theorem lookup_is_cached:
  assumes "redis_server R view" and "\<forall>r. as_hash (view (ex_db t) (cacheKey r)) \<noteq> None"
    and "as_hash (view (ex_db t) (cacheKey ref)) = Some Map.empty" and "dep_ok ref"
    and "origin_ok (createContainer vs ref)"
    and "end = addDuration start (case createContainer vs ref of Inr c \<Rightarrow> fromMinutes 15 | Inl e \<Rightarrow> fromMinutes 3)"
    and "list_all (keeps ref end) us"
  shows "let answer = (\<lambda>vs. Inr (answer_of (createContainer vs ref)));
      (first, t1) = getAllVersions R vs start ref t; t2 = fold (use_cache R) us t1
    in first = answer vs \<and>
      (\<forall>now. fst (getAllVersions R vs' now ref t2) = (if epochMs now < epochMs end then answer vs else answer vs') \<and>
        (ref \<in> set refs \<longrightarrow> fst (getAllVersions R vs' now ref (invalidate R refs t2)) = answer vs'))"
proof -
  note s = assms(1)
  have hashes: "redis_server.cache_hashes view t" using assms(2) by (simp add: redis_server.cache_hashes_def [OF s])
  have un: "redis_server.uncached view ref (drop_expired R start (cacheKey ref) t)"
    using assms(3) redis_server.drop_key_view [OF s, of "cacheKey ref" t]
    by (simp add: redis_server.uncached_def [OF s] drop_expired_def split: option.split)
  let ?t1 = "snd (getAllVersions R vs start ref t)" and ?t2 = "fold (use_cache R) us (snd (getAllVersions R vs start ref t))"
  have e: "end = addDuration start (answer_ttl (createContainer vs ref))" using assms(6) by (simp add: answer_ttl_def)
  have "redis_server.caches view ref (answer_of (createContainer vs ref)) end ?t1"
    unfolding e by (rule redis_server.getAllVersions_stores [OF s un assms(5)])
  from redis_server.uses_keep [OF s redis_server.getAllVersions_hashes [OF s hashes] this assms(7,4)]
  have t2: "redis_server.cache_hashes view ?t2" "redis_server.caches view ref (answer_of (createContainer vs ref)) end ?t2"
    by simp_all
  have "fst (getAllVersions R vs' now ref ?t2) =
      Inr (answer_of (createContainer (if epochMs now < epochMs end then vs else vs') ref))" for now
    using redis_server.lookup_cached [OF s t2(2), of now vs']
      redis_server.getAllVersions_uncached [OF s redis_server.expired_uncached [OF s t2(2), of now], of vs']
    by (cases "epochMs now < epochMs end") simp_all
  moreover have "fst (getAllVersions R vs' now ref (invalidate R refs ?t2)) = Inr (answer_of (createContainer vs' ref))"
    if "ref \<in> set refs" for now
    by (rule redis_server.getAllVersions_uncached [OF s redis_server.invalidated_uncached [OF s t2(1) that]])
  moreover have "fst (getAllVersions R vs start ref t) = Inr (answer_of (createContainer vs ref))"
    by (rule redis_server.getAllVersions_uncached [OF s un])
  ultimately show ?thesis by (simp add: split_beta Let_def)
qed

theorem lookup_is_cached_witness:
  "let vs = \<lparr> vs_repository = (\<lambda>s. Inr [Version [1, 0], Version [2, 1]]),
              vs_artifacts = (\<lambda>a b c. Inr []), vs_tags = (\<lambda>r. None) \<rparr>;
       vs' = vs\<lparr> vs_repository := (\<lambda>s. Inl (Error ''unreachable'')) \<rparr>;
       ref = GitRef (mk_source ''g'' ''p''); other = GitRef (mk_source ''g'' ''q'');
       t1 = snd (getAllVersions mem_redis vs (Time 0) ref \<lparr> ex_db = [], ex_ends = (\<lambda>k. None) \<rparr>);
       t2 = fold (use_cache mem_redis) [Lookup vs' (Time 1000000) other, Invalidate [other]] t1
   in fst (getAllVersions mem_redis vs' (Time 899999) ref t2) =
        Inr (Some \<lparr> ce_container = container_of [Version [1, 0], Version [2, 1]], ce_origin = Some (mk_source ''g'' ''p'') \<rparr>) \<and>
      fst (getAllVersions mem_redis vs' (Time 900000) ref t2) = Inr None"
proof -
  define vs where "vs = \<lparr> vs_repository = (\<lambda>s :: source. Inr [Version [1, 0], Version [2, 1]] :: version list res),
              vs_artifacts = (\<lambda>a b c. Inr []), vs_tags = (\<lambda>r. None) \<rparr>"
  define vs' where "vs' = vs\<lparr> vs_repository := (\<lambda>s. Inl (Error ''unreachable'')) \<rparr>"
  let ?ref = "GitRef (mk_source ''g'' ''p'')" and ?other = "GitRef (mk_source ''g'' ''q'')"
  let ?t = "\<lparr> ex_db = [], ex_ends = (\<lambda>k. None) \<rparr> :: mem expiring"
  let ?us = "[Lookup vs' (Time 1000000) ?other, Invalidate [?other]]"
  have empty: "as_hash (mem_view (ex_db ?t) k) = Some Map.empty" for k by (simp add: mem_view_def)
  then have hashes: "\<forall>r. as_hash (mem_view (ex_db ?t) (cacheKey r)) \<noteq> None" by simp
  have ok: "dep_ok ?ref" "dep_ok ?other" by (simp_all add: colon_free_def mk_source_def)
  have origin: "origin_ok (createContainer vs ?ref)"
    by (simp add: vs_def origin_ok_def colon_free_def)
  have e: "Time 900000 = addDuration (Time 0) (case createContainer vs ?ref of Inr c \<Rightarrow> fromMinutes 15 | Inl e \<Rightarrow> fromMinutes 3)"
    by (simp add: vs_def addDuration_def fromMinutes_def)
  have us: "list_all (keeps ?ref (Time 900000)) ?us" using ok(2) by (simp add: mk_source_def)
  from lookup_is_cached [OF memory.redis_server_axioms hashes empty ok(1) origin e us, of vs' "[]"]
  show ?thesis
    unfolding Let_def vs_def [symmetric] vs'_def [symmetric]
    by (simp add: split_beta) (simp add: answer_of_def vs_def vs'_def)
qed

text \<open>
  A selection is stable: when the versions of a dependency all have the same number of
  segments, what a selector picks for a current version is one of them, and picking again
  from it gives it back, so that an applied update proposes no other.
\<close>

theorem selection_is_stable:
  assumes "1 < k" and "list_all (\<lambda>v. length (segments v) = k) vs"
    and "pick sel (container_of vs) current serie = Inr (Some w)"
  shows "w \<in> set vs \<and> pick sel (container_of vs) w serie = Inr (Some w)"
  using assms by (rule selected_again)

theorem selection_is_stable_witness:
  "pick HighestMinorKeepMajor (container_of [Version [1, 0], Version [1, 3], Version [2, 0]]) (Version [1, 3]) None =
   Inr (Some (Version [1, 3]))"
proof -
  let ?vs = "[Version [1, 0], Version [1, 3], Version [2, 0]]"
  have "Max {Version [1, 0], Version [1, 3]} = Version [1, 3]" by (intro Max_eqI) auto
  then have "pick HighestMinorKeepMajor (container_of ?vs) (Version [1, 0]) None = Inr (Some (Version [1, 3]))"
    by (subst pick.simps, subst container_highest_is_max [of 2]) (simp_all add: major_of_def)
  then show ?thesis using selection_is_stable [of 2 ?vs HighestMinorKeepMajor "Version [1, 0]" None] by simp
qed

end
