(* ===== verification/Scan_Items.thy ===== *)
theory Scan_Items
  imports Dependency_Graph Dependency_Lookup Scanner_Text
begin

text \<open>
  What the scanners of the three kinds of configuration share: they visit the items of a
  configuration, ask the provider for the version of an item's dependency and replace the
  version of the items for which another one is picked. The locale \<open>scannable\<close> states what
  visiting one item promises; the facts on whole configurations follow from it.
\<close>

text \<open>The answers of the provider during a scan.\<close>

type_synonym version_provider = "dep_ref \<Rightarrow> version \<Rightarrow> version option res"

text \<open>\<open>getVersion(ref, current)\<close> when it answers another version; a rejection is swallowed.\<close>

definition newer :: "version_provider \<Rightarrow> dep_ref \<Rightarrow> version \<Rightarrow> version option" where
  "newer provider ref current =
     (case provider ref current of
        Inr (Some new) \<Rightarrow> if version_compare new current \<noteq> 0 then Some new else None
      | _ \<Rightarrow> None)"

text \<open>The items after a visit, and how many of them changed.\<close>

definition scan_items :: "('i \<Rightarrow> bool \<times> 'i) \<Rightarrow> 'i list \<Rightarrow> nat \<times> 'i list" where
  "scan_items visit items = (length (filter fst (map visit items)), map (snd \<circ> visit) items)"

text \<open>A provider whose answers are stable, and versions that print and parse.\<close>

definition stable :: "version_provider \<Rightarrow> bool" where
  "stable provider \<longleftrightarrow> (\<forall>r v w. provider r v = Inr (Some w) \<longrightarrow>
     valid_version w \<and> nonnegative w \<and> provider r w = Inr (Some w))"

definition moved :: "version_provider \<Rightarrow> dep_ref \<times> version \<Rightarrow> dep_ref \<times> version \<Rightarrow> bool" where
  "moved provider d d' \<longleftrightarrow> fst d' = fst d \<and> (snd d' = snd d \<or> provider (fst d) (snd d) = Inr (Some (snd d')))"

lemma newer_Some:
  "newer provider ref v = Some w \<longleftrightarrow> provider ref v = Inr (Some w) \<and> w \<noteq> v"
  by (auto simp: newer_def version_compare_0_iff split: sum.splits option.splits)

lemma newer_stable: "stable provider \<Longrightarrow> newer provider ref v = Some w \<Longrightarrow>
  newer provider ref w = None \<and> valid_version w \<and> nonnegative w"
  unfolding newer_Some stable_def by (auto simp: newer_def)

lemma newer_moved: "newer provider ref v = Some w \<Longrightarrow> moved provider (ref, v) (ref, w)"
  by (simp add: moved_def newer_Some)

lemma moved_refl [simp]: "moved provider d d"
  by (simp add: moved_def)

lemma list_all2_moved_refl [simp]: "list_all2 (moved provider) ds ds"
  by (rule list.rel_refl) simp

locale scannable =
  fixes visit :: "version_provider \<Rightarrow> string \<Rightarrow> 'i \<Rightarrow> bool \<times> 'i"
    and deps :: "'i \<Rightarrow> (dep_ref \<times> version) list"
  assumes settles: "stable p \<Longrightarrow> visit p l (snd (visit p l i)) = (False, snd (visit p l i))"
    and unchanged: "\<not> fst (visit p l i) \<Longrightarrow> snd (visit p l i) = i"
    and moves: "stable p \<Longrightarrow> list_all2 (moved p) (deps i) (deps (snd (visit p l i)))"
begin

lemma items_settle:
  assumes "stable p"
  shows "scan_items (visit p l) (snd (scan_items (visit p l) is)) = (0, snd (scan_items (visit p l) is))"
  using settles [OF assms] by (induction "is") (simp_all add: scan_items_def)

lemma items_unchanged: "fst (scan_items (visit p l) is) = 0 \<Longrightarrow> snd (scan_items (visit p l) is) = is"
  using unchanged by (auto simp: scan_items_def filter_empty_conv intro!: map_idI)

lemma items_move:
  assumes "stable p"
  shows "list_all2 (moved p) (concat (map deps is)) (concat (map deps (snd (scan_items (visit p l) is))))"
  using moves [OF assms] by (induction "is") (auto simp: scan_items_def intro: list_all2_appendI)

end

text \<open>The provider of the source on a fixed set of versions per dependency is stable.\<close>

lemma provider_stable:
  assumes "\<And>r e. entries r = Inr (Some e) \<Longrightarrow> \<exists>vs k. ce_container e = container_of vs \<and> 1 < k \<and>
      list_all (\<lambda>v. length (segments v) = k \<and> nonnegative v) vs"
  shows "stable (provider_getVersion entries configs sel)"
  unfolding stable_def
proof (intro allI impI)
  fix r v w assume "provider_getVersion entries configs sel r v = Inr (Some w)"
  then obtain e serie where e: "entries r = Inr (Some e)" "getDependencySerie configs e = Inr serie"
    "pick sel (ce_container e) v serie = Inr (Some w)"
    by (auto simp: provider_getVersion_def res_bind_eq_Inr split: option.splits)
  then obtain vs k where vs: "ce_container e = container_of vs" "1 < k"
    "list_all (\<lambda>v. length (segments v) = k) vs" "list_all nonnegative vs"
    using assms [OF e(1)] by (auto simp: list_all_iff)
  from selected_again [OF vs(2,3)] e(3) have "w \<in> set vs" "pick sel (ce_container e) w serie = Inr (Some w)"
    by (auto simp: vs(1))
  with vs e show "valid_version w \<and> nonnegative w \<and> provider_getVersion entries configs sel r w = Inr (Some w)"
    by (auto simp: provider_getVersion_def list_all_iff valid_version_def)
qed

end
