(* ===== verification/Dependencies_Yaml.thy ===== *)
theory Dependencies_Yaml
  imports Scan_Items
begin

text \<open>
  \<open>scanner/providers/dependencies-yaml-scanner-provider.ts\<close>: the dependencies of a
  \<open>dependencies.yml\<close> and its scan. The calls to the provider of one scan run concurrently and
  each writes its own item of the cloned configuration, so their order does not matter and
  they are taken in the order of the file. A rejected call leaves its item as it is.
\<close>

section \<open>Dependencies\<close>

definition artifact_ref :: "dep_artifacts \<Rightarrow> dep_artifact \<Rightarrow> dep_ref option" where
  "artifact_ref artifactsConfig artifact =
     (let remote = or_else (da_remote artifact) (das_remote artifactsConfig);
          repository = or_else (da_repository artifact) (das_repository artifactsConfig)
      in if remote \<noteq> [] \<and> repository \<noteq> [] then Some (ArtifactRef remote repository (da_path artifact)) else None)"

definition image_ref :: "dep_images \<Rightarrow> dep_image \<Rightarrow> dep_ref option" where
  "image_ref imagesConfig img =
     (let remote = or_else (di_remote img) (dis_remote imagesConfig)
      in if remote \<noteq> [] then Some (ImageRef remote (di_repository img)) else None)"

definition dependency_of :: "dep_ref option \<Rightarrow> string \<Rightarrow> (dep_ref \<times> version) list" where
  "dependency_of ref revision =
     (case (ref, version_parse revision) of
        (Some r, Some v) \<Rightarrow> [(r, v)]
      | _ \<Rightarrow> [])"

definition artifact_dependencies :: "dep_artifacts option \<Rightarrow> (dep_ref \<times> version) list" where
  "artifact_dependencies c =
     (case c of
        Some artifactsConfig \<Rightarrow>
          concat (map (\<lambda>a. dependency_of (artifact_ref artifactsConfig a) (da_revision a)) (das_items artifactsConfig))
      | None \<Rightarrow> [])"

definition image_dependencies :: "dep_images option \<Rightarrow> (dep_ref \<times> version) list" where
  "image_dependencies c =
     (case c of
        Some imagesConfig \<Rightarrow>
          concat (map (\<lambda>i. dependency_of (image_ref imagesConfig i) (di_revision i)) (dis_images imagesConfig))
      | None \<Rightarrow> [])"

definition yaml_dependencies :: "dependencies_config option \<Rightarrow> (dep_ref \<times> version) list" where
  "yaml_dependencies config =
     (case config of
        Some c \<Rightarrow> artifact_dependencies (dc_artifacts c) @ image_dependencies (dc_images c)
      | None \<Rightarrow> [])"

section \<open>The scan\<close>

definition artifact_labels :: "dep_artifact \<Rightarrow> string list" where
  "artifact_labels a = splitAndFilter (or_else (da_labels a) DEFAULT_LABEL_NAME)"

definition image_labels :: "dep_image \<Rightarrow> string list" where
  "image_labels i = splitAndFilter (or_else (di_labels i) DEFAULT_LABEL_NAME)"

definition all_labels :: "dependencies_config \<Rightarrow> string list" where
  "all_labels c =
     (case dc_artifacts c of Some as \<Rightarrow> concat (map artifact_labels (das_items as)) | None \<Rightarrow> []) @
     (case dc_images c of Some is \<Rightarrow> concat (map image_labels (dis_images is)) | None \<Rightarrow> [])"

definition scan_artifact :: "dep_artifacts \<Rightarrow> version_provider \<Rightarrow> string \<Rightarrow> dep_artifact \<Rightarrow> bool \<times> dep_artifact" where
  "scan_artifact artifactsConfig provider relevantLabel a =
     (if relevantLabel \<in> set (artifact_labels a) then
        (case (artifact_ref artifactsConfig a, version_parse (da_revision a)) of
           (Some ref, Some currentVersion) \<Rightarrow>
             (case newer provider ref currentVersion of
                Some newVersion \<Rightarrow> (True, a\<lparr> da_revision := version_string newVersion \<rparr>)
              | None \<Rightarrow> (False, a))
         | _ \<Rightarrow> (False, a))
      else (False, a))"

definition scan_image :: "dep_images \<Rightarrow> version_provider \<Rightarrow> string \<Rightarrow> dep_image \<Rightarrow> bool \<times> dep_image" where
  "scan_image imagesConfig provider relevantLabel i =
     (if relevantLabel \<in> set (image_labels i) then
        (case (image_ref imagesConfig i, version_parse (di_revision i)) of
           (Some ref, Some currentVersion) \<Rightarrow>
             (case newer provider ref currentVersion of
                Some newVersion \<Rightarrow> (True, i\<lparr> di_revision := version_string newVersion \<rparr>)
              | None \<Rightarrow> (False, i))
         | _ \<Rightarrow> (False, i))
      else (False, i))"

text \<open>The references that are pushed for a label.\<close>

definition scanned_refs :: "dependencies_config \<Rightarrow> string \<Rightarrow> dep_ref list" where
  "scanned_refs c l =
     (case dc_artifacts c of
        Some as \<Rightarrow> List.map_filter (\<lambda>a. if l \<in> set (artifact_labels a) then artifact_ref as a else None) (das_items as)
      | None \<Rightarrow> []) @
     (case dc_images c of
        Some is \<Rightarrow> List.map_filter (\<lambda>i. if l \<in> set (image_labels i) then image_ref is i else None) (dis_images is)
      | None \<Rightarrow> [])"

definition scan_artifacts :: "version_provider \<Rightarrow> string \<Rightarrow> dep_artifacts option \<Rightarrow> nat \<times> dep_artifacts option" where
  "scan_artifacts provider l c =
     (case c of
        Some as \<Rightarrow>
          (let r = scan_items (scan_artifact as provider l) (das_items as)
           in (fst r, Some (as\<lparr> das_items := snd r \<rparr>)))
      | None \<Rightarrow> (0, None))"

definition scan_images :: "version_provider \<Rightarrow> string \<Rightarrow> dep_images option \<Rightarrow> nat \<times> dep_images option" where
  "scan_images provider l c =
     (case c of
        Some is \<Rightarrow>
          (let r = scan_items (scan_image is provider l) (dis_images is)
           in (fst r, Some (is\<lparr> dis_images := snd r \<rparr>)))
      | None \<Rightarrow> (0, None))"

text \<open>The number of changes and the cloned configuration for one label.\<close>

definition scan_dependencies_label :: "version_provider \<Rightarrow> string \<Rightarrow> dependencies_config \<Rightarrow> nat \<times> dependencies_config" where
  "scan_dependencies_label provider l c =
     (let (n, as) = scan_artifacts provider l (dc_artifacts c);
          (m, is) = scan_images provider l (dc_images c)
      in (n + m, c\<lparr> dc_artifacts := as, dc_images := is \<rparr>))"

definition yaml_scan ::
    "(dependencies_config \<Rightarrow> string) \<Rightarrow> version_provider \<Rightarrow> criteria \<Rightarrow> dependencies_config option \<Rightarrow> scan_result res" where
  "yaml_scan serialize provider labelCriteria config =
     (case config of
        Some c \<Rightarrow>
          (let relevantLabels = criteria_include labelCriteria (all_labels c);
               updates = concat (map (\<lambda>l.
                 (let (changeCount, clonedConfig) = scan_dependencies_label provider l c in
                  if changeCount \<noteq> 0 then [\<lparr> du_label = l, du_path = DEPENDENCIES_FILE_PATH,
                    du_content = serialize clonedConfig \<rparr>] else [])) relevantLabels)
           in res_bind (uniqueRefs (concat (map (scanned_refs c) relevantLabels)))
                (\<lambda>refs. Inr \<lparr> sr_all = refs, sr_updates = updates \<rparr>))
      | None \<Rightarrow> Inr \<lparr> sr_all = [], sr_updates = [] \<rparr>)"

section \<open>Items keep the contract\<close>

lemma revision_update [simp]:
  "artifact_ref as (a\<lparr> da_revision := s \<rparr>) = artifact_ref as a"
  "artifact_labels (a\<lparr> da_revision := s \<rparr>) = artifact_labels a"
  "image_ref is (i\<lparr> di_revision := s \<rparr>) = image_ref is i"
  "image_labels (i\<lparr> di_revision := s \<rparr>) = image_labels i"
  by (auto simp: artifact_ref_def artifact_labels_def image_ref_def image_labels_def Let_def)

lemma dependency_of_moved:
  assumes "newer p r v = Some w" and "stable p" and "version_parse s = Some v"
  shows "list_all2 (moved p) (dependency_of (Some r) s) (dependency_of (Some r) (version_string w))"
  using assms newer_stable [OF assms(2,1)] by (simp add: dependency_of_def newer_moved)

interpretation artifacts: scannable "scan_artifact as" "\<lambda>a. dependency_of (artifact_ref as a) (da_revision a)"
proof
  fix p l i assume st: "stable p"
  show "scan_artifact as p l (snd (scan_artifact as p l i)) = (False, snd (scan_artifact as p l i))"
    using newer_stable [OF st]
    by (auto simp: scan_artifact_def split: option.splits)
  show "list_all2 (moved p) (dependency_of (artifact_ref as i) (da_revision i))
      (dependency_of (artifact_ref as (snd (scan_artifact as p l i))) (da_revision (snd (scan_artifact as p l i))))"
    using dependency_of_moved [OF _ st]
    by (auto simp: scan_artifact_def split: option.splits)
qed (auto simp: scan_artifact_def split: if_splits option.splits)

interpretation images: scannable "scan_image is" "\<lambda>i. dependency_of (image_ref is i) (di_revision i)"
proof
  fix p l i assume st: "stable p"
  show "scan_image is p l (snd (scan_image is p l i)) = (False, snd (scan_image is p l i))"
    using newer_stable [OF st]
    by (auto simp: scan_image_def split: option.splits)
  show "list_all2 (moved p) (dependency_of (image_ref is i) (di_revision i))
      (dependency_of (image_ref is (snd (scan_image is p l i))) (di_revision (snd (scan_image is p l i))))"
    using dependency_of_moved [OF _ st]
    by (auto simp: scan_image_def split: option.splits)
qed (auto simp: scan_image_def split: if_splits option.splits)

text \<open>The items of an updated section are visited as before: only they change.\<close>

lemma artifact_section:
  "scan_artifact (as\<lparr> das_items := xs \<rparr>) = scan_artifact as"
  "artifact_ref (as\<lparr> das_items := xs \<rparr>) = artifact_ref as"
  by (simp_all add: fun_eq_iff scan_artifact_def artifact_ref_def)

lemma image_section:
  "scan_image (is\<lparr> dis_images := xs \<rparr>) = scan_image is"
  "image_ref (is\<lparr> dis_images := xs \<rparr>) = image_ref is"
  by (simp_all add: fun_eq_iff scan_image_def image_ref_def)

lemma artifacts_settle:
  assumes "stable p" and "scan_artifacts p l c = (n, c')"
  shows "scan_artifacts p l c' = (0, c')" and "n = 0 \<Longrightarrow> c' = c"
    and "list_all2 (moved p) (artifact_dependencies c) (artifact_dependencies c')"
  using assms artifacts.items_settle [OF assms(1)] artifacts.items_unchanged artifacts.items_move [OF assms(1)]
  by (auto simp: scan_artifacts_def Let_def artifact_section artifact_dependencies_def split: option.splits)

lemma images_settle:
  assumes "stable p" and "scan_images p l c = (n, c')"
  shows "scan_images p l c' = (0, c')" and "n = 0 \<Longrightarrow> c' = c"
    and "list_all2 (moved p) (image_dependencies c) (image_dependencies c')"
  using assms images.items_settle [OF assms(1)] images.items_unchanged images.items_move [OF assms(1)]
  by (auto simp: scan_images_def Let_def image_section image_dependencies_def split: option.splits)

section \<open>Properties\<close>

text \<open>C29
  Applying the update of a label settles it: with a provider whose answers are stable, the
  scan of the updated \<open>dependencies.yml\<close> proposes nothing for the label; the update keeps the
  list of dependencies and only moves versions to what the provider answers for them; and no
  change is counted exactly when the configuration is the same.
\<close>

theorem dependencies_update_settles:
  assumes "stable p" and "scan_dependencies_label p l c = (n, c')"
  shows "scan_dependencies_label p l c' = (0, c') \<and> (n = 0 \<longrightarrow> c' = c) \<and>
    list_all2 (moved p) (yaml_dependencies (Some c)) (yaml_dependencies (Some c'))"
proof -
  obtain x as y "is" where a: "scan_artifacts p l (dc_artifacts c) = (x, as)"
    and i: "scan_images p l (dc_images c) = (y, is)"
    and c': "c' = c\<lparr> dc_artifacts := as, dc_images := is \<rparr>" "n = x + y"
    using assms(2) by (auto simp: scan_dependencies_label_def split: prod.splits)
  note A = artifacts_settle [OF assms(1) a] and I = images_settle [OF assms(1) i]
  have "list_all2 (moved p) (yaml_dependencies (Some c)) (yaml_dependencies (Some c'))"
    using A(3) I(3) by (simp add: yaml_dependencies_def c' list_all2_appendI)
  then show ?thesis using A I by (simp add: scan_dependencies_label_def c')
qed

theorem dependencies_update_settles_witness:
  "\<exists>c n c'. scan_dependencies_label (\<lambda>r v. Inr (Some (Version [1, 2]))) ''default'' c = (n, c') \<and>
    yaml_dependencies (Some c') = [(ImageRef ''r'' ''a'', Version [1, 2])] \<and> n = 1 \<and>
    scan_dependencies_label (\<lambda>r v. Inr (Some (Version [1, 2]))) ''default'' c' = (0, c')"
proof -
  let ?p = "\<lambda>r v. Inr (Some (Version [1, 2])) :: version option res"
  let ?i = "\<lparr> di_repository = ''a'', di_revision = version_string (Version [1, 0]), di_remote = None, di_labels = None \<rparr>"
  let ?c = "\<lparr> dc_version = 1, dc_artifacts = None, dc_images = Some \<lparr> dis_remote = ''r'', dis_images = [?i] \<rparr> \<rparr>"
  have v: "valid_version (Version [1, 0])" "valid_version (Version [1, 2])" by (simp_all add: valid_version_def)
  have st: "stable ?p" by (simp add: stable_def v nonnegative_def)
  have labels: "''default'' \<in> set (image_labels ?i)"
    by (simp add: image_labels_def DEFAULT_LABEL_NAME_def splitAndFilter_def is_space_def trim_def)
  have new: "newer ?p r (Version [1, 0]) = Some (Version [1, 2])" for r by (simp add: newer_Some)
  define c' where "c' = ?c\<lparr> dc_images := Some \<lparr> dis_remote = ''r'',
      dis_images = [?i\<lparr> di_revision := version_string (Version [1, 2]) \<rparr>] \<rparr> \<rparr>"
  have scan: "scan_dependencies_label ?p ''default'' ?c = (1, c')"
    using labels v new
    by (simp add: scan_dependencies_label_def scan_artifacts_def scan_images_def scan_items_def scan_image_def
        image_ref_def c'_def)
  moreover have "yaml_dependencies (Some c') = [(ImageRef ''r'' ''a'', Version [1, 2])]"
    using v by (simp add: c'_def yaml_dependencies_def artifact_dependencies_def image_dependencies_def
        dependency_of_def image_ref_def)
  ultimately show ?thesis using dependencies_update_settles [OF st scan] by blast
qed

end
