(* ===== verification/Build_Yaml.thy ===== *)
theory Build_Yaml
  imports Scan_Items
begin

text \<open>
  \<open>scanner/providers/build-yaml-scanner-provider.ts\<close>: the images of a \<open>build.yml\<close> and of the
  docker files it names, and their scan. The content of a file of the repository is the
  parameter \<open>getFile\<close>, the printed configuration the parameter \<open>serialize\<close>. As in
  \<open>Dependencies_Yaml\<close> concurrent calls each write their own item and are taken in order; of
  several rejected calls the first in that order is the rejection of the whole.
\<close>

section \<open>Dependencies\<close>

definition image_dep :: "image_version \<Rightarrow> dep_ref" where
  "image_dep iv = ImageRef (iv_registry iv) (iv_repository iv)"

definition image_dependency :: "string \<Rightarrow> (dep_ref \<times> version) list" where
  "image_dependency raw =
     (case image_parse raw of
        Some iv \<Rightarrow> [(image_dep iv, iv_version iv)]
      | None \<Rightarrow> [])"

definition docker_dependency :: "string option \<Rightarrow> (dep_ref \<times> version) list" where
  "docker_dependency content =
     (case content of
        Some c \<Rightarrow> (case findFrom c of Some rawImage \<Rightarrow> image_dependency rawImage | None \<Rightarrow> [])
      | None \<Rightarrow> [])"

fun step_dependencies :: "(string \<Rightarrow> string option res) \<Rightarrow> build_step \<Rightarrow> (dep_ref \<times> version) list res" where
  "step_dependencies getFile (Compose s) = Inr (concat (map (\<lambda>n. image_dependency (cn_image (snd n))) (cs_nodes s)))"
| "step_dependencies getFile (DockerBuild s) =
     res_bind (getFile (ds_file s)) (\<lambda>content. Inr (docker_dependency content))"
| "step_dependencies getFile (Native cmd) = Inr []"
| "step_dependencies getFile (Jenkins s) = Inr []"

definition build_dependencies ::
    "(string \<Rightarrow> string option res) \<Rightarrow> build_config option \<Rightarrow> (dep_ref \<times> version) list res" where
  "build_dependencies getFile config =
     (case config of
        Some c \<Rightarrow>
          res_bind (res_mapM (step_dependencies getFile) (bc_steps c)) (\<lambda>dependencies.
            Inr (image_dependency (bc_toolImage c) @ concat dependencies))
      | None \<Rightarrow> Inr [])"

section \<open>The scan\<close>

definition node_labels :: "compose_node \<Rightarrow> string list" where
  "node_labels n = splitAndFilter (or_else (cn_labels n) DEFAULT_TOOL_LABEL)"

fun step_labels :: "build_step \<Rightarrow> string list" where
  "step_labels (Compose s) =
     concat (map (\<lambda>n. if image_parse (cn_image (snd n)) \<noteq> None then node_labels (snd n) else []) (cs_nodes s))"
| "step_labels (DockerBuild s) = splitAndFilter (or_else (ds_labels s) DEFAULT_TOOL_LABEL)"
| "step_labels (Native cmd) = []"
| "step_labels (Jenkins s) = []"

definition build_labels :: "build_config \<Rightarrow> string list" where
  "build_labels c = concat (map step_labels (bc_steps c)) @ [DEFAULT_TOOL_LABEL]"

text \<open>An image text and the text with the newer version.\<close>

definition newer_image :: "version_provider \<Rightarrow> string \<Rightarrow> string option" where
  "newer_image provider raw =
     (case image_parse raw of
        Some iv \<Rightarrow> map_option (\<lambda>w. image_string (withVersion iv w)) (newer provider (image_dep iv) (iv_version iv))
      | None \<Rightarrow> None)"

definition scan_node :: "version_provider \<Rightarrow> string \<Rightarrow> string \<times> compose_node \<Rightarrow> bool \<times> (string \<times> compose_node)" where
  "scan_node provider relevantLabel entry =
     (if relevantLabel \<in> set (node_labels (snd entry)) then
        (case newer_image provider (cn_image (snd entry)) of
           Some new \<Rightarrow> (True, (fst entry, (snd entry)\<lparr> cn_image := new \<rparr>))
         | None \<Rightarrow> (False, entry))
      else (False, entry))"

fun scan_step :: "version_provider \<Rightarrow> string \<Rightarrow> build_step \<Rightarrow> nat \<times> build_step" where
  "scan_step provider relevantLabel (Compose s) =
     (let r = scan_items (scan_node provider relevantLabel) (cs_nodes s)
      in (fst r, Compose (s\<lparr> cs_nodes := snd r \<rparr>)))"
| "scan_step provider relevantLabel (DockerBuild s) = (0, DockerBuild s)"
| "scan_step provider relevantLabel (Native cmd) = (0, Native cmd)"
| "scan_step provider relevantLabel (Jenkins s) = (0, Jenkins s)"

definition scan_tool :: "version_provider \<Rightarrow> string \<Rightarrow> string \<Rightarrow> nat \<times> string" where
  "scan_tool provider relevantLabel toolImage =
     (if relevantLabel = DEFAULT_TOOL_LABEL then
        (case newer_image provider toolImage of
           Some new \<Rightarrow> (1, new)
         | None \<Rightarrow> (0, toolImage))
      else (0, toolImage))"

text \<open>The cloned configuration of a label.\<close>

definition scan_build_config :: "version_provider \<Rightarrow> string \<Rightarrow> build_config \<Rightarrow> nat \<times> build_config" where
  "scan_build_config provider l c =
     (let steps = map (scan_step provider l) (bc_steps c);
          tool = scan_tool provider l (bc_toolImage c)
      in (sum_list (map fst steps) + fst tool,
          c\<lparr> bc_steps := map snd steps, bc_toolImage := snd tool \<rparr>))"

text \<open>The update of a docker file; a rejected call to the provider rejects the scan.\<close>

definition scan_docker ::
    "version_provider \<Rightarrow> (string \<Rightarrow> string option res) \<Rightarrow> string \<Rightarrow> docker_step \<Rightarrow> dependency_update list res" where
  "scan_docker provider getFile relevantLabel step =
     res_bind (getFile (ds_file step)) (\<lambda>content.
       case content of
         None \<Rightarrow> Inr []
       | Some c \<Rightarrow>
           (case findFrom c of
              None \<Rightarrow> Inr []
            | Some rawImage \<Rightarrow>
                (case image_parse rawImage of
                   None \<Rightarrow> Inr []
                 | Some iv \<Rightarrow>
                     res_bind (provider (image_dep iv) (iv_version iv)) (\<lambda>newVersion.
                       case newVersion of
                         None \<Rightarrow> Inr []
                       | Some w \<Rightarrow>
                           if version_compare w (iv_version iv) \<noteq> 0
                           then Inr [\<lparr> du_label = relevantLabel, du_path = ds_file step,
                             du_content = replace_first rawImage (image_string (withVersion iv w)) c \<rparr>]
                           else Inr []))))"

definition docker_steps :: "build_config \<Rightarrow> docker_step list" where
  "docker_steps c = List.map_filter (\<lambda>s. case s of DockerBuild d \<Rightarrow> Some d | _ \<Rightarrow> None) (bc_steps c)"

definition scan_build_label ::
    "(build_config \<Rightarrow> string) \<Rightarrow> version_provider \<Rightarrow> (string \<Rightarrow> string option res) \<Rightarrow> string \<Rightarrow> build_config \<Rightarrow>
     dependency_update list res" where
  "scan_build_label serialize provider getFile l c =
     (let (configFileChanges, clonedConfig) = scan_build_config provider l c in
      res_bind (res_mapM (scan_docker provider getFile l) (docker_steps c)) (\<lambda>dockerFileDependencies.
        Inr ((if configFileChanges \<noteq> 0 then [\<lparr> du_label = l, du_path = BUILD_FILE_PATH,
                du_content = serialize clonedConfig \<rparr>] else []) @ concat dockerFileDependencies)))"

definition image_refs :: "string \<Rightarrow> dep_ref list" where
  "image_refs raw = (case image_parse raw of Some iv \<Rightarrow> [image_dep iv] | None \<Rightarrow> [])"

text \<open>
  The references that are pushed for a label: those of the nodes and of the tool image at
  once, those of the docker files when their contents arrive.
\<close>

definition build_refs :: "(string \<Rightarrow> string option res) \<Rightarrow> string \<Rightarrow> build_config \<Rightarrow> dep_ref list" where
  "build_refs getFile l c =
     concat (map (\<lambda>s. case s of
        Compose cs \<Rightarrow> concat (map (\<lambda>n. if l \<in> set (node_labels (snd n)) then image_refs (cn_image (snd n)) else []) (cs_nodes cs))
      | _ \<Rightarrow> []) (bc_steps c)) @
     (if l = DEFAULT_TOOL_LABEL then image_refs (bc_toolImage c) @ image_refs (bc_toolImage c) else []) @
     concat (map (\<lambda>d. case getFile (ds_file d) of
        Inr (Some content) \<Rightarrow> (case findFrom content of Some raw \<Rightarrow> image_refs raw | None \<Rightarrow> [])
      | _ \<Rightarrow> []) (docker_steps c))"

definition build_scan ::
    "(build_config \<Rightarrow> string) \<Rightarrow> version_provider \<Rightarrow> (string \<Rightarrow> string option res) \<Rightarrow> criteria \<Rightarrow>
     build_config option \<Rightarrow> scan_result res" where
  "build_scan serialize provider getFile labelCriteria config =
     (case config of
        Some c \<Rightarrow>
          (let relevantLabels = criteria_include labelCriteria (build_labels c) in
           res_bind (res_mapM (\<lambda>l. scan_build_label serialize provider getFile l c) relevantLabels) (\<lambda>allUpdates.
           res_bind (uniqueRefs (concat (map (\<lambda>l. build_refs getFile l c) relevantLabels))) (\<lambda>refs.
             Inr \<lparr> sr_all = refs, sr_updates = concat allUpdates \<rparr>)))
      | None \<Rightarrow> Inr \<lparr> sr_all = [], sr_updates = [] \<rparr>)"

section \<open>Images keep the contract\<close>

lemma newer_image_Some:
  assumes "newer_image p raw = Some new" and "stable p"
  obtains iv w where "image_parse raw = Some iv" "newer p (image_dep iv) (iv_version iv) = Some w"
    "new = image_string (withVersion iv w)" "image_parse new = Some (withVersion iv w)"
    "newer_image p new = None"
proof -
  obtain iv w where iv: "image_parse raw = Some iv" "newer p (image_dep iv) (iv_version iv) = Some w"
    "new = image_string (withVersion iv w)"
    using assms(1) by (auto simp: newer_image_def split: option.splits)
  note w = newer_stable [OF assms(2) iv(2)]
  then have "image_parse new = Some (withVersion iv w)"
    unfolding iv(3) by (intro image_parse_with [OF iv(1)]) simp
  moreover from this w have "newer_image p new = None" by (simp add: newer_image_def image_dep_def)
  ultimately show ?thesis using that iv by blast
qed

lemma image_dependency_moved:
  assumes "newer_image p raw = Some new" and "stable p"
  shows "list_all2 (moved p) (image_dependency raw) (image_dependency new)"
proof -
  obtain iv w where iv: "image_parse raw = Some iv" "newer p (image_dep iv) (iv_version iv) = Some w"
    "image_parse new = Some (withVersion iv w)"
    using newer_image_Some [OF assms] by metis
  have "image_dep (withVersion iv w) = image_dep iv" by (simp add: image_dep_def)
  with iv newer_moved [OF iv(2)] show ?thesis by (simp add: image_dependency_def)
qed

lemma newer_image_again:
  assumes "newer_image p raw = Some new" and "stable p"
  shows "newer_image p new = None"
  using newer_image_Some [OF assms] by metis

lemma node_labels_image [simp]: "node_labels (n\<lparr> cn_image := s \<rparr>) = node_labels n"
  by (simp add: node_labels_def)

interpretation nodes: scannable scan_node "\<lambda>n. image_dependency (cn_image (snd n))"
proof
  fix p l i assume st: "stable p"
  show "scan_node p l (snd (scan_node p l i)) = (False, snd (scan_node p l i))"
    using newer_image_again [OF _ st] by (auto simp: scan_node_def split: option.splits)
  show "list_all2 (moved p) (image_dependency (cn_image (snd i))) (image_dependency (cn_image (snd (snd (scan_node p l i)))))"
    using image_dependency_moved [OF _ st] by (auto simp: scan_node_def split: option.splits)
qed (auto simp: scan_node_def split: if_splits option.splits)

lemma tool_settles:
  assumes "stable p" and "scan_tool p l t = (n, t')"
  shows "scan_tool p l t' = (0, t')" and "n = 0 \<Longrightarrow> t' = t"
    and "list_all2 (moved p) (image_dependency t) (image_dependency t')"
  using assms(2) newer_image_again [OF _ assms(1)] image_dependency_moved [OF _ assms(1)]
  by (auto simp: scan_tool_def split: if_splits option.splits)

lemma step_settles:
  assumes "stable p" and "scan_step p l s = (n, s')"
  shows "scan_step p l s' = (0, s')" and "n = 0 \<Longrightarrow> s' = s"
  using assms(2) nodes.items_settle [OF assms(1)] nodes.items_unchanged
  by (cases s; force simp: Let_def)+

lemma step_moves:
  assumes "stable p" and "scan_step p l s = (n, s')" and "step_dependencies getFile s = Inr ds"
  shows "\<exists>ds'. step_dependencies getFile s' = Inr ds' \<and> list_all2 (moved p) ds ds'"
  using assms(2,3) nodes.items_move [OF assms(1), where l = l]
  by (cases s) (auto simp: Let_def)

lemma steps_move:
  assumes "stable p" and "res_mapM (step_dependencies getFile) ss = Inr dss"
  shows "\<exists>dss'. res_mapM (step_dependencies getFile) (map (\<lambda>s. snd (scan_step p l s)) ss) = Inr dss' \<and>
    list_all2 (moved p) (concat dss) (concat dss')"
  using assms(2)
proof (induction ss arbitrary: dss)
  case (Cons s ss)
  then obtain ds dss1 where ds: "step_dependencies getFile s = Inr ds"
    "res_mapM (step_dependencies getFile) ss = Inr dss1" "dss = ds # dss1"
    by (auto simp: res_bind_eq_Inr)
  from step_moves [OF assms(1) _ ds(1), of l "fst (scan_step p l s)" "snd (scan_step p l s)"] Cons.IH [OF ds(2)] ds(3)
  show ?case by (auto intro: list_all2_appendI)
qed simp

lemma docker_steps_scanned: "docker_steps (snd (scan_build_config p l c)) = docker_steps c"
proof -
  have "List.map_filter (\<lambda>s. case s of DockerBuild d \<Rightarrow> Some d | _ \<Rightarrow> None) (map (\<lambda>s. snd (scan_step p l s)) ss) =
      List.map_filter (\<lambda>s. case s of DockerBuild d \<Rightarrow> Some d | _ \<Rightarrow> None) ss" for ss
  proof (induction ss)
    case (Cons s ss)
    then show ?case by (cases s) (simp_all add: Let_def map_filter_simps)
  qed simp
  then show ?thesis by (simp add: docker_steps_def scan_build_config_def Let_def comp_def)
qed

lemma config_settles:
  assumes "stable p" and "scan_build_config p l c = (n, c')"
  shows "scan_build_config p l c' = (0, c')" and "n = 0 \<Longrightarrow> c' = c"
proof -
  let ?f = "scan_step p l"
  have c': "c' = c\<lparr> bc_steps := map (\<lambda>s. snd (?f s)) (bc_steps c), bc_toolImage := snd (scan_tool p l (bc_toolImage c)) \<rparr>"
    and n: "n = sum_list (map (\<lambda>s. fst (?f s)) (bc_steps c)) + fst (scan_tool p l (bc_toolImage c))"
    using assms(2) by (auto simp: scan_build_config_def Let_def comp_def)
  have step: "?f (snd (?f s)) = (0, snd (?f s))" "fst (?f s) = 0 \<Longrightarrow> snd (?f s) = s" for s
    using step_settles [OF assms(1), of l s] by (cases "?f s"; simp)+
  have tool: "scan_tool p l (snd (scan_tool p l t)) = (0, snd (scan_tool p l t))"
    "fst (scan_tool p l t) = 0 \<Longrightarrow> snd (scan_tool p l t) = t" for t
    using tool_settles [OF assms(1), of l t] by (cases "scan_tool p l t"; simp)+
  show "scan_build_config p l c' = (0, c')"
    by (simp add: scan_build_config_def c' comp_def step tool)
  assume "n = 0"
  then have "map (\<lambda>s. snd (?f s)) (bc_steps c) = bc_steps c"
    using step(2) by (intro map_idI) (auto simp: n)
  with \<open>n = 0\<close> tool(2) show "c' = c" by (simp add: c' n)
qed

section \<open>Docker files keep the contract\<close>

text \<open>The repository after the updates are written.\<close>

definition apply_updates ::
    "(string \<Rightarrow> string option res) \<Rightarrow> dependency_update list \<Rightarrow> string \<Rightarrow> string option res" where
  "apply_updates getFile ups f =
     (case List.find (\<lambda>u. du_path u = f) ups of
        Some u \<Rightarrow> Inr (Some (du_content u))
      | None \<Rightarrow> getFile f)"

lemma scan_docker_cases:
  assumes "scan_docker p g l d = Inr us"
  shows "us = [] \<or> (\<exists>c raw iv w. g (ds_file d) = Inr (Some c) \<and> findFrom c = Some raw \<and>
    image_parse raw = Some iv \<and> p (image_dep iv) (iv_version iv) = Inr (Some w) \<and>
    us = [\<lparr> du_label = l, du_path = ds_file d, du_content = replace_first raw (image_string (withVersion iv w)) c \<rparr>])"
proof (cases "\<exists>c raw iv. g (ds_file d) = Inr (Some c) \<and> findFrom c = Some raw \<and> image_parse raw = Some iv")
  case True
  then obtain c raw iv where c: "g (ds_file d) = Inr (Some c)" "findFrom c = Some raw" "image_parse raw = Some iv"
    by blast
  show ?thesis
  proof (cases "p (image_dep iv) (iv_version iv)")
    case (Inr x)
    with assms c show ?thesis by (cases x) (auto simp: scan_docker_def split: if_splits)
  qed (use assms c in \<open>simp add: scan_docker_def\<close>)
next
  case False
  with assms show ?thesis
    by (cases "g (ds_file d)") (auto simp: scan_docker_def split: option.splits)
qed

lemma scan_docker_update:
  assumes "scan_docker p g l d = Inr us" and "u \<in> set us"
  obtains c raw iv w where "g (ds_file d) = Inr (Some c)" "findFrom c = Some raw" "image_parse raw = Some iv"
    "p (image_dep iv) (iv_version iv) = Inr (Some w)"
    "u = \<lparr> du_label = l, du_path = ds_file d, du_content = replace_first raw (image_string (withVersion iv w)) c \<rparr>"
  using scan_docker_cases [OF assms(1)] assms(2) by auto

lemma scan_docker_path:
  "scan_docker p g l d = Inr us \<Longrightarrow> u \<in> set us \<Longrightarrow> du_label u = l \<and> du_path u = ds_file d"
  by (drule scan_docker_cases) auto

lemma scan_docker_same_file: "ds_file d = ds_file d' \<Longrightarrow> scan_docker p g l d = scan_docker p g l d'"
  unfolding scan_docker_def by (simp only:)

lemma scan_docker_settled:
  assumes "stable p" and "scan_docker p g l d = Inr us" and "u \<in> set us"
    and "g' (ds_file d) = Inr (Some (du_content u))"
  shows "scan_docker p g' l d = Inr []"
proof -
  obtain c raw iv w where u: "findFrom c = Some raw" "image_parse raw = Some iv"
    "p (image_dep iv) (iv_version iv) = Inr (Some w)"
    "u = \<lparr> du_label = l, du_path = ds_file d, du_content = replace_first raw (image_string (withVersion iv w)) c \<rparr>"
    using scan_docker_update [OF assms(2,3)] by metis
  have w: "valid_version w" "p (image_dep iv) w = Inr (Some w)" using assms(1) u(3) by (auto simp: stable_def)
  let ?new = "image_string (withVersion iv w)"
  have "findFrom (du_content u) = Some ?new" "image_parse ?new = Some (withVersion iv w)"
    using findFrom_replace [OF u(1,2) w(1)] image_parse_with [OF u(2) w(1)] by (simp_all add: u(4))
  moreover have "image_dep (withVersion iv w) = image_dep iv" by (simp add: image_dep_def)
  ultimately show ?thesis by (simp add: scan_docker_def assms(4) w(2))
qed

lemma docker_files_settle:
  assumes st: "stable p" and uss: "res_mapM (scan_docker p g l) ds = Inr uss" and d: "d \<in> set ds"
    and find: "List.find (\<lambda>u. du_path u = ds_file d) ups = List.find (\<lambda>u. du_path u = ds_file d) (concat uss)"
  shows "scan_docker p (apply_updates g ups) l d = Inr []"
proof -
  obtain us where us: "scan_docker p g l d = Inr us" "us \<in> set uss" using res_mapM_all [OF uss d] by blast
  show ?thesis
  proof (cases "List.find (\<lambda>u. du_path u = ds_file d) (concat uss)")
    case None
    then have "\<forall>u \<in> set us. du_path u \<noteq> ds_file d" using us(2) by (auto simp: find_None_iff)
    moreover have "\<forall>u \<in> set us. du_path u = ds_file d" using scan_docker_path [OF us(1)] by blast
    ultimately have "us = []" by (cases us) auto
    moreover have "apply_updates g ups (ds_file d) = g (ds_file d)" by (simp add: apply_updates_def find None)
    ultimately show ?thesis using us(1) by (simp add: scan_docker_def)
  next
    case (Some u)
    then obtain us' where u: "u \<in> set us'" "us' \<in> set uss" "du_path u = ds_file d"
      by (auto simp: find_Some_iff in_set_conv_nth [symmetric] dest!: nth_mem)
    obtain d' where d': "scan_docker p g l d' = Inr us'" using res_mapM_back [OF uss u(2)] by blast
    have "ds_file d' = ds_file d" using scan_docker_path [OF d' u(1)] u(3) by simp
    with d' have "scan_docker p g l d = Inr us'" using scan_docker_same_file by metis
    moreover have "apply_updates g ups (ds_file d) = Inr (Some (du_content u))" by (simp add: apply_updates_def find Some)
    ultimately show ?thesis using scan_docker_settled [OF st _ u(1)] by blast
  qed
qed

text \<open>A docker file is updated under every relevant label, whatever the labels of its step are.\<close>

lemma docker_update_for_every_label:
  assumes "build_scan ser p g crit (Some c) = Inr r" and "d \<in> set (docker_steps c)"
    and "scan_docker p g l d = Inr [u]" and "l \<in> set (criteria_include crit (build_labels c))"
  shows "u \<in> set (sr_updates r) \<and> du_label u = l \<and> du_path u = ds_file d"
proof -
  have u: "du_label u = l" "du_path u = ds_file d"
    using scan_docker_path [OF assms(3), of u] by simp_all
  obtain allUpdates where all: "res_mapM (\<lambda>l. scan_build_label ser p g l c) (criteria_include crit (build_labels c)) = Inr allUpdates"
    "sr_updates r = concat allUpdates"
    using assms(1) by (auto simp: build_scan_def Let_def res_bind_eq_Inr)
  obtain ups where ups: "ups \<in> set allUpdates" "scan_build_label ser p g l c = Inr ups"
    using res_mapM_all [OF all(1) assms(4)] by blast
  obtain uss where uss: "res_mapM (scan_docker p g l) (docker_steps c) = Inr uss" "set (concat uss) \<subseteq> set ups"
    using ups(2) by (auto simp: scan_build_label_def res_bind_eq_Inr split: prod.splits)
  have "[u] \<in> set uss" using res_mapM_all [OF uss(1) assms(2)] assms(3) by auto
  then have "u \<in> set (concat uss)" by (simp add: bexI [of _ "[u]"])
  with u uss(2) ups(1) all(2) show ?thesis by auto
qed

section \<open>Properties\<close>

text \<open>C28
  Applying the updates of a label settles it: with a provider whose answers are stable, when
  the updates that the scan of a \<open>build.yml\<close> proposes for a label are written, to the
  configuration and to the docker files, the next scan proposes nothing for the label; and
  every update is for the label, and for the configuration or the file of a docker step.
\<close>

theorem build_update_settles:
  assumes "stable p" and "scan_build_label ser p g l c = Inr ups"
    and "list_all (\<lambda>d. ds_file d \<noteq> BUILD_FILE_PATH) (docker_steps c)"
  shows "scan_build_label ser p (apply_updates g ups) l (snd (scan_build_config p l c)) = Inr [] \<and>
    list_all (\<lambda>u. du_label u = l \<and> (du_path u = BUILD_FILE_PATH \<and> du_content u = ser (snd (scan_build_config p l c)) \<or>
      du_path u \<in> ds_file ` set (docker_steps c))) ups"
proof -
  obtain n c' where c': "scan_build_config p l c = (n, c')" by (cases "scan_build_config p l c")
  define own where "own = (if n \<noteq> 0 then [\<lparr> du_label = l, du_path = BUILD_FILE_PATH, du_content = ser c' \<rparr>] else [])"
  obtain uss where uss: "res_mapM (scan_docker p g l) (docker_steps c) = Inr uss" and ups: "ups = own @ concat uss"
    using assms(2) c' by (auto simp: scan_build_label_def res_bind_eq_Inr own_def)
  have own: "List.find (\<lambda>u. du_path u = ds_file d) ups = List.find (\<lambda>u. du_path u = ds_file d) (concat uss)"
    if "d \<in> set (docker_steps c)" for d
    using assms(3) that by (auto simp: ups own_def list_all_iff)
  have steps: "docker_steps c' = docker_steps c" using docker_steps_scanned [of p l c] c' by simp
  have "res_mapM (scan_docker p (apply_updates g ups) l) (docker_steps c) = Inr (map (\<lambda>d. []) (docker_steps c))"
    by (rule res_mapM_Inr) (rule docker_files_settle [OF assms(1) uss _ own])
  then have "scan_build_label ser p (apply_updates g ups) l c' = Inr []"
    using config_settles(1) [OF assms(1) c'] by (simp add: scan_build_label_def steps)
  moreover have "du_label u = l \<and> du_path u \<in> ds_file ` set (docker_steps c)" if u: "u \<in> set (concat uss)" for u
  proof -
    obtain us where us: "u \<in> set us" "us \<in> set uss" using u by auto
    obtain d where d: "d \<in> set (docker_steps c)" "scan_docker p g l d = Inr us" using res_mapM_back [OF uss us(2)] by blast
    show ?thesis using scan_docker_path [OF d(2) us(1)] d(1) by auto
  qed
  ultimately show ?thesis using c' by (auto simp: list_all_iff ups own_def)
qed

lemma lower_from: "lower (CHR ''F'') = CHR ''f''" "lower (CHR ''R'') = CHR ''r''"
  "lower (CHR ''O'') = CHR ''o''" "lower (CHR ''M'') = CHR ''m''"
  unfolding lower_def code_def by (simp, rule of_code, simp)+

theorem build_update_settles_witness:
  "\<exists>g c ups. scan_build_label (\<lambda>c. []) (\<lambda>r v. Inr (Some (Version [2, 0]))) g ''build-tools'' c = Inr ups \<and>
    map du_path ups = [''Dockerfile''] \<and>
    scan_build_label (\<lambda>c. []) (\<lambda>r v. Inr (Some (Version [2, 0]))) (apply_updates g ups) ''build-tools''
      (snd (scan_build_config (\<lambda>r v. Inr (Some (Version [2, 0]))) ''build-tools'' c)) = Inr []"
proof -
  let ?p = "\<lambda>r v. Inr (Some (Version [2, 0])) :: version option res"
  let ?iv = "\<lparr> iv_registry = ''r'', iv_repository = ''i'', iv_version = Version [1, 0] \<rparr>"
  let ?raw = "image_string ?iv"
  let ?d = "\<lparr> ds_name = ''n'', ds_file = ''Dockerfile'', ds_target = None, ds_labels = None, ds_secrets = [] \<rparr>"
  let ?c = "\<lparr> bc_toolImage = [], bc_version = 1, bc_steps = [DockerBuild ?d] \<rparr>"
  let ?g = "\<lambda>f :: string. Inr (Some (''FROM '' @ ?raw)) :: string option res"
  have v: "valid_version (Version [1, 0])" "valid_version (Version [2, 0])" by (simp_all add: valid_version_def)
  have st: "stable ?p" by (simp add: stable_def v nonnegative_def)
  have iv: "image_parse ?raw = Some ?iv"
    by (intro image_parse_string) (simp add: image_ok_def v is_newline_def code_def)
  have "list_all image_char ?raw"
    by (auto simp: image_string_def list_all_iff is_digit_image dest!: version_string_chars)
      (simp_all add: image_char_def is_word_def code_def)
  then have "from_parts [] ''FROM'' '' '' ?raw []"
    by (simp add: from_parts_def lower_from is_space_def) (simp add: image_string_def)
  from findFrom_parts [OF this] have "findFrom (''FROM '' @ ?raw) = Some ?raw" by simp
  then obtain u where u: "scan_docker ?p ?g ''build-tools'' ?d = Inr [u]"
    by (simp add: scan_docker_def iv version_compare_0_iff)
  have "docker_steps ?c = [?d]" by (simp add: docker_steps_def map_filter_simps)
  moreover have "scan_build_config ?p ''build-tools'' ?c = (0, ?c)"
    by (simp add: scan_build_config_def scan_tool_def newer_image_def image_parse_def lazy_split_def)
  ultimately have scan: "scan_build_label (\<lambda>c. []) ?p ?g ''build-tools'' ?c = Inr [u]"
    and files: "list_all (\<lambda>d. ds_file d \<noteq> BUILD_FILE_PATH) (docker_steps ?c)"
    using u by (simp_all add: scan_build_label_def BUILD_FILE_PATH_def systemFilePath_def)
  have "map du_path [u] = [''Dockerfile'']" using scan_docker_path [OF u] by simp
  with scan build_update_settles [OF st scan files, THEN conjunct1]
  have "scan_build_label (\<lambda>c. []) ?p ?g ''build-tools'' ?c = Inr [u] \<and> map du_path [u] = [''Dockerfile''] \<and>
    scan_build_label (\<lambda>c. []) ?p (apply_updates ?g [u]) ''build-tools''
      (snd (scan_build_config ?p ''build-tools'' ?c)) = Inr []"
    by (intro conjI)
  then show ?thesis by (rule exI [of _ "[u]", THEN exI [of _ ?c, THEN exI [of _ ?g]]])
qed

end
