(* ===== verification/Google_Repo.thy ===== *)
theory Google_Repo
  imports Scan_Items
begin

text \<open>
  \<open>scanner/providers/google-repo-scanner-provider.ts\<close>: the projects of a \<open>default.xml\<close>
  manifest and their scan. The XML library is not modelled: a manifest is the list of
  attributes of its elements, and the parameter \<open>xml\<close> prints the document with the given
  projects.
\<close>

section \<open>Dependencies\<close>

definition attr :: "attrs list \<Rightarrow> string \<Rightarrow> string option" where
  "attr elems name = (case elems of [] \<Rightarrow> None | e # es \<Rightarrow> e name)"

fun source_matches :: "host_extract \<Rightarrow> source_service \<Rightarrow> bool" where
  "source_matches ex (GerritSourceService i ssh https cyn) \<longleftrightarrow> he_host ex = ssh \<and> he_protocol ex = Some Ssh"
| "source_matches ex (GitlabSourceService i https) \<longleftrightarrow> he_host ex = https \<and> he_protocol ex = Some Https"

definition findSource :: "source_service list \<Rightarrow> host_extract \<Rightarrow> source_service option" where
  "findSource sources ex = List.find (source_matches ex) sources"

definition project_remote :: "manifest \<Rightarrow> attrs \<Rightarrow> host_extract option" where
  "project_remote xml item =
     (let dependencyRemoteName = or_else (js_or (item ''remote'') (attr (mf_defaults xml) ''remote'')) []
      in List.find (\<lambda>e. he_name e = dependencyRemoteName) (extractHosts xml))"

definition project_path :: "host_extract \<Rightarrow> string \<Rightarrow> string" where
  "project_path remote name =
     (case he_path remote of
        Some p \<Rightarrow> join ''/'' [p, strip_git name]
      | None \<Rightarrow> strip_git name)"

text \<open>The repository that a project names, when its remote and the remote's service are known.\<close>

definition project_ref :: "source_service list \<Rightarrow> manifest \<Rightarrow> attrs \<Rightarrow> dep_ref option" where
  "project_ref sources xml item =
     (case project_remote xml item of
        None \<Rightarrow> None
      | Some remote \<Rightarrow>
          if truthy (item ''name'') then
            map_option (\<lambda>s. GitRef (mk_source (ss_id s) (project_path remote (the (item ''name'')))))
              (findSource sources remote)
          else None)"

definition revision_version :: "string option \<Rightarrow> version option" where
  "revision_version revision = (if truthy revision then extractVersion (the revision) else None)"

definition project_dependency :: "source_service list \<Rightarrow> manifest \<Rightarrow> attrs \<Rightarrow> (dep_ref \<times> version) list" where
  "project_dependency sources xml item =
     (case (project_ref sources xml item, revision_version (item ''revision'')) of
        (Some ref, Some version) \<Rightarrow> [(ref, version)]
      | _ \<Rightarrow> [])"

definition repo_dependencies :: "source_service list \<Rightarrow> manifest option \<Rightarrow> (dep_ref \<times> version) list" where
  "repo_dependencies sources defaultXml =
     (case defaultXml of
        Some xml \<Rightarrow> concat (map (project_dependency sources xml) (mf_projects xml))
      | None \<Rightarrow> [])"

section \<open>The scan\<close>

definition project_labels :: "attrs \<Rightarrow> string list" where
  "project_labels item = splitAndFilter (or_else (js_or (item ''label'') (item ''labels'')) DEFAULT_LABEL_NAME)"

text \<open>The scan falls back to the revision of the \<open>default\<close> element.\<close>

definition scan_revision :: "manifest \<Rightarrow> attrs \<Rightarrow> version option" where
  "scan_revision xml item = revision_version (js_or (item ''revision'') (attr (mf_defaults xml) ''revision''))"

definition scan_project ::
    "source_service list \<Rightarrow> manifest \<Rightarrow> version_provider \<Rightarrow> string \<Rightarrow> attrs \<Rightarrow> bool \<times> attrs" where
  "scan_project sources xml provider relevantLabel item =
     (if relevantLabel \<in> set (project_labels item) then
        (case (project_ref sources xml item, scan_revision xml item) of
           (Some ref, Some version) \<Rightarrow>
             (case newer provider ref version of
                Some newVersion \<Rightarrow> (True, item(''revision'' \<mapsto> encodeVersion newVersion))
              | None \<Rightarrow> (False, item))
         | _ \<Rightarrow> (False, item))
      else (False, item))"

definition project_refs :: "source_service list \<Rightarrow> manifest \<Rightarrow> string \<Rightarrow> dep_ref list" where
  "project_refs sources xml l =
     List.map_filter (\<lambda>item. if l \<in> set (project_labels item) then project_ref sources xml item else None)
       (mf_projects xml)"

definition scan_manifest ::
    "source_service list \<Rightarrow> version_provider \<Rightarrow> string \<Rightarrow> manifest \<Rightarrow> nat \<times> manifest" where
  "scan_manifest sources provider l xml =
     (let r = scan_items (scan_project sources xml provider l) (mf_projects xml)
      in (fst r, xml\<lparr> mf_projects := snd r \<rparr>))"

definition repo_scan ::
    "source_service list \<Rightarrow> (manifest \<Rightarrow> string) \<Rightarrow> version_provider \<Rightarrow> criteria \<Rightarrow> manifest option \<Rightarrow> scan_result res" where
  "repo_scan sources print provider labelCriteria defaultXml =
     (case defaultXml of
        Some xml \<Rightarrow>
          (let relevantLabels = criteria_include labelCriteria (concat (map project_labels (mf_projects xml)));
               updates = concat (map (\<lambda>l.
                 (let (changes, newXml) = scan_manifest sources provider l xml in
                  if changes \<noteq> 0 then [\<lparr> du_label = l, du_path = ''default.xml'', du_content = print newXml \<rparr>] else []))
                 relevantLabels)
           in res_bind (uniqueRefs (concat (map (project_refs sources xml) relevantLabels)))
                (\<lambda>refs. Inr \<lparr> sr_all = refs, sr_updates = updates \<rparr>))
      | None \<Rightarrow> Inr \<lparr> sr_all = [], sr_updates = [] \<rparr>)"

section \<open>Projects keep the contract\<close>

text \<open>A project with the version that the scan sees.\<close>

definition scanned_dependency :: "source_service list \<Rightarrow> manifest \<Rightarrow> attrs \<Rightarrow> (dep_ref \<times> version) list" where
  "scanned_dependency sources xml item =
     (case (project_ref sources xml item, scan_revision xml item) of
        (Some ref, Some version) \<Rightarrow> [(ref, version)]
      | _ \<Rightarrow> [])"

lemma revision_attr [simp]:
  "project_labels (item(''revision'' \<mapsto> s)) = project_labels item"
  "project_ref sources xml (item(''revision'' \<mapsto> s)) = project_ref sources xml item"
  by (simp_all add: project_labels_def project_ref_def project_remote_def split: option.split)

lemma scan_revision_encode [simp]:
  assumes "valid_version w" and "nonnegative w"
  shows "scan_revision xml (item(''revision'' \<mapsto> encodeVersion w)) = Some w"
proof -
  have "encodeVersion w \<noteq> []" by (simp add: encodeVersion_def)
  with assms show ?thesis by (simp add: scan_revision_def js_or_def revision_version_def)
qed

interpretation projects: scannable "scan_project sources xml" "scanned_dependency sources xml"
proof
  fix p l i assume st: "stable p"
  show "scan_project sources xml p l (snd (scan_project sources xml p l i)) = (False, snd (scan_project sources xml p l i))"
    using newer_stable [OF st] by (auto simp: scan_project_def split: option.splits)
  show "list_all2 (moved p) (scanned_dependency sources xml i)
      (scanned_dependency sources xml (snd (scan_project sources xml p l i)))"
    using newer_stable [OF st] newer_moved
    by (auto simp: scan_project_def scanned_dependency_def split: option.splits)
qed (auto simp: scan_project_def split: if_splits option.splits)

lemma manifest_section:
  "scan_project sources (xml\<lparr> mf_projects := ps \<rparr>) = scan_project sources xml"
  "scanned_dependency sources (xml\<lparr> mf_projects := ps \<rparr>) = scanned_dependency sources xml"
  by (simp_all add: fun_eq_iff scan_project_def scanned_dependency_def project_ref_def project_remote_def
      scan_revision_def extractHosts_def)

text \<open>
  A project without a revision of its own is updated by the scan, but it is not among the
  dependencies that are registered for the repository.
\<close>

lemma default_revision_not_registered:
  assumes "item ''revision'' = None"
  shows "project_dependency sources xml item = []"
  using assms by (simp add: project_dependency_def revision_version_def split: option.splits)

section \<open>Properties\<close>

text \<open>
  Applying the update of a label settles a manifest: with a provider whose answers are stable,
  the scan of the updated \<open>default.xml\<close> proposes nothing for the label, the update keeps the
  projects' repositories and only moves versions to what the provider answers for them, and no
  change is counted only when the manifest is the same.
\<close>

theorem manifest_update_settles:
  assumes "stable p" and "scan_manifest sources p l xml = (n, xml')"
  shows "scan_manifest sources p l xml' = (0, xml') \<and> (n = 0 \<longrightarrow> xml' = xml) \<and>
    list_all2 (moved p) (concat (map (scanned_dependency sources xml) (mf_projects xml)))
      (concat (map (scanned_dependency sources xml') (mf_projects xml')))"
proof -
  let ?r = "scan_items (scan_project sources xml p l) (mf_projects xml)"
  have xml': "xml' = xml\<lparr> mf_projects := snd ?r \<rparr>" "n = fst ?r"
    using assms(2) by (auto simp: scan_manifest_def Let_def)
  show ?thesis
    using projects.items_settle [OF assms(1), of sources xml l "mf_projects xml"]
      projects.items_unchanged [of sources xml p l "mf_projects xml"]
      projects.items_move [OF assms(1), of sources xml "mf_projects xml" l]
    by (simp add: scan_manifest_def xml' manifest_section Let_def)
qed

theorem manifest_update_settles_witness:
  "\<exists>xml xml'. scan_manifest [GerritSourceService ''g'' ''host'' ''h'' None] (\<lambda>r v. Inr (Some (Version [2, 0]))) ''default'' xml = (1, xml') \<and>
    scan_manifest [GerritSourceService ''g'' ''host'' ''h'' None] (\<lambda>r v. Inr (Some (Version [2, 0]))) ''default'' xml' = (0, xml')"
proof -
  let ?s = "[GerritSourceService ''g'' ''host'' ''h'' None]"
  let ?p = "\<lambda>r v. Inr (Some (Version [2, 0])) :: version option res"
  let ?item = "[''name'' \<mapsto> ''a'', ''revision'' \<mapsto> encodeVersion (Version [1, 0]), ''remote'' \<mapsto> ''r''] :: attrs"
  let ?xml = "\<lparr> mf_remotes = [[''name'' \<mapsto> ''r'', ''fetch'' \<mapsto> ''ssh://host'']], mf_defaults = [], mf_projects = [?item] \<rparr>"
  have v: "valid_version (Version [1, 0])" "valid_version (Version [2, 0])" "nonnegative (Version [1, 0])"
    "nonnegative (Version [2, 0])" by (simp_all add: valid_version_def nonnegative_def)
  have st: "stable ?p" by (simp add: stable_def v)
  have low: "lower (CHR ''s'') = CHR ''s''" "lower (CHR ''h'') = CHR ''h''" "lower (CHR '':'') = CHR '':''"
    "lower (CHR ''/'') = CHR ''/''" by (simp_all add: lower_def code_def)
  have "url_match ''ssh://host'' = Some (''ssh'', ''host'', [])"
    by (simp add: url_match_def is_space_def low Let_def)
  then have "extractHosts ?xml = [\<lparr> he_name = ''r'', he_host = ''host'', he_protocol = Some Ssh, he_path = None \<rparr>]"
    by (simp add: extractHosts_def extract_remote_def protocol_of_def trim_chars_def)
  then have ref: "project_ref ?s ?xml ?item = Some (GitRef (mk_source ''g'' (strip_git ''a'')))"
    by (simp add: project_ref_def project_remote_def js_or_def findSource_def project_path_def)
  have "encodeVersion (Version [1, 0]) \<noteq> []" by (simp add: encodeVersion_def)
  then have "scan_revision ?xml ?item = Some (Version [1, 0])"
    using v by (simp add: scan_revision_def js_or_def revision_version_def)
  moreover have "''default'' \<in> set (project_labels ?item)"
    by (simp add: project_labels_def js_or_def DEFAULT_LABEL_NAME_def splitAndFilter_def is_space_def trim_def)
  moreover have "newer ?p r (Version [1, 0]) = Some (Version [2, 0])" for r by (simp add: newer_Some)
  ultimately have "fst (scan_manifest ?s ?p ''default'' ?xml) = 1"
    using ref by (simp add: scan_manifest_def scan_items_def scan_project_def Let_def)
  then obtain xml' where x: "scan_manifest ?s ?p ''default'' ?xml = (1, xml')"
    by (cases "scan_manifest ?s ?p ''default'' ?xml") simp
  from manifest_update_settles [OF st x] have "scan_manifest ?s ?p ''default'' xml' = (0, xml')" by blast
  with x show ?thesis by blast
qed

end
