(* ===== verification/Job_Executor.thy ===== *)
theory Job_Executor
  imports Json Job_Ref Task_Queue
begin

text \<open>
  \<open>backend/src/cynosure/job-executor\<close>: the states of a job that the executor keeps in the data
  of its task (\<open>processing-states.ts\<close>) and one round of the executor over the tasks that
  expired (\<open>cynosure-job-executor.ts\<close>). The external build system is the parameter
  \<open>connector\<close>: its answers are results, where a rejected call is \<open>Inl\<close>. A round returns what it
  does, in order: signals to the listener, calls that change the build system, and the
  \<open>upsert\<close> that puts the job back. The server of the task queue does not fail here.
\<close>

section \<open>States of a job\<close>

datatype job_state =
    JobStarting (js_productId: string) int
  | JobStarted (js_productId: string) (js_activityId: string) int
  | JobQueued int
  | JobAbort (js_reason: string)

fun failureCount :: "job_state \<Rightarrow> int" where
  "failureCount (JobStarting p n) = n"
| "failureCount (JobStarted p a n) = n"
| "failureCount (JobQueued n) = n"
| "failureCount (JobAbort r) = 0"

fun stateName :: "job_state \<Rightarrow> string" where
  "stateName (JobStarting p n) = ''Starting''"
| "stateName (JobStarted p a n) = ''Started''"
| "stateName (JobQueued n) = ''Queued''"
| "stateName (JobAbort r) = ''Abort''"

fun withNewFailure :: "job_state \<Rightarrow> job_state" where
  "withNewFailure (JobStarting p n) = JobStarting p (n + 1)"
| "withNewFailure (JobStarted p a n) = JobStarted p a (n + 1)"
| "withNewFailure (JobQueued n) = JobQueued (n + 1)"
| "withNewFailure (JobAbort r) = JobAbort r"

fun constructorArgs :: "job_state \<Rightarrow> json list" where
  "constructorArgs (JobStarting p n) = [JStr p, JNum n]"
| "constructorArgs (JobStarted p a n) = [JStr p, JStr a, JNum n]"
| "constructorArgs (JobQueued n) = [JNum n]"
| "constructorArgs (JobAbort r) = [JStr r]"

fun state_class :: "job_state \<Rightarrow> string" where
  "state_class (JobStarting p n) = ''JobStarting''"
| "state_class (JobStarted p a n) = ''JobStarted''"
| "state_class (JobQueued n) = ''JobQueued''"
| "state_class (JobAbort r) = ''JobAbort''"

definition state_serialize :: "job_state \<Rightarrow> string" where
  "state_serialize s = state_class s @ '':'' @ stringify (JArr (constructorArgs s))"

text \<open>Only the arguments that are printed are read back.\<close>

fun construct :: "string \<Rightarrow> json list \<Rightarrow> job_state res" where
  "construct c args =
     (case args of
        [JStr p, JNum n] \<Rightarrow> if c = ''JobStarting'' then Inr (JobStarting p n) else Inl (Error ''TypeError'')
      | [JStr p, JStr a, JNum n] \<Rightarrow> if c = ''JobStarted'' then Inr (JobStarted p a n) else Inl (Error ''TypeError'')
      | [JNum n] \<Rightarrow> if c = ''JobQueued'' then Inr (JobQueued n) else Inl (Error ''TypeError'')
      | [JStr r] \<Rightarrow> if c = ''JobAbort'' then Inr (JobAbort r) else Inl (Error ''TypeError'')
      | _ \<Rightarrow> Inl (Error ''TypeError''))"

definition state_deserialize :: "string \<Rightarrow> job_state res" where
  "state_deserialize s =
     (let className = takeWhile (\<lambda>c. c \<noteq> CHR '':'') s; rest = dropWhile (\<lambda>c. c \<noteq> CHR '':'') s in
      case (if rest = [] then json_parse s else json_parse (tl rest)) of
        Some (JArr args) \<Rightarrow> construct (if rest = [] then [] else className) args
      | _ \<Rightarrow> Inl (Error ''SyntaxError''))"

section \<open>Retries\<close>

record wait_retry =
  wr_count :: int
  wr_wait :: duration

definition wait_retry :: "int \<Rightarrow> duration \<Rightarrow> wait_retry" where
  "wait_retry n d = \<lparr> wr_count = n, wr_wait = d \<rparr>"

definition errorConfig :: wait_retry where
  "errorConfig = wait_retry 20 (fromSeconds 30)"

definition QUEUED_findProduct :: wait_retry where
  "QUEUED_findProduct = wait_retry 3 (fromSeconds 3)"

definition QUEUED_startActivity :: wait_retry where
  "QUEUED_startActivity = wait_retry 30 (fromSeconds 30)"

definition STARTING_findActivity :: wait_retry where
  "STARTING_findActivity = wait_retry 100 (fromSeconds 10)"

definition STARTED_findActivity :: wait_retry where
  "STARTED_findActivity = wait_retry 3 (fromSeconds 10)"

definition pollInterval :: duration where
  "pollInterval = fromSeconds 10"

definition REPOLL_delayed :: duration where
  "REPOLL_delayed = fromSeconds 10"

definition REPOLL_direct :: duration where
  "REPOLL_direct = NO_DURATION"

section \<open>The build system\<close>

datatype activity_state = ActUnknown | ActFinished | ActAllocated | ActOngoing | ActQueued

datatype verdict = Passed | Failed | Errored | Skipped | Aborted | OtherVerdict string

record activity =
  act_id :: string
  act_state :: activity_state
  act_verdict :: verdict

record connector =
  cc_findProductId :: "string \<Rightarrow> string option res"
  cc_findActivity :: "string \<Rightarrow> string \<Rightarrow> activity option res"
  cc_startActivity :: "string \<Rightarrow> string \<Rightarrow> bool res"
  cc_addTag :: "string \<Rightarrow> string \<Rightarrow> string \<Rightarrow> bool res"
  cc_abortActivity :: "string \<Rightarrow> string \<Rightarrow> string \<Rightarrow> bool res"

section \<open>One job\<close>

datatype effect =
    OnJobStarted
  | OnJobSuccess
  | OnJobAborted
  | OnJobFailure
  | OnJobError
  | OnJobLog string
  | Upsert duration job_state
  | StartActivity string
  | AddTag string string
  | AbortActivity string string

definition handleError :: "job_state \<Rightarrow> wait_retry \<Rightarrow> effect list" where
  "handleError state config =
     (if failureCount state < wr_count config then
        (if (failureCount state + 1) mod 5 = 0
         then [OnJobLog (''Waiting for Cynosure in state `'' @ stateName state @ ''` Attempts: '' @
           show_int (failureCount state + 1) @ ''/'' @ show_int (wr_count config) @ ''.'')] else []) @
        [Upsert (wr_wait config) (withNewFailure state)]
      else [OnJobError])"

text \<open>The calls that abort run together; the result is rejected when one of them is.\<close>

definition both :: "'a res \<Rightarrow> 'b res \<Rightarrow> unit res" where
  "both r s = res_bind r (\<lambda>_. res_bind s (\<lambda>_. Inr ()))"

fun finished :: "verdict \<Rightarrow> effect" where
  "finished Passed = OnJobSuccess"
| "finished Aborted = OnJobAborted"
| "finished Failed = OnJobFailure"
| "finished Errored = OnJobError"
| "finished Skipped = OnJobAborted"
| "finished (OtherVerdict v) = OnJobError"

fun process_started :: "connector \<Rightarrow> string \<Rightarrow> job_state \<Rightarrow> string option \<Rightarrow> effect list \<times> unit res" where
  "process_started c sha (JobStarted p a n) (Some reason) =
     ([AddTag p ''aborted'', AbortActivity a reason],
      both (cc_addTag c p sha ''aborted'') (cc_abortActivity c a sha reason))"
| "process_started c sha (JobStarted p a n) None =
     ((case cc_findActivity c p sha of
         Inl e \<Rightarrow> handleError (JobStarted p a n) errorConfig
       | Inr None \<Rightarrow> handleError (JobStarted p a n) STARTED_findActivity
       | Inr (Some act) \<Rightarrow>
           if act_state act = ActFinished then [finished (act_verdict act)]
           else [Upsert pollInterval (JobStarted p a 0)]), Inr ())"
| "process_started c sha s abort = ([], Inr ())"

fun process_starting :: "connector \<Rightarrow> string \<Rightarrow> job_state \<Rightarrow> string option \<Rightarrow> effect list" where
  "process_starting c sha (JobStarting p n) abort =
     (case cc_findActivity c p sha of
        Inl e \<Rightarrow> handleError (JobStarting p n) errorConfig
      | Inr None \<Rightarrow> handleError (JobStarting p n) STARTING_findActivity
      | Inr (Some act) \<Rightarrow>
          (case abort of
             Some reason \<Rightarrow>
               [AddTag p ''aborted'', AbortActivity (act_id act) reason] @
               (case both (cc_addTag c p sha ''aborted'') (cc_abortActivity c (act_id act) sha reason) of
                  Inl e \<Rightarrow> handleError (JobStarting p n) errorConfig
                | Inr _ \<Rightarrow> [])
           | None \<Rightarrow> [OnJobStarted, Upsert pollInterval (JobStarted p (act_id act) 0)]))"
| "process_starting c sha s abort = []"

definition process_queued :: "connector \<Rightarrow> string \<Rightarrow> string \<Rightarrow> job_state \<Rightarrow> string option \<Rightarrow> effect list" where
  "process_queued c path sha queued abort =
     (case cc_findProductId c path of
        Inl e \<Rightarrow> handleError queued errorConfig
      | Inr productId \<Rightarrow>
          if truthy productId then
            (case abort of
               Some reason \<Rightarrow>
                 AddTag (the productId) ''aborted'' #
                 (case cc_addTag c (the productId) sha ''aborted'' of
                    Inl e \<Rightarrow> handleError queued errorConfig
                  | Inr _ \<Rightarrow> [])
             | None \<Rightarrow>
                 StartActivity (the productId) #
                 (case cc_startActivity c (the productId) sha of
                    Inl e \<Rightarrow> handleError queued errorConfig
                  | Inr True \<Rightarrow> [Upsert (wr_wait STARTING_findActivity) (JobStarting (the productId) 0)]
                  | Inr False \<Rightarrow> handleError queued QUEUED_startActivity))
          else handleError queued QUEUED_findProduct)"

fun is_queued :: "job_state \<Rightarrow> bool" where
  "is_queued (JobQueued n) = True" | "is_queued s = False"

fun is_starting :: "job_state \<Rightarrow> bool" where
  "is_starting (JobStarting p n) = True" | "is_starting s = False"

fun is_started :: "job_state \<Rightarrow> bool" where
  "is_started (JobStarted p a n) = True" | "is_started s = False"

fun is_abort :: "job_state \<Rightarrow> bool" where
  "is_abort (JobAbort r) = True" | "is_abort s = False"

text \<open>The states of a job, the last one first.\<close>

definition process_states :: "connector \<Rightarrow> string \<Rightarrow> string \<Rightarrow> job_state list \<Rightarrow> effect list \<times> unit res" where
  "process_states c path sha states =
     (let abort = map_option js_reason (List.find is_abort states) in
      case List.find is_started states of
        Some s \<Rightarrow> process_started c sha s abort
      | None \<Rightarrow>
          (case List.find is_starting states of
             Some s \<Rightarrow> (process_starting c sha s abort, Inr ())
           | None \<Rightarrow>
               (case List.find is_queued states of
                  Some s \<Rightarrow> (process_queued c path sha s abort, Inr ())
                | None \<Rightarrow> ([], Inr ()))))"

section \<open>A round\<close>

text \<open>An entry whose key or data does not parse throws before anything is done for it.\<close>

definition process_entry ::
    "(string \<Rightarrow> connector option) \<Rightarrow> task_entry \<Rightarrow> (job_key \<times> effect list \<times> unit res) res" where
  "process_entry createApiConnector e =
     res_bind (key_deserialize (te_uid e)) (\<lambda>key.
       case createApiConnector (src_id (jk_source key)) of
         Some c \<Rightarrow>
           res_bind (res_mapM state_deserialize (te_data e)) (\<lambda>states.
             Inr (key, process_states c (src_path (jk_source key)) (job_sha (jk_ref key)) (rev states)))
       | None \<Rightarrow> Inr (key, [OnJobError], Inr ()))"

text \<open>The entries are started in order; one that throws stops the others and rejects the round.\<close>

fun process_entries ::
    "(string \<Rightarrow> connector option) \<Rightarrow> task_entry list \<Rightarrow> (job_key \<times> effect list) list \<times> unit res" where
  "process_entries createApiConnector [] = ([], Inr ())"
| "process_entries createApiConnector (e # es) =
     (case process_entry createApiConnector e of
        Inl err \<Rightarrow> ([], Inl err)
      | Inr (key, effects, result) \<Rightarrow>
          (let (done, rest) = process_entries createApiConnector es
           in ((key, effects) # done, both result rest)))"

text \<open>
  \<open>process\<close> with a listener: what is done, whether to poll again at once, and the wait before the
  next poll. A rejected round schedules no other.
\<close>

definition process_round ::
    "(string \<Rightarrow> connector option) \<Rightarrow> task_entries \<Rightarrow> (job_key \<times> effect list) list \<times> bool res" where
  "process_round createApiConnector entries =
     (let (done, result) = process_entries createApiConnector (tes_entries entries)
      in (done, res_bind result (\<lambda>_. Inr (tes_hasMore entries))))"

definition next_poll :: "bool res \<Rightarrow> duration option" where
  "next_poll result =
     (case result of
        Inr True \<Rightarrow> Some REPOLL_direct
      | Inr False \<Rightarrow> Some REPOLL_delayed
      | Inl e \<Rightarrow> None)"

definition startJob :: "'db redis \<Rightarrow> string \<Rightarrow> time \<Rightarrow> int \<Rightarrow> job_key \<Rightarrow> 'db \<Rightarrow> 'db" where
  "startJob R q now stamp key db =
     upsert_task R q now stamp (key_serialize key) NO_DURATION (state_serialize (JobQueued 0)) db"

definition abortJob :: "'db redis \<Rightarrow> string \<Rightarrow> time \<Rightarrow> int \<Rightarrow> job_key \<Rightarrow> 'db \<Rightarrow> 'db" where
  "abortJob R q now stamp key db =
     upsert_task R q now stamp (key_serialize key) NO_DURATION
       (state_serialize (JobAbort ''Activity aborted by Common Build.'')) db"

section \<open>The states survive the store\<close>

lemma class_no_colon: "CHR '':'' \<notin> set (state_class s)"
  by (cases s) simp_all

lemma state_roundtrip [simp]: "state_deserialize (state_serialize s) = Inr s"
proof -
  have t: "takeWhile (\<lambda>c. c \<noteq> CHR '':'') (state_serialize s) = state_class s"
    "dropWhile (\<lambda>c. c \<noteq> CHR '':'') (state_serialize s) = CHR '':'' # stringify (JArr (constructorArgs s))"
    using class_no_colon [of s] by (auto simp: state_serialize_def takeWhile_append dropWhile_append)
  have "json_ok (JArr (constructorArgs s))" by (cases s) simp_all
  then have "state_deserialize (state_serialize s) = construct (state_class s) (constructorArgs s)"
    unfolding state_deserialize_def Let_def t by simp
  then show ?thesis by (cases s) simp_all
qed

lemma state_serialize_inject [simp]: "state_serialize s = state_serialize t \<longleftrightarrow> s = t"
  by (metis state_roundtrip sum.inject(2))

section \<open>What a round does to a job\<close>

definition outcome :: "effect \<Rightarrow> bool" where
  "outcome e \<longleftrightarrow> e \<in> {OnJobSuccess, OnJobAborted, OnJobFailure, OnJobError} \<or> (\<exists>w s. e = Upsert w s)"

lemma outcome_simps [simp]:
  "outcome OnJobSuccess" "outcome OnJobAborted" "outcome OnJobFailure" "outcome OnJobError"
  "outcome (Upsert w s)" "\<not> outcome OnJobStarted" "\<not> outcome (OnJobLog m)" "\<not> outcome (StartActivity p)"
  "\<not> outcome (AddTag p t)" "\<not> outcome (AbortActivity a r)"
  by (simp_all add: outcome_def)

lemma outcome_finished [simp]: "outcome (finished v)"
  by (cases v) simp_all

lemma handleError_outcome [simp]: "length (filter outcome (handleError s cfg)) = 1"
  by (simp add: handleError_def)

lemma find_kind:
  "List.find is_started ss = Some s \<Longrightarrow> \<exists>p a n. s = JobStarted p a n"
  "List.find is_starting ss = Some s \<Longrightarrow> \<exists>p n. s = JobStarting p n"
  "List.find is_queued ss = Some s \<Longrightarrow> \<exists>n. s = JobQueued n"
  by (auto simp: find_Some_iff elim: is_started.elims is_starting.elims is_queued.elims)

lemma find_abort_None: "\<not> list_ex is_abort ss \<longleftrightarrow> List.find is_abort ss = None"
  by (auto simp: find_None_iff list_ex_iff)

text \<open>Answers on which a state cannot advance.\<close>

fun stuck :: "connector \<Rightarrow> string \<Rightarrow> string \<Rightarrow> job_state \<Rightarrow> bool" where
  "stuck c path sha (JobQueued n) =
     (case cc_findProductId c path of
        Inl e \<Rightarrow> True
      | Inr p \<Rightarrow> truthy p \<longrightarrow> cc_startActivity c (the p) sha \<noteq> Inr True)"
| "stuck c path sha (JobStarting p n) =
     (case cc_findActivity c p sha of Inl e \<Rightarrow> True | Inr act \<Rightarrow> act = None)"
| "stuck c path sha (JobStarted p a n) =
     (case cc_findActivity c p sha of Inl e \<Rightarrow> True | Inr act \<Rightarrow> act = None)"
| "stuck c path sha (JobAbort r) = False"

text \<open>The greatest number of attempts that are configured for a state.\<close>

fun max_attempts :: "job_state \<Rightarrow> int" where
  "max_attempts (JobQueued n) = 30"
| "max_attempts (JobStarting p n) = 100"
| "max_attempts (JobStarted p a n) = 20"
| "max_attempts (JobAbort r) = 0"

definition acts_on :: "job_state list \<Rightarrow> job_state option" where
  "acts_on states =
     (case List.find is_started states of Some s \<Rightarrow> Some s
      | None \<Rightarrow> (case List.find is_starting states of Some s \<Rightarrow> Some s
        | None \<Rightarrow> List.find is_queued states))"

lemmas configs = errorConfig_def QUEUED_findProduct_def QUEUED_startActivity_def STARTING_findActivity_def
  STARTED_findActivity_def wait_retry_def

lemma handleError_retry:
  assumes "OnJobError \<notin> set (handleError s cfg)"
  shows "failureCount s < wr_count cfg \<and>
    (\<exists>w. filter outcome (handleError s cfg) = [Upsert w (withNewFailure s)])"
  using assms by (auto simp: handleError_def split: if_splits)

lemma acts_on_kind:
  "acts_on states = Some s \<Longrightarrow>
   (\<exists>p a n. List.find is_started states = Some s \<and> s = JobStarted p a n) \<or>
   (\<exists>p n. List.find is_started states = None \<and> List.find is_starting states = Some s \<and> s = JobStarting p n) \<or>
   (\<exists>n. List.find is_started states = None \<and> List.find is_starting states = None \<and>
      List.find is_queued states = Some s \<and> s = JobQueued n)"
  by (auto simp: acts_on_def dest: find_kind split: option.splits)

lemma stuck_started:
  assumes "stuck c path sha (JobStarted p a n)"
  shows "\<exists>cfg. wr_count cfg \<le> 20 \<and> fst (process_started c sha (JobStarted p a n) None) = handleError (JobStarted p a n) cfg"
proof (cases "cc_findActivity c p sha")
  case (Inl e)
  then show ?thesis by (intro exI [of _ errorConfig]) (simp add: configs)
next
  case (Inr act)
  with assms show ?thesis by (intro exI [of _ STARTED_findActivity]) (simp add: configs)
qed

lemma stuck_starting:
  assumes "stuck c path sha (JobStarting p n)"
  shows "\<exists>cfg. wr_count cfg \<le> 100 \<and> process_starting c sha (JobStarting p n) None = handleError (JobStarting p n) cfg"
proof (cases "cc_findActivity c p sha")
  case (Inl e)
  then show ?thesis by (intro exI [of _ errorConfig]) (simp add: configs)
next
  case (Inr act)
  with assms show ?thesis by (intro exI [of _ STARTING_findActivity]) (simp add: configs)
qed

lemma stuck_queued:
  assumes "stuck c path sha (JobQueued n)"
  shows "\<exists>cfg pre. wr_count cfg \<le> 30 \<and> filter outcome pre = [] \<and>
    process_queued c path sha (JobQueued n) None = pre @ handleError (JobQueued n) cfg"
proof (cases "cc_findProductId c path")
  case (Inl e)
  then show ?thesis
    by (intro exI [of _ errorConfig] exI [of _ "[]"]) (simp add: process_queued_def configs)
next
  case (Inr p)
  show ?thesis
  proof (cases "truthy p")
    case False
    with Inr show ?thesis
      by (intro exI [of _ QUEUED_findProduct] exI [of _ "[]"]) (simp add: process_queued_def configs)
  next
    case True
    show ?thesis
    proof (cases "cc_startActivity c (the p) sha")
      case (Inl e)
      with Inr True show ?thesis
        by (intro exI [of _ errorConfig] exI [of _ "[StartActivity (the p)]"]) (simp add: process_queued_def configs)
    next
      case (Inr b)
      with \<open>cc_findProductId c path = Inr p\<close> True assms show ?thesis
        by (intro exI [of _ QUEUED_startActivity] exI [of _ "[StartActivity (the p)]"])
          (simp add: process_queued_def configs)
    qed
  qed
qed

lemma stuck_effects:
  assumes "acts_on states = Some s" and "\<not> list_ex is_abort states" and "stuck c path sha s"
  shows "\<exists>cfg pre. wr_count cfg \<le> max_attempts s \<and> filter outcome pre = [] \<and>
      fst (process_states c path sha states) = pre @ handleError s cfg"
proof -
  have no_abort: "List.find is_abort states = None" using assms(2) by (simp add: find_abort_None)
  show "\<exists>cfg pre. wr_count cfg \<le> max_attempts s \<and> filter outcome pre = [] \<and>
      fst (process_states c path sha states) = pre @ handleError s cfg"
    using acts_on_kind [OF assms(1)]
  proof (elim disjE exE conjE)
    fix p a n assume s: "List.find is_started states = Some s" "s = JobStarted p a n"
    with stuck_started [of c path sha p a n] assms(3) no_abort show ?thesis
      by (auto simp: process_states_def intro!: exI [of _ "[]"])
  next
    fix p n assume s: "List.find is_started states = None" "List.find is_starting states = Some s" "s = JobStarting p n"
    with stuck_starting [of c path sha p n] assms(3) no_abort show ?thesis
      by (auto simp: process_states_def intro!: exI [of _ "[]"])
  next
    fix n assume s: "List.find is_started states = None" "List.find is_starting states = None"
      "List.find is_queued states = Some s" "s = JobQueued n"
    with stuck_queued [of c path sha n] assms(3) no_abort show ?thesis
      by (auto simp: process_states_def)
  qed
qed

lemma stuck_round:
  assumes "acts_on states = Some s" and "\<not> list_ex is_abort states" and "stuck c path sha s"
    and "OnJobError \<notin> set (fst (process_states c path sha states))"
  shows "failureCount s < max_attempts s \<and>
    (\<exists>w. filter outcome (fst (process_states c path sha states)) = [Upsert w (withNewFailure s)])"
proof -
  from stuck_effects [OF assms(1-3)] obtain cfg pre where cfg: "wr_count cfg \<le> max_attempts s" "filter outcome pre = []"
    "fst (process_states c path sha states) = pre @ handleError s cfg" by blast
  with assms(4) handleError_retry [of s cfg] show ?thesis by auto
qed

text \<open>A round that tells the error puts nothing back.\<close>

lemma stuck_error:
  assumes "acts_on states = Some s" and "\<not> list_ex is_abort states" and "stuck c path sha s"
    and "OnJobError \<in> set (fst (process_states c path sha states))"
  shows "filter outcome (fst (process_states c path sha states)) = [OnJobError]"
proof -
  from stuck_effects [OF assms(1-3)] obtain cfg pre where cfg: "filter outcome pre = []"
    "fst (process_states c path sha states) = pre @ handleError s cfg" by blast
  with assms(4) have "OnJobError \<in> set (handleError s cfg)"
    by (auto simp: filter_empty_conv)
  with cfg show ?thesis by (auto simp: handleError_def split: if_splits)
qed

section \<open>Several rounds\<close>

text \<open>
  The data of a task with increasing stamps: a state that is stored again moves to the end.
\<close>

definition add_state :: "'a \<Rightarrow> 'a list \<Rightarrow> 'a list" where
  "add_state s xs = filter (\<lambda>t. t \<noteq> s) xs @ [s]"

context redis_server
begin

lemma upsert_appends_data:
  assumes "as_zset (view db (entryKey q)) = Some z'" and "as_zset (view db (dataKey q u)) = Some z"
    and "inj_on (score_of z) (dom z)" and "\<forall>m \<in> dom z. score_of z m < stamp"
  shows "rd_zrange R (dataKey q u) (upsert_task R q now stamp u wait d db) =
    add_state d (rd_zrange R (dataKey q u) db)"
proof -
  let ?db = "rd_zadd R (entryKey q) (epochMs (addDuration now wait)) u db"
  let ?z = "z(d \<mapsto> stamp)" and ?new = "rd_zrange R (dataKey q u) (upsert_task R q now stamp u wait d db)"
  let ?old = "rd_zrange R (dataKey q u) db"
  have zd: "as_zset (view ?db (dataKey q u)) = Some z" using assms(2) by (simp add: zadd [OF assms(1)])
  have "as_zset (view (upsert_task R q now stamp u wait d db) (dataKey q u)) = Some ?z"
    by (simp add: upsert_task_def del zadd [OF zd])
  note new = zrange [OF this] and old = zrange [OF assms(2)]
  have score: "score_of ?z m = (if m = d then stamp else score_of z m)" for m by (simp add: score_of_def)
  have inj: "inj_on (score_of ?z) (dom ?z)"
    using assms(3,4) unfolding inj_on_def score by (auto simp: dom_def)
  have set: "List.set (add_state d ?old) = dom ?z" using old by (auto simp: add_state_def)
  moreover have "distinct (add_state d ?old)" using old by (simp add: add_state_def)
  moreover have "sorted (map (score_of ?z) (add_state d ?old))"
  proof -
    have eq: "map (score_of ?z) (filter (\<lambda>t. t \<noteq> d) ?old) = map (score_of z) (filter (\<lambda>t. t \<noteq> d) ?old)"
      by (simp add: score)
    have "sorted (map (score_of z) (filter (\<lambda>t. t \<noteq> d) ?old))"
      using old by (simp add: sorted_filter)
    then have "sorted (map (score_of ?z) (filter (\<lambda>t. t \<noteq> d) ?old))" unfolding eq .
    then show ?thesis using old assms(4) by (auto simp: add_state_def sorted_append score intro: less_imp_le)
  qed
  ultimately show ?thesis
    using new inj by (intro map_sorted_distinct_set_unique [of "score_of ?z"])
      (auto simp: distinct_map intro: inj_on_subset)
qed

end

definition requeued :: "effect list \<Rightarrow> job_state option" where
  "requeued es = (case List.find outcome es of Some (Upsert w s) \<Rightarrow> Some s | _ \<Rightarrow> None)"

text \<open>The rounds of one job, as long as it is put back: what the build system answers in each of them.\<close>

fun run_job :: "connector list \<Rightarrow> string \<Rightarrow> string \<Rightarrow> job_state list \<Rightarrow> effect list" where
  "run_job [] path sha data = []"
| "run_job (c # cs) path sha data =
     (let es = fst (process_states c path sha (rev data)) in
      es @ (case requeued es of Some s \<Rightarrow> run_job cs path sha (add_state s data) | None \<Rightarrow> []))"

lemma find_filter: "List.find P xs = (case filter P xs of [] \<Rightarrow> None | x # _ \<Rightarrow> Some x)"
  by (induction xs) auto

lemma requeued_filter: "filter outcome es = [Upsert w s] \<Longrightarrow> requeued es = Some s"
  by (simp add: requeued_def find_filter)

lemma stuck_new [simp]: "stuck c path sha (withNewFailure s) = stuck c path sha s"
  by (cases s) simp_all

lemma max_attempts_new [simp]: "max_attempts (withNewFailure s) = max_attempts s"
  by (cases s) simp_all

lemma find_filtered_None: "List.find P xs = None \<Longrightarrow> List.find P (filter Q xs) = None"
  by (auto simp: find_None_iff)

lemma acts_on_new:
  assumes "acts_on (rev xs) = Some s"
  shows "acts_on (rev (add_state (withNewFailure s) xs)) = Some (withNewFailure s)"
    and "failureCount (withNewFailure s) = failureCount s + 1"
  using acts_on_kind [OF assms]
  by (auto simp: add_state_def acts_on_def rev_filter find_filtered_None)

lemma no_abort_new:
  "acts_on (rev xs) = Some s \<Longrightarrow> \<not> list_ex is_abort xs \<Longrightarrow> \<not> list_ex is_abort (add_state (withNewFailure s) xs)"
  by (auto simp: add_state_def list_ex_iff dest: acts_on_kind)

text \<open>Data that an earlier run of the same job left behind decides a restarted one.\<close>

lemma restart_polls_old_activity:
  assumes "JobStarted p a n \<in> set xs" and "\<not> list_ex is_abort xs"
  shows "StartActivity x \<notin> set (fst (process_states c path sha (rev (add_state (JobQueued 0) xs))))"
proof -
  let ?ys = "rev (add_state (JobQueued 0) xs)"
  have "List.find is_started ?ys \<noteq> None" using assms(1) by (auto simp: find_None_iff add_state_def)
  then obtain s where s: "List.find is_started ?ys = Some s" by blast
  then obtain p' a' n' where "s = JobStarted p' a' n'" using find_kind(1) by blast
  moreover have "List.find is_abort ?ys = None" using assms(2) by (auto simp: find_None_iff list_ex_iff add_state_def)
  moreover have "finished v \<noteq> StartActivity x" for v by (cases v) simp_all
  ultimately show ?thesis using s
    by (auto simp: process_states_def handleError_def split: sum.splits option.splits if_splits) metis+
qed

lemma restart_after_abort_aborts:
  assumes "list_ex is_abort xs" and "acts_on (rev xs) = Some (JobQueued n)"
    and "cc_findProductId c path = Inr (Some p)" and "p \<noteq> []" and "cc_addTag c p sha ''aborted'' = Inr b"
  shows "fst (process_states c path sha (rev (add_state (JobQueued 0) xs))) = [AddTag p ''aborted'']"
proof -
  let ?ys = "rev (add_state (JobQueued 0) xs)"
  have "List.find is_started ?ys = None" "List.find is_starting ?ys = None"
    using acts_on_kind [OF assms(2)] by (auto simp: add_state_def rev_filter find_filtered_None)
  moreover have "List.find is_queued ?ys = Some (JobQueued 0)" by (simp add: add_state_def)
  moreover have "List.find is_abort ?ys \<noteq> None"
    using assms(1) by (auto simp: find_None_iff list_ex_iff add_state_def)
  ultimately show ?thesis using assms(3-5) by (auto simp: process_states_def process_queued_def)
qed

section \<open>Properties\<close>

definition upserts :: "effect list \<Rightarrow> effect list" where
  "upserts es = filter (\<lambda>e. \<exists>w s. e = Upsert w s) es"

lemma upserts_outcome: "upserts es = filter (\<lambda>e. \<exists>w s. e = Upsert w s) (filter outcome es)"
  by (auto simp: upserts_def intro!: filter_cong [OF refl])

lemma upserts_append [simp]: "upserts (xs @ ys) = upserts xs @ upserts ys"
  by (simp add: upserts_def)

text \<open>C10
  Retries end: when the build system answers in a way on which a job that is not aborted cannot
  advance, round after round, the job is put back at most as many times as attempts are left for its state
  (30 in all while queued, 100 while starting, 20 once started), whatever the reasons of the failures are and
  however they alternate, and at the latest in the round after that, the 31st for a newly queued job, the
  listener is told of the error and the job is not put back any more.
\<close>

theorem retries_are_bounded:
  assumes "acts_on (rev data) = Some s" and "\<not> list_ex is_abort data"
    and "list_all (\<lambda>c. stuck c path sha s) cs" and "max_attempts s - failureCount s < int (length cs)" and "cs \<noteq> []"
  shows "OnJobError \<in> set (run_job cs path sha data) \<and>
    length (upserts (run_job cs path sha data)) \<le> nat (max_attempts s - failureCount s)"
  using assms
proof (induction cs arbitrary: data s)
  case (Cons c cs)
  let ?es = "fst (process_states c path sha (rev data))"
  have abort: "\<not> list_ex is_abort (rev data)" using Cons.prems(2) by (auto simp: list_ex_iff)
  have stuck: "stuck c path sha s" using Cons.prems(3) by simp
  show ?case
  proof (cases "OnJobError \<in> set ?es")
    case False
    from stuck_round [OF Cons.prems(1) abort stuck False]
    obtain w where lt: "failureCount s < max_attempts s" and out: "filter outcome ?es = [Upsert w (withNewFailure s)]"
      by blast
    have "cs \<noteq> []" using Cons.prems(4) lt by auto
    with Cons.IH [OF acts_on_new(1) [OF Cons.prems(1)] no_abort_new [OF Cons.prems(1,2)]]
    have "OnJobError \<in> set (run_job cs path sha (add_state (withNewFailure s) data)) \<and>
      length (upserts (run_job cs path sha (add_state (withNewFailure s) data))) \<le> nat (max_attempts s - failureCount s - 1)"
      using Cons.prems acts_on_new(2) [OF Cons.prems(1)] by (simp add: algebra_simps)
    moreover have "length (upserts ?es) = 1" unfolding upserts_outcome out by simp
    ultimately show ?thesis using lt requeued_filter [OF out] by (auto simp: Let_def)
  next
    case True
    from stuck_error [OF Cons.prems(1) abort stuck True] have out: "filter outcome ?es = [OnJobError]" .
    have "requeued ?es = None" by (simp add: requeued_def find_filter out)
    moreover have "upserts ?es = []" unfolding upserts_outcome out by simp
    ultimately show ?thesis using True by (simp add: Let_def)
  qed
qed simp

theorem retries_are_bounded_witness:
  "let refused = \<lparr> cc_findProductId = (\<lambda>p. Inr (Some ''product'')),
       cc_findActivity = (\<lambda>p s. Inr None), cc_startActivity = (\<lambda>p s. Inr False),
       cc_addTag = (\<lambda>p s t. Inr True), cc_abortActivity = (\<lambda>a s r. Inr True) \<rparr>;
     effects = run_job (replicate 31 refused) ''path'' ''sha'' [JobQueued 0]
   in OnJobError \<in> set effects \<and> length (upserts effects) \<le> 30"
proof -
  let ?refused = "\<lparr> cc_findProductId = (\<lambda>p. Inr (Some ''product'')),
       cc_findActivity = (\<lambda>p s. Inr None), cc_startActivity = (\<lambda>p s. Inr False),
       cc_addTag = (\<lambda>p s t. Inr True), cc_abortActivity = (\<lambda>a s r. Inr True) \<rparr>"
  have "acts_on (rev [JobQueued 0]) = Some (JobQueued 0)" by (simp add: acts_on_def)
  from retries_are_bounded [OF this, of "''path''" "''sha''" "replicate 31 ?refused"] show ?thesis
    by (simp add: list_all_length Let_def)
qed

end
