(* ===== verification/Majors.thy ===== *)
theory Majors
  imports Json Redis_Memory System_Config Model_Reader Repository_Source
begin

text \<open>
  Series of majors that repositories share: \<open>domain-model/system-config/majors.ts\<close>, the
  service that keeps them in a file of a repository with a cache in the server
  (\<open>repositories/majors/majors-service.ts\<close>), the step that gives a repository the next major
  (\<open>major-application-service.ts\<close>) and the number of a sprint
  (\<open>weekly-sprint-calulator.ts\<close>), all under \<open>backend/src\<close>. The repository with the file is
  reached through a service: its answers are parameters, and what is written to it is returned.
\<close>

section \<open>Series\<close>

record serie =
  se_id :: string
  se_values :: "int list"

record major_value =
  mv_id :: string
  mv_value :: int

definition serie_json :: "serie \<Rightarrow> json" where
  "serie_json s = JObj [(''id'', JStr (se_id s)), (''values'', JArr (map JNum (se_values s)))]"

text \<open>
  What \<open>Codec.toInstances\<close> reads: the two fields of every element, where a missing one is
  undefined; values of other types are refused here.
\<close>

fun json_int :: "json \<Rightarrow> int res" where
  "json_int (JNum n) = Inr n"
| "json_int v = Inl (Error ''not a number'')"

fun json_serie :: "json \<Rightarrow> (string option \<times> int list option) res" where
  "json_serie (JObj fs) =
     res_bind (case map_of fs ''id'' of None \<Rightarrow> Inr None | Some (JStr s) \<Rightarrow> Inr (Some s)
       | Some v \<Rightarrow> Inl (Error ''not a string'')) (\<lambda>i.
     res_bind (case map_of fs ''values'' of None \<Rightarrow> Inr None
       | Some (JArr vs) \<Rightarrow> res_bind (res_mapM json_int vs) (\<lambda>ns. Inr (Some ns))
       | Some v \<Rightarrow> Inl (Error ''not an array'')) (\<lambda>ns. Inr (i, ns)))"
| "json_serie v = Inl (Error ''not an object'')"

definition toInstances :: "string \<Rightarrow> (string option \<times> int list option) list res" where
  "toInstances s =
     (case json_parse s of
        Some (JArr vs) \<Rightarrow> res_mapM json_serie vs
      | _ \<Rightarrow> Inl (Error ''Could not parse''))"

text \<open>\<open>m.id && m.values\<close>\<close>

definition complete_serie :: "string option \<times> int list option \<Rightarrow> serie option" where
  "complete_serie r =
     (case r of
        (i, Some vs) \<Rightarrow> if truthy i then Some \<lparr> se_id = the i, se_values = vs \<rparr> else None
      | (i, None) \<Rightarrow> None)"

text \<open>
  The file on the master branch as the service reads it: \<open>Inl\<close> a failed call, \<open>None\<close> no such
  branch, \<open>Some None\<close> no such file.
\<close>

type_synonym remote_file = "string option option res"

definition getSourceValues :: "remote_file \<Rightarrow> serie list res" where
  "getSourceValues remote =
     res_bind remote (\<lambda>branch.
       case branch of
         None \<Rightarrow> Inl (Error ''Could not find branch master.'')
       | Some file \<Rightarrow>
           if truthy file
           then res_bind (toInstances (the file)) (\<lambda>ms. Inr (List.map_filter complete_serie ms))
           else Inr [])"

definition normalize_series :: "string list \<Rightarrow> serie list \<Rightarrow> serie list" where
  "normalize_series config series =
     (let clean = filter (\<lambda>s. se_id s \<in> set config) series;
          existingIds = uniq (map se_id series);
          nonExisting = difference config existingIds
      in clean @ map (\<lambda>i. \<lparr> se_id = i, se_values = [0] \<rparr>) nonExisting)"

definition STATE_CACHE_KEY :: string where
  "STATE_CACHE_KEY = ''majors-config''"

definition series_text :: "serie list \<Rightarrow> json" where
  "series_text series = JArr (map serie_json series)"

text \<open>The cache holds complete series only.\<close>

definition cached_series :: "string \<Rightarrow> serie list res" where
  "cached_series s = res_bind (toInstances s) (\<lambda>ms. Inr (List.map_filter complete_serie ms))"

definition majors_values ::
    "'db redis \<Rightarrow> string list \<Rightarrow> bool \<Rightarrow> remote_file \<Rightarrow> 'db \<Rightarrow> serie list res \<times> 'db" where
  "majors_values R config cached remote db =
     (let found = (if cached then rd_get R STATE_CACHE_KEY db else None) in
      if truthy found
      then (res_bind (cached_series (the found)) (\<lambda>s. Inr (normalize_series config s)), db)
      else (case getSourceValues remote of
          Inl e \<Rightarrow> (Inl e, db)
        | Inr source \<Rightarrow>
            (let series = normalize_series config source
             in (Inr series, rd_set R STATE_CACHE_KEY (stringify (series_text series)) db))))"

definition getValue ::
    "'db redis \<Rightarrow> string list \<Rightarrow> string \<Rightarrow> bool \<Rightarrow> remote_file \<Rightarrow> 'db \<Rightarrow> serie option res \<times> 'db" where
  "getValue R config i cached remote db =
     (let (all, db1) = majors_values R config cached remote db
      in (res_bind all (\<lambda>ss. Inr (List.find (\<lambda>v. se_id v = i) ss)), db1))"

text \<open>The series with the new value: \<open>Inl\<close> when the value is not above the highest one.\<close>

definition insert_value :: "major_value \<Rightarrow> serie list \<Rightarrow> serie list res" where
  "insert_value value series =
     (case find_index (\<lambda>s. se_id s = mv_id value) series of
        Some i \<Rightarrow>
          (let vs = se_values (series ! i) in
           case max_by (\<lambda>x. x) vs of
             Some highest \<Rightarrow>
               if highest \<noteq> 0 \<and> mv_value value \<le> highest
               then Inl (Error (''Major value '' @ show_int (mv_value value) @
                 '' must be higher than existing major value: '' @ show_int highest))
               else Inr (series[i := (series ! i)\<lparr> se_values := sort_desc (\<lambda>x. x) (mv_value value # vs) \<rparr>])
           | None \<Rightarrow> Inr (series[i := (series ! i)\<lparr> se_values := sort_desc (\<lambda>x. x) (mv_value value # vs) \<rparr>]))
      | None \<Rightarrow> Inr (series @ [\<lparr> se_id = mv_id value, se_values = [mv_value value] \<rparr>]))"

text \<open>
  What \<open>addValue\<close> answers: the index is tested as a condition, so the first serie answers the
  last one, and \<open>-1\<close> answers undefined.
\<close>

definition added_serie :: "nat option \<Rightarrow> serie list \<Rightarrow> serie option" where
  "added_serie existingIndex series =
     (case existingIndex of
        None \<Rightarrow> None
      | Some 0 \<Rightarrow> Some (last series)
      | Some i \<Rightarrow> Some (series ! i))"

text \<open>
  \<open>updateBranch\<close> is whether the file can be written. The result is the answer, the file that was
  written, and the server.
\<close>

definition addValue ::
    "'db redis \<Rightarrow> string list \<Rightarrow> remote_file \<Rightarrow> unit res \<Rightarrow> major_value \<Rightarrow> 'db \<Rightarrow>
     serie option res \<times> string option \<times> 'db" where
  "addValue R config remote updateBranch value db =
     (if mv_value value > 0 then
        if mv_id value \<in> set config then
          (case res_bind (getSourceValues remote) (\<lambda>series.
              res_bind (insert_value value series) (\<lambda>series'.
              res_bind updateBranch (\<lambda>_.
                Inr (find_index (\<lambda>s. se_id s = mv_id value) series, series')))) of
             Inl e \<Rightarrow> (Inl e, None, db)
           | Inr (i, series') \<Rightarrow>
               (Inr (added_serie i series'), Some (stringify2 (series_text series')), rd_del R STATE_CACHE_KEY db))
        else (Inl (Error (''Major serie '' @ mv_id value @ '' is not a valid serie. Valid series are: '' @
          join '','' config)), None, db)
      else (Inl (Error ''Input is not a positive number.''), None, db))"

section \<open>Giving a repository its next major\<close>

datatype major_action = EXISTS | CREATED | MANUAL | NOT_SUBSCRIBED | MISSING_CONFIG | ERROR_ACTION

text \<open>
  The action and the tag that is created, on which commit: \<open>createTag\<close> is whether the service
  creates it.
\<close>

definition processSource ::
    "repository_config option res \<Rightarrow> root res \<Rightarrow> unit res \<Rightarrow> major_value \<Rightarrow> bool \<Rightarrow>
     major_action \<times> (string \<times> string) option" where
  "processSource config model createTag value forceApply =
     (case config of
        Inl e \<Rightarrow> (ERROR_ACTION, None)
      | Inr None \<Rightarrow> (MISSING_CONFIG, None)
      | Inr (Some c) \<Rightarrow>
          (case rc_majorSerie c of
             None \<Rightarrow> (NOT_SUBSCRIBED, None)
           | Some majorSerie \<Rightarrow>
               if ms_id majorSerie = mv_id value then
                 if ms_autoApply majorSerie \<or> forceApply then
                   (case model of
                      Inl e \<Rightarrow> (ERROR_ACTION, None)
                    | Inr r \<Rightarrow>
                        if mv_value value > main_major (root_main r) then
                          (case sha_create (mb_sha (main_main (root_main r))) of
                             Inl e \<Rightarrow> (ERROR_ACTION, None)
                           | Inr _ \<Rightarrow>
                               (case createTag of
                                  Inr _ \<Rightarrow> (CREATED, Some (''major-'' @ show_int (mv_value value),
                                    mb_sha (main_main (root_main r))))
                                | Inl e \<Rightarrow> (EXISTS, None)))
                        else (EXISTS, None))
                 else (MANUAL, None)
               else (NOT_SUBSCRIBED, None)))"

definition applyMajor ::
    "(source \<Rightarrow> repository_config option res) \<Rightarrow> (source \<Rightarrow> root res) \<Rightarrow> (source \<Rightarrow> unit res) \<Rightarrow>
     major_value \<Rightarrow> source \<Rightarrow> major_action \<times> (string \<times> string) option" where
  "applyMajor config model createTag value s = processSource (config s) (model s) (createTag s) value True"

definition applyMajors ::
    "(source \<Rightarrow> repository_config option res) \<Rightarrow> (source \<Rightarrow> root res) \<Rightarrow> (source \<Rightarrow> unit res) \<Rightarrow>
     major_value \<Rightarrow> source list \<Rightarrow> ((major_action \<times> (string \<times> string) option) \<times> source) list" where
  "applyMajors config model createTag value ss =
     map (\<lambda>s. (processSource (config s) (model s) (createTag s) value False, s)) ss"

section \<open>The number of a sprint\<close>

text \<open>The year, the ISO week and the month (from 0) of a day are those of the date library.\<close>

definition pad2 :: "nat \<Rightarrow> string" where
  "pad2 n = (if n < 10 then ''0'' @ show_nat n else show_nat n)"

definition sprint :: "int \<Rightarrow> nat \<Rightarrow> nat \<Rightarrow> int" where
  "sprint year week month =
     (let realYear = (if week \<ge> 52 \<and> month = 0 then year - 1
          else if week = 1 \<and> month = 11 then year + 1 else year)
      in to_int (show_int (realYear - 2000) @ pad2 week))"

section \<open>The file and the cache keep the series\<close>

lemma json_int_nums [simp]: "res_mapM json_int (map JNum ns) = Inr ns"
  by (induction ns) simp_all

lemma json_serie_json [simp]: "json_serie (serie_json s) = Inr (Some (se_id s), Some (se_values s))"
  by (simp add: serie_json_def)

lemma series_text_ok [simp]: "json_ok (series_text ss)"
  by (auto simp: series_text_def serie_json_def list_all_iff)

lemma res_mapM_json_serie [simp]:
  "res_mapM json_serie (map serie_json ss) = Inr (map (\<lambda>s. (Some (se_id s), Some (se_values s))) ss)"
  by (induction ss) simp_all

lemma toInstances_text [simp]:
  "toInstances (stringify (series_text ss)) = Inr (map (\<lambda>s. (Some (se_id s), Some (se_values s))) ss)"
  "toInstances (stringify2 (series_text ss)) = Inr (map (\<lambda>s. (Some (se_id s), Some (se_values s))) ss)"
  by (simp_all add: toInstances_def) (simp_all add: series_text_def)

definition series_ok :: "serie list \<Rightarrow> bool" where
  "series_ok ss \<longleftrightarrow> distinct (map se_id ss) \<and>
     list_all (\<lambda>s. se_id s \<noteq> [] \<and> descending (\<lambda>x. x) (se_values s)) ss"

lemma complete_again:
  "list_all (\<lambda>s. se_id s \<noteq> []) ss \<Longrightarrow>
   List.map_filter complete_serie (map (\<lambda>s. (Some (se_id s), Some (se_values s))) ss) = ss"
  by (induction ss) (simp_all add: complete_serie_def)

lemma getSourceValues_written:
  "list_all (\<lambda>s. se_id s \<noteq> []) ss \<Longrightarrow> getSourceValues (Inr (Some (Some (stringify2 (series_text ss))))) = Inr ss"
  by (simp add: getSourceValues_def complete_again)

lemma cached_series_written:
  "list_all (\<lambda>s. se_id s \<noteq> []) ss \<Longrightarrow> cached_series (stringify (series_text ss)) = Inr ss"
  by (simp add: cached_series_def complete_again)

definition values_of :: "serie list \<Rightarrow> string \<Rightarrow> int list option" where
  "values_of ss i = map_option se_values (List.find (\<lambda>s. se_id s = i) ss)"

lemma find_append: "List.find P (xs @ ys) = (case List.find P xs of Some x \<Rightarrow> Some x | None \<Rightarrow> List.find P ys)"
  by (induction xs) auto

lemma find_default:
  "List.find (\<lambda>v. se_id v = i) (map (\<lambda>i. \<lparr> se_id = i, se_values = [0] \<rparr>) is) =
   (if i \<in> set is then Some \<lparr> se_id = i, se_values = [0] \<rparr> else None)"
  by (induction "is") auto

lemma find_filter_id:
  "List.find (\<lambda>v. se_id v = i) (filter (\<lambda>s. se_id s \<in> C) ss) =
   (if i \<in> C then List.find (\<lambda>v. se_id v = i) ss else None)"
  by (induction ss) auto

lemma find_normalized:
  "List.find (\<lambda>v. se_id v = i) (normalize_series config ss) =
   (if i \<in> set config then
      (case List.find (\<lambda>v. se_id v = i) ss of Some s \<Rightarrow> Some s | None \<Rightarrow> Some \<lparr> se_id = i, se_values = [0] \<rparr>)
    else None)"
proof -
  have "i \<notin> se_id ` set ss" if "List.find (\<lambda>v. se_id v = i) ss = None"
    using that by (simp add: find_key_None)
  then show ?thesis
    by (auto simp: normalize_series_def find_append find_filter_id find_default split: option.splits)
qed

lemma find_list_update:
  assumes "i < length ss" and "se_id s = se_id (ss ! i)" and "distinct (map se_id ss)"
  shows "List.find (\<lambda>v. se_id v = j) (ss[i := s]) =
    (if j = se_id s then Some s else List.find (\<lambda>v. se_id v = j) ss)"
  using assms
proof (induction ss arbitrary: i)
  case (Cons a ss)
  show ?case
  proof (cases i)
    case (Suc k)
    then have "se_id (ss ! k) \<in> se_id ` set ss" using Cons.prems(1) by simp
    with Suc Cons show ?thesis by auto
  qed (use Cons.prems in auto)
qed simp

lemma sort_desc_id: "descending f xs \<Longrightarrow> sort_desc f xs = xs"
proof -
  assume "descending f xs"
  then have "sorted (map (\<lambda>x. f x * -1) xs)"
    by (induction xs) (auto intro: less_imp_le)
  then show ?thesis by (simp add: sort_desc_def sort_key_id_if_sorted)
qed

definition old_values :: "serie list \<Rightarrow> string \<Rightarrow> int list" where
  "old_values ss i = (case List.find (\<lambda>s. se_id s = i) ss of Some s \<Rightarrow> se_values s | None \<Rightarrow> [])"

lemma insert_value_rejects:
  assumes "x \<in> set (old_values ss (mv_id v))" and "mv_value v \<le> x" and "0 < mv_value v"
  shows "\<exists>e. insert_value v ss = Inl e"
proof (cases "find_index (\<lambda>s. se_id s = mv_id v) ss")
  case None
  then have "List.find (\<lambda>s. se_id s = mv_id v) ss = None" by (auto simp: find_index_None find_None_iff)
  with assms(1) show ?thesis by (simp add: old_values_def)
next
  case (Some i)
  let ?vs = "se_values (ss ! i)"
  have x: "x \<in> set ?vs" using find_index_Some [OF Some] assms(1) by (simp add: old_values_def)
  then obtain h where h: "max_by (\<lambda>x. x) ?vs = Some h" using max_by_None_iff [of "\<lambda>x. x" ?vs] by fastforce
  with x max_by_Some [OF h] assms(2,3) have "mv_value v \<le> h" "h \<noteq> 0" by force+
  with Some h show ?thesis by (simp add: insert_value_def)
qed

lemma insert_value_spec:
  assumes "series_ok ss" and "mv_id v \<noteq> []" and "0 < mv_value v" and "insert_value v ss = Inr ss'"
  shows "series_ok ss'"
    and "List.find (\<lambda>s. se_id s = j) ss' =
      (if j = mv_id v then Some \<lparr> se_id = mv_id v, se_values = mv_value v # old_values ss (mv_id v) \<rparr>
       else List.find (\<lambda>s. se_id s = j) ss)"
proof -
  have above: "x < mv_value v" if "x \<in> set (old_values ss (mv_id v))" for x
    using insert_value_rejects [OF that _ assms(3)] assms(4) by fastforce
  show "series_ok ss'" "List.find (\<lambda>s. se_id s = j) ss' =
      (if j = mv_id v then Some \<lparr> se_id = mv_id v, se_values = mv_value v # old_values ss (mv_id v) \<rparr>
       else List.find (\<lambda>s. se_id s = j) ss)"
  proof (atomize (full), cases "find_index (\<lambda>s. se_id s = mv_id v) ss")
    case None
    then have none: "mv_id v \<notin> se_id ` set ss" by (auto simp: find_index_None)
    moreover from none have "List.find (\<lambda>s. se_id s = mv_id v) ss = None" by (simp add: find_key_None)
    ultimately show "series_ok ss' \<and> List.find (\<lambda>s. se_id s = j) ss' =
      (if j = mv_id v then Some \<lparr> se_id = mv_id v, se_values = mv_value v # old_values ss (mv_id v) \<rparr>
       else List.find (\<lambda>s. se_id s = j) ss)"
      using assms None
      by (auto simp: insert_value_def series_ok_def find_append old_values_def split: option.splits)
  next
    case (Some i)
    note i = find_index_Some [OF Some]
    let ?s = "(ss ! i)\<lparr> se_values := mv_value v # se_values (ss ! i) \<rparr>"
    have old: "old_values ss (mv_id v) = se_values (ss ! i)" using i by (simp add: old_values_def)
    have "descending (\<lambda>x. x) (se_values (ss ! i))"
      using assms(1) i by (auto simp: series_ok_def list_all_length)
    then have desc: "descending (\<lambda>x. x) (mv_value v # se_values (ss ! i))" using above old by simp
    have ss': "ss' = ss[i := ?s]"
      using assms(4) Some sort_desc_id [OF desc]
      by (auto simp: insert_value_def Let_def split: option.splits if_splits)
    have ids: "map se_id (ss[i := ?s]) = map se_id ss"
      using i by (simp add: map_update list_update_same_conv)
    have "series_ok ss'"
      using assms(1,2) i desc unfolding ss' series_ok_def ids
      by (auto simp: list_all_length nth_list_update)
    moreover have "List.find (\<lambda>s. se_id s = j) ss' =
        (if j = mv_id v then Some ?s else List.find (\<lambda>s. se_id s = j) ss)"
      using find_list_update [of i ss ?s j] i assms(1) by (simp add: ss' series_ok_def)
    moreover have "?s = \<lparr> se_id = mv_id v, se_values = mv_value v # old_values ss (mv_id v) \<rparr>"
      using i old by simp
    ultimately show "series_ok ss' \<and> List.find (\<lambda>s. se_id s = j) ss' =
      (if j = mv_id v then Some \<lparr> se_id = mv_id v, se_values = mv_value v # old_values ss (mv_id v) \<rparr>
       else List.find (\<lambda>s. se_id s = j) ss)" by simp
  qed
qed

lemma insert_value_accepts:
  assumes "\<forall>x \<in> set (old_values ss (mv_id v)). x < mv_value v"
  shows "\<exists>ss'. insert_value v ss = Inr ss'"
proof (cases "find_index (\<lambda>s. se_id s = mv_id v) ss")
  case (Some i)
  then have "old_values ss (mv_id v) = se_values (ss ! i)"
    using find_index_Some [OF Some] by (simp add: old_values_def)
  with Some assms show ?thesis
    using max_by_Some [of "\<lambda>x. x" "se_values (ss ! i)"]
    by (fastforce simp: insert_value_def Let_def split: option.splits)
qed (simp add: insert_value_def)

lemma insert_value_iff:
  assumes "0 < mv_value v"
  shows "(\<exists>ss'. insert_value v ss = Inr ss') \<longleftrightarrow> (\<forall>x \<in> set (old_values ss (mv_id v)). x < mv_value v)"
  using insert_value_accepts insert_value_rejects [OF _ _ assms] by (metis Inl_Inr_False not_le)

lemma addValue_written:
  assumes "getSourceValues remote = Inr series" and "addValue R config remote updateBranch v db = (answer, written, db')"
  shows "written = None \<Longrightarrow> db' = db \<and> (\<exists>e. answer = Inl e)"
    and "written = Some out \<Longrightarrow> 0 < mv_value v \<and> mv_id v \<in> set config \<and> updateBranch = Inr () \<and>
      (\<exists>series'. insert_value v series = Inr series' \<and> out = stringify2 (series_text series')) \<and>
      db' = rd_del R STATE_CACHE_KEY db"
  using assms by (auto simp: addValue_def split: if_splits sum.splits prod.splits) (auto simp: res_bind_eq_Inr)

lemma addValue_writes:
  assumes "getSourceValues remote = Inr series" and "insert_value v series = Inr series'"
    and "0 < mv_value v" and "mv_id v \<in> set config"
  shows "\<exists>out. fst (snd (addValue R config remote (Inr ()) v db)) = Some out"
  using assms by (simp add: addValue_def)

section \<open>The model with a new major tag\<close>

definition main_of :: "entity \<Rightarrow> (string \<times> string) option" where
  "main_of e = (case normalize (e_ref e) of Some (MainBranchRef n) \<Rightarrow> Some (n, e_sha e) | _ \<Rightarrow> None)"

definition tag_major_of :: "entity \<Rightarrow> (int \<times> string) option" where
  "tag_major_of e = (case normalize (e_ref e) of Some (MajorTagRef m) \<Rightarrow> Some (m, e_sha e) | _ \<Rightarrow> None)"

definition release_tag_of :: "entity \<Rightarrow> (int list \<times> string) option" where
  "release_tag_of e = (case normalize (e_ref e) of Some (ReleaseTagRef s) \<Rightarrow> Some (s, e_sha e) | _ \<Rightarrow> None)"

definition patch_branch_of :: "entity \<Rightarrow> (int list \<times> string) option" where
  "patch_branch_of e = (case normalize (e_ref e) of Some (PatchBranchRef s) \<Rightarrow> Some (s, e_sha e) | _ \<Rightarrow> None)"

lemmas entity_parts = main_of_def tag_major_of_def release_tag_of_def patch_branch_of_def

lemma collect_fold:
  "acc_main (fold collect_entity es acc) =
     (case rev (List.map_filter main_of es) of [] \<Rightarrow> acc_main acc | m # ms \<Rightarrow> Some m)"
  "acc_majors (fold collect_entity es acc) = acc_majors acc @ List.map_filter tag_major_of es"
  "acc_releases (fold collect_entity es acc) = acc_releases acc @ List.map_filter release_tag_of es"
  "acc_patches (fold collect_entity es acc) = acc_patches acc @ List.map_filter patch_branch_of es"
proof -
  show "acc_main (fold collect_entity es acc) =
     (case rev (List.map_filter main_of es) of [] \<Rightarrow> acc_main acc | m # ms \<Rightarrow> Some m)"
    by (induction es arbitrary: acc)
      (auto simp: collect_entity_def main_of_def map_filter_simps Cons_eq_append_conv
        split: option.splits normalized.splits list.splits)
  show "acc_majors (fold collect_entity es acc) = acc_majors acc @ List.map_filter tag_major_of es"
    by (induction es arbitrary: acc)
      (auto simp: collect_entity_def tag_major_of_def map_filter_simps split: option.splits normalized.splits)
  show "acc_releases (fold collect_entity es acc) = acc_releases acc @ List.map_filter release_tag_of es"
    by (induction es arbitrary: acc)
      (auto simp: collect_entity_def release_tag_of_def map_filter_simps split: option.splits normalized.splits)
  show "acc_patches (fold collect_entity es acc) = acc_patches acc @ List.map_filter patch_branch_of es"
    by (induction es arbitrary: acc)
      (auto simp: collect_entity_def patch_branch_of_def map_filter_simps split: option.splits normalized.splits)
qed

lemma map_filter_append: "List.map_filter f (xs @ ys) = List.map_filter f xs @ List.map_filter f ys"
  by (induction xs) (simp_all add: map_filter_simps split: option.splits)

lemma getRawModel_parts:
  "getRawModel es =
     (case rev (List.map_filter main_of es) of
        [] \<Rightarrow> Inl (Error ''Could not build repository model data. Missing main branch.'')
      | m # ms \<Rightarrow> Inr \<lparr> raw_main = m, raw_releaseTags = List.map_filter release_tag_of es,
          raw_patchBranches = List.map_filter patch_branch_of es, raw_majorTags = List.map_filter tag_major_of es \<rparr>)"
  by (simp add: getRawModel_def Let_def collect_fold split: list.splits)

text \<open>A major tag among the references is one more major tag in the raw data, and nothing else.\<close>

lemma getRawModel_insert_major:
  assumes "getRawModel (es1 @ es2) = Inr raw" and "normalize (e_ref e) = Some (MajorTagRef m)"
  shows "\<exists>ts1 ts2. raw_majorTags raw = ts1 @ ts2 \<and>
    getRawModel (es1 @ e # es2) = Inr (raw\<lparr> raw_majorTags := ts1 @ (m, e_sha e) # ts2 \<rparr>)"
proof -
  have "main_of e = None" "tag_major_of e = Some (m, e_sha e)" "release_tag_of e = None" "patch_branch_of e = None"
    using assms(2) by (simp_all add: entity_parts)
  with assms(1) show ?thesis
    by (intro exI [of _ "List.map_filter tag_major_of es1"] exI [of _ "List.map_filter tag_major_of es2"])
      (auto simp: getRawModel_parts map_filter_append map_filter_simps split: list.splits)
qed

lemma normalize_major_tag: "0 \<le> m \<Longrightarrow> normalize (TagRef (''major-'' @ show_int m)) = Some (MajorTagRef m)"
  by (simp add: match_releaseTag_def match_majorTag_def after_def)

lemma highest_major_insert:
  assumes "highest_major raw < m" and "raw_majorTags raw = ts1 @ ts2"
    and "raw' = raw\<lparr> raw_majorTags := ts1 @ (m, sha) # ts2 \<rparr>"
  shows "raw_major_numbers raw' = insert m (raw_major_numbers raw)"
    and "highest_major raw' = m"
    and "start_of (all_builders raw') m = Some sha"
    and "highest_major raw \<in> raw_major_numbers raw \<Longrightarrow>
      Min {k \<in> raw_major_numbers raw'. highest_major raw < k} = m"
proof -
  have fin: "finite (raw_major_numbers raw)" by (simp add: raw_major_numbers_def)
  have below: "k < m" if "k \<in> raw_major_numbers raw" for k
    using that assms(1) fin Max_ge [of "raw_major_numbers raw" k] by (force simp: highest_major_def split: if_splits)
  show nums: "raw_major_numbers raw' = insert m (raw_major_numbers raw)"
    by (auto simp: raw_major_numbers_def assms(2,3))
  show high: "highest_major raw' = m"
  proof -
    have "Max (insert m (raw_major_numbers raw)) = m" using fin below by (intro Max_eqI) (auto intro: less_imp_le)
    then show ?thesis by (simp add: highest_major_def nums)
  qed
  have "m \<notin> fst ` set ts2" using below [of m] assms(2) by (auto simp: raw_major_numbers_def)
  then show "start_of (all_builders raw') m = Some sha"
    by (simp add: start_of_all_builders assms(3) map_add_def map_of_eq_None_iff [THEN iffD2])
  have "{k \<in> raw_major_numbers raw'. highest_major raw < k} = {m}" if "highest_major raw \<in> raw_major_numbers raw"
    using that assms(1) fin Max_ge [of "raw_major_numbers raw"] by (force simp: nums highest_major_def split: if_splits)
  then show "highest_major raw \<in> raw_major_numbers raw \<Longrightarrow>
      Min {k \<in> raw_major_numbers raw'. highest_major raw < k} = m" by simp
qed

lemma processSource_CREATED:
  "processSource config (Inr r) createTag v force = (CREATED, Some (tag, sha)) \<longleftrightarrow>
   main_major (root_main r) < mv_value v \<and> is_sha (mb_sha (main_main (root_main r))) \<and> createTag = Inr () \<and>
   tag = ''major-'' @ show_int (mv_value v) \<and> sha = mb_sha (main_main (root_main r)) \<and>
   (\<exists>c s. config = Inr (Some c) \<and> rc_majorSerie c = Some s \<and> ms_id s = mv_id v \<and> (ms_autoApply s \<or> force))"
  by (auto simp: processSource_def sha_create_def split: sum.splits option.splits if_splits)

section \<open>Properties\<close>

text \<open>C16
  A new major of a serie: \<open>addValue\<close> writes the out exactly when the value is positive, the serie
  is configured, the service accepts the out and the value is above all values of the serie;
  otherwise it answers an error and changes nothing. Once the out is written, it still reads as
  well-formed series, and every client, whether it accepts cached values or not, sees the value at
  the head of its serie and the other series as they were: no stale series is left in the cache.
\<close>

theorem added_value_is_published:
  assumes "redis_server R view" and "[] \<notin> set config"
    and "getSourceValues remote = Inr series" and "series_ok series"
    and "addValue R config remote updateBranch v db = (answer, written, db')"
  shows "(written \<noteq> None \<longleftrightarrow> 0 < mv_value v \<and> mv_id v \<in> set config \<and> updateBranch = Inr () \<and>
        (\<forall>x \<in> set (old_values series (mv_id v)). x < mv_value v)) \<and>
    (written = None \<longrightarrow> db' = db \<and> (\<exists>e. answer = Inl e)) \<and>
    (\<forall>out. written = Some out \<longrightarrow>
       (\<exists>series'. getSourceValues (Inr (Some (Some out))) = Inr series' \<and> series_ok series') \<and>
       (\<forall>i cached. fst (getValue R config i cached (Inr (Some (Some out))) db') =
          (if i = mv_id v
           then Inr (Some \<lparr> se_id = i, se_values = mv_value v # old_values series i \<rparr>)
           else fst (getValue R config i False remote db))))"
proof (intro conjI allI impI)
  show "written \<noteq> None \<longleftrightarrow> 0 < mv_value v \<and> mv_id v \<in> set config \<and> updateBranch = Inr () \<and>
      (\<forall>x \<in> set (old_values series (mv_id v)). x < mv_value v)"
    using addValue_written [OF assms(3,5)] addValue_writes [OF assms(3)] insert_value_iff [of v series] assms(5)
    by (metis fst_conv not_None_eq snd_conv)
  show "written = None \<Longrightarrow> db' = db" "written = None \<Longrightarrow> \<exists>e. answer = Inl e"
    using addValue_written(1) [OF assms(3,5)] by blast+
next
  fix out i cached assume w: "written = Some out"
  from addValue_written(2) [OF assms(3,5) w] obtain series' where
    v: "0 < mv_value v" "mv_id v \<in> set config" and series': "insert_value v series = Inr series'"
    "out = stringify2 (series_text series')" and db': "db' = rd_del R STATE_CACHE_KEY db" by blast
  from v assms(2) have "mv_id v \<noteq> []" by auto
  note spec = insert_value_spec [OF assms(4) this v(1) series'(1)]
  have read: "getSourceValues (Inr (Some (Some out))) = Inr series'"
    using spec(1) by (simp add: series'(2) getSourceValues_written series_ok_def list_all_iff)
  then show "\<exists>series'. getSourceValues (Inr (Some (Some out))) = Inr series' \<and> series_ok series'"
    using spec(1) by blast
  have "rd_get R STATE_CACHE_KEY db' = None"
    using redis_server.get [OF assms(1), of db' STATE_CACHE_KEY None] redis_server.del [OF assms(1)]
    by (simp add: db')
  then have "fst (getValue R config j cached (Inr (Some (Some out))) db') =
      Inr (List.find (\<lambda>s. se_id s = j) (normalize_series config series'))" for j
    by (simp add: getValue_def majors_values_def read Let_def)
  moreover have "fst (getValue R config j False remote db) =
      Inr (List.find (\<lambda>s. se_id s = j) (normalize_series config series))" for j
    by (simp add: getValue_def majors_values_def assms(3) Let_def)
  ultimately show "fst (getValue R config i cached (Inr (Some (Some out))) db') =
      (if i = mv_id v then Inr (Some \<lparr> se_id = i, se_values = mv_value v # old_values series i \<rparr>)
       else fst (getValue R config i False remote db))"
    using v(2) by (simp add: find_normalized spec(2))
qed

theorem added_value_is_published_witness:
  "let series = [\<lparr> se_id = ''s'', se_values = [2, 1] \<rparr>, \<lparr> se_id = ''t'', se_values = [5] \<rparr>];
       remote = Inr (Some (Some (stringify2 (series_text series))));
       (answer, written, db) = addValue mem_redis [''s'', ''t''] remote (Inr ()) \<lparr> mv_id = ''s'', mv_value = 3 \<rparr> []
   in \<exists>out. written = Some out \<and>
      fst (getValue mem_redis [''s'', ''t''] ''s'' True (Inr (Some (Some out))) db) =
        Inr (Some \<lparr> se_id = ''s'', se_values = [3, 2, 1] \<rparr>)"
proof -
  let ?series = "[\<lparr> se_id = ''s'', se_values = [2, 1] \<rparr>, \<lparr> se_id = ''t'', se_values = [5] \<rparr>]"
  let ?remote = "Inr (Some (Some (stringify2 (series_text ?series))))"
  let ?v = "\<lparr> mv_id = ''s'', mv_value = 3 \<rparr>"
  obtain answer written db where r: "addValue mem_redis [''s'', ''t''] ?remote (Inr ()) ?v [] = (answer, written, db)"
    by (metis prod.exhaust)
  have read: "getSourceValues ?remote = Inr ?series" by (rule getSourceValues_written) simp
  have ok: "series_ok ?series" by (simp add: series_ok_def)
  have old: "old_values ?series ''s'' = [2, 1]" by (simp add: old_values_def)
  note published = added_value_is_published [OF memory.redis_server_axioms _ read ok r]
  have "written \<noteq> None" using published old by simp
  then obtain out where w: "written = Some out" by blast
  have "fst (getValue mem_redis [''s'', ''t''] ''s'' True (Inr (Some (Some out))) db) =
      Inr (Some \<lparr> se_id = ''s'', se_values = [3, 2, 1] \<rparr>)" using published w old by simp
  with r w show ?thesis by (simp add: Let_def)
qed

end
