(* ===== verification/Scanner_Manager.thy ===== *)
theory Scanner_Manager
  imports Dependency_Storage Dependency_Graph Dependency_Lookup Model_Reader Majors
begin

text \<open>
  \<open>backend/src/repositories/scanner/scanner-manager-impl.ts\<close>: the dependencies of a repository
  are registered in the index (\<open>registerDependencies\<close>), and a repository is processed, which
  proposes its dependency updates as changes for review (\<open>processByReferences\<close>,
  \<open>processBySource\<close>, \<open>processRepository\<close>). The review service and the scanner are
  parameters: their answers are results. Processing returns the calls that it made, in the
  order of the labels; calls for different labels run together in the source. Processing of one
  repository is serialised with itself there.
\<close>

section \<open>Changes under review\<close>

record open_update =
  up_id :: string
  up_sha :: string
  up_target :: string
  up_labels :: "string list"
  up_changeNumber :: int

text \<open>\<open>slice(-2)\<close> of the printed number.\<close>

definition last2 :: "string \<Rightarrow> string" where
  "last2 s = drop (length s - 2) s"

definition update_refSpec :: "open_update \<Rightarrow> string" where
  "update_refSpec u =
     (let n = show_int (up_changeNumber u); prefix = last2 n @ ''/'' @ n
      in ''+refs/changes/'' @ prefix @ ''/*:refs/remotes/origin/changes/'' @ prefix @ ''/*'')"

type_synonym contents = "(string \<times> string) list"

datatype scan_effect =
    EnsureRef string string
  | UpdateUpdate string contents
  | CreateBranch string string
  | CreateUpdate ref string contents

record scan_access =
  sa_ensureRef :: "string \<Rightarrow> string \<Rightarrow> unit res"
  sa_updateUpdate :: "string \<Rightarrow> contents \<Rightarrow> unit res"
  sa_createBranch :: "string \<Rightarrow> string \<Rightarrow> entity res"
  sa_createUpdate :: "ref \<Rightarrow> string \<Rightarrow> contents \<Rightarrow> string res"

text \<open>The arguments of \<open>ProcessResultEntry\<close>; its constructor does not keep them.\<close>

datatype process_entry = ProcessResultEntry int string "string option"

text \<open>\<open>ScannerImpl.scan\<close> of a repository: a commit, how versions are selected, and the labels.\<close>

type_synonym scan = "string \<Rightarrow> selector \<Rightarrow> criteria \<Rightarrow> scan_result res"


section \<open>Processing\<close>

definition text_contents :: "dependency_update list \<Rightarrow> contents" where
  "text_contents us = map (\<lambda>u. (du_path u, du_content u)) us"

definition find_existing :: "open_update list \<Rightarrow> entity option \<Rightarrow> string \<Rightarrow> open_update option" where
  "find_existing updates branch label =
     (case branch of
        Some b \<Rightarrow> List.find (\<lambda>u. label \<in> set (up_labels u) \<and> up_target u = ref_name (e_ref b)) updates
      | None \<Rightarrow> None)"

text \<open>The label of a change that is open already: what the scan of the change itself proposes.\<close>

definition process_existing ::
    "scan_access \<Rightarrow> scan \<Rightarrow> int \<Rightarrow> selector \<Rightarrow> string \<Rightarrow> open_update \<Rightarrow>
     scan_effect list \<times> process_entry list res" where
  "process_existing A scan mj sel label u =
     (case res_bind (sa_ensureRef A (up_sha u) (update_refSpec u)) (\<lambda>_. scan (up_sha u) sel (Include [label])) of
        Inl e \<Rightarrow> ([EnsureRef (up_sha u) (update_refSpec u)], Inl e)
      | Inr r \<Rightarrow>
          (let contents = text_contents (sr_updates r) in
           if contents \<noteq> [] then
             ([EnsureRef (up_sha u) (update_refSpec u), UpdateUpdate (up_id u) contents],
              res_bind (sa_updateUpdate A (up_id u) contents) (\<lambda>_.
                Inr [ProcessResultEntry mj (''Updated existing update '' @ up_id u @ '' for label '' @ label @ ''.'')
                  (Some (up_id u))]))
           else ([EnsureRef (up_sha u) (update_refSpec u)], Inr [])))"

definition getOrCreateTargetBranch :: "scan_access \<Rightarrow> root \<Rightarrow> int \<Rightarrow> scan_effect list \<times> entity res" where
  "getOrCreateTargetBranch A model mj =
     (case resolveWriteBranch model mj of
        Inl e \<Rightarrow> ([], Inl e)
      | Inr None \<Rightarrow> ([], Inl (Error (''Could not find write-branch for major: '' @ show_int mj)))
      | Inr (Some w) \<Rightarrow>
          if wb_exists w then ([], Inr \<lparr> e_ref = wb_branch w, e_sha = wb_sha w \<rparr>)
          else ([CreateBranch (wb_sha w) (ref_name (wb_branch w))],
                sa_createBranch A (wb_sha w) (ref_name (wb_branch w))))"

definition process_new ::
    "scan_access \<Rightarrow> root \<Rightarrow> int \<Rightarrow> scan_result \<Rightarrow> string \<Rightarrow> scan_effect list \<times> process_entry list res" where
  "process_new A model mj result label =
     (let contents = text_contents (updatesByLabel result label) in
      if contents \<noteq> [] then
        (case getOrCreateTargetBranch A model mj of
           (effects, Inl e) \<Rightarrow> (effects, Inl e)
         | (effects, Inr branch) \<Rightarrow>
             (effects @ [CreateUpdate (e_ref branch) label contents],
              res_bind (sa_createUpdate A (e_ref branch) label contents) (\<lambda>i.
                Inr [ProcessResultEntry mj (''Created new update '' @ i @ '' for label '' @ label @ ''.'') (Some i)])))
      else ([], Inr []))"

definition process_label ::
    "scan_access \<Rightarrow> scan \<Rightarrow> root \<Rightarrow> open_update list \<Rightarrow> int \<Rightarrow> selector \<Rightarrow> entity option \<Rightarrow>
     scan_result \<Rightarrow> string \<Rightarrow> scan_effect list \<times> process_entry list res" where
  "process_label A scan model updates mj sel branch result label =
     (case find_existing updates branch label of
        Some u \<Rightarrow> process_existing A scan mj sel label u
      | None \<Rightarrow> process_new A model mj result label)"

text \<open>Work that runs together: everything is done, and the result is rejected when one part is.\<close>

definition together :: "('a list \<times> 'b list res) list \<Rightarrow> 'a list \<times> 'b list res" where
  "together rs = (concat (map fst rs), res_bind (res_mapM snd rs) (\<lambda>xs. Inr (concat xs)))"





datatype process_result = SuccessfulProcessResult "process_entry list" | ErrorProcessResult error

text \<open>\<open>process\<close> is \<open>processRepository\<close> of a repository.\<close>

definition processBySource ::
    "string \<Rightarrow> (source \<Rightarrow> bool) \<Rightarrow> (source \<Rightarrow> scan_effect list \<times> process_entry list res) \<Rightarrow> source list \<Rightarrow>
     (source \<times> scan_effect list \<times> process_result) list" where
  "processBySource systemId active process sources =
     map (\<lambda>s.
       if active s then
         (s, fst (process s), (case snd (process s) of
             Inr entries \<Rightarrow> SuccessfulProcessResult entries | Inl e \<Rightarrow> ErrorProcessResult e))
       else (s, [], ErrorProcessResult (Error (''Skipped - not active in '' @ systemId)))) sources"


section \<open>Registering\<close>




section \<open>Processing again\<close>


lemma set_together [simp]: "set (fst (together rs)) = (\<Union>r \<in> set rs. set (fst r))"
  by (simp add: together_def)





lemma updateLabels_contents: "l \<in> set (updateLabels r) \<Longrightarrow> text_contents (updatesByLabel r l) \<noteq> []"
  by (auto simp: updateLabels_def updatesByLabel_def text_contents_def filter_empty_conv)







lemma text_contents_Nil [simp]: "text_contents us = [] \<longleftrightarrow> us = []"
  by (simp add: text_contents_def)







section \<open>What is registered\<close>

lemma processBySource_sources [simp]: "map fst (processBySource systemId active process ss) = ss"
  by (induction ss) (simp_all add: processBySource_def)





section \<open>Properties\<close>



text \<open>Without the branch of the major every label with proposals has it created, whatever changes are open.\<close>

lemma missing_branch_is_created_for_every_label:
  assumes "resolveWriteBranch m mj = Inr (Some w)" and "\<not> wb_exists w" and "l \<in> set (updateLabels r)"
  shows "\<exists>rest. fst (process_label A scan m us mj sel None r l) = CreateBranch (wb_sha w) (ref_name (wb_branch w)) # rest"
proof -
  obtain es res where g: "getOrCreateTargetBranch A m mj = (es, res)" "es = [CreateBranch (wb_sha w) (ref_name (wb_branch w))]"
    using assms(1,2) by (simp add: getOrCreateTargetBranch_def)
  with updateLabels_contents [OF assms(3)] show ?thesis
    by (cases res) (auto simp: process_label_def find_existing_def process_new_def Let_def)
qed



end
