(* ===== verification/Dependency_Tree.thy ===== *)
theory Dependency_Tree
  imports Dependency_Graph Dependency_Lookup Model_Reader
begin

text \<open>
  \<open>getGraphTrees\<close> of \<open>backend/src/repositories/scanner/scanner-manager-impl.ts\<close>: the tree of the
  dependencies of a repository at a reference, each dependency resolved to the repository and the
  commit or tag that it was built from, with the direct dependencies cached in the server. The
  scanner, the models of repositories and the artifact store are parameters. Cached dependencies
  expire (\<open>DEPENDENCY_CACHE_TTL\<close>): between any two reads keys may be gone. The source has no bound on the depth of the recursion: the model
  runs on fuel, \<open>None\<close> is a run that needs more. What the source starts together runs in order
  here, all of it, and the first rejection is the result.
\<close>

record graph_env =
  ge_dependencies :: "source \<Rightarrow> ref \<Rightarrow> dep_map res"
  ge_model :: "source \<Rightarrow> root res"
  ge_artifact :: "string \<Rightarrow> string \<Rightarrow> string \<Rightarrow> string \<Rightarrow> artifact option res"

section \<open>Cached dependencies\<close>

definition graphKey :: "source \<Rightarrow> ref \<Rightarrow> string" where
  "graphKey s r = ''dependency-cache:'' @ src_id s @ '':'' @ src_path s @ '':'' @ ref_name r"

definition dep_map_json :: "dep_map \<Rightarrow> json" where
  "dep_map_json m = JObj (map (\<lambda>(k, vs). (k, JArr (map JStr vs))) (map_toObject m))"

fun json_string :: "json \<Rightarrow> string res" where
  "json_string (JStr s) = Inr s"
| "json_string v = Inl (Error ''not a string'')"

fun json_strings :: "string \<times> json \<Rightarrow> (string \<times> string list) res" where
  "json_strings (k, JArr vs) = res_bind (res_mapM json_string vs) (\<lambda>ss. Inr (k, ss))"
| "json_strings (k, v) = Inl (Error ''not an array'')"

definition read_dep_map :: "string \<Rightarrow> dep_map res" where
  "read_dep_map s =
     (case json_parse s of
        Some (JObj fs) \<Rightarrow> res_bind (res_mapM json_strings fs) map_fromObject
      | _ \<Rightarrow> Inl (Error ''not an object''))"

definition cached_dependencies ::
    "'db redis \<Rightarrow> graph_env \<Rightarrow> source \<Rightarrow> ref \<Rightarrow> 'db \<Rightarrow> dep_map res \<times> 'db" where
  "cached_dependencies R env s r db =
     (let key = graphKey s r; cached = rd_get R key db in
      if truthy cached then (read_dep_map (the cached), db)
      else (case ge_dependencies env s r of
          Inl e \<Rightarrow> (Inl e, db)
        | Inr m \<Rightarrow> (Inr m, rd_set R key (stringify (dep_map_json m)) db)))"

section \<open>Trees\<close>

text \<open>A computation on fuel that may reject, over a state.\<close>

type_synonym ('a, 'st) run = "'st \<Rightarrow> 'a res option \<times> 'st"

fun run_all :: "('a \<Rightarrow> ('b, 'st) run) \<Rightarrow> 'a list \<Rightarrow> ('b list, 'st) run" where
  "run_all f [] st = (Some (Inr []), st)"
| "run_all f (x # xs) st =
     (let (r, st1) = f x st; (rs, st2) = run_all f xs st1
      in (case (r, rs) of
            (Some a, Some b) \<Rightarrow> Some (res_bind a (\<lambda>y. res_bind b (\<lambda>ys. Inr (y # ys))))
          | _ \<Rightarrow> None, st2))"

definition run_map :: "('a \<Rightarrow> 'b) \<Rightarrow> 'a res option \<times> 'st \<Rightarrow> 'b res option \<times> 'st" where
  "run_map f r = (map_option (\<lambda>x. res_bind x (\<lambda>y. Inr (f y))) (fst r), snd r)"

text \<open>\<open>rec\<close> is the tree of a repository at a reference.\<close>

type_synonym 'st tree_run = "source \<Rightarrow> ref \<Rightarrow> (graph_tree list, 'st) run"

definition git_versions :: "root \<Rightarrow> version list \<Rightarrow> (version \<times> string) list res" where
  "git_versions model versions =
     res_bind (res_mapM (\<lambda>v. res_bind (versionSha model v) (\<lambda>sha. Inr (v, sha))) versions) (\<lambda>vs.
       Inr (List.map_filter (\<lambda>(v, sha). map_option (\<lambda>s. (v, s)) sha) vs))"

definition artifact_source :: "artifact \<Rightarrow> source res option" where
  "artifact_source a =
     (let raw = map_of (art_properties a) PublicationRepositoryMetaDataKeys_id in
      if truthy raw then Some (source_createFromString (the raw)) else None)"

definition artifact_tag :: "version \<Rightarrow> ref" where
  "artifact_tag v = TagRef (''v'' @ version_string v)"

fun artifact_trees :: "graph_env \<Rightarrow> 'st tree_run \<Rightarrow> dep_ref \<Rightarrow> version \<Rightarrow> (graph_tree list, 'st) run" where
  "artifact_trees env rec (ArtifactRef remote repository path) v st =
     (let ref = ArtifactRef remote repository path in
      case ge_artifact env remote repository path (version_string v) of
        Inl e \<Rightarrow> (Some (Inl e), st)
      | Inr None \<Rightarrow> (Some (Inr []), st)
      | Inr (Some a) \<Rightarrow>
          (case artifact_source a of
             Some (Inr s) \<Rightarrow>
               (let (sub, st1) = rec s (artifact_tag v) st in
                (case sub of
                   None \<Rightarrow> None
                 | Some (Inr ts) \<Rightarrow> Some (Inr [GraphTree ref v [GraphTree (GitRef s) v ts]])
                 | Some (Inl e) \<Rightarrow> Some (Inr [GraphTree ref v []]), st1))
           | _ \<Rightarrow> (Some (Inr [GraphTree ref v []]), st)))"
| "artifact_trees env rec ref v st = (Some (Inr []), st)"

fun resolveGraphs :: "graph_env \<Rightarrow> 'st tree_run \<Rightarrow> dep_ref \<times> version list \<Rightarrow> (graph_tree list, 'st) run" where
  "resolveGraphs env rec (GitRef s, versions) st =
     (case res_bind (ge_model env s) (\<lambda>model. git_versions model versions) of
        Inl e \<Rightarrow> (Some (Inl e), st)
      | Inr vs \<Rightarrow> run_all (\<lambda>(v, sha) st. run_map (GraphTree (GitRef s) v) (rec s (ShaRef sha) st)) vs st)"
| "resolveGraphs env rec (ArtifactRef remote repository path, versions) st =
     run_map concat (run_all (artifact_trees env rec (ArtifactRef remote repository path)) versions st)"
| "resolveGraphs env rec (ImageRef remote repository, versions) st =
     (Some (Inr (map (\<lambda>v. GraphTree (ImageRef remote repository) v []) versions)), st)"

text \<open>\<open>deps\<close> is how the direct dependencies are found.\<close>

primrec getGraphTrees ::
    "graph_env \<Rightarrow> (source \<Rightarrow> ref \<Rightarrow> 'st \<Rightarrow> dep_map res \<times> 'st) \<Rightarrow> nat \<Rightarrow> 'st tree_run" where
  "getGraphTrees env deps 0 = (\<lambda>s r st. (None, st))"
| "getGraphTrees env deps (Suc n) = (\<lambda>s r st.
     (case deps s r st of
        (Inl e, st1) \<Rightarrow> (Some (Inl e), st1)
      | (Inr m, st1) \<Rightarrow> run_map concat (run_all (resolveGraphs env (getGraphTrees env deps n)) m st1)))"

text \<open>Without a cache.\<close>

definition scanned :: "graph_env \<Rightarrow> source \<Rightarrow> ref \<Rightarrow> unit \<Rightarrow> dep_map res \<times> unit" where
  "scanned env s r st = (ge_dependencies env s r, st)"

section \<open>The cache keeps the dependencies\<close>

definition map_ok :: "dep_map \<Rightarrow> bool" where
  "map_ok m \<longleftrightarrow> list_all entry_ok m \<and> distinct (map fst m)"

lemma toObject_print:
  assumes "map_ok m"
  shows "map_toObject m = map print_entry m" and "distinct (map fst (map print_entry m))"
proof -
  have "inj_on dep_serialize (fst ` set m)"
    using assms by (intro inj_on_dep) (auto simp: map_ok_def list_all_iff entry_ok_def)
  moreover have "map fst (map print_entry m) = map dep_serialize (map fst m)" by (simp add: print_entry_def)
  ultimately show "distinct (map fst (map print_entry m))"
    using assms by (simp add: distinct_map map_ok_def del: map_map)
  have "map_toObject m = fold (\<lambda>(k, v). AList.update k v) (map print_entry m) []"
    by (simp add: map_toObject_def fold_map comp_def print_entry_def)
  then show "map_toObject m = map print_entry m"
    using fold_update_distinct [of "[]" "map print_entry m"] \<open>distinct (map fst (map print_entry m))\<close> by simp
qed

lemma json_string_strs [simp]: "res_mapM json_string (map JStr ss) = Inr ss"
  by (induction ss) simp_all

lemma json_strings_objs [simp]: "res_mapM json_strings (map (\<lambda>(k, vs). (k, JArr (map JStr vs))) es) = Inr es"
  by (induction es) auto

lemma read_dep_map_written:
  assumes "map_ok m"
  shows "read_dep_map (stringify (dep_map_json m)) = Inr m"
proof -
  have "json_ok (dep_map_json m)"
    using toObject_print [OF assms]
    by (auto simp: dep_map_json_def list_all_iff comp_def case_prod_unfold)
  then have "read_dep_map (stringify (dep_map_json m)) = map_fromObject (map print_entry m)"
    using toObject_print(1) [OF assms] by (simp add: read_dep_map_def) (simp add: dep_map_json_def del: map_map)
  also have "\<dots> = Inr m"
    using assms unfolding map_fromObject_def map_ok_def by (induction m) auto
  finally show ?thesis .
qed

text \<open>
  The key of the cache tells references apart by their names only, and its parts by colons: references are
  printed to different keys when neither the id of the source service nor the name has a colon. Names of
  references in a repository have none; a branch, a tag and a commit of one name would share a key.
\<close>

definition keyed :: "source \<Rightarrow> ref \<Rightarrow> bool" where
  "keyed s r \<longleftrightarrow> CHR '':'' \<notin> set (src_id s) \<and> CHR '':'' \<notin> set (ref_name r)"

lemma graphKey_inject:
  assumes "keyed s r" and "keyed s' r'"
  shows "graphKey s r = graphKey s' r' \<longleftrightarrow> s = s' \<and> ref_name r = ref_name r'"
proof -
  have "graphKey s r = graphKey s' r' \<longleftrightarrow>
      src_id s @ CHR '':'' # (src_path s @ CHR '':'' # ref_name r) =
      src_id s' @ CHR '':'' # (src_path s' @ CHR '':'' # ref_name r')"
    by (simp add: graphKey_def)
  also have "\<dots> \<longleftrightarrow> src_id s = src_id s' \<and> src_path s = src_path s' \<and> ref_name r = ref_name r'"
    using assms by (simp add: keyed_def first_part_inj last_part_inj)
  finally show ?thesis by auto
qed

section \<open>What an entry leads to\<close>

text \<open>The repositories and references that an entry of the dependencies leads to.\<close>

fun calls :: "graph_env \<Rightarrow> dep_ref \<times> version list \<Rightarrow> (source \<times> ref) set" where
  "calls env (GitRef s, versions) =
     {(s, ShaRef sha) |model v sha. ge_model env s = Inr model \<and> v \<in> set versions \<and> versionSha model v = Inr (Some sha)}"
| "calls env (ArtifactRef remote repository path, versions) =
     {(s, artifact_tag v) |v a s. v \<in> set versions \<and>
       ge_artifact env remote repository path (version_string v) = Inr (Some a) \<and> artifact_source a = Some (Inr s)}"
| "calls env (ImageRef remote repository, versions) = {}"

section \<open>Coherence\<close>

text \<open>Every cached text is that of the dependencies that the scanner finds.\<close>

definition coherent :: "('db \<Rightarrow> string \<Rightarrow> rvalue option) \<Rightarrow> graph_env \<Rightarrow> 'db \<Rightarrow> bool" where
  "coherent view env db \<longleftrightarrow>
     (\<forall>s r. keyed s r \<longrightarrow> view db (graphKey s r) = None \<or>
        (\<exists>m. ge_dependencies env s r = Inr m \<and> view db (graphKey s r) = Some (RStr (stringify (dep_map_json m)))))"

text \<open>
  What the scanner is assumed to answer: dependencies that can be printed and that lead to repositories and
  references without colons, and the same for a branch, a tag or a commit of the same name. What it answers
  for other repositories and other names is independent.
\<close>

definition scanner_ok :: "graph_env \<Rightarrow> bool" where
  "scanner_ok env \<longleftrightarrow>
     (\<forall>s r m. keyed s r \<longrightarrow> ge_dependencies env s r = Inr m \<longrightarrow>
        map_ok m \<and> (\<forall>e \<in> set m. \<forall>(s', r') \<in> calls env e. keyed s' r')) \<and>
     (\<forall>s r r'. ref_name r = ref_name r' \<longrightarrow> ge_dependencies env s r = ge_dependencies env s r')"

text \<open>Keys that expired are gone; the others are as they were. Which ones are gone may differ at every read.\<close>

definition lapses :: "('db \<Rightarrow> string \<Rightarrow> rvalue option) \<Rightarrow> ('db \<Rightarrow> 'db) \<Rightarrow> bool" where
  "lapses view lapse \<longleftrightarrow> (\<forall>db k. view (lapse db) k = None \<or> view (lapse db) k = view db k)"

definition lapsed_dependencies ::
    "'db redis \<Rightarrow> graph_env \<Rightarrow> (source \<Rightarrow> ref \<Rightarrow> 'db \<Rightarrow> 'db) \<Rightarrow> source \<Rightarrow> ref \<Rightarrow> 'db \<Rightarrow> dep_map res \<times> 'db" where
  "lapsed_dependencies R env lapse s r db = cached_dependencies R env s r (lapse s r db)"

lemma coherent_lapse:
  assumes "coherent view env db" and "lapses view lapse"
  shows "coherent view env (lapse db)"
  unfolding coherent_def
proof (intro allI impI)
  fix s r assume "keyed s r"
  moreover have "view (lapse db) (graphKey s r) = None \<or> view (lapse db) (graphKey s r) = view db (graphKey s r)"
    using assms(2) unfolding lapses_def by blast
  ultimately show "view (lapse db) (graphKey s r) = None \<or>
      (\<exists>m. ge_dependencies env s r = Inr m \<and> view (lapse db) (graphKey s r) = Some (RStr (stringify (dep_map_json m))))"
    using assms(1) unfolding coherent_def by metis
qed

context redis_server
begin

lemma store_coherent:
  assumes "coherent view env db" and "scanner_ok env" and "keyed s r" and "ge_dependencies env s r = Inr m"
  shows "coherent view env (rd_set R (graphKey s r) (stringify (dep_map_json m)) db)"
  unfolding coherent_def set
proof (intro allI impI)
  fix s' r' assume k: "keyed s' r'"
  show "((view db)(graphKey s r \<mapsto> RStr (stringify (dep_map_json m)))) (graphKey s' r') = None \<or>
    (\<exists>m'. ge_dependencies env s' r' = Inr m' \<and>
      ((view db)(graphKey s r \<mapsto> RStr (stringify (dep_map_json m)))) (graphKey s' r') = Some (RStr (stringify (dep_map_json m'))))"
  proof (cases "graphKey s' r' = graphKey s r")
    case True
    then have "s' = s" "ref_name r' = ref_name r" using graphKey_inject [OF k assms(3)] by simp_all
    then have "ge_dependencies env s' r' = ge_dependencies env s r"
      using assms(2) unfolding scanner_ok_def by blast
    with True assms(4) show ?thesis by simp
  next
    case False
    have "view db (graphKey s' r') = None \<or> (\<exists>m. ge_dependencies env s' r' = Inr m \<and>
        view db (graphKey s' r') = Some (RStr (stringify (dep_map_json m))))"
      using assms(1) k unfolding coherent_def by blast
    with False show ?thesis by simp
  qed
qed

lemma cached_dependencies_coherent:
  assumes "coherent view env db" and "scanner_ok env" and k: "keyed s r"
  shows "fst (cached_dependencies R env s r db) = ge_dependencies env s r \<and>
    coherent view env (snd (cached_dependencies R env s r db))"
proof (cases "view db (graphKey s r)")
  case None
  then have miss: "rd_get R (graphKey s r) db = None" using get [of db "graphKey s r" None] by simp
  show ?thesis
  proof (cases "ge_dependencies env s r")
    case (Inl e)
    with miss assms(1) show ?thesis by (simp add: cached_dependencies_def)
  next
    case (Inr m)
    with miss store_coherent [OF assms Inr] show ?thesis by (simp add: cached_dependencies_def)
  qed
next
  case (Some x)
  have "view db (graphKey s r) = None \<or> (\<exists>m. ge_dependencies env s r = Inr m \<and>
      view db (graphKey s r) = Some (RStr (stringify (dep_map_json m))))"
    using assms(1) k unfolding coherent_def by blast
  with Some obtain m where
    m: "ge_dependencies env s r = Inr m" "view db (graphKey s r) = Some (RStr (stringify (dep_map_json m)))"
    by auto
  have "map_ok m" using assms(2) k m(1) unfolding scanner_ok_def by blast
  note read = read_dep_map_written [OF this]
  from m have "rd_get R (graphKey s r) db = Some (stringify (dep_map_json m))"
    using get [of db "graphKey s r" "Some (stringify (dep_map_json m))"] by simp
  with m(1) assms(1) read show ?thesis by (simp add: cached_dependencies_def)
qed

lemma lapsed_dependencies_coherent:
  assumes "coherent view env db" and "scanner_ok env" and "keyed s r" and "\<And>s r. lapses view (lapse s r)"
  shows "fst (lapsed_dependencies R env lapse s r db) = ge_dependencies env s r \<and>
    coherent view env (snd (lapsed_dependencies R env lapse s r db))"
  unfolding lapsed_dependencies_def
  by (rule cached_dependencies_coherent [OF coherent_lapse [OF assms(1,4)] assms(2,3)])

end

section \<open>Enough fuel\<close>

text \<open>No repository at a reference depends on itself, directly or through others: a rank decreases.\<close>

definition ranked :: "graph_env \<Rightarrow> (source \<Rightarrow> ref \<Rightarrow> nat) \<Rightarrow> bool" where
  "ranked env rank \<longleftrightarrow>
     (\<forall>s r m. ge_dependencies env s r = Inr m \<longrightarrow> (\<forall>e \<in> set m. \<forall>(s', r') \<in> calls env e. rank s' r' < rank s r))"

text \<open>Two computations that return the same, from states with the invariants.\<close>

definition agree :: "('st \<Rightarrow> bool) \<Rightarrow> ('su \<Rightarrow> bool) \<Rightarrow> ('a, 'st) run \<Rightarrow> ('a, 'su) run \<Rightarrow> bool" where
  "agree I J f g \<longleftrightarrow>
     (\<forall>st su. I st \<and> J su \<longrightarrow> fst (f st) \<noteq> None \<and> fst (g su) = fst (f st) \<and> I (snd (f st)) \<and> J (snd (g su)))"

lemma agreeD:
  "agree I J f g \<Longrightarrow> I st \<Longrightarrow> J su \<Longrightarrow>
   \<exists>x st' su'. f st = (Some x, st') \<and> g su = (Some x, su') \<and> I st' \<and> J su'"
  unfolding agree_def by (metis option.exhaust prod.collapse)

lemma agreeI:
  "(\<And>st su. I st \<Longrightarrow> J su \<Longrightarrow> \<exists>x st' su'. f st = (Some x, st') \<and> g su = (Some x, su') \<and> I st' \<and> J su') \<Longrightarrow> agree I J f g"
  unfolding agree_def by fastforce

lemma agree_return [simp]: "agree I J (\<lambda>st. (Some x, st)) (\<lambda>su. (Some x, su))"
  by (simp add: agree_def)

lemma agree_run_all:
  "(\<And>x. x \<in> set xs \<Longrightarrow> agree I J (f x) (g x)) \<Longrightarrow> agree I J (run_all f xs) (run_all g xs)"
proof (induction xs)
  case (Cons x xs)
  have head: "agree I J (f x) (g x)" and tail: "agree I J (run_all f xs) (run_all g xs)"
    using Cons by simp_all
  show ?case
  proof (rule agreeI)
    fix st su assume "I st" "J su"
    from agreeD [OF head this] obtain a st1 su1 where 1: "f x st = (Some a, st1)" "g x su = (Some a, su1)" "I st1" "J su1"
      by blast
    from agreeD [OF tail 1(3,4)] 1(1,2)
    show "\<exists>y st' su'. run_all f (x # xs) st = (Some y, st') \<and> run_all g (x # xs) su = (Some y, su') \<and> I st' \<and> J su'"
      by auto
  qed
qed (simp add: agree_def)

lemma agree_run_map: "agree I J f g \<Longrightarrow> agree I J (\<lambda>st. run_map h (f st)) (\<lambda>su. run_map h (g su))"
proof (rule agreeI)
  fix st su assume ag: "agree I J f g" and "I st" "J su"
  from agreeD [OF this]
  show "\<exists>x st' su'. run_map h (f st) = (Some x, st') \<and> run_map h (g su) = (Some x, su') \<and> I st' \<and> J su'"
    by (auto simp: run_map_def)
qed

lemma agree_artifact:
  assumes "\<And>s r. (s, r) \<in> calls env (ArtifactRef a b c, [v]) \<Longrightarrow> agree I J (rec s r) (rec' s r)"
  shows "agree I J (artifact_trees env rec (ArtifactRef a b c) v) (artifact_trees env rec' (ArtifactRef a b c) v)"
proof (cases "\<exists>x s. ge_artifact env a b c (version_string v) = Inr (Some x) \<and> artifact_source x = Some (Inr s)")
  case True
  then obtain x s where x: "ge_artifact env a b c (version_string v) = Inr (Some x)" "artifact_source x = Some (Inr s)" by blast
  then have ag: "agree I J (rec s (artifact_tag v)) (rec' s (artifact_tag v))" using assms by auto
  show ?thesis
  proof (rule agreeI)
    fix st su assume "I st" "J su"
    from agreeD [OF ag this] obtain y st' su' where
      "rec s (artifact_tag v) st = (Some y, st')" "rec' s (artifact_tag v) su = (Some y, su')" "I st'" "J su'" by blast
    with x show "\<exists>y st' su'. artifact_trees env rec (ArtifactRef a b c) v st = (Some y, st') \<and>
        artifact_trees env rec' (ArtifactRef a b c) v su = (Some y, su') \<and> I st' \<and> J su'"
      by (cases y) simp_all
  qed
next
  case False
  then show ?thesis by (auto simp: agree_def Let_def split: sum.splits option.splits)
qed

lemma git_versions_elem:
  assumes "git_versions model versions = Inr vs" and "(v, sha) \<in> set vs"
  shows "v \<in> set versions \<and> versionSha model v = Inr (Some sha)"
proof -
  from assms(1) obtain ws where ws: "res_mapM (\<lambda>v. res_bind (versionSha model v) (\<lambda>sha. Inr (v, sha))) versions = Inr ws"
    "vs = List.map_filter (\<lambda>(v, sha). map_option (\<lambda>s. (v, s)) sha) ws"
    by (auto simp: git_versions_def res_bind_eq_Inr)
  with assms(2) have "(v, Some sha) \<in> set ws" by (auto simp: map_filter_def)
  from res_mapM_back [OF ws(1) this] show ?thesis by (auto simp: res_bind_eq_Inr)
qed

lemma resolve_git:
  "res_bind (ge_model env s) (\<lambda>model. git_versions model versions) = Inr vs \<Longrightarrow>
   resolveGraphs env rec (GitRef s, versions) =
     run_all (\<lambda>(v, sha) st. run_map (GraphTree (GitRef s) v) (rec s (ShaRef sha) st)) vs"
  by (rule ext) simp

lemma resolve_artifact:
  "resolveGraphs env rec (ArtifactRef a b c, versions) =
     (\<lambda>st. run_map concat (run_all (artifact_trees env rec (ArtifactRef a b c)) versions st))"
  by (rule ext) simp

lemma agree_resolve:
  assumes "\<And>s r. (s, r) \<in> calls env e \<Longrightarrow> agree I J (rec s r) (rec' s r)"
  shows "agree I J (resolveGraphs env rec e) (resolveGraphs env rec' e)"
proof -
  obtain ref versions where e: "e = (ref, versions)" by (cases e)
  show ?thesis
  proof (cases ref)
    case (GitRef s)
    show ?thesis
    proof (cases "res_bind (ge_model env s) (\<lambda>model. git_versions model versions)")
      case (Inl x)
      then show ?thesis by (simp add: e GitRef agree_def)
    next
      case (Inr vs)
      have "agree I J (rec s (ShaRef sha)) (rec' s (ShaRef sha))" if "(v, sha) \<in> set vs" for v sha
        using assms git_versions_elem Inr that by (fastforce simp: e GitRef res_bind_eq_Inr)
      then have "agree I J (run_all (\<lambda>(v, sha) st. run_map (GraphTree (GitRef s) v) (rec s (ShaRef sha) st)) vs)
          (run_all (\<lambda>(v, sha) st. run_map (GraphTree (GitRef s) v) (rec' s (ShaRef sha) st)) vs)"
        by (intro agree_run_all) (auto intro: agree_run_map)
      then show ?thesis by (simp only: e GitRef resolve_git [OF Inr])
    qed
  next
    case (ArtifactRef a b c)
    have "agree I J (artifact_trees env rec (ArtifactRef a b c) v) (artifact_trees env rec' (ArtifactRef a b c) v)"
      if "v \<in> set versions" for v
      using assms that by (intro agree_artifact) (auto simp: e ArtifactRef)
    then have "agree I J (run_all (artifact_trees env rec (ArtifactRef a b c)) versions)
        (run_all (artifact_trees env rec' (ArtifactRef a b c)) versions)" by (rule agree_run_all)
    from agree_run_map [OF this, of concat] show ?thesis by (simp only: e ArtifactRef resolve_artifact)
  next
    case (ImageRef a b)
    then show ?thesis by (simp add: e agree_def)
  qed
qed

text \<open>A way to find dependencies that answers what the scanner answers.\<close>

definition finds :: "graph_env \<Rightarrow> ('st \<Rightarrow> bool) \<Rightarrow> (source \<Rightarrow> ref \<Rightarrow> 'st \<Rightarrow> dep_map res \<times> 'st) \<Rightarrow> bool" where
  "finds env I deps \<longleftrightarrow> (\<forall>s r st. keyed s r \<longrightarrow> I st \<longrightarrow> fst (deps s r st) = ge_dependencies env s r \<and> I (snd (deps s r st)))"

lemma agree_trees:
  assumes "ranked env rank" and "finds env I deps" and "finds env J deps'" and "scanner_ok env"
  shows "keyed s r \<Longrightarrow> rank s r < n \<Longrightarrow> rank s r < n' \<Longrightarrow> agree I J (getGraphTrees env deps n s r) (getGraphTrees env deps' n' s r)"
proof (induction n arbitrary: n' s r)
  case (Suc n)
  then obtain k where n': "n' = Suc k" by (cases n') auto
  show ?case
  proof (rule agreeI)
    fix st su assume "I st" "J su"
    with assms(2,3) Suc.prems(1) obtain st1 su1 where
      d: "deps s r st = (ge_dependencies env s r, st1)" "deps' s r su = (ge_dependencies env s r, su1)" "I st1" "J su1"
      unfolding finds_def by (metis prod.collapse)
    show "\<exists>x st' su'. getGraphTrees env deps (Suc n) s r st = (Some x, st') \<and>
        getGraphTrees env deps' n' s r su = (Some x, su') \<and> I st' \<and> J su'"
    proof (cases "ge_dependencies env s r")
      case (Inl e)
      with d show ?thesis by (simp add: n')
    next
      case (Inr m)
      have "agree I J (resolveGraphs env (getGraphTrees env deps n) e) (resolveGraphs env (getGraphTrees env deps' k) e)"
        if e: "e \<in> set m" for e
      proof (rule agree_resolve)
        fix s' r' assume call: "(s', r') \<in> calls env e"
        with assms(1) Inr e have "rank s' r' < rank s r" unfolding ranked_def by fast
        moreover have "keyed s' r'" using assms(4) Suc.prems(1) Inr e call unfolding scanner_ok_def by fast
        ultimately show "agree I J (getGraphTrees env deps n s' r') (getGraphTrees env deps' k s' r')"
          using Suc.prems n' by (intro Suc.IH) simp_all
      qed
      then have "agree I J (run_all (resolveGraphs env (getGraphTrees env deps n)) m)
          (run_all (resolveGraphs env (getGraphTrees env deps' k)) m)" by (rule agree_run_all)
      from agreeD [OF agree_run_map [OF this, of concat] d(3,4)] show ?thesis by (simp add: n' d(1,2) Inr)
    qed
  qed
qed simp

section \<open>Properties\<close>

text \<open>C11
  The tree of dependencies ends and does not depend on the cache: on any server that keeps the laws
  of its commands, whichever cached keys expire between any two reads, when every cached text is that of the
  dependencies the scanner finds for its repository and reference, and no
  repository at a reference depends on itself (a rank decreases along the dependencies), fuel above
  the rank gives a result, the same as without any cache, and the cache stays as described. So the
  recursion of the source, which has no bound, returns. The scanner is assumed to find the same for
  references of one name in a repository, and dependencies that can be printed; ids of
  source services and names of references have no colon, so that the keys of the cache are different.
\<close>

theorem graph_trees_end:
  assumes "redis_server R view" and "\<And>s r. lapses view (lapse s r)" and "coherent view env db"
    and "scanner_ok env" and "ranked env rank" and "keyed s r" and "rank s r < n"
  shows "\<exists>g db'. getGraphTrees env (lapsed_dependencies R env lapse) n s r db = (Some g, db') \<and> coherent view env db' \<and>
    (\<forall>m. rank s r < m \<longrightarrow> getGraphTrees env (scanned env) m s r () = (Some g, ()))"
proof -
  have cached: "finds env (coherent view env) (lapsed_dependencies R env lapse)"
    unfolding finds_def
    by (intro allI impI redis_server.lapsed_dependencies_coherent [OF assms(1)] assms(2,4))
  have plain: "finds env (\<lambda>st. True) (scanned env)" by (simp add: finds_def scanned_def)
  note ag = agree_trees [OF assms(5) cached plain assms(4,6,7)]
  obtain g db' where g: "getGraphTrees env (lapsed_dependencies R env lapse) n s r db = (Some g, db')" "coherent view env db'"
    using agreeD [OF ag [OF assms(7)] assms(3) TrueI] by blast
  have "getGraphTrees env (scanned env) m s r () = (Some g, ())" if "rank s r < m" for m
    using agreeD [OF ag [OF that] assms(3) TrueI, of "()"] g(1) by auto
  with g show ?thesis by blast
qed

theorem graph_trees_end_witness:
  "let s = \<lparr> src_id = ''h'', src_path = ''p'' \<rparr>; used = ArtifactRef ''store'' ''lib'' ''a'';
       env = \<lparr> ge_dependencies = (\<lambda>t r. Inr (if t = s \<and> ref_name r = ''c'' then [(used, [Version [1, 2]])] else [])),
               ge_model = (\<lambda>t. Inl (Error ''none'')),
               ge_artifact = (\<lambda>a b c v. Inr (Some \<lparr> art_version = v,
                 art_properties = [(PublicationRepositoryMetaDataKeys_id, ''h/q'')] \<rparr>)) \<rparr>;
       lapse = (\<lambda>t r. AList.delete (graphKey s (ShaRef ''c'')))
   in \<exists>g db'. getGraphTrees env (lapsed_dependencies mem_redis env lapse) 2 s (ShaRef ''c'') [] = (Some g, db') \<and>
      getGraphTrees env (scanned env) 2 s (ShaRef ''c'') () = (Some g, ())"
proof -
  let ?s = "\<lparr> src_id = ''h'', src_path = ''p'' \<rparr>" and ?used = "ArtifactRef ''store'' ''lib'' ''a''"
  let ?at = "\<lambda>t r. t = ?s \<and> ref_name r = ''c''"
  let ?env = "\<lparr> ge_dependencies = (\<lambda>t r. Inr (if ?at t r then [(?used, [Version [1, 2]])] else [])),
     ge_model = (\<lambda>t. Inl (Error ''none'')),
     ge_artifact = (\<lambda>a b c v. Inr (Some \<lparr> art_version = v,
       art_properties = [(PublicationRepositoryMetaDataKeys_id, ''h/q'')] \<rparr>)) \<rparr>"
  let ?rank = "\<lambda>t r. if ?at t r then 1 else 0 :: nat"
  let ?lapse = "\<lambda>(t :: source) (r :: ref). AList.delete (graphKey ?s (ShaRef ''c''))"
  have lapse: "lapses mem_view (?lapse t r)" for t r by (simp add: lapses_def)
  have "mem_view [] = (\<lambda>k. None)" by (simp add: mem_view_def fun_eq_iff)
  then have empty: "coherent mem_view ?env []" by (simp add: coherent_def)
  have ok: "map_ok [(?used, [Version [1, 2]])]" "map_ok []"
    by (simp_all add: map_ok_def entry_ok_def valid_version_def delimiter_def delim_safe_Cons)
  have "version_string (Version [1, 2]) = ''1.2''" by code_simp
  then have tag: "(t, r) = (\<lparr> src_id = ''h'', src_path = ''q'' \<rparr>, TagRef ''v1.2'')"
    if "(t, r) \<in> calls ?env (?used, [Version [1, 2]])" for t r
    using that by (auto simp: artifact_source_def Let_def source_createFromString_def split_eval mk_source_def artifact_tag_def)
  have "keyed t r" if "(t, r) \<in> calls ?env (?used, [Version [1, 2]])" for t r
    using tag [OF that] by (simp add: keyed_def)
  with ok have scanner_ok: "scanner_ok ?env" by (auto simp: scanner_ok_def simp del: calls.simps)
  have "\<not> ?at t r" if "(t, r) \<in> calls ?env (?used, [Version [1, 2]])" for t r
    using tag [OF that] by simp
  then have "ranked ?env ?rank" by (auto simp: ranked_def simp del: calls.simps)
  moreover have "keyed ?s (ShaRef ''c'')" by (simp add: keyed_def)
  ultimately have "\<exists>g db'. getGraphTrees ?env (lapsed_dependencies mem_redis ?env ?lapse) 2 ?s (ShaRef ''c'') [] = (Some g, db') \<and>
      getGraphTrees ?env (scanned ?env) 2 ?s (ShaRef ''c'') () = (Some g, ())"
    using graph_trees_end [OF memory.redis_server_axioms lapse empty scanner_ok, of ?rank ?s "ShaRef ''c''" 2] by fastforce
  then show ?thesis unfolding Let_def .
qed

end
