(* ===== verification/Build_System.thy ===== *)
theory Build_System
  imports Queue_Service
begin

text \<open>
  The build system around the queues, \<open>backend/src/system/build-system-impl.ts\<close>: what it does when
  the queue tells it of a change of state, when the executor signals a job, and when a rebase ends.
  What is started and not waited for is a pending command; the states of the system are those that
  any order of the pending commands, of updates and of signals can reach. Rebase, dependency graph
  and executor are external here: a command that needs them ends in any of the ways they can.
\<close>

section \<open>Changes of state\<close>

datatype command =
    StartJobs
  | Rebase job_key
  | PostProcess job_key
  | AbortJob job_key

text \<open>\<open>onQueueTransition\<close>\<close>

definition onQueueTransition :: "job_key \<Rightarrow> state \<Rightarrow> command list res" where
  "onQueueTransition job s =
     (if s = STARTING then
        (case jk_ref job of
           UpdateJob i t sha \<Rightarrow> Inr [Rebase job]
         | BranchJob b sha \<Rightarrow> Inl (Error (''Only Update builds are supported: '' @ job_toString (jk_ref job) @
             '' builds not supported. '')))
      else if s = SUCCESS then
        (case jk_ref job of
           UpdateJob i t sha \<Rightarrow> Inr [PostProcess job]
         | BranchJob b sha \<Rightarrow> Inr [])
      else if s = QUEUED then Inr [StartJobs]
      else if isStateTerminal s then Inr ((if s = ABORTED then [AbortJob job] else []) @ [StartJobs])
      else Inr [])"

text \<open>The notifications of one change, in order: one that throws ends them.\<close>

fun onQueueTransitions :: "transition list \<Rightarrow> command list" where
  "onQueueTransitions [] = []"
| "onQueueTransitions (t # ts) =
     (case onQueueTransition (tr_job t) (tr_state t) of
        Inl e \<Rightarrow> []
      | Inr cs \<Rightarrow> cs @ onQueueTransitions ts)"

datatype executor_call = StartJob job_key | AbortExecution job_key

record 'db system =
  sy_db :: 'db
  sy_pending :: "command list"
  sy_calls :: "executor_call list"
  sy_log :: "transition list"

definition notified :: "transition list \<Rightarrow> 'db \<Rightarrow> 'db system \<Rightarrow> 'db system" where
  "notified ts db sys = sys\<lparr> sy_db := db, sy_pending := sy_pending sys @ onQueueTransitions ts,
     sy_log := sy_log sys @ ts \<rparr>"

text \<open>\<open>updateQueue\<close>: an error of the queue is only logged.\<close>

definition updateQueue :: "'db redis \<Rightarrow> job_key \<Rightarrow> state \<Rightarrow> 'db system \<Rightarrow> 'db system" where
  "updateQueue R job s sys =
     (case queue_addState R job s (sy_db sys) of (result, ts, db) \<Rightarrow> notified ts db sys)"

definition pushJob :: "'db redis \<Rightarrow> job_key \<Rightarrow> int \<Rightarrow> 'db system \<Rightarrow> 'db system" where
  "pushJob R job now sys =
     (case queue_push R job now (sy_db sys) of (result, ts, db) \<Rightarrow> notified ts db sys)"

definition START_COUNT :: int where
  "START_COUNT = 10"

lemma START_COUNT_positive: "0 < START_COUNT"
  by (simp add: START_COUNT_def)

definition startJobsFromQueue :: "'db redis \<Rightarrow> 'db system \<Rightarrow> 'db system" where
  "startJobsFromQueue R sys =
     (case queue_start R START_COUNT (sy_db sys) of (result, ts, db) \<Rightarrow> notified ts db sys)"

section \<open>Signals of the executor\<close>

datatype signal = SigStarted | SigError | SigFailure | SigAborted | SigSuccess

fun signal_state :: "signal \<Rightarrow> state" where
  "signal_state SigStarted = STARTED"
| "signal_state SigError = ERROR"
| "signal_state SigFailure = FAILURE"
| "signal_state SigAborted = ABORTED"
| "signal_state SigSuccess = SUCCESS"

definition onSignal :: "'db redis \<Rightarrow> signal \<Rightarrow> job_key \<Rightarrow> 'db system \<Rightarrow> 'db system" where
  "onSignal R sig job sys = updateQueue R job (signal_state sig) sys"

section \<open>Pending commands\<close>

text \<open>
  How a rebase ends: the change has a new commit, or none was necessary and the dependency graph is
  logged, or one of the calls fails.
\<close>

datatype rebase_end = Rebased string | FastForward | RebaseFailed

fun run_rebase :: "'db redis \<Rightarrow> rebase_end \<Rightarrow> job_key \<Rightarrow> 'db system \<Rightarrow> 'db system" where
  "run_rebase R (Rebased sha) job sys = updateQueue R job REBASED sys"
| "run_rebase R FastForward job sys = sys\<lparr> sy_calls := sy_calls sys @ [StartJob job] \<rparr>"
| "run_rebase R RebaseFailed job sys = updateQueue R job CONFLICT sys"

fun run_command :: "'db redis \<Rightarrow> rebase_end \<Rightarrow> command \<Rightarrow> 'db system \<Rightarrow> 'db system" where
  "run_command R end StartJobs sys = startJobsFromQueue R sys"
| "run_command R end (Rebase job) sys = run_rebase R end job sys"
| "run_command R end (PostProcess job) sys = sys"
| "run_command R end (AbortJob job) sys = sys\<lparr> sy_calls := sy_calls sys @ [AbortExecution job] \<rparr>"

text \<open>The constructor starts jobs; every other step is an update, a signal or a pending command.\<close>

inductive system_reach :: "'db redis \<Rightarrow> ('db \<Rightarrow> string \<Rightarrow> rvalue option) \<Rightarrow> 'db system \<Rightarrow> bool"
  for R view where
  system_init: "view db = (\<lambda>k. None) \<Longrightarrow>
    system_reach R view \<lparr> sy_db = db, sy_pending = [StartJobs], sy_calls = [], sy_log = [] \<rparr>"
| system_push: "system_reach R view sys \<Longrightarrow> queueable job \<Longrightarrow> system_reach R view (pushJob R job now sys)"
| system_signal: "system_reach R view sys \<Longrightarrow> queueable job \<Longrightarrow> system_reach R view (onSignal R sig job sys)"
| system_command: "system_reach R view sys \<Longrightarrow> sy_pending sys = p @ c # q \<Longrightarrow>
    system_reach R view (run_command R end c (sys\<lparr> sy_pending := p @ q \<rparr>))"

section \<open>Queues that wait for a start\<close>

lemma startable_alt:
  assumes "queues_ok Q"
  shows "startable Q = {q. waiting Q q \<noteq> Map.empty} - dom (active Q)"
proof -
  have "q \<in> dom (ready Q) \<longleftrightarrow> waiting Q q \<noteq> Map.empty" for q
  proof
    show "q \<in> dom (ready Q) \<Longrightarrow> waiting Q q \<noteq> Map.empty" using assms by (simp add: queues_ok_def)
    assume "waiting Q q \<noteq> Map.empty"
    moreover have "finite (dom (waiting Q q))" "score_of (ready Q) q = int (card (dom (waiting Q q)))"
      using assms by (simp_all add: queues_ok_def count_ok_def)
    ultimately have "score_of (ready Q) q \<noteq> 0" by (simp add: card_gt_0_iff)
    then show "q \<in> dom (ready Q)" by (auto simp: score_of_def split: option.splits)
  qed
  moreover have "dom (busy Q) = dom (active Q)" using assms by (simp add: queues_ok_def count_ok_def)
  ultimately show ?thesis by (auto simp: startable_def)
qed

lemma startable_same:
  "queues_ok Q \<Longrightarrow> queues_ok Q' \<Longrightarrow> waiting Q' = waiting Q \<Longrightarrow> active Q' = active Q \<Longrightarrow> startable Q' = startable Q"
  by (simp add: startable_alt)

lemma startable_push:
  assumes "queues_ok Q" and "is_queue q"
  shows "startable (push_queue q ser can t Q) \<subseteq> insert q (startable Q)"
proof -
  have "waiting (push_queue q ser can t Q) p = waiting Q p" if "p \<noteq> q" for p
    using that by (simp add: push_queue_def Let_def enqueue_def release_queue_def)
  then show ?thesis using push_queue_ok [OF assms] assms(1)
    by (auto simp: startable_alt push_queue_effect split: if_splits)
qed

lemma startable_complete:
  assumes "queues_ok Q"
  shows "startable (complete_queue q ser Q) \<subseteq> insert q (startable Q)"
  using assms complete_queue_ok [OF assms, of q ser]
  by (auto simp: startable_alt complete_queue_def release_queue_def split: if_splits)

lemma take_all_startable:
  "take_all qs sers Q Q' \<Longrightarrow> dom (active Q') = set qs \<union> dom (active Q) \<and>
     (\<forall>p. waiting Q' p \<noteq> Map.empty \<longrightarrow> waiting Q p \<noteq> Map.empty)"
proof (induction rule: take_all.induct)
  case (take_next q can ser Q Q' qs sers Q'')
  have Q': "Q' = take_queue q can ser Q" using take_next.hyps(1) by (simp add: takes_def)
  have "waiting Q' p \<noteq> Map.empty \<Longrightarrow> waiting Q p \<noteq> Map.empty" for p
    by (auto simp: Q' take_queue_def split: if_splits)
  moreover have "dom (active Q') = insert q (dom (active Q))" by (auto simp: Q' take_queue_def)
  ultimately show ?case using take_next.IH by auto
qed simp

lemma starts_startable:
  assumes "starts n qs sers Q Q'" and "queues_ok Q" and "queues_ok Q'"
  shows "startable Q' \<subseteq> startable Q - set qs"
proof -
  obtain Q1 where "take_all qs sers Q Q1" "Q' = purge_ready Q1" using assms(1) by (auto simp: starts_def)
  with take_all_startable [OF this(1)] show ?thesis
    unfolding startable_alt [OF assms(2)] startable_alt [OF assms(3)] by (auto simp: purge_ready_def)
qed

section \<open>Notifications\<close>

definition starts_pending :: "command list \<Rightarrow> nat" where
  "starts_pending cs = length (filter (\<lambda>c. c = StartJobs) cs)"

definition successes :: "transition list \<Rightarrow> nat" where
  "successes ts = length (filter (\<lambda>t. tr_state t = SUCCESS) ts)"

lemma starts_pending_simps [simp]:
  "starts_pending [] = 0" "starts_pending (c # cs) = (if c = StartJobs then 1 else 0) + starts_pending cs"
  "starts_pending (cs @ ds) = starts_pending cs + starts_pending ds"
  by (simp_all add: starts_pending_def)

lemma successes_simps [simp]:
  "successes [] = 0" "successes (t # ts) = (if tr_state t = SUCCESS then 1 else 0) + successes ts"
  "successes (ts @ us) = successes ts + successes us"
  by (simp_all add: successes_def)

lemma setState_transitions:
  "map tr_job (fst (setState R s jobs db)) = jobs \<and> list_all (\<lambda>t. tr_state t = s) (fst (setState R s jobs db))"
  by (induction jobs arbitrary: db) (auto simp: split_beta Let_def)

lemma setState_single: "\<exists>old. fst (setState R s [job] db) = [\<lparr> tr_job = job, tr_state = s, tr_previous = old \<rparr>]"
  by (simp add: split_beta Let_def)

lemma addState_transitions:
  assumes "queue_addState R job s db = (Inr b, ts, db')"
  shows "\<exists>old. ts = [\<lparr> tr_job = job, tr_state = s, tr_previous = old \<rparr>]" and "b = isStateTerminal s"
  using assms setState_single [of R s job] by (auto simp: queue_addState_def split_beta Let_def split: option.splits if_splits)

lemma addState_rejected: "queue_addState R job s db = (Inl e, ts, db') \<Longrightarrow> ts = [] \<and> db' = db"
  by (auto simp: queue_addState_def split_beta Let_def split: option.splits if_splits)

text \<open>A terminal state other than success asks for a start; success does not.\<close>

lemma transition_starts:
  "isStateTerminal s \<Longrightarrow> s \<noteq> SUCCESS \<Longrightarrow>
     0 < starts_pending (onQueueTransitions [\<lparr> tr_job = job, tr_state = s, tr_previous = old \<rparr>])"
  "onQueueTransitions (\<lparr> tr_job = job, tr_state = QUEUED, tr_previous = old \<rparr> # ts) = StartJobs # onQueueTransitions ts"
  by (cases s; simp add: onQueueTransition_def isStateTerminal_def)+

context redis_server
begin

lemma startable_finite: "queue_state view db Q \<Longrightarrow> finite (startable Q)"
  using zset_finite [of db readyKey "ready Q"]
  by (auto simp: queue_state_def startable_def dest: queues_ofD(4))

lemma setState_startable:
  assumes "queue_state view db Q"
  shows "\<exists>Q'. queue_state view (snd (setState R s jobs db)) Q' \<and> startable Q' = startable Q"
proof -
  from setState_state [OF assms] obtain Q' where "queue_state view (snd (setState R s jobs db)) Q'"
    "waiting Q' = waiting Q" "active Q' = active Q" by metis
  with assms show ?thesis using startable_same [of Q Q'] by (auto simp: queue_state_def)
qed

lemma push_startable:
  assumes "queue_state view db Q" and "queueable job"
  shows "\<exists>Q'. queue_state view (snd (snd (queue_push R job t db))) Q' \<and>
    startable Q' \<subseteq> insert (localQueueKey job) (startable Q) \<and>
    0 < starts_pending (onQueueTransitions (fst (snd (queue_push R job t db))))"
proof -
  let ?q = "localQueueKey job"
  define Q0 where "Q0 = push_queue ?q (key_serialize job) (canonicalId (jk_ref job)) t Q"
  note push = push_state [OF assms, of t, folded Q0_def]
  define db0 where "db0 = snd (redis_push R job t db)"
  from push(2) obtain r where r: "redis_push R job t db = (Inr r, db0)" by (auto simp: db0_def prod_eq_iff)
  define db1 where "db1 = snd (setState R QUEUED [job] db0)"
  define db2 where "db2 = snd (setState R ABORTED (opt_list (pr_abort r)) db1)"
  obtain Q1 where Q1: "queue_state view db1 Q1" "startable Q1 = startable Q0"
    using setState_startable [OF push(1), of QUEUED "[job]"] by (auto simp: db0_def db1_def)
  obtain Q2 where Q2: "queue_state view db2 Q2" "startable Q2 = startable Q1"
    using setState_startable [OF Q1(1), of ABORTED "opt_list (pr_abort r)"] by (auto simp: db2_def)
  obtain Q3 where Q3: "queue_state view (snd (setState R CANCELLED (opt_list (pr_cancel r)) db2)) Q3" "startable Q3 = startable Q2"
    using setState_startable [OF Q2(1), of CANCELLED "opt_list (pr_cancel r)"] by auto
  have run: "snd (snd (queue_push R job t db)) = snd (setState R CANCELLED (opt_list (pr_cancel r)) db2)"
    "fst (snd (queue_push R job t db)) = fst (setState R QUEUED [job] db0) @
      fst (setState R ABORTED (opt_list (pr_abort r)) db1) @ fst (setState R CANCELLED (opt_list (pr_cancel r)) db2)"
    by (simp_all add: queue_push_def r split_beta Let_def db1_def db2_def)
  have "startable Q0 \<subseteq> insert ?q (startable Q)"
    unfolding Q0_def using assms by (intro startable_push localQueueKey_is_queue) (simp add: queue_state_def)
  then have "startable Q3 \<subseteq> insert ?q (startable Q)" using Q1(2) Q2(2) Q3(2) by simp
  moreover from setState_single [of R QUEUED job db0] obtain old where
    "fst (setState R QUEUED [job] db0) = [\<lparr> tr_job = job, tr_state = QUEUED, tr_previous = old \<rparr>]" ..
  ultimately show ?thesis using Q3(1) by (auto simp: run transition_starts(2) simp del: onQueueTransitions.simps setState.simps)
qed

lemma start_startable:
  assumes "queue_state view db Q" and "0 < n"
  shows "\<exists>Q'. queue_state view (snd (snd (queue_start R n db))) Q' \<and>
    card (startable Q') + min (nat n) (card (startable Q)) \<le> card (startable Q)"
proof -
  from start_state [OF assms(1), of n] obtain jobs Q0 where jobs: "fst (redis_start R n db) = Inr jobs"
    "queue_state view (snd (redis_start R n db)) Q0"
    "distinct (map localQueueKey jobs)" "List.set (map localQueueKey jobs) \<subseteq> startable Q"
    "length jobs = min (nat n) (card (startable Q))"
    "starts (nat n) (map localQueueKey jobs) (map key_serialize jobs) Q Q0 \<or> n \<le> 0 \<and> Q0 = Q" .
  obtain Q1 where Q1: "queue_state view (snd (setState R STARTING jobs (snd (redis_start R n db)))) Q1" "startable Q1 = startable Q0"
    using setState_startable [OF jobs(2)] by blast
  from jobs(6) assms(2) have "starts (nat n) (map localQueueKey jobs) (map key_serialize jobs) Q Q0" by simp
  then have "startable Q1 \<subseteq> startable Q - List.set (map localQueueKey jobs)"
    unfolding Q1(2) by (rule starts_startable) (use jobs(2) assms(1) in \<open>simp_all add: queue_state_def\<close>)
  then have "card (startable Q1) \<le> card (startable Q - List.set (map localQueueKey jobs))"
    using startable_finite [OF assms(1)] by (intro card_mono) auto
  also have "\<dots> = card (startable Q) - length jobs"
    using card_Diff_subset [OF _ jobs(4)] distinct_card [OF jobs(3)] by simp
  finally have "card (startable Q1) + min (nat n) (card (startable Q)) \<le> card (startable Q)" using jobs(5) by simp
  moreover have "snd (snd (queue_start R n db)) = snd (setState R STARTING jobs (snd (redis_start R n db)))"
    using jobs(1) by (auto simp: queue_start_def split_beta Let_def split: prod.splits)
  ultimately show ?thesis using Q1(1) by auto
qed

lemma addState_startable:
  assumes "queue_state view db Q" and "queueable job" and "queue_addState R job s db = (r, ts, db')"
  shows "\<exists>Q'. queue_state view db' Q' \<and>
    card (startable Q') \<le> card (startable Q) + starts_pending (onQueueTransitions ts) + successes ts"
proof (cases r)
  case (Inl e)
  with addState_rejected [of R job s db e ts db'] assms(1,3) show ?thesis by auto
next
  case (Inr b)
  note run = assms(3) [unfolded Inr]
  obtain old where ts: "ts = [\<lparr> tr_job = job, tr_state = s, tr_previous = old \<rparr>]" using addState_transitions [OF run] by blast
  show ?thesis
  proof (cases "isStateTerminal s")
    case False
    then have "db' = snd (setState R s [job] db)"
      using run by (auto simp: queue_addState_def split_beta Let_def split: option.splits if_splits)
    with setState_startable [OF assms(1), of s "[job]"] show ?thesis by auto
  next
    case True
    then have db': "db' = snd (setState R s [job] (snd (redis_complete R job db)))"
      using run by (auto simp: queue_addState_def split_beta Let_def split: option.splits if_splits)
    note c = complete_state [OF assms(1,2)]
    obtain Q' where Q': "queue_state view db' Q'"
      "startable Q' = startable (complete_queue (localQueueKey job) (key_serialize job) Q)"
      using setState_startable [OF c(1), of s "[job]"] by (auto simp: db')
    have "startable Q' \<subseteq> insert (localQueueKey job) (startable Q)"
      unfolding Q'(2) using assms(1) by (intro startable_complete) (simp add: queue_state_def)
    then have "card (startable Q') \<le> card (insert (localQueueKey job) (startable Q))"
      using startable_finite [OF assms(1)] by (intro card_mono) auto
    also have "\<dots> \<le> card (startable Q) + 1" using startable_finite [OF assms(1)] by (simp add: card_insert_if)
    finally have "card (startable Q') \<le> card (startable Q) + 1" .
    moreover have "1 \<le> starts_pending (onQueueTransitions ts) + successes ts"
      using transition_starts(1) [OF True, of job old]
      by (cases "s = SUCCESS") (simp_all add: ts Suc_le_eq del: onQueueTransitions.simps)
    ultimately have "card (startable Q') \<le> card (startable Q) + starts_pending (onQueueTransitions ts) + successes ts"
      by linarith
    with Q'(1) show ?thesis by blast
  qed
qed

end

definition waiting_bound :: "('db \<Rightarrow> string \<Rightarrow> rvalue option) \<Rightarrow> 'db system \<Rightarrow> bool" where
  "waiting_bound view sys \<longleftrightarrow> (\<exists>Q. queue_state view (sy_db sys) Q \<and>
     card (startable Q) \<le> nat START_COUNT * starts_pending (sy_pending sys) + successes (sy_log sys))"

context redis_server
begin

lemma updateQueue_bound:
  assumes "waiting_bound view sys" and "queueable job"
  shows "waiting_bound view (updateQueue R job s sys)"
proof -
  obtain r ts db' where run: "queue_addState R job s (sy_db sys) = (r, ts, db')" by (metis prod.exhaust)
  from assms(1) obtain Q where Q: "queue_state view (sy_db sys) Q"
    "card (startable Q) \<le> nat START_COUNT * starts_pending (sy_pending sys) + successes (sy_log sys)"
    by (auto simp: waiting_bound_def)
  obtain Q' where "queue_state view db' Q'"
    "card (startable Q') \<le> card (startable Q) + starts_pending (onQueueTransitions ts) + successes ts"
    using addState_startable [OF Q(1) assms(2) run] by blast
  with Q(2) show ?thesis
    by (auto simp: waiting_bound_def updateQueue_def run notified_def START_COUNT_def intro!: exI [of _ Q'])
qed

lemma pushJob_bound:
  assumes "waiting_bound view sys" and "queueable job"
  shows "waiting_bound view (pushJob R job now sys)"
proof -
  obtain r ts db' where run: "queue_push R job now (sy_db sys) = (r, ts, db')" by (metis prod.exhaust)
  from assms(1) obtain Q where Q: "queue_state view (sy_db sys) Q"
    "card (startable Q) \<le> nat START_COUNT * starts_pending (sy_pending sys) + successes (sy_log sys)"
    by (auto simp: waiting_bound_def)
  obtain Q' where Q': "queue_state view db' Q'" "startable Q' \<subseteq> insert (localQueueKey job) (startable Q)"
    "0 < starts_pending (onQueueTransitions ts)"
    using push_startable [OF Q(1) assms(2), of now] by (auto simp: run)
  have "card (startable Q') \<le> card (insert (localQueueKey job) (startable Q))"
    using startable_finite [OF Q(1)] Q'(2) by (intro card_mono) auto
  also have "\<dots> \<le> card (startable Q) + 1" using startable_finite [OF Q(1)] by (simp add: card_insert_if)
  finally show ?thesis using Q(2) Q'(1,3)
    by (auto simp: waiting_bound_def pushJob_def run notified_def START_COUNT_def intro!: exI [of _ Q'])
qed

lemma startJobs_bound:
  assumes "sy_pending sys = p @ StartJobs # q" and "waiting_bound view sys"
  shows "waiting_bound view (startJobsFromQueue R (sys\<lparr> sy_pending := p @ q \<rparr>))"
proof -
  obtain r ts db' where run: "queue_start R START_COUNT (sy_db sys) = (r, ts, db')" by (metis prod.exhaust)
  from assms(2) obtain Q where Q: "queue_state view (sy_db sys) Q"
    "card (startable Q) \<le> nat START_COUNT * starts_pending (sy_pending sys) + successes (sy_log sys)"
    by (auto simp: waiting_bound_def)
  obtain Q' where Q': "queue_state view db' Q'"
    "card (startable Q') + min (nat START_COUNT) (card (startable Q)) \<le> card (startable Q)"
    using start_startable [OF Q(1), of START_COUNT] START_COUNT_positive by (auto simp: run)
  then show ?thesis using Q(2) assms(1)
    by (auto simp: waiting_bound_def startJobsFromQueue_def run [unfolded START_COUNT_def] notified_def START_COUNT_def
      intro!: exI [of _ Q'])
qed

end

section \<open>The states of the system\<close>

definition rebases_queueable :: "command list \<Rightarrow> bool" where
  "rebases_queueable cs \<longleftrightarrow> (\<forall>job. Rebase job \<in> set cs \<longrightarrow> queueable job)"

lemma rebases_queueable_simps [simp]:
  "rebases_queueable []" "rebases_queueable (cs @ ds) \<longleftrightarrow> rebases_queueable cs \<and> rebases_queueable ds"
  "rebases_queueable (c # cs) \<longleftrightarrow> (\<forall>job. c = Rebase job \<longrightarrow> queueable job) \<and> rebases_queueable cs"
  by (auto simp: rebases_queueable_def)

lemma transition_rebases:
  "onQueueTransition job s = Inr cs \<Longrightarrow> Rebase j \<in> set cs \<Longrightarrow> s = STARTING \<and> j = job"
  by (auto simp: onQueueTransition_def split: if_splits job_ref.splits)

lemma transitions_rebases:
  "Rebase j \<in> set (onQueueTransitions ts) \<Longrightarrow> \<exists>t \<in> set ts. tr_state t = STARTING \<and> tr_job t = j"
proof (induction ts)
  case (Cons t ts)
  then obtain cs where cs: "onQueueTransition (tr_job t) (tr_state t) = Inr cs"
    by (cases "onQueueTransition (tr_job t) (tr_state t)") simp_all
  with Cons show ?case using transition_rebases [OF cs, of j] by auto
qed simp

lemma updateQueue_effect:
  assumes "queue_addState R job s (sy_db sys) = (r, ts, db')"
  shows "updateQueue R job s sys = notified ts db' sys" "\<forall>t \<in> set ts. tr_state t = s"
proof -
  show "updateQueue R job s sys = notified ts db' sys" by (simp add: updateQueue_def assms)
  show "\<forall>t \<in> set ts. tr_state t = s"
  proof (cases r)
    case (Inl e)
    then show ?thesis using addState_rejected assms by fastforce
  next
    case (Inr b)
    then show ?thesis using addState_transitions(1) assms by fastforce
  qed
qed

lemma updateQueue_rebases:
  assumes "rebases_queueable (sy_pending sys)" and "s \<noteq> STARTING"
  shows "rebases_queueable (sy_pending (updateQueue R job s sys))"
proof -
  obtain r ts db' where "queue_addState R job s (sy_db sys) = (r, ts, db')" by (metis prod.exhaust)
  from updateQueue_effect [OF this] assms show ?thesis
    by (auto simp: notified_def rebases_queueable_def dest: transitions_rebases)
qed

lemma pushJob_transitions: "queue_push R job now db = (r, ts, db') \<Longrightarrow> t \<in> set ts \<Longrightarrow> tr_state t \<noteq> STARTING"
  using setState_transitions [of R QUEUED] setState_transitions [of R ABORTED] setState_transitions [of R CANCELLED]
  by (auto simp: queue_push_def split_beta Let_def list_all_iff split: prod.splits sum.splits)

lemma pushJob_rebases:
  assumes "rebases_queueable (sy_pending sys)"
  shows "rebases_queueable (sy_pending (pushJob R job now sys))"
proof -
  obtain r ts db' where run: "queue_push R job now (sy_db sys) = (r, ts, db')" by (metis prod.exhaust)
  then show ?thesis using assms
    by (auto simp: pushJob_def notified_def rebases_queueable_def dest!: transitions_rebases dest: pushJob_transitions [OF run])
qed

definition system_ok :: "('db \<Rightarrow> string \<Rightarrow> rvalue option) \<Rightarrow> 'db system \<Rightarrow> bool" where
  "system_ok view sys \<longleftrightarrow> waiting_bound view sys \<and> rebases_queueable (sy_pending sys)"

context redis_server
begin

lemma startJobs_rebases:
  assumes "rebases_queueable (sy_pending sys)" and "queue_state view (sy_db sys) Q"
  shows "rebases_queueable (sy_pending (startJobsFromQueue R sys))"
proof -
  from start_state [OF assms(2), of START_COUNT] obtain jobs where
    jobs: "fst (redis_start R START_COUNT (sy_db sys)) = Inr jobs" "list_all queueable jobs" .
  let ?ts = "fst (setState R STARTING jobs (snd (redis_start R START_COUNT (sy_db sys))))"
  have "sy_pending (startJobsFromQueue R sys) = sy_pending sys @ onQueueTransitions ?ts"
    using jobs(1) by (auto simp: startJobsFromQueue_def queue_start_def notified_def split_beta Let_def split: prod.splits)
  moreover have "rebases_queueable (onQueueTransitions ?ts)"
    using setState_transitions [of R STARTING jobs "snd (redis_start R START_COUNT (sy_db sys))"] jobs(2)
    by (auto simp: rebases_queueable_def list_all_iff dest!: transitions_rebases)
      (metis image_eqI list.set_map)
  ultimately show ?thesis using assms(1) by simp
qed

lemma updateQueue_ok: "system_ok view sys \<Longrightarrow> queueable job \<Longrightarrow> s \<noteq> STARTING \<Longrightarrow> system_ok view (updateQueue R job s sys)"
  by (simp add: system_ok_def updateQueue_bound updateQueue_rebases)

lemma waiting_bound_cong:
  "sy_db sys' = sy_db sys \<Longrightarrow> sy_log sys' = sy_log sys \<Longrightarrow>
   starts_pending (sy_pending sys') = starts_pending (sy_pending sys) \<Longrightarrow>
   waiting_bound view sys' = waiting_bound view sys"
  by (simp add: waiting_bound_def)

lemma command_ok:
  assumes "system_ok view sys" and "sy_pending sys = p @ c # q"
  shows "system_ok view (run_command R end c (sys\<lparr> sy_pending := p @ q \<rparr>))"
proof (cases "c = StartJobs")
  case True
  have "waiting_bound view (startJobsFromQueue R (sys\<lparr> sy_pending := p @ q \<rparr>))"
    using startJobs_bound [of sys p q] assms True by (simp add: system_ok_def)
  moreover obtain Q where "queue_state view (sy_db sys) Q" using assms(1) by (auto simp: system_ok_def waiting_bound_def)
  ultimately show ?thesis using startJobs_rebases [of "sys\<lparr> sy_pending := p @ q \<rparr>" Q] assms True
    by (simp add: system_ok_def)
next
  case False
  let ?sys = "sys\<lparr> sy_pending := p @ q \<rparr>"
  have ok: "system_ok view ?sys" using assms False waiting_bound_cong [of ?sys sys] by (simp add: system_ok_def)
  then have "system_ok view (?sys\<lparr> sy_calls := cs \<rparr>)" for cs
    using waiting_bound_cong [of "?sys\<lparr> sy_calls := cs \<rparr>" ?sys] by (simp add: system_ok_def)
  with ok False assms updateQueue_ok [OF ok] show ?thesis
    by (cases c; cases "end") (auto simp: system_ok_def [of view sys])
qed

lemma system_reach_ok: "system_reach R view sys \<Longrightarrow> system_ok view sys"
proof (induction rule: system_reach.induct)
  case (system_init db)
  have "queue_state view db no_queues" using system_init by (rule queue_state_empty)
  moreover have "startable no_queues = {}" by (simp add: startable_def no_queues_def)
  ultimately show ?case by (auto simp: system_ok_def waiting_bound_def)
next
  case (system_push sys job now)
  then show ?case by (simp add: system_ok_def pushJob_bound pushJob_rebases)
next
  case (system_signal sys job sig)
  then show ?case by (cases sig) (simp_all add: onSignal_def updateQueue_ok)
next
  case (system_command sys p c q e)
  then show ?case by (simp add: command_ok)
qed

end

section \<open>Properties\<close>

text \<open>C3
  No waiting job is forgotten while no build succeeds: in every reachable state of the system,
  whatever the order of pushes, signals and pending commands, the queues that have a waiting job
  and no active one number at most ten for each pending start, plus one for each success so far.
  So without a success, once no start is pending, every queue with a waiting job is running one.
\<close>

theorem waiting_jobs_are_started:
  assumes "redis_server R view" and "system_reach R view sys"
  shows "\<exists>Q. queues_of view (sy_db sys) Q \<and>
    finite {q. waiting Q q \<noteq> Map.empty \<and> active Q q = None} \<and>
    card {q. waiting Q q \<noteq> Map.empty \<and> active Q q = None}
      \<le> nat START_COUNT * starts_pending (sy_pending sys) + successes (sy_log sys)"
proof -
  from redis_server.system_reach_ok [OF assms] obtain Q where Q: "queue_state view (sy_db sys) Q"
    "card (startable Q) \<le> nat START_COUNT * starts_pending (sy_pending sys) + successes (sy_log sys)"
    by (auto simp: system_ok_def waiting_bound_def)
  moreover have "startable Q = {q. waiting Q q \<noteq> Map.empty \<and> active Q q = None}"
    using Q(1) startable_alt [of Q] by (auto simp: queue_state_def)
  moreover have "finite (startable Q)" by (rule redis_server.startable_finite [OF assms(1) Q(1)])
  ultimately show ?thesis by (auto simp: queue_state_def)
qed

text \<open>C32
  A success starts nothing: when the executor signals the success of a started job, the queue
  of the job is freed and the waiting jobs stay, and the commands that follow are at most the
  post-processing of that job; no start is among them. The signal for a job in another state
  changes nothing.
\<close>

theorem success_starts_nothing:
  assumes "redis_server R view" and "system_reach R view sys" and "queueable job"
  shows "if getState R job (sy_db sys) = Some ''started''
    then (\<exists>cs. sy_pending (onSignal R SigSuccess job sys) = sy_pending sys @ cs \<and> set cs \<subseteq> {PostProcess job}) \<and>
      (\<exists>Q Q'. queues_of view (sy_db sys) Q \<and> queues_of view (sy_db (onSignal R SigSuccess job sys)) Q' \<and>
        waiting Q' = waiting Q \<and>
        active Q' = (if map_option snd (active Q (localQueueKey job)) = Some (key_serialize job)
          then (active Q)(localQueueKey job := None) else active Q))
    else onSignal R SigSuccess job sys = sys"
proof (cases "getState R job (sy_db sys) = Some ''started''")
  case True
  let ?db1 = "snd (redis_complete R job (sy_db sys))"
  from redis_server.system_reach_ok [OF assms(1,2)] obtain Q where Q: "queue_state view (sy_db sys) Q"
    by (auto simp: system_ok_def waiting_bound_def)
  note c = redis_server.complete_state [OF assms(1) Q assms(3)]
  obtain Q' where Q': "queue_state view (snd (setState R SUCCESS [job] ?db1)) Q'"
    "waiting Q' = waiting (complete_queue (localQueueKey job) (key_serialize job) Q)"
    "active Q' = active (complete_queue (localQueueKey job) (key_serialize job) Q)"
    using redis_server.setState_state [OF assms(1) c(1), of SUCCESS "[job]"] by metis
  have "parse_state ''started'' = Some STARTED" by (simp add: parse_state_Some)
  then have run: "queue_addState R job SUCCESS (sy_db sys) =
      (Inr True, fst (setState R SUCCESS [job] ?db1), snd (setState R SUCCESS [job] ?db1))"
    by (simp add: queue_addState_def True isTransitionValid_iff isStateTerminal_iff split_beta Let_def)
  from setState_single [of R SUCCESS job ?db1] obtain old where
    ts: "fst (setState R SUCCESS [job] ?db1) = [\<lparr> tr_job = job, tr_state = SUCCESS, tr_previous = old \<rparr>]" ..
  have cs: "set (onQueueTransitions [\<lparr> tr_job = job, tr_state = SUCCESS, tr_previous = old \<rparr>]) \<subseteq> {PostProcess job}"
    by (auto simp: onQueueTransition_def split: job_ref.splits)
  have "onSignal R SigSuccess job sys = notified [\<lparr> tr_job = job, tr_state = SUCCESS, tr_previous = old \<rparr>]
      (snd (setState R SUCCESS [job] ?db1)) sys"
    using updateQueue_effect(1) [OF run] ts by (simp add: onSignal_def)
  moreover have "active Q' = (if map_option snd (active Q (localQueueKey job)) = Some (key_serialize job)
      then (active Q)(localQueueKey job := None) else active Q)" "waiting Q' = waiting Q"
    unfolding Q'(2,3) by (simp_all add: complete_queue_def release_queue_def)
  moreover have "queues_of view (sy_db sys) Q" "queues_of view (snd (setState R SUCCESS [job] ?db1)) Q'"
    using Q Q'(1) by (simp_all add: queue_state_def)
  ultimately show ?thesis unfolding if_P [OF True] using cs
    by (intro conjI exI [of _ Q] exI [of _ Q'] exI [of _ "onQueueTransitions [\<lparr> tr_job = job, tr_state = SUCCESS, tr_previous = old \<rparr>]"])
      (simp_all add: notified_def del: onQueueTransitions.simps setState.simps)
next
  case False
  have "getState R job (sy_db sys) = Some x \<Longrightarrow> parse_state x = Some s \<Longrightarrow> \<not> isTransitionValid s SUCCESS" for x s
    using False by (cases s) (auto simp: parse_state_Some isTransitionValid_iff)
  then have "\<exists>e. queue_addState R job SUCCESS (sy_db sys) = (Inl e, [], sy_db sys)"
    by (auto simp: queue_addState_def split: option.splits)
  then show ?thesis using False by (auto simp: onSignal_def updateQueue_def notified_def)
qed

section \<open>Witnesses\<close>

lemma memory_system_reach:
  "system_reach mem_redis mem_view (pushJob mem_redis (sample_job ''7'' ''master'') 1
     \<lparr> sy_db = [], sy_pending = [StartJobs], sy_calls = [], sy_log = [] \<rparr>)"
  by (intro system_push system_init sample_job_queueable empty_memory) simp

theorem waiting_jobs_are_started_witness:
  "\<exists>Q. queues_of mem_view (sy_db (pushJob mem_redis (sample_job ''7'' ''master'') 1
     \<lparr> sy_db = [], sy_pending = [StartJobs], sy_calls = [], sy_log = [] \<rparr>)) Q"
  using waiting_jobs_are_started [OF memory.redis_server_axioms memory_system_reach] by blast

text \<open>Two changes for one branch: the first one is started while the second one waits.\<close>

definition sample_ser :: "string \<Rightarrow> string" where
  "sample_ser i = ''g/p|UpdateRef::'' @ i @ ''::master::'' @ replicate 40 (CHR ''a'')"

definition sample_queue :: string where
  "sample_queue = ''queue:g/p:local:integration_master''"

definition sample_waiting :: "mem" where
  "sample_waiting =
    [(sample_queue, CZset [(''update-7'', 1), (''update-8'', 2)]),
     (sample_queue @ '':canonical:update-7'', CStr (sample_ser ''7'')),
     (''queue:ready'', CZset [(sample_queue, 2)]),
     (''queue:status:'' @ sample_ser ''7'', CStr ''queued''),
     (sample_queue @ '':canonical:update-8'', CStr (sample_ser ''8'')),
     (''queue:status:'' @ sample_ser ''8'', CStr ''queued'')]"

definition sample_running :: "string \<Rightarrow> mem" where
  "sample_running status7 =
    [(sample_queue, CZset [(''update-8'', 2)]),
     (''queue:ready'', CZset [(sample_queue, 1)]),
     (''queue:status:'' @ sample_ser ''7'', CStr status7),
     (sample_queue @ '':canonical:update-8'', CStr (sample_ser ''8'')),
     (''queue:status:'' @ sample_ser ''8'', CStr ''queued''),
     (''queue:active'', CZset [(sample_queue, 1)]),
     (sample_queue @ '':active'', CHash [(''serialized'', sample_ser ''7''), (''canonical'', ''update-7'')])]"

lemma sample_pushed:
  "snd (snd (queue_push mem_redis (sample_job ''8'' ''master'') 2
     (snd (snd (queue_push mem_redis (sample_job ''7'' ''master'') 1 []))))) = sample_waiting"
  by code_simp

lemma sample_script:
  "start_script mem_redis readyKey busyKey 10 sample_waiting =
     (Inr [sample_ser ''7''],
      [(sample_queue, CZset [(''update-8'', 2)]),
       (''queue:ready'', CZset [(sample_queue, 1)]),
       (''queue:status:'' @ sample_ser ''7'', CStr ''queued''),
       (sample_queue @ '':canonical:update-8'', CStr (sample_ser ''8'')),
       (''queue:status:'' @ sample_ser ''8'', CStr ''queued''),
       (''queue:active'', CZset [(sample_queue, 1)]),
       (sample_queue @ '':active'', CHash [(''serialized'', sample_ser ''7''), (''canonical'', ''update-7'')])])"
  by code_simp

lemma sample_ser_job: "sample_ser ''7'' = key_serialize (sample_job ''7'' ''master'')"
  by code_simp

lemma sample_starting:
  "snd (snd (queue_start mem_redis START_COUNT sample_waiting)) = sample_running ''starting''"
proof -
  have "key_ok (sample_job ''7'' ''master'')"
    using sample_job_queueable [of "''7''" "''master''"] by (simp add: queueable_def)
  then have "redis_start mem_redis START_COUNT sample_waiting =
      (Inr [sample_job ''7'' ''master''], snd (start_script mem_redis readyKey busyKey 10 sample_waiting))"
    by (simp add: redis_start_def START_COUNT_def sample_script sample_ser_job)
  then have "snd (snd (queue_start mem_redis START_COUNT sample_waiting)) =
      snd (setState mem_redis STARTING [sample_job ''7'' ''master'']
        (snd (start_script mem_redis readyKey busyKey 10 sample_waiting)))"
    by (simp add: queue_start_def split_beta Let_def del: setState.simps)
  also have "\<dots> = sample_running ''starting''" unfolding sample_script by code_simp
  finally show ?thesis .
qed

lemma sample_started:
  "snd (snd (queue_addState mem_redis (sample_job ''7'' ''master'') STARTED (sample_running ''starting''))) =
     sample_running ''started''"
  by code_simp

lemma sample_status: "getState mem_redis (sample_job ''7'' ''master'') (sample_running ''started'') = Some ''started''"
  by code_simp

lemma sample_reach: "\<exists>sys. system_reach mem_redis mem_view sys \<and> sy_db sys = sample_running ''started''"
proof -
  have q: "queueable (sample_job i ''master'')" if "i = ''7'' \<or> i = ''8''" for i
    using that by (auto intro!: sample_job_queueable)
  let ?sys = "pushJob mem_redis (sample_job ''8'' ''master'') 2 (pushJob mem_redis (sample_job ''7'' ''master'') 1
    \<lparr> sy_db = [], sy_pending = [StartJobs], sy_calls = [], sy_log = [] \<rparr>)"
  have "system_reach mem_redis mem_view ?sys" by (intro system_push system_init empty_memory q) simp_all
  moreover obtain cs where pending: "sy_pending ?sys = [] @ StartJobs # cs"
    by (auto simp: pushJob_def notified_def split_beta)
  ultimately have "system_reach mem_redis mem_view (run_command mem_redis FastForward StartJobs (?sys\<lparr> sy_pending := [] @ cs \<rparr>))"
    by (rule system_command)
  moreover have "sy_db (run_command mem_redis FastForward StartJobs (?sys\<lparr> sy_pending := [] @ cs \<rparr>)) = sample_running ''starting''"
    using sample_pushed sample_starting
    by (simp add: startJobsFromQueue_def pushJob_def notified_def split_beta)
  ultimately obtain sys where sys: "system_reach mem_redis mem_view sys" "sy_db sys = sample_running ''starting''" by blast
  have "system_reach mem_redis mem_view (onSignal mem_redis SigStarted (sample_job ''7'' ''master'') sys)"
    using sys(1) by (rule system_signal) (simp add: q)
  moreover have "sy_db (onSignal mem_redis SigStarted (sample_job ''7'' ''master'') sys) = sample_running ''started''"
    using sample_started by (simp add: onSignal_def updateQueue_def notified_def split_beta sys(2))
  ultimately show ?thesis by blast
qed

theorem success_starts_nothing_witness:
  "\<exists>sys cs. sy_db sys = sample_running ''started'' \<and>
    sy_pending (onSignal mem_redis SigSuccess (sample_job ''7'' ''master'') sys) = sy_pending sys @ cs \<and>
    set cs \<subseteq> {PostProcess (sample_job ''7'' ''master'')}"
proof -
  from sample_reach obtain sys where sys: "system_reach mem_redis mem_view sys" "sy_db sys = sample_running ''started''" by blast
  have "queueable (sample_job ''7'' ''master'')" by (rule sample_job_queueable) simp
  from success_starts_nothing [OF memory.redis_server_axioms sys(1) this] sample_status sys(2) show ?thesis by auto
qed

end
