(* ===== verification/Publisher.thy ===== *)
theory Publisher
  imports Dependency_Lookup
begin

text \<open>
  Publishing of what a build produced, \<open>backend/src/repositories/publisher/publisher-manager-impl.ts\<close>:
  the references a repository publishes, the metadata of its artifacts, and the copies that give
  what was built for a commit the name of a version. The artifact storage and the image registries
  are parameters; calls that run together are listed in the order of their items.
\<close>

section \<open>The storage\<close>

record storage_access =
  sto_addProperties :: "string \<Rightarrow> string \<Rightarrow> string \<Rightarrow> string \<Rightarrow> (string \<times> string) list \<Rightarrow> unit res"
  sto_copy :: "string \<Rightarrow> string \<Rightarrow> string \<Rightarrow> string \<Rightarrow> string \<Rightarrow> unit res"
  sto_copyImage :: "docker_registry \<Rightarrow> string \<Rightarrow> string \<Rightarrow> string \<Rightarrow> unit res"
  sto_registries :: "docker_registry list"

datatype publish_effect =
    AddProperties string string string string "(string \<times> string) list"
  | CopyArtifact string string string string string
  | CopyImage docker_registry string string string

text \<open>\<open>ArtifactoryDockerRegistryFactoryImpl.get\<close>: its cache keeps what it has found in the configuration.\<close>

definition dockerRegistryFactory_get :: "docker_registry list \<Rightarrow> string \<Rightarrow> docker_registry option" where
  "dockerRegistryFactory_get configs remote = List.find (\<lambda>config. dr_host config = remote) configs"

text \<open>\<open>Promise.all\<close>: every call is made, and the first failure is the result.\<close>

definition all_calls :: "('e list \<times> 'a res) list \<Rightarrow> 'e list \<times> 'a list res" where
  "all_calls rs = (concat (map fst rs), res_mapM snd rs)"

section \<open>Publications\<close>

definition indexed :: "'a list \<Rightarrow> (nat \<times> 'a) list" where
  "indexed xs = zip [0..<length xs] xs"

definition artifact_publication :: "pub_artifacts \<Rightarrow> nat \<times> pub_artifact \<Rightarrow> dep_ref res" where
  "artifact_publication as ia =
     (let (index, a) = ia;
          repository = or_else (pa_repository a) (pas_repository as);
          remote = or_else (pa_remote a) (pas_remote as)
      in if repository = [] then Inl (Error (''Missing repository for artifact['' @ show_int (int index) @ '']''))
         else if remote = [] then Inl (Error (''Missing remote for artifact['' @ show_int (int index) @ '']''))
         else Inr (ArtifactRef remote repository (pa_path a)))"

definition image_publication :: "pub_images \<Rightarrow> nat \<times> pub_image \<Rightarrow> dep_ref res" where
  "image_publication is ii =
     (let (index, i) = ii; remote = or_else (pi_remote i) (pis_remote is)
      in if remote = [] then Inl (Error (''Missing remote for image['' @ show_int (int index) @ '']''))
         else Inr (ImageRef remote (pi_name i)))"

definition publications :: "publication_config option \<Rightarrow> dep_ref list res" where
  "publications publishConfig =
     (case publishConfig of
        None \<Rightarrow> Inr []
      | Some config \<Rightarrow>
          res_bind (case pc_artifacts config of
              Some as \<Rightarrow> res_mapM (artifact_publication as) (indexed (pas_items as)) | None \<Rightarrow> Inr []) (\<lambda>artifacts.
          res_bind (case pc_images config of
              Some is \<Rightarrow> res_mapM (image_publication is) (indexed (pis_items is)) | None \<Rightarrow> Inr []) (\<lambda>images.
          Inr (artifacts @ images))))"

section \<open>Metadata\<close>

definition metadata_record :: "source \<Rightarrow> (string \<times> string) list option \<Rightarrow> (string \<times> string) list" where
  "metadata_record s properties =
     AList.update PublicationRepositoryMetaDataKeys_id (source_asString s)
       (fold (\<lambda>(k, v). AList.update k v) (case properties of Some ps \<Rightarrow> ps | None \<Rightarrow> []) [])"

definition artifact_metadata ::
    "storage_access \<Rightarrow> source \<Rightarrow> string \<Rightarrow> pub_artifacts \<Rightarrow> pub_artifact \<Rightarrow> publish_effect list \<times> dep_ref res" where
  "artifact_metadata A s sha as item =
     (let remote = or_else (pa_remote item) (pas_remote as);
          repository = or_else (pa_repository item) (pas_repository as);
          artifactRef = ArtifactRef remote repository (pa_path item);
          properties = metadata_record s (pa_properties item)
      in ([AddProperties remote repository (pa_path item) sha properties],
          (case sto_addProperties A remote repository (pa_path item) sha properties of
             Inr _ \<Rightarrow> Inr artifactRef
           | Inl e \<Rightarrow> Inl (Error (''Failed to publish meta-data for artifact '' @ dep_toString artifactRef @
               '' in '' @ sha @ '': '' @ error_toString e)))))"

definition addMetaData ::
    "storage_access \<Rightarrow> publication_config option \<Rightarrow> source \<Rightarrow> string \<Rightarrow> publish_effect list \<times> unit res" where
  "addMetaData A config s sha =
     (case Option.bind config pc_artifacts of
        Some as \<Rightarrow> (case all_calls (map (artifact_metadata A s sha as) (pas_items as)) of
            (effects, result) \<Rightarrow> (effects, res_bind result (\<lambda>_. Inr ())))
      | None \<Rightarrow> ([], Inr ()))"

section \<open>Copies\<close>

definition publishImage ::
    "storage_access \<Rightarrow> string \<Rightarrow> string \<Rightarrow> string \<Rightarrow> version \<Rightarrow> publish_effect list \<times> unit res" where
  "publishImage A remote repository sha v =
     (case dockerRegistryFactory_get (sto_registries A) remote of
        Some r \<Rightarrow> ([CopyImage r repository sha (version_string v)], sto_copyImage A r repository sha (version_string v))
      | None \<Rightarrow> ([], Inl (Error (''Can not publish docker-image to '' @ remote @ ''. Missing configuration.''))))"

fun publish_ref :: "storage_access \<Rightarrow> string \<Rightarrow> version \<Rightarrow> dep_ref \<Rightarrow> publish_effect list \<times> bool res" where
  "publish_ref A sha v (ArtifactRef remote repository path) =
     ([CopyArtifact remote repository path sha (version_string v)],
      res_bind (sto_copy A remote repository path sha (version_string v)) (\<lambda>_. Inr True))"
| "publish_ref A sha v (ImageRef remote repository) =
     (case publishImage A remote repository sha v of
        (effects, result) \<Rightarrow> (effects, res_bind result (\<lambda>_. Inr True)))"
| "publish_ref A sha v (GitRef s) = ([], Inr False)"

definition publish :: "storage_access \<Rightarrow> dep_ref list \<Rightarrow> string \<Rightarrow> version \<Rightarrow> publish_effect list \<times> bool list res" where
  "publish A refs sha v = all_calls (map (publish_ref A sha v) refs)"

section \<open>Lemmas\<close>

lemma indexed_snd: "map snd (indexed xs) = xs"
  by (simp add: indexed_def)

lemma publications_artifact:
  assumes "publications (Some config) = Inr refs" and "ArtifactRef remote repository path \<in> set refs"
  obtains as item where "pc_artifacts config = Some as" "item \<in> set (pas_items as)"
    "remote = or_else (pa_remote item) (pas_remote as)" "repository = or_else (pa_repository item) (pas_repository as)"
    "path = pa_path item"
proof -
  from assms(1) obtain ars ims where
    ars: "(case pc_artifacts config of
      Some as \<Rightarrow> res_mapM (artifact_publication as) (indexed (pas_items as)) | None \<Rightarrow> Inr []) = Inr ars" and
    ims: "(case pc_images config of
      Some is \<Rightarrow> res_mapM (image_publication is) (indexed (pis_items is)) | None \<Rightarrow> Inr []) = Inr ims" and
    refs: "refs = ars @ ims"
    by (auto simp: publications_def res_bind_eq_Inr)
  have "ArtifactRef remote repository path \<notin> set ims"
    using ims res_mapM_back by (fastforce simp: image_publication_def Let_def split: option.splits if_splits)
  with assms(2) have "ArtifactRef remote repository path \<in> set ars" by (simp add: refs)
  then obtain as ia where as: "pc_artifacts config = Some as" "ia \<in> set (indexed (pas_items as))"
    "artifact_publication as ia = Inr (ArtifactRef remote repository path)"
    using ars by (auto split: option.splits dest: res_mapM_back)
  then have "snd ia \<in> set (map snd (indexed (pas_items as)))" by simp
  then have "snd ia \<in> set (pas_items as)" by (simp only: indexed_snd)
  with as that [of as "snd ia"] show ?thesis
    by (auto simp: artifact_publication_def Let_def split_beta split: if_splits)
qed

lemma metadata_record_id: "map_of (metadata_record s ps) PublicationRepositoryMetaDataKeys_id = Some (source_asString s)"
  by (simp add: metadata_record_def update_conv')

lemma artifact_repository_same:
  assumes "as \<noteq> []" and "x \<noteq> []"
    and "\<forall>a \<in> set as. map_of (art_properties a) PublicationRepositoryMetaDataKeys_id = Some x"
  shows "artifact_repository as = Some x"
proof -
  let ?f = "\<lambda>a acc. js_or acc (map_of (art_properties a) PublicationRepositoryMetaDataKeys_id)"
  have keep: "fold ?f bs (Some x) = Some x" for bs using assms(2) by (induction bs) (auto simp: js_or_def)
  show ?thesis using assms keep by (cases as) (simp_all add: artifact_repository_def js_or_def)
qed

section \<open>Properties\<close>

text \<open>C33
  Metadata lead back to the repository that published: whenever a repository publishes an
  artifact, adding its metadata stores with the build of the commit, under the same remote,
  repository and path, properties from which the lookup of dependencies finds the repository
  again, whatever properties the configuration asks for.
\<close>

theorem published_metadata_leads_back:
  assumes "publications config = Inr refs" and "ArtifactRef remote repository path \<in> set refs"
    and "src_id s \<noteq> []" and "CHR ''/'' \<notin> set (src_id s)"
  shows "\<exists>properties. AddProperties remote repository path sha properties \<in> set (fst (addMetaData A config s sha)) \<and>
    (\<forall>vs as. vs_artifacts vs remote repository path = Inr as \<and> as \<noteq> [] \<and> (\<forall>a \<in> set as. art_properties a = properties) \<longrightarrow>
      (\<exists>container. createContainer vs (ArtifactRef remote repository path) = Inr (container, Some s)))"
proof -
  from assms(1,2) obtain cfg where config: "config = Some cfg" by (cases config) (auto simp: publications_def)
  from publications_artifact [OF assms(1)[unfolded config] assms(2)] obtain arts item where
    item: "pc_artifacts cfg = Some arts" "item \<in> set (pas_items arts)"
      "remote = or_else (pa_remote item) (pas_remote arts)" "repository = or_else (pa_repository item) (pas_repository arts)"
      "path = pa_path item" .
  let ?ps = "metadata_record s (pa_properties item)"
  have "fst (artifact_metadata A s sha arts item) = [AddProperties remote repository path sha ?ps]"
    by (simp add: artifact_metadata_def Let_def item(3-5))
  then have "AddProperties remote repository path sha ?ps \<in> set (fst (addMetaData A config s sha))"
    using item(1,2) by (force simp: config addMetaData_def all_calls_def)
  moreover have "\<exists>container. createContainer vs (ArtifactRef remote repository path) = Inr (container, Some s)"
    if "vs_artifacts vs remote repository path = Inr as" "as \<noteq> []" "\<forall>a \<in> set as. art_properties a = ?ps" for vs as
  proof -
    have "source_asString s \<noteq> []" by (simp add: source_asString_def)
    then have "artifact_repository as = Some (source_asString s)"
      using that by (intro artifact_repository_same) (simp_all add: metadata_record_id)
    with that(1) assms(3,4) \<open>source_asString s \<noteq> []\<close> show ?thesis by (simp add: Let_def)
  qed
  ultimately show ?thesis by blast
qed

definition sample_storage :: storage_access where
  "sample_storage = \<lparr> sto_addProperties = (\<lambda>r p q n ps. Inr ()), sto_copy = (\<lambda>r p q a b. Inr ()),
     sto_copyImage = (\<lambda>d r a b. Inr ()), sto_registries = [] \<rparr>"

theorem published_metadata_leads_back_witness:
  "\<exists>properties. AddProperties ''af.host'' ''repo'' ''p/a'' ''abc'' properties
     \<in> set (fst (addMetaData sample_storage
       (Some \<lparr> pc_artifacts = Some \<lparr> pas_items = [\<lparr> pa_path = ''p/a'', pa_qualifiers = [], pa_remote = None,
          pa_repository = None, pa_properties = Some [(''repository.id'', ''other'')] \<rparr>],
          pas_remote = ''af.host'', pas_repository = ''repo'' \<rparr>, pc_images = None \<rparr>)
       (mk_source ''g'' ''x/y'') ''abc''))"
  using published_metadata_leads_back [of "Some \<lparr> pc_artifacts = Some \<lparr> pas_items = [\<lparr> pa_path = ''p/a'', pa_qualifiers = [],
      pa_remote = None, pa_repository = None, pa_properties = Some [(''repository.id'', ''other'')] \<rparr>],
      pas_remote = ''af.host'', pas_repository = ''repo'' \<rparr>, pc_images = None \<rparr>"
      "[ArtifactRef ''af.host'' ''repo'' ''p/a'']" "''af.host''" "''repo''" "''p/a''" "mk_source ''g'' ''x/y''" "''abc''" sample_storage]
  by (auto simp: publications_def artifact_publication_def indexed_def mk_source_def)

end
