(* ===== verification/System_Files.thy ===== *)
theory System_Files
  imports Publisher Refs
begin

text \<open>
  The configuration files of a repository as the services read them
  (\<open>backend/src/repositories/system-files-access-impl.ts\<close>), and whether a repository is active
  in this system (\<open>active-system/active-system-impl.ts\<close>). The content of a file is what the
  repository service returns for a path at a reference; the YAML library and the object mapper
  are one function from text to a configuration for each kind of file.
\<close>

section \<open>Files\<close>

record file_access =
  fa_file :: "source \<Rightarrow> string \<Rightarrow> ref \<Rightarrow> string option res"
  fa_updateBranch :: "source \<Rightarrow> ref \<Rightarrow> (string \<times> string) list \<Rightarrow> unit res"
  fa_parseRepository :: "string \<Rightarrow> repository_config res"
  fa_printRepository :: "repository_config \<Rightarrow> string"
  fa_parseBuild :: "string \<Rightarrow> build_config res"
  fa_parsePublication :: "string \<Rightarrow> publication_config res"
  fa_parseDependencies :: "string \<Rightarrow> dependencies_config res"

text \<open>A missing and an empty file are no configuration.\<close>

definition getFile :: "file_access \<Rightarrow> source \<Rightarrow> string \<Rightarrow> ref \<Rightarrow> string option res" where
  "getFile F s path r = res_bind (fa_file F s path r) (\<lambda>result. Inr (if truthy result then result else None))"

definition parsed_or_none :: "(string \<Rightarrow> 'c res) \<Rightarrow> string option \<Rightarrow> 'c option" where
  "parsed_or_none parse content =
     (if truthy content then (case parse (the content) of Inr c \<Rightarrow> Some c | Inl e \<Rightarrow> None) else None)"

definition getRepositoryConfig :: "file_access \<Rightarrow> source \<Rightarrow> repository_config option res" where
  "getRepositoryConfig F s =
     res_bind (fa_file F s ''config.yml'' MetaConfigBranchRef) (\<lambda>content.
       Inr (parsed_or_none (fa_parseRepository F) content))"

definition saveRepositoryConfig :: "file_access \<Rightarrow> source \<Rightarrow> repository_config option \<Rightarrow> unit res" where
  "saveRepositoryConfig F s config =
     (case config of
        Some c \<Rightarrow> fa_updateBranch F s MetaConfigBranchRef [(''config.yml'', fa_printRepository F c)]
      | None \<Rightarrow> Inl (Error ''Invalid config''))"

definition getBuildConfig :: "file_access \<Rightarrow> source \<Rightarrow> ref \<Rightarrow> bool \<Rightarrow> build_config option res" where
  "getBuildConfig F s r parseException =
     res_bind (fa_file F s BUILD_FILE_PATH r) (\<lambda>content.
       if truthy content then
         (case fa_parseBuild F (the content) of
            Inr c \<Rightarrow> Inr (Some c)
          | Inl e \<Rightarrow> if parseException then Inl e else Inr None)
       else Inr None)"

definition getPublicationConfig :: "file_access \<Rightarrow> source \<Rightarrow> ref \<Rightarrow> publication_config option res" where
  "getPublicationConfig F s r =
     res_bind (fa_file F s PUBLISH_FILE_PATH r) (\<lambda>content. Inr (parsed_or_none (fa_parsePublication F) content))"

definition getDependenciesConfig :: "file_access \<Rightarrow> source \<Rightarrow> ref \<Rightarrow> dependencies_config option res" where
  "getDependenciesConfig F s r =
     res_bind (fa_file F s DEPENDENCIES_FILE_PATH r) (\<lambda>content. Inr (parsed_or_none (fa_parseDependencies F) content))"

section \<open>Active in this system\<close>

definition DEFAULT_SYSTEM :: string where
  "DEFAULT_SYSTEM = ''staging''"

definition isRepositoryOnCurrentSystem :: "string option \<Rightarrow> string \<Rightarrow> string \<Rightarrow> bool" where
  "isRepositoryOnCurrentSystem repositorySystem defaultSystem currentSystem \<longleftrightarrow>
     or_else repositorySystem defaultSystem = currentSystem"

definition system_isActive :: "file_access \<Rightarrow> string \<Rightarrow> source \<Rightarrow> bool res" where
  "system_isActive F systemId s =
     res_bind (getRepositoryConfig F s) (\<lambda>config.
       Inr (isRepositoryOnCurrentSystem (Option.bind config rc_activeSystem) DEFAULT_SYSTEM systemId))"

section \<open>Lemmas\<close>

lemma getBuildConfig_strict:
  "getBuildConfig F s r True = Inr c \<Longrightarrow> getBuildConfig F s r False = Inr c"
  by (auto simp: getBuildConfig_def res_bind_eq_Inr split: sum.splits if_splits)

text \<open>A configuration that was saved is read back when the parser reads what it prints.\<close>

lemma saved_config_read:
  assumes "fa_file F s ''config.yml'' MetaConfigBranchRef = Inr (Some (fa_printRepository F c))"
    and "fa_printRepository F c \<noteq> []" and "fa_parseRepository F (fa_printRepository F c) = Inr c"
  shows "getRepositoryConfig F s = Inr (Some c)"
  using assms by (simp add: getRepositoryConfig_def parsed_or_none_def)

end
