(* ===== verification/Build_Events.thy ===== *)
theory Build_Events
  imports System_Files Model_Reader Scanner_Manager
begin

text \<open>
  What the build system does with the outcome of a build and with the events of the repository
  services: post-processing of a success, \<open>release\<close>, \<open>onUpdate\<close>, \<open>onPush\<close>, \<open>onDelete\<close> and
  \<open>onPrune\<close> of \<open>backend/src/system/build-system-impl.ts\<close>. Each operation returns the calls it
  makes to other services, in order, and its result. The answers of those services are a record;
  \<open>onPush\<close> may ask twice, and the second answers are a record of their own.
\<close>

section \<open>Calls and answers\<close>

datatype log_level = LogDebug | LogInfo | LogWarning | LogError

datatype system_effect =
    Log string log_level source string
  | Publishing publish_effect
  | SetValidBuild string string string
  | GetLabels string
  | MergeUpdate string string
  | CreateTag string string string string
  | EnsureRefCall source ref string
  | EnsureEntityCall source entity string
  | EnsureDeletedCall source ref
  | FetchAllDefaults source
  | PruneCall source
  | SetInfoUrl job_key string
  | AddActive source
  | RemoveActive source
  | PushToQueue job_key
  | RegisterDependencies source
  | InvalidateVersions "dep_ref list"
  | ProcessUsers source "dep_ref list"

record answers =
  an_files :: file_access
  an_storage :: storage_access
  an_systemId :: string
  an_frontendUrl :: string
  an_model :: "source \<Rightarrow> root res"
  an_setValidBuild :: "string \<Rightarrow> string \<Rightarrow> string \<Rightarrow> unit res"
  an_labels :: "string \<Rightarrow> string list option res"
  an_merge :: "string \<Rightarrow> string \<Rightarrow> entity res"
  an_createTag :: "string \<Rightarrow> string \<Rightarrow> string \<Rightarrow> string \<Rightarrow> entity res"
  an_ensureRef :: "source \<Rightarrow> ref \<Rightarrow> string \<Rightarrow> unit res"
  an_ensureEntity :: "source \<Rightarrow> entity \<Rightarrow> string \<Rightarrow> unit res"
  an_fetchAll :: "source \<Rightarrow> unit res"
  an_register :: "source \<Rightarrow> unit res"
  an_invalidate :: "dep_ref list \<Rightarrow> unit res"

text \<open>One operation after the other: the second one runs when the first one has a value.\<close>

definition and_then :: "'e list \<times> 'a res \<Rightarrow> ('a \<Rightarrow> 'e list \<times> 'b res) \<Rightarrow> 'e list \<times> 'b res" where
  "and_then p f =
     (case p of
        (effects, Inl e) \<Rightarrow> (effects, Inl e)
      | (effects, Inr x) \<Rightarrow> (case f x of (effects', r) \<Rightarrow> (effects @ effects', r)))"

definition publishing :: "publish_effect list \<times> 'a res \<Rightarrow> system_effect list \<times> 'a res" where
  "publishing p = (map Publishing (fst p), snd p)"

section \<open>Release\<close>

definition publications_at :: "answers \<Rightarrow> source \<Rightarrow> ref \<Rightarrow> dep_ref list res" where
  "publications_at E s r = res_bind (getPublicationConfig (an_files E) s r) publications"

definition published_message :: "dep_ref list \<Rightarrow> version \<Rightarrow> string" where
  "published_message refs v = ''Published references: '' @
     join '', '' (map (\<lambda>r. ''`'' @ dep_toString r @ '':'' @ version_string v @ ''`'') refs)"

definition release_publish :: "answers \<Rightarrow> source \<Rightarrow> entity \<Rightarrow> version \<Rightarrow> string \<Rightarrow> system_effect list \<times> unit res" where
  "release_publish E s branch v logId =
     and_then ([], publications_at E s (ShaRef (e_sha branch))) (\<lambda>refs.
       if refs \<noteq> [] then
         and_then (publishing (publish (an_storage E) refs (e_sha branch) v)) (\<lambda>_.
           ([Log (published_message refs v) LogInfo s logId], Inr ()))
       else ([], Inr ()))"

definition release_tag :: "answers \<Rightarrow> source \<Rightarrow> entity \<Rightarrow> version \<Rightarrow> string \<Rightarrow> system_effect list \<times> version res" where
  "release_tag E s branch v logId =
     (let name = ''v'' @ version_string v; call = CreateTag (src_path s) (e_sha branch) name ''Released by Common-build''
      in case an_createTag E (src_path s) (e_sha branch) name ''Released by Common-build'' of
        Inr tag \<Rightarrow> ([call, Log (''Released version `'' @ version_string v @ ''`'') LogInfo s logId], Inr v)
      | Inl e \<Rightarrow> ([call, Log (''Could not create Git-release: '' @ error_toString e) LogError s logId], Inl e))"

definition release :: "answers \<Rightarrow> source \<Rightarrow> entity \<Rightarrow> version_type \<Rightarrow> system_effect list \<times> version res" where
  "release E s branch vt =
     (let logId = canonicalId (BranchJob (e_ref branch) (e_sha branch)) in
      and_then ([], res_bind (an_model E s) (\<lambda>model. nextVersion model (e_ref branch) vt)) (\<lambda>v.
        case and_then (release_publish E s branch v logId) (\<lambda>_. release_tag E s branch v logId) of
          (effects, Inl e) \<Rightarrow>
            (effects @ [Log (''Could not publish binaries. '' @ error_toString e) LogError s logId], Inl e)
        | (effects, Inr v) \<Rightarrow> (effects, Inr v)))"

section \<open>Success\<close>

fun action_string :: "action \<Rightarrow> string" where
  "action_string Nothing = ''nothing''"
| "action_string Merge = ''merge''"
| "action_string Release = ''release''"

definition merged_effects :: "answers \<Rightarrow> source \<Rightarrow> string \<Rightarrow> string \<Rightarrow> action \<Rightarrow> entity \<Rightarrow> system_effect list" where
  "merged_effects E s upd logId action branch =
     (let branchLog = canonicalId (BranchJob (e_ref branch) (e_sha branch)) in
      [Log (''Merged to target branch `'' @ ref_name (e_ref branch) @ ''` Post-process action `'' @ action_string action @
          ''`. Continued [log]('' @ branchLog @ '')'') LogInfo s logId,
       Log (''Merged update `'' @ upd @ ''`. Previous [log]('' @ logId @ '')'') LogInfo s branchLog] @
      (if action = Release then
         (case release E s branch MINOR of
            (effects, Inl e) \<Rightarrow> effects @ [Log (''Could not release: '' @ error_toString e) LogError s logId]
          | (effects, Inr v) \<Rightarrow> effects)
       else []))"

definition success_action :: "repository_config \<Rightarrow> string list option \<Rightarrow> action" where
  "success_action config given =
     (let ba = rc_buildAutomation config in
      case calculateAction (case given of Some ls \<Rightarrow> ls | None \<Rightarrow> []) (ba_labels ba) of
        Some a \<Rightarrow> a
      | None \<Rightarrow> ba_default ba)"

definition after_labels :: "answers \<Rightarrow> repository_config \<Rightarrow> source \<Rightarrow> string \<Rightarrow> string \<Rightarrow> system_effect list" where
  "after_labels E config s upd logId =
     GetLabels upd #
       (case an_labels E upd of
          Inl e \<Rightarrow> [Log (''Coult not post-proces change: '' @ error_toString e) LogInfo s logId]
        | Inr given \<Rightarrow>
            (let action = success_action config given in
             if action = Merge \<or> action = Release then
               MergeUpdate (src_path s) upd #
                 (case an_merge E (src_path s) upd of
                    Inl e \<Rightarrow> [Log (''Could not merge: '' @ error_toString e) LogError s logId]
                  | Inr branch \<Rightarrow> merged_effects E s upd logId action branch)
             else [Log (''Post processing action `'' @ action_string action @ ''` resolved. Change left un-merged.'')
                     LogInfo s logId]))"

fun post_process :: "answers \<Rightarrow> source \<Rightarrow> job_ref \<Rightarrow> system_effect list" where
  "post_process E s (UpdateJob upd target sha) =
     (case getRepositoryConfig (an_files E) s of
        Inr (Some config) \<Rightarrow>
          fst (and_then ([], getPublicationConfig (an_files E) s (ShaRef sha)) (\<lambda>pc.
               and_then (publishing (addMetaData (an_storage E) pc s sha)) (\<lambda>_.
               and_then ([SetValidBuild (src_id s) upd sha], an_setValidBuild E (src_id s) upd sha) (\<lambda>_.
                 (after_labels E config s upd (canonicalId (UpdateJob upd target sha)), Inr ())))))
      | _ \<Rightarrow> [])"
| "post_process E s (BranchJob b sha) = []"

section \<open>Events\<close>

datatype build_check = NotActive | ConfigOf build_config | ConfigError error

definition getBuildConfigIfActive :: "answers \<Rightarrow> source \<Rightarrow> string \<Rightarrow> build_check res" where
  "getBuildConfigIfActive E s sha =
     res_bind (system_isActive (an_files E) (an_systemId E) s) (\<lambda>active.
       if active then
         (case getBuildConfig (an_files E) s (ShaRef sha) True of
            Inr (Some c) \<Rightarrow> Inr (ConfigOf c)
          | Inr None \<Rightarrow> Inr NotActive
          | Inl e \<Rightarrow> Inr (ConfigError e))
       else Inr NotActive)"

definition update_job :: "source \<Rightarrow> open_update \<Rightarrow> job_key" where
  "update_job s u = mk_job_key s (UpdateJob (up_id u) (up_target u) (up_sha u))"

text \<open>\<open>onUpdate\<close>: an error that is thrown is only logged.\<close>

definition onUpdate :: "answers \<Rightarrow> source \<Rightarrow> open_update \<Rightarrow> string \<Rightarrow> bool \<Rightarrow> system_effect list" where
  "onUpdate E s u message error =
     (let ensure = EnsureRefCall s (ShaRef (up_sha u)) (update_refSpec u);
          job = update_job s u; logId = canonicalId (jk_ref job);
          info = SetInfoUrl job (getLogUrl (an_frontendUrl E) s logId)
      in ensure #
        (case res_bind (an_ensureRef E s (ShaRef (up_sha u)) (update_refSpec u)) (\<lambda>_.
            getBuildConfigIfActive E s (up_sha u)) of
           Inr (ConfigOf c) \<Rightarrow>
             (if error then [info, Log message LogWarning s logId]
              else [info, Log message LogInfo s logId, AddActive s, PushToQueue job])
         | Inr (ConfigError e) \<Rightarrow>
             [info, Log (''Parse error on `'' @ BUILD_FILE_PATH @ ''`: '' @ error_toString e) LogError s logId]
         | _ \<Rightarrow> []))"

text \<open>
  What a push leads to once the repository is active and its build file parses. The calls that
  follow a release are not waited for: when the cached versions cannot be dropped, no user is processed, and
  the push counts as handled all the same.
\<close>

definition pushed_release :: "answers \<Rightarrow> source \<Rightarrow> ref \<Rightarrow> system_effect list \<times> unit res" where
  "pushed_release E s r =
     and_then ([], publications_at E s r) (\<lambda>refs.
       (let released = GitRef s # refs in
        (InvalidateVersions released #
           (case an_invalidate E released of Inr _ \<Rightarrow> [ProcessUsers s released] | Inl e \<Rightarrow> []), Inr ())))"

definition pushed_main :: "answers \<Rightarrow> source \<Rightarrow> string \<Rightarrow> system_effect list \<times> unit res" where
  "pushed_main E s sha =
     and_then ([], getBuildConfig (an_files E) s (ShaRef sha) False) (\<lambda>config.
       ([if config \<noteq> None then AddActive s else RemoveActive s], Inr ()))"

definition pushed :: "answers \<Rightarrow> source \<Rightarrow> entity \<Rightarrow> system_effect list \<times> unit res" where
  "pushed E s entity =
     (case normalize (e_ref entity) of
        None \<Rightarrow> ([], Inr ())
      | Some n \<Rightarrow>
          and_then ([RegisterDependencies s], an_register E s) (\<lambda>_.
            case n of
              MainBranchRef name \<Rightarrow> pushed_main E s (e_sha entity)
            | ReleaseTagRef segs \<Rightarrow> pushed_release E s (e_ref entity)
            | _ \<Rightarrow> ([], Inr ())))"

definition push_command :: "answers \<Rightarrow> source \<Rightarrow> entity \<Rightarrow> system_effect list \<times> unit res" where
  "push_command E s entity =
     (let spec = refSpec (e_ref entity) in
      and_then
        (if is_branch_ref (e_ref entity)
         then ([EnsureEntityCall s entity spec], an_ensureEntity E s entity spec)
         else ([EnsureRefCall s (e_ref entity) spec], an_ensureRef E s (e_ref entity) spec)) (\<lambda>_.
      and_then ([], getBuildConfigIfActive E s (e_sha entity)) (\<lambda>check.
        case check of
          ConfigOf c \<Rightarrow> pushed E s entity
        | ConfigError e \<Rightarrow> ([], Inr ())
        | NotActive \<Rightarrow> ([], Inr ()))))"

text \<open>\<open>onPush\<close>: when the first attempt fails everything is fetched, and the second one is the last.\<close>

definition onPush :: "answers \<Rightarrow> answers \<Rightarrow> source \<Rightarrow> entity \<Rightarrow> system_effect list" where
  "onPush E E2 s entity =
     (case push_command E s entity of
        (effects, Inr _) \<Rightarrow> effects
      | (effects, Inl e) \<Rightarrow>
          effects @ fst (and_then ([FetchAllDefaults s], an_fetchAll E2 s) (\<lambda>_. push_command E2 s entity)))"

definition onDelete :: "answers \<Rightarrow> source \<Rightarrow> ref \<Rightarrow> system_effect list" where
  "onDelete E s r =
     (case system_isActive (an_files E) (an_systemId E) s of
        Inr True \<Rightarrow> [EnsureDeletedCall s r]
      | _ \<Rightarrow> [])"

definition onPrune :: "answers \<Rightarrow> source \<Rightarrow> system_effect list \<times> unit res" where
  "onPrune E s =
     and_then ([], system_isActive (an_files E) (an_systemId E) s) (\<lambda>active.
       (if active then [PruneCall s] else [], Inr ()))"

datatype executor_level = ExecutorInfo | ExecutorWarning

definition onJobLog :: "job_key \<Rightarrow> string \<Rightarrow> executor_level \<Rightarrow> system_effect list" where
  "onJobLog job message level =
     [Log message (if level = ExecutorWarning then LogWarning else LogInfo) (jk_source job) (canonicalId (jk_ref job))]"


section \<open>Sequences of calls\<close>

lemma and_then_Inl: "and_then (effects, Inl e) f = (effects, Inl e)"
  by (simp add: and_then_def)

lemma and_then_Inr: "and_then (effects, Inr x) f = (effects @ fst (f x), snd (f x))"
  by (simp add: and_then_def split_beta)

lemma and_then_result: "snd (and_then p f) = res_bind (snd p) (\<lambda>x. snd (f x))"
  by (cases p; cases "snd p") (simp_all add: and_then_def split_beta)

lemma and_then_effects: "fst (and_then p f) = fst p @ (case snd p of Inl e \<Rightarrow> [] | Inr x \<Rightarrow> fst (f x))"
  by (cases p; cases "snd p") (simp_all add: and_then_def split_beta)

lemmas and_then_simps = and_then_Inl and_then_Inr and_then_result and_then_effects

lemma publishing_sel [simp]: "fst (publishing p) = map Publishing (fst p)" "snd (publishing p) = snd p"
  by (simp_all add: publishing_def)

lemma publish_none [simp]: "publish A [] sha v = ([], Inr [])"
  by (simp add: publish_def all_calls_def)

lemma release_publish_result:
  "snd (release_publish E s branch v logId) =
     res_bind (publications_at E s (ShaRef (e_sha branch))) (\<lambda>refs.
       res_bind (snd (publish (an_storage E) refs (e_sha branch) v)) (\<lambda>_. Inr ()))"
  by (cases "publications_at E s (ShaRef (e_sha branch))") (simp_all add: release_publish_def and_then_simps)

lemma release_publish_effects:
  "publications_at E s (ShaRef (e_sha branch)) = Inr refs \<Longrightarrow>
   snd (publish (an_storage E) refs (e_sha branch) v) = Inr bs \<Longrightarrow>
   fst (release_publish E s branch v logId) = map Publishing (fst (publish (an_storage E) refs (e_sha branch) v)) @
     (if refs = [] then [] else [Log (published_message refs v) LogInfo s logId])"
  by (simp add: release_publish_def and_then_simps)

lemma release_publish_tag: "CreateTag p h n m \<notin> set (fst (release_publish E s branch v logId))"
  by (cases "publications_at E s (ShaRef (e_sha branch))")
    (auto simp: release_publish_def and_then_simps split: sum.splits)

lemma release_result:
  "snd (release E s branch vt) =
     res_bind (an_model E s) (\<lambda>model. res_bind (nextVersion model (e_ref branch) vt) (\<lambda>v.
     res_bind (snd (release_publish E s branch v (canonicalId (BranchJob (e_ref branch) (e_sha branch))))) (\<lambda>_.
     snd (release_tag E s branch v (canonicalId (BranchJob (e_ref branch) (e_sha branch)))))))"
  by (cases "an_model E s")
    (auto simp: release_def Let_def and_then_def res_bind_def split_beta split: sum.splits prod.splits)

text \<open>
  The client of the storage was asked to copy a reference to a version, and answered that this was done. That
  the copy was made is not said: for images the client does not wait for the upload, and it
  takes a path of a single name as done (\<open>image_copy_ignores_upload\<close> and \<open>short_path_is_not_copied\<close> in \<open>Artifacts\<close>).
\<close>

fun copy_accepted :: "storage_access \<Rightarrow> string \<Rightarrow> version \<Rightarrow> publish_effect list \<Rightarrow> dep_ref \<Rightarrow> bool" where
  "copy_accepted A sha v copies (ArtifactRef remote repository path) \<longleftrightarrow>
     CopyArtifact remote repository path sha (version_string v) \<in> set copies \<and>
     sto_copy A remote repository path sha (version_string v) = Inr ()"
| "copy_accepted A sha v copies (ImageRef remote repository) \<longleftrightarrow>
     (\<exists>r. dockerRegistryFactory_get (sto_registries A) remote = Some r \<and>
       CopyImage r repository sha (version_string v) \<in> set copies \<and>
       sto_copyImage A r repository sha (version_string v) = Inr ())"
| "copy_accepted A sha v copies (GitRef s) \<longleftrightarrow> True"

lemma publish_accepted:
  assumes "snd (publish A refs sha v) = Inr bs" and "r \<in> set refs"
  shows "copy_accepted A sha v (fst (publish A refs sha v)) r"
proof -
  from assms have "\<exists>b. snd (publish_ref A sha v r) = Inr b"
    using res_mapM_all [of snd "map (publish_ref A sha v) refs" bs "publish_ref A sha v r"]
    by (auto simp: publish_def all_calls_def)
  moreover have "set (fst (publish_ref A sha v r)) \<subseteq> set (fst (publish A refs sha v))"
    using assms(2) by (auto simp: publish_def all_calls_def)
  ultimately show ?thesis
    by (cases r) (auto simp: publishImage_def res_bind_eq_Inr split: option.splits)
qed

lemma release_no_merge: "MergeUpdate p u \<notin> set (fst (release E s branch vt))"
proof -
  have "MergeUpdate p u \<notin> set (fst (release_publish E s branch v i))" for v i
    by (cases "publications_at E s (ShaRef (e_sha branch))")
      (auto simp: release_publish_def and_then_simps split: sum.splits)
  moreover have "MergeUpdate p u \<notin> set (fst (release_tag E s branch v i))" for v i
    by (simp add: release_tag_def Let_def split: sum.splits)
  ultimately show ?thesis by (auto simp: release_def Let_def and_then_def split: prod.splits sum.splits) (metis fst_conv)+
qed

lemma merged_no_merge: "MergeUpdate p u \<notin> set (merged_effects E s upd logId action branch)"
proof -
  obtain effects result where run: "release E s branch MINOR = (effects, result)" by (rule prod.exhaust)
  with release_no_merge [of p u E s branch MINOR] have "MergeUpdate p u \<notin> set effects" by simp
  then show ?thesis unfolding merged_effects_def Let_def run by (cases result; cases action; simp)
qed

lemma after_labels_merge:
  "MergeUpdate p u \<in> set (after_labels E config s upd logId) \<longleftrightarrow>
     p = src_path s \<and> u = upd \<and> (\<exists>given. an_labels E upd = Inr given \<and> success_action config given \<noteq> Nothing)"
proof (cases "an_labels E upd")
  case (Inl e)
  then show ?thesis by (simp add: after_labels_def)
next
  case (Inr given)
  then show ?thesis
    by (cases "success_action config given") (auto simp: after_labels_def Let_def merged_no_merge split: sum.splits)
qed

text \<open>A file that parsed at a commit is there when it is read again.\<close>

lemma checked_config:
  "getBuildConfigIfActive E s sha = Inr (ConfigOf c) \<Longrightarrow> getBuildConfig (an_files E) s (ShaRef sha) False = Inr (Some c)"
  by (auto simp: getBuildConfigIfActive_def res_bind_eq_Inr dest: getBuildConfig_strict
    split: if_splits sum.splits option.splits)

lemma pushed_keeps_active:
  "getBuildConfigIfActive E s (e_sha entity) = Inr (ConfigOf c) \<Longrightarrow> RemoveActive t \<notin> set (fst (pushed E s entity))"
  by (auto simp: pushed_def pushed_main_def pushed_release_def and_then_effects checked_config Let_def
    split: option.splits sum.splits normalized.splits)

lemma push_command_keeps_active: "RemoveActive t \<notin> set (fst (push_command E s entity))"
  using pushed_keeps_active [of E s entity]
  by (auto simp: push_command_def Let_def and_then_effects split: sum.splits build_check.splits) metis+

lemma onPush_alt:
  "onPush E E2 s entity = fst (push_command E s entity) @
     (case snd (push_command E s entity) of
        Inr _ \<Rightarrow> []
      | Inl e \<Rightarrow> fst (and_then ([FetchAllDefaults s], an_fetchAll E2 s) (\<lambda>_. push_command E2 s entity)))"
  by (cases "push_command E s entity"; cases "snd (push_command E s entity)") (simp_all add: onPush_def)

section \<open>Properties\<close>

text \<open>C5
  A version is tagged only after the storage answered for everything that is published: when a release succeeds with a
  version, or asks for a tag, the version is the next one of the model, and for everything that the repository publishes
  at the commit the client of the storage that it names was asked to copy it from the commit to that version and
  answered that this was done, all before the tag of the version was asked for, on that commit. No tag is asked for
  with another commit or name, or after a copy was refused. Whether an answer is true is the client's matter: those of
  this program answer for some copies that they did not make.
\<close>

theorem release_tags_after_publishing:
  assumes "CreateTag p h name m \<in> set (fst (release E s branch vt)) \<or> (\<exists>v. snd (release E s branch vt) = Inr v)"
  shows "\<exists>model v refs copies rest.
    an_model E s = Inr model \<and> nextVersion model (e_ref branch) vt = Inr v \<and>
    publications_at E s (ShaRef (e_sha branch)) = Inr refs \<and>
    fst (release E s branch vt) = map Publishing copies @
      (if refs = [] then [] else [Log (published_message refs v) LogInfo s (canonicalId (BranchJob (e_ref branch) (e_sha branch)))]) @
      CreateTag (src_path s) (e_sha branch) (''v'' @ version_string v) ''Released by Common-build'' # rest \<and>
    (\<forall>r \<in> set refs. copy_accepted (an_storage E) (e_sha branch) v copies r) \<and>
    (\<forall>p h name m. CreateTag p h name m \<notin> set rest) \<and>
    (snd (release E s branch vt) = Inr v \<longleftrightarrow>
      (\<exists>t. an_createTag E (src_path s) (e_sha branch) (''v'' @ version_string v) ''Released by Common-build'' = Inr t))"
proof -
  let ?id = "canonicalId (BranchJob (e_ref branch) (e_sha branch))" and ?sha = "e_sha branch"
  obtain model v where model: "an_model E s = Inr model" "nextVersion model (e_ref branch) vt = Inr v"
    using assms by (cases "an_model E s"; cases "nextVersion (projr (an_model E s)) (e_ref branch) vt")
      (auto simp: release_def Let_def and_then_simps)
  have run: "release E s branch vt =
      (case and_then (release_publish E s branch v ?id) (\<lambda>_. release_tag E s branch v ?id) of
        (effects, Inl e) \<Rightarrow> (effects @ [Log (''Could not publish binaries. '' @ error_toString e) LogError s ?id], Inl e)
      | (effects, Inr v) \<Rightarrow> (effects, Inr v))"
    by (simp add: release_def model and_then_def Let_def split: prod.splits sum.splits)
  obtain u where u: "snd (release_publish E s branch v ?id) = Inr u"
    using assms release_publish_tag [of p h name m E s branch v ?id]
    by (cases "snd (release_publish E s branch v ?id)") (auto simp: run and_then_def split: prod.splits sum.splits)
  then obtain refs bs where refs: "publications_at E s (ShaRef ?sha) = Inr refs"
    "snd (publish (an_storage E) refs ?sha v) = Inr bs"
    by (auto simp: release_publish_result res_bind_eq_Inr)
  note effects = release_publish_effects [OF refs, of ?id]
  have copied: "\<forall>r \<in> set refs. copy_accepted (an_storage E) ?sha v (fst (publish (an_storage E) refs ?sha v)) r"
    using publish_accepted [OF refs(2)] by blast
  let ?name = "''v'' @ version_string v"
  define copies where "copies = fst (publish (an_storage E) refs ?sha v)"
  define head where "head = map Publishing copies @ (if refs = [] then [] else [Log (published_message refs v) LogInfo s ?id])"
  have pub: "release_publish E s branch v ?id = (head, Inr u)"
    using u effects by (simp add: prod_eq_iff head_def copies_def)
  obtain rest where rest: "fst (release E s branch vt) =
        head @ CreateTag (src_path s) ?sha ?name ''Released by Common-build'' # rest"
      "\<forall>p h name m. CreateTag p h name m \<notin> set rest"
      "snd (release E s branch vt) = Inr v \<longleftrightarrow>
        (\<exists>t. an_createTag E (src_path s) ?sha ?name ''Released by Common-build'' = Inr t)"
    unfolding run pub and_then_Inr release_tag_def Let_def
    by (cases "an_createTag E (src_path s) ?sha ?name ''Released by Common-build''") simp_all
  show ?thesis
  proof (intro exI conjI)
    show "an_model E s = Inr model" "nextVersion model (e_ref branch) vt = Inr v" by (fact model)+
    show "publications_at E s (ShaRef ?sha) = Inr refs" by (fact refs(1))
    show "fst (release E s branch vt) = map Publishing copies @
        (if refs = [] then [] else [Log (published_message refs v) LogInfo s ?id]) @
        CreateTag (src_path s) ?sha ?name ''Released by Common-build'' # rest"
      using rest(1) by (simp add: head_def)
    show "\<forall>r \<in> set refs. copy_accepted (an_storage E) ?sha v copies r" using copied by (simp add: copies_def)
  qed (fact rest(2), fact rest(3))
qed

text \<open>C14
  A change is merged exactly when its build was recorded and its labels ask for it: post-processing
  of the success of an update merges that update, in its repository, if and only if the repository
  has a configuration, its metadata were added and its valid build was set without an error, and the
  action for its labels, or else the default action of the repository, is to merge or to release.
\<close>

theorem merged_when_asked:
  "MergeUpdate p u \<in> set (post_process E s (UpdateJob upd target sha)) \<longleftrightarrow>
     p = src_path s \<and> u = upd \<and>
     (\<exists>config pc given. getRepositoryConfig (an_files E) s = Inr (Some config) \<and>
       getPublicationConfig (an_files E) s (ShaRef sha) = Inr pc \<and>
       snd (addMetaData (an_storage E) pc s sha) = Inr () \<and>
       an_setValidBuild E (src_id s) upd sha = Inr () \<and>
       an_labels E upd = Inr given \<and> success_action config given \<noteq> Nothing)"
proof (cases "getRepositoryConfig (an_files E) s")
  case (Inl e)
  then show ?thesis by simp
next
  case (Inr c)
  show ?thesis
  proof (cases c)
    case None
    with Inr show ?thesis by simp
  next
    case (Some config)
    have pub: "MergeUpdate p u \<notin> Publishing ` A" for A by auto
    show ?thesis
      by (cases "getPublicationConfig (an_files E) s (ShaRef sha)"; cases "an_setValidBuild E (src_id s) upd sha";
          cases "snd (addMetaData (an_storage E) (projr (getPublicationConfig (an_files E) s (ShaRef sha))) s sha)")
        (auto simp: Inr Some and_then_effects after_labels_merge)
  qed
qed

text \<open>
  A push never deactivates a repository: whatever the services answer, at the first or at the second
  attempt, \<open>onPush\<close> does not remove the repository from the active ones. The branch that would do
  so is only reached when the build file of the pushed commit was read before.
\<close>

theorem push_never_deactivates:
  "RemoveActive t \<notin> set (onPush E E2 s entity)"
  using push_command_keeps_active [of t E s entity] push_command_keeps_active [of t E2 s entity]
  by (auto simp: onPush_alt and_then_effects split: sum.splits)


section \<open>Witnesses\<close>

definition sample_files :: file_access where
  "sample_files =
    \<lparr> fa_file = (\<lambda>s path r. Inr (if path = ''config.yml'' then None else Some path)),
      fa_updateBranch = (\<lambda>s r cs. Inr ()),
      fa_parseRepository = (\<lambda>x. Inl (Error ''no configuration'')),
      fa_printRepository = (\<lambda>c. ''config''),
      fa_parseBuild = (\<lambda>x. Inr \<lparr> bc_toolImage = ''tools'', bc_version = 1, bc_steps = [Native ''make''] \<rparr>),
      fa_parsePublication = (\<lambda>x. Inr \<lparr> pc_artifacts = Some \<lparr> pas_items = [\<lparr> pa_path = ''p/a'', pa_qualifiers = [],
        pa_remote = None, pa_repository = None, pa_properties = None \<rparr>], pas_remote = ''host'', pas_repository = ''repo'' \<rparr>,
        pc_images = None \<rparr>),
      fa_parseDependencies = (\<lambda>x. Inl (Error ''no dependencies'')) \<rparr>"

definition sample_answers :: answers where
  "sample_answers =
    \<lparr> an_files = sample_files,
      an_storage = sample_storage,
      an_systemId = ''staging'', an_frontendUrl = ''https://ui'',
      an_model = (\<lambda>s. Inr \<lparr> root_main = \<lparr> main_major = 1, main_main = \<lparr> mb_name = ''master'', mb_sha = ''abc'' \<rparr>,
        main_minors = [], main_start = None \<rparr>, root_majors = [] \<rparr>),
      an_setValidBuild = (\<lambda>s u h. Inr ()), an_labels = (\<lambda>u. Inr None),
      an_merge = (\<lambda>p u. Inr \<lparr> e_ref = BranchRef ''master'', e_sha = ''abc'' \<rparr>),
      an_createTag = (\<lambda>p h n m. Inr \<lparr> e_ref = TagRef n, e_sha = h \<rparr>),
      an_ensureRef = (\<lambda>s r c. Inr ()), an_ensureEntity = (\<lambda>s e c. Inr ()),
      an_fetchAll = (\<lambda>s. Inr ()), an_register = (\<lambda>s. Inr ()),
      an_invalidate = (\<lambda>refs. Inr ()) \<rparr>"

theorem release_tags_after_publishing_witness:
  "\<exists>copies. CopyArtifact ''host'' ''repo'' ''p/a'' ''abc'' ''1.0.0'' \<in> set copies \<and>
    Publishing ` set copies \<subseteq> set (fst (release sample_answers (mk_source ''g'' ''x/y'') \<lparr> e_ref = BranchRef ''master'', e_sha = ''abc'' \<rparr> MINOR))"
proof -
  let ?s = "mk_source ''g'' ''x/y''" and ?b = "\<lparr> e_ref = BranchRef ''master'', e_sha = ''abc'' \<rparr>"
  have "snd (release sample_answers ?s ?b MINOR) = Inr (Version [1, 0, 0])" by code_simp
  then have "(\<exists>v. snd (release sample_answers ?s ?b MINOR) = Inr v)" by blast
  from release_tags_after_publishing [OF disjI2, OF this] show ?thesis
  proof (elim exE conjE)
    fix model v refs copies rest
    assume model: "an_model sample_answers ?s = Inr model" "nextVersion model (e_ref ?b) MINOR = Inr v"
      and refs: "publications_at sample_answers ?s (ShaRef (e_sha ?b)) = Inr refs"
      and effects: "fst (release sample_answers ?s ?b MINOR) = map Publishing copies @
        (if refs = [] then [] else [Log (published_message refs v) LogInfo ?s (canonicalId (BranchJob (e_ref ?b) (e_sha ?b)))]) @
        CreateTag (src_path ?s) (e_sha ?b) (''v'' @ version_string v) ''Released by Common-build'' # rest"
      and copied: "\<forall>r \<in> set refs. copy_accepted (an_storage sample_answers) (e_sha ?b) v copies r"
    have "res_bind (an_model sample_answers ?s) (\<lambda>m. nextVersion m (e_ref ?b) MINOR) = Inr (Version [1, 0, 0])" by code_simp
    with model have v: "v = Version [1, 0, 0]" by simp
    have "publications_at sample_answers ?s (ShaRef (e_sha ?b)) = Inr [ArtifactRef ''host'' ''repo'' ''p/a'']" by code_simp
    with refs copied have "CopyArtifact ''host'' ''repo'' ''p/a'' ''abc'' (version_string v) \<in> set copies" by simp
    moreover have "version_string v = ''1.0.0''" unfolding v by code_simp
    ultimately show ?thesis unfolding effects by auto
  qed
qed


end
