(* ===== verification/Local_Git.thy ===== *)
theory Local_Git
  imports System_Config Refs Repository_Source
begin

text \<open>
  The clones of the repositories on the local disk: the commands that run in a clone
  (\<open>backend/src/git/local-git-commands.ts\<close>), the reading of the list of references
  (\<open>git-output-parsers.ts\<close>), and the factory that prepares a clone, runs a command in it and
  repeats it when it fails (\<open>local-git-factory.ts\<close>). The git program and the disk are a state that
  every operation passes on; waiting times are left out.
\<close>

section \<open>Operations with a result and a state\<close>

type_synonym ('g, 'a) operation = "'g \<Rightarrow> 'a res \<times> 'g"

definition done_with :: "'a \<Rightarrow> ('g, 'a) operation" where
  "done_with x g = (Inr x, g)"

definition op_bind :: "('g, 'a) operation \<Rightarrow> ('a \<Rightarrow> ('g, 'b) operation) \<Rightarrow> ('g, 'b) operation" where
  "op_bind f k g = (case f g of (Inl e, g') \<Rightarrow> (Inl e, g') | (Inr x, g') \<Rightarrow> k x g')"

definition op_catch :: "('g, 'a) operation \<Rightarrow> (error \<Rightarrow> ('g, 'a) operation) \<Rightarrow> ('g, 'a) operation" where
  "op_catch f h g = (case f g of (Inl e, g') \<Rightarrow> h e g' | (Inr x, g') \<Rightarrow> (Inr x, g'))"

lemma op_bind_Inr:
  "op_bind f k g = (Inr y, g2) \<longleftrightarrow> (\<exists>x g1. f g = (Inr x, g1) \<and> k x g1 = (Inr y, g2))"
  by (auto simp: op_bind_def split: prod.splits sum.splits)

section \<open>The git program\<close>

text \<open>
  What runs in the directory of a clone. \<open>gt_raw\<close> is a command line, with the error handling that
  the factory configures: an exit code other than 0 is an error.
\<close>

record 'g git_program =
  gt_cloned :: "string \<Rightarrow> 'g \<Rightarrow> bool"
  gt_empty :: "string \<Rightarrow> 'g \<Rightarrow> 'g"
  gt_init :: "string \<Rightarrow> string \<Rightarrow> ('g, unit) operation"
  gt_raw :: "string \<Rightarrow> string list \<Rightarrow> ('g, string) operation"
  gt_fetch :: "string \<Rightarrow> string list \<Rightarrow> ('g, unit) operation"
  gt_show :: "string \<Rightarrow> string \<Rightarrow> ('g, string) operation"
  gt_write :: "string \<Rightarrow> string \<Rightarrow> string \<Rightarrow> ('g, unit) operation"
  gt_unlink :: "string \<Rightarrow> string \<Rightarrow> ('g, unit) operation"
  gt_add :: "string \<Rightarrow> string \<Rightarrow> ('g, unit) operation"
  gt_commit :: "string \<Rightarrow> string \<Rightarrow> ('g, unit) operation"
  gt_deleteBranch :: "string \<Rightarrow> string \<Rightarrow> ('g, unit) operation"

section \<open>Commands\<close>

text \<open>A command runs in a directory.\<close>

type_synonym ('g, 'a) git_function = "string \<Rightarrow> ('g, 'a) operation"

definition ignore_result :: "('g, 'a) operation \<Rightarrow> ('g, unit) operation" where
  "ignore_result f = op_bind f (\<lambda>_. done_with ())"

definition git_Fetch :: "'g git_program \<Rightarrow> string list \<Rightarrow> ('g, unit) git_function" where
  "git_Fetch G specs dir = ignore_result (gt_raw G dir ([''fetch'', ''origin''] @ specs))"

definition git_FetchPrune :: "'g git_program \<Rightarrow> ('g, unit) git_function" where
  "git_FetchPrune G dir = gt_fetch G dir [''--prune'', ''--prune-tags'']"

definition git_FetchDefaultRemotes :: "'g git_program \<Rightarrow> ('g, unit) git_function" where
  "git_FetchDefaultRemotes G dir = gt_fetch G dir []"

definition git_EntityExists :: "'g git_program \<Rightarrow> entity \<Rightarrow> ('g, bool) git_function" where
  "git_EntityExists G entity dir =
     (if is_branch_ref (e_ref entity) then
        op_catch (op_bind (gt_raw G dir [''merge-base'', ''--is-ancestor'', e_sha entity, originRef (e_ref entity)])
          (\<lambda>_. done_with True)) (\<lambda>_. done_with False)
      else
        op_catch (op_bind (gt_raw G dir [''rev-list'', ''-n'', ''1'', originRef (e_ref entity)])
          (\<lambda>gitSha. done_with (e_sha entity = trim gitSha))) (\<lambda>_. done_with False))"

fun ref_type_ok :: "ref \<Rightarrow> string \<Rightarrow> bool" where
  "ref_type_ok (ShaRef s) t \<longleftrightarrow> t = ''commit''"
| "ref_type_ok (TagRef n) t \<longleftrightarrow> t = ''tag'' \<or> t = ''commit''"
| "ref_type_ok r t \<longleftrightarrow> t = ''commit''"

definition git_RefExists :: "'g git_program \<Rightarrow> ref \<Rightarrow> ('g, bool) git_function" where
  "git_RefExists G r dir =
     op_catch (op_bind (gt_raw G dir [''cat-file'', ''-t'', originRef r])
       (\<lambda>gitType. done_with (ref_type_ok r (trim gitType)))) (\<lambda>_. done_with False)"

section \<open>Ensuring a reference\<close>

datatype ensure_result = NO_ACTION | UPDATED | NOT_FOUND

definition RETRY_COUNT :: nat where
  "RETRY_COUNT = 3"

text \<open>The loop of the three macros: check, act when the check fails, and check again.\<close>

fun ensure_loop ::
    "('g, bool) operation \<Rightarrow> ('g, unit) operation \<Rightarrow> nat \<Rightarrow> ('g, ensure_result) operation" where
  "ensure_loop check act 0 = done_with NOT_FOUND"
| "ensure_loop check act (Suc n) =
     op_bind check (\<lambda>ok.
       if ok then done_with (if Suc n = RETRY_COUNT then NO_ACTION else UPDATED)
       else op_bind act (\<lambda>_. ensure_loop check act n))"

definition MacroEnsureRefDeleted :: "'g git_program \<Rightarrow> ref \<Rightarrow> ('g, ensure_result) git_function" where
  "MacroEnsureRefDeleted G r dir =
     ensure_loop (op_bind (git_RefExists G r dir) (\<lambda>exists. done_with (\<not> exists))) (git_FetchPrune G dir) RETRY_COUNT"

definition MacroEnsureEntityExists :: "'g git_program \<Rightarrow> entity \<Rightarrow> string \<Rightarrow> ('g, ensure_result) git_function" where
  "MacroEnsureEntityExists G entity spec dir =
     ensure_loop (git_EntityExists G entity dir) (git_Fetch G [spec] dir) RETRY_COUNT"

definition MacroEnsureRefExists :: "'g git_program \<Rightarrow> ref \<Rightarrow> string \<Rightarrow> ('g, ensure_result) git_function" where
  "MacroEnsureRefExists G r spec dir =
     ensure_loop (git_RefExists G r dir) (git_Fetch G [spec] dir) RETRY_COUNT"

section \<open>Reading references, files and commits\<close>

text \<open>
  \<open>/^([a-f0-9]{40})\s(.*?)(\^\{\})?$/i\<close> on a line: the sha, the name, and whether the line is the
  commit that an annotated tag points to. The dot does not match a carriage return.
\<close>

definition deref_suffix :: string where
  "deref_suffix = ''^{}''"

definition match_ref_line :: "string \<Rightarrow> (string \<times> string \<times> bool) option" where
  "match_ref_line line =
     (let sha = take 40 line; rest = drop 40 line in
      if is_sha sha \<and> rest \<noteq> [] \<and> is_space (hd rest) \<and> CHR 0x0D \<notin> set (tl rest) then
        (let name = tl rest; n = length name - length deref_suffix in
         if length deref_suffix \<le> length name \<and> drop n name = deref_suffix then Some (sha, take n name, True)
         else Some (sha, name, False))
      else None)"

text \<open>A name that is read keeps its place; the entry of a tag is replaced by its commit.\<close>

definition collect_ref :: "string \<Rightarrow> (string \<times> entity) list \<Rightarrow> (string \<times> entity) list" where
  "collect_ref line acc =
     (case match_ref_line line of
        None \<Rightarrow> acc
      | Some (sha, name, isCommit) \<Rightarrow>
          (if isCommit \<or> map_of acc name = None then
             (case tryCreateFromRemoteRef name of
                Some r \<Rightarrow> AList.update name \<lparr> e_ref = r, e_sha = sha \<rparr> acc
              | None \<Rightarrow> acc)
           else acc))"

definition parseReferences :: "string \<Rightarrow> entity list" where
  "parseReferences output =
     map snd (fold collect_ref (filter (\<lambda>s. s \<noteq> []) (split [CHR 0x0A] output)) [])"

definition git_getBranchesAndTags :: "'g git_program \<Rightarrow> ('g, entity list) git_function" where
  "git_getBranchesAndTags G dir =
     op_bind (gt_raw G dir [''show-ref'', ''--dereference'']) (\<lambda>output. done_with (parseReferences output))"

definition git_getBranch :: "'g git_program \<Rightarrow> string \<Rightarrow> ('g, entity option) git_function" where
  "git_getBranch G name dir =
     op_catch (op_bind (gt_raw G dir [''rev-parse'', ''origin/'' @ name]) (\<lambda>output.
       (case branch_create name output of
          Inr b \<Rightarrow> done_with (Some b)
        | Inl e \<Rightarrow> (\<lambda>g. (Inl e, g))))) (\<lambda>_. done_with None)"

definition git_getFile :: "'g git_program \<Rightarrow> string \<Rightarrow> ref \<Rightarrow> ('g, string option) git_function" where
  "git_getFile G path r dir =
     op_catch (op_bind (gt_show G dir (originRef r @ '':'' @ path)) (\<lambda>content. done_with (Some content)))
       (\<lambda>_. done_with None)"

record git_commit =
  gc_sha :: string
  gc_commiter :: string
  gc_timestamp :: "int option"
  gc_message :: string

text \<open>In the source the separator is a string literal, where the backslash before \<open>|\<close> is dropped.\<close>

definition CommitFieldSeparator :: string where
  "CommitFieldSeparator = ''[_-|/-_]''"

definition GitCommit_parse :: "string \<Rightarrow> git_commit option" where
  "GitCommit_parse s =
     (case split CommitFieldSeparator s of
        [sha, commiter, timestamp, message] \<Rightarrow>
          Some \<lparr> gc_sha = sha, gc_commiter = commiter, gc_timestamp = parse_int timestamp, gc_message = message \<rparr>
      | _ \<Rightarrow> None)"

definition commit_range :: "ref \<Rightarrow> ref option \<Rightarrow> string" where
  "commit_range to from = join ''...'' (originRef to # (case from of Some r \<Rightarrow> [originRef r] | None \<Rightarrow> []))"

definition git_getCommits :: "'g git_program \<Rightarrow> ref \<Rightarrow> ref option \<Rightarrow> int \<Rightarrow> ('g, git_commit list) git_function" where
  "git_getCommits G to from maxCount dir =
     op_bind (gt_raw G dir [''log'', commit_range to from,
         ''--pretty=%H'' @ CommitFieldSeparator @ ''%cn'' @ CommitFieldSeparator @ ''%ct'' @ CommitFieldSeparator @ ''%s'',
         ''--max-count'', show_int maxCount])
       (\<lambda>output. done_with (List.map_filter GitCommit_parse (split [CHR 0x0A] output)))"

section \<open>Updating a branch\<close>

record git_content =
  ct_path :: string
  ct_data :: "string option"

definition isSpecialNamespace :: "ref \<Rightarrow> bool" where
  "isSpecialNamespace r \<longleftrightarrow> hd (split ''/'' (ref_name r)) \<in> {''meta''}"

text \<open>
  A file is written, or removed when there is no data. The source starts the files together; here
  they follow each other. The result of adding a removed file is not waited for.
\<close>

definition put_content :: "'g git_program \<Rightarrow> string \<Rightarrow> git_content \<Rightarrow> ('g, unit) operation" where
  "put_content G dir c =
     (let fullPath = dir @ ''/'' @ ct_path c in
      case ct_data c of
        None \<Rightarrow> op_bind (gt_unlink G dir fullPath) (\<lambda>_. op_catch (gt_add G dir fullPath) (\<lambda>e. done_with ()))
      | Some d \<Rightarrow> op_bind (gt_write G dir fullPath d) (\<lambda>_. gt_add G dir fullPath))"

fun op_all :: "('a \<Rightarrow> ('g, unit) operation) \<Rightarrow> 'a list \<Rightarrow> ('g, unit) operation" where
  "op_all f [] = done_with ()"
| "op_all f (x # xs) = op_bind (f x) (\<lambda>_. op_all f xs)"

definition git_updateBranch ::
    "'g git_program \<Rightarrow> string \<Rightarrow> ref \<Rightarrow> git_content list \<Rightarrow> string option \<Rightarrow> ('g, unit) git_function" where
  "git_updateBranch G tempLocalBranch r contents fromSha dir =
     (let checkoutPoint = (case fromSha of Some s \<Rightarrow> originRef (ShaRef s) | None \<Rightarrow> originRef r);
          pushRef = (if isSpecialNamespace r then ''refs/'' @ ref_name r else ref_name r) in
      op_bind (op_catch (gt_raw G dir [''checkout'', ''-b'', tempLocalBranch, checkoutPoint])
          (\<lambda>e. gt_raw G dir [''checkout'', ''--orphan'', tempLocalBranch])) (\<lambda>_.
      op_bind (op_all (put_content G dir) contents) (\<lambda>_.
      op_bind (gt_commit G dir (''CommonBuild: '' @ join '' '' (map ct_path contents))) (\<lambda>_.
      op_bind (gt_raw G dir [''push'', ''origin'', ''HEAD:'' @ pushRef]) (\<lambda>_.
      op_bind (gt_raw G dir [''checkout'', originRef r]) (\<lambda>_.
      gt_deleteBranch G dir tempLocalBranch))))))"

section \<open>The factory\<close>

datatype load_mode = REFRESH | FETCH | CACHED

definition GIT_RETRY_COUNT :: nat where
  "GIT_RETRY_COUNT = 4"

text \<open>The user before the first colon, and the rest.\<close>

definition splitUserSecret :: "string \<Rightarrow> (string \<times> string) res" where
  "splitUserSecret s =
     (case split '':'' s of
        head # tail \<Rightarrow>
          (if head \<noteq> [] \<and> tail \<noteq> [] then Inr (head, join '':'' tail)
           else Inl (Error (''Could not parse user:secret from secret: '' @ s)))
      | [] \<Rightarrow> Inl (Error (''Could not parse user:secret from secret: '' @ s)))"

definition repositoryPath :: "string \<Rightarrow> source \<Rightarrow> string" where
  "repositoryPath cache s = join ''/'' [cache, join ''_'' (src_id s # split ''/'' (src_path s))]"

text \<open>Where a clone comes from; \<open>secrets\<close> is the vault.\<close>

fun remote_origin :: "(string \<Rightarrow> string res) \<Rightarrow> source_service \<Rightarrow> source \<Rightarrow> string res" where
  "remote_origin secrets (GerritSourceService i ssh https cyn) s =
     res_bind (res_bind (secrets (''csp/common-build/ssh-'' @ ssh)) splitUserSecret) (\<lambda>(user, secret).
       Inr (''ssh://'' @ user @ ''@'' @ ssh @ ''/'' @ src_path s))"
| "remote_origin secrets (GitlabSourceService i https) s =
     res_bind (res_bind (secrets (''csp/common-build/https-'' @ https)) splitUserSecret) (\<lambda>(user, secret).
       Inr (''https://'' @ user @ '':'' @ secret @ ''@'' @ https))"

fun executeCommand :: "('g, 'a) operation \<Rightarrow> nat \<Rightarrow> ('g, 'a) operation" where
  "executeCommand f 0 g = f g"
| "executeCommand f (Suc retryCount) g = op_catch f (\<lambda>e. executeCommand f retryCount) g"

record git_factory =
  gf_cache :: string
  gf_sources :: "source_service list"
  gf_secrets :: "string \<Rightarrow> string res"

definition executeInternal ::
    "'g git_program \<Rightarrow> git_factory \<Rightarrow> source \<Rightarrow> ('g, 'a) git_function \<Rightarrow> load_mode \<Rightarrow> ('g, 'a) operation" where
  "executeInternal G fac s cmd mode g =
     (case List.find (\<lambda>c. ss_id c = src_id s) (gf_sources fac) of
        None \<Rightarrow> (Inl (Error (''Repository source: '' @ src_id s @ '' not configured.'')), g)
      | Some sourceConfig \<Rightarrow>
          (let dir = repositoryPath (gf_cache fac) s;
               initialized = (mode \<noteq> REFRESH \<and> gt_cloned G dir g);
               g1 = (if initialized then g else gt_empty G dir g)
           in case remote_origin (gf_secrets fac) sourceConfig s of
             Inl e \<Rightarrow> (Inl e, g1)
           | Inr origin \<Rightarrow>
               op_bind (if initialized then done_with () else gt_init G dir origin) (\<lambda>_.
               op_bind (if \<not> initialized \<or> mode = FETCH
                   then executeCommand (git_FetchDefaultRemotes G dir) GIT_RETRY_COUNT else done_with ()) (\<lambda>_.
               executeCommand (cmd dir) GIT_RETRY_COUNT)) g1))"

text \<open>\<open>execute\<close>: a failure is followed by a fresh clone. Commands for one source follow each other.\<close>

definition git_execute ::
    "'g git_program \<Rightarrow> git_factory \<Rightarrow> source \<Rightarrow> ('g, 'a) git_function \<Rightarrow> load_mode \<Rightarrow> ('g, 'a) operation" where
  "git_execute G fac s cmd mode =
     op_catch (executeInternal G fac s cmd mode) (\<lambda>e. executeInternal G fac s cmd REFRESH)"

definition git_refetch :: "'g git_program \<Rightarrow> git_factory \<Rightarrow> source \<Rightarrow> ('g, unit) operation" where
  "git_refetch G fac s = git_execute G fac s (git_FetchDefaultRemotes G) CACHED"

section \<open>Repeating a command\<close>

text \<open>The states that a failing operation goes through.\<close>

definition state_after :: "('g, 'a) operation \<Rightarrow> nat \<Rightarrow> 'g \<Rightarrow> 'g" where
  "state_after f n g = ((\<lambda>g. snd (f g)) ^^ n) g"

definition fails :: "('g, 'a) operation \<Rightarrow> 'g \<Rightarrow> bool" where
  "fails f g \<longleftrightarrow> (\<exists>e g'. f g = (Inl e, g'))"

lemma fails_iff: "fails f g \<longleftrightarrow> (\<exists>e. fst (f g) = Inl e)"
  by (cases "f g") (auto simp: fails_def)

lemma state_after_Suc: "state_after f (Suc n) g = state_after f n (snd (f g))"
  using funpow_swap1 [of "\<lambda>g. snd (f g)" n g] by (simp add: state_after_def)

lemma executeCommand_attempts:
  "\<exists>k \<le> n. executeCommand f n g = f (state_after f k g) \<and>
     (\<forall>j < k. fails f (state_after f j g)) \<and> (k < n \<longrightarrow> \<not> fails f (state_after f k g))"
proof (induction n arbitrary: g)
  case 0
  then show ?case by (simp add: state_after_def)
next
  case (Suc n)
  show ?case
  proof (cases "fails f g")
    case False
    then have "executeCommand f (Suc n) g = f g"
      by (cases "f g") (auto simp: op_catch_def fails_def split: sum.splits)
    with False show ?thesis by (intro exI [of _ 0]) (simp add: state_after_def)
  next
    case True
    then obtain e where e: "f g = (Inl e, snd (f g))" by (metis fails_def prod.sel(2))
    from Suc.IH [of "snd (f g)"] obtain k where k: "k \<le> n"
      "executeCommand f n (snd (f g)) = f (state_after f k (snd (f g)))"
      "\<forall>j < k. fails f (state_after f j (snd (f g)))" "k < n \<longrightarrow> \<not> fails f (state_after f k (snd (f g)))" by blast
    have "executeCommand f (Suc n) g = executeCommand f n (snd (f g))"
      by (subst executeCommand.simps, simp only: op_catch_def, subst e) simp
    moreover have "\<forall>j < Suc k. fails f (state_after f j g)"
      using k(3) True by (auto simp: less_Suc_eq_0_disj state_after_Suc) (simp add: state_after_def)
    ultimately show ?thesis using k by (intro exI [of _ "Suc k"]) (simp add: state_after_Suc)
  qed
qed

section \<open>The loop that ensures\<close>

text \<open>
  What the commands that only read rely on: they leave the clone as it is. The result may be an
  error.
\<close>

definition reading :: "string list \<Rightarrow> bool" where
  "reading args \<longleftrightarrow> args \<noteq> [] \<and> hd args \<in> {''merge-base'', ''rev-list'', ''cat-file'', ''show-ref'', ''rev-parse'', ''log''}"

definition reads_only :: "'g git_program \<Rightarrow> bool" where
  "reads_only G \<longleftrightarrow> (\<forall>dir args g. reading args \<longrightarrow> snd (gt_raw G dir args g) = g)"

definition quiet :: "('g, bool) operation \<Rightarrow> bool" where
  "quiet check \<longleftrightarrow> (\<forall>g. \<exists>b. check g = (Inr b, g))"

definition holds :: "('g, bool) operation \<Rightarrow> 'g \<Rightarrow> bool" where
  "holds check g \<longleftrightarrow> fst (check g) = Inr True"

lemma quiet_check: "quiet check \<Longrightarrow> check g = (Inr (holds check g), g)"
proof -
  assume "quiet check"
  then obtain b where "check g = (Inr b, g)" by (auto simp: quiet_def)
  then show ?thesis by (simp add: holds_def)
qed

lemma quiet_catch_read:
  assumes "reads_only G" and "reading args"
  shows "quiet (op_catch (op_bind (gt_raw G dir args) (\<lambda>x. done_with (p x))) (\<lambda>_. done_with False))"
  unfolding quiet_def
proof
  fix g
  have "gt_raw G dir args g = (fst (gt_raw G dir args g), g)"
    using assms by (simp add: reads_only_def prod_eq_iff)
  then obtain r where "gt_raw G dir args g = (r, g)" ..
  then show "\<exists>b. op_catch (op_bind (gt_raw G dir args) (\<lambda>x. done_with (p x))) (\<lambda>_. done_with False) g = (Inr b, g)"
    by (cases r) (auto simp: op_catch_def op_bind_def done_with_def)
qed

lemma RefExists_quiet: "reads_only G \<Longrightarrow> quiet (git_RefExists G r dir)"
  unfolding git_RefExists_def by (rule quiet_catch_read) (simp_all add: reading_def)

lemma EntityExists_quiet: "reads_only G \<Longrightarrow> quiet (git_EntityExists G entity dir)"
  unfolding git_EntityExists_def by (auto intro!: quiet_catch_read [of G _ _ "\<lambda>_. True"] quiet_catch_read simp: reading_def)

lemma quiet_negated:
  assumes "quiet check"
  shows "quiet (op_bind check (\<lambda>ok. done_with (\<not> ok)))"
    and "holds (op_bind check (\<lambda>ok. done_with (\<not> ok))) g \<longleftrightarrow> \<not> holds check g"
proof -
  have "op_bind check (\<lambda>ok. done_with (\<not> ok)) g = (Inr (\<not> holds check g), g)" for g
    by (simp add: op_bind_def quiet_check [OF assms] done_with_def)
  then show "quiet (op_bind check (\<lambda>ok. done_with (\<not> ok)))"
    "holds (op_bind check (\<lambda>ok. done_with (\<not> ok))) g \<longleftrightarrow> \<not> holds check g"
    by (auto simp: quiet_def) (simp_all add: holds_def)
qed

lemma ensure_loop_step:
  assumes "quiet check"
  shows "ensure_loop check act (Suc n) g =
    (if holds check g then (Inr (if Suc n = RETRY_COUNT then NO_ACTION else UPDATED), g)
     else op_bind act (\<lambda>_. ensure_loop check act n) g)"
  by (simp add: op_bind_def quiet_check [OF assms] done_with_def)

lemma ensure_loop_result:
  assumes "quiet check" and "ensure_loop check act n g = (Inr r, g')" and "n \<le> RETRY_COUNT"
  shows "\<exists>k \<le> n. g' = state_after act k g \<and> (\<forall>j < k. \<not> holds check (state_after act j g)) \<and>
    (k < n \<longrightarrow> holds check g') \<and>
    r = (if k = n then NOT_FOUND else if n - k = RETRY_COUNT then NO_ACTION else UPDATED)"
  using assms(2,3)
proof (induction n arbitrary: g)
  case 0
  then show ?case by (simp add: done_with_def state_after_def)
next
  case (Suc n)
  show ?case
  proof (cases "holds check g")
    case True
    with Suc.prems show ?thesis
      by (intro exI [of _ 0]) (auto simp: ensure_loop_step [OF assms(1)] state_after_def simp del: ensure_loop.simps)
  next
    case False
    with Suc.prems(1) obtain u g1 where act: "act g = (Inr u, g1)" and rest: "ensure_loop check act n g1 = (Inr r, g')"
      by (auto simp: ensure_loop_step [OF assms(1)] op_bind_Inr simp del: ensure_loop.simps)
    from Suc.IH [OF rest] Suc.prems(2) obtain k where k: "k \<le> n" "g' = state_after act k g1"
      "\<forall>j < k. \<not> holds check (state_after act j g1)" "k < n \<longrightarrow> holds check g'"
      "r = (if k = n then NOT_FOUND else if n - k = RETRY_COUNT then NO_ACTION else UPDATED)" by auto
    have "\<forall>j < Suc k. \<not> holds check (state_after act j g)"
      using k(3) False act by (auto simp: less_Suc_eq_0_disj state_after_Suc) (simp add: state_after_def)
    with k act show ?thesis by (intro exI [of _ "Suc k"]) (simp add: state_after_Suc)
  qed
qed


section \<open>Properties\<close>

text \<open>
  A remote with one reference that becomes visible with a number of fetches; its sha is a text of
  40 digits. Writing and cloning succeed. The state counts the fetches.
\<close>

definition late_git :: "nat \<Rightarrow> nat git_program" where
  "late_git n =
     \<lparr> gt_cloned = (\<lambda>dir g. True), gt_empty = (\<lambda>dir g. 0), gt_init = (\<lambda>dir origin g. (Inr (), g)),
       gt_raw = (\<lambda>dir args g. if reading args then (if n \<le> g then Inr ''commit'' else Inl (Error ''unknown''), g)
                            else (Inr [], Suc g)),
       gt_fetch = (\<lambda>dir args g. (Inr (), Suc g)), gt_show = (\<lambda>dir spec g. (Inl (Error ''unknown''), g)),
       gt_write = (\<lambda>dir path data g. (Inr (), g)), gt_unlink = (\<lambda>dir path g. (Inr (), g)),
       gt_add = (\<lambda>dir path g. (Inr (), g)), gt_commit = (\<lambda>dir msg g. (Inr (), g)),
       gt_deleteBranch = (\<lambda>dir name g. (Inr (), g)) \<rparr>"

lemma late_git_reads_only: "reads_only (late_git n)"
  by (simp add: reads_only_def late_git_def)

text \<open>
  What the result of ensuring says: nothing was done and the check holds, or one or two fetches
  were made and it holds now, or three fetches were made.
\<close>

definition ensure_report ::
    "('g, bool) operation \<Rightarrow> ('g, unit) operation \<Rightarrow> 'g \<Rightarrow> ensure_result \<Rightarrow> 'g \<Rightarrow> bool" where
  "ensure_report check act g r g' \<longleftrightarrow>
     (case r of
        NO_ACTION \<Rightarrow> g' = g \<and> holds check g
      | UPDATED \<Rightarrow> \<exists>k \<in> {1, 2}. g' = state_after act k g \<and> (\<forall>j < k. \<not> holds check (state_after act j g)) \<and> holds check g'
      | NOT_FOUND \<Rightarrow> g' = state_after act 3 g \<and> (\<forall>j < 3. \<not> holds check (state_after act j g)))"

lemma ensure_loop_report:
  assumes "quiet check" and "ensure_loop check act RETRY_COUNT g = (Inr r, g')"
  shows "ensure_report check act g r g'"
proof -
  from ensure_loop_result [OF assms order_refl] obtain k where k: "k \<le> 3" "g' = state_after act k g"
    "\<forall>j < k. \<not> holds check (state_after act j g)" "k < 3 \<longrightarrow> holds check g'"
    "r = (if k = 3 then NOT_FOUND else if 3 - k = (3::nat) then NO_ACTION else UPDATED)"
    by (auto simp: RETRY_COUNT_def)
  from k(1) consider "k = 0" | "k = 1" | "k = 2" | "k = 3" by linarith
  then show ?thesis
  proof cases
    case 1 with k show ?thesis by (simp add: ensure_report_def state_after_def)
  next
    case 2 with k show ?thesis by (auto simp: ensure_report_def intro: exI [of _ "1::nat"])
  next
    case 3 with k show ?thesis by (auto simp: ensure_report_def)
  next
    case 4 with k show ?thesis by (simp add: ensure_report_def)
  qed
qed

text \<open>C23
  The result of the three ensuring commands is truthful in a clone whose reading commands leave it
  as it is: no action means that the reference was there (or gone) and nothing was fetched,
  updated that it is there (or gone) after one or two fetches and was not before, and not found
  that it was missing after two fetches and a third one was made.
\<close>

theorem ensured_as_reported:
  assumes "reads_only G"
  shows "(MacroEnsureEntityExists G entity spec dir g = (Inr r, g') \<longrightarrow>
          ensure_report (git_EntityExists G entity dir) (git_Fetch G [spec] dir) g r g') \<and>
    (MacroEnsureRefExists G ref spec dir g = (Inr r, g') \<longrightarrow>
          ensure_report (git_RefExists G ref dir) (git_Fetch G [spec] dir) g r g') \<and>
    (MacroEnsureRefDeleted G ref dir g = (Inr r, g') \<longrightarrow>
          ensure_report (op_bind (git_RefExists G ref dir) (\<lambda>exists. done_with (\<not> exists))) (git_FetchPrune G dir) g r g')"
  unfolding MacroEnsureEntityExists_def MacroEnsureRefExists_def MacroEnsureRefDeleted_def
  using RefExists_quiet [OF assms] EntityExists_quiet [OF assms]
  by (intro conjI impI) (erule ensure_loop_report [rotated], simp add: quiet_negated(1))+

lemma late_git_steps:
  "git_RefExists (late_git n) (BranchRef b) dir g = (Inr (n \<le> g), g)"
  "git_Fetch (late_git n) specs dir g = (Inr (), Suc g)"
  by (simp_all add: git_RefExists_def git_Fetch_def ignore_result_def op_catch_def op_bind_def done_with_def
      late_git_def reading_def trim_no_space is_space_def)

lemma ensured_as_reported_witness:
  "ensure_report (git_RefExists (late_git 2) (BranchRef ''main'') ''d'') (git_Fetch (late_git 2) [''s''] ''d'') 0 UPDATED 2"
proof -
  have "MacroEnsureRefExists (late_git 2) (BranchRef ''main'') ''s'' ''d'' 0 = (Inr UPDATED, 2)"
    by (simp add: MacroEnsureRefExists_def RETRY_COUNT_def eval_nat_numeral op_bind_def late_git_steps done_with_def)
  then show ?thesis
    using ensured_as_reported [OF late_git_reads_only [of 2], of "\<lparr> e_ref = BranchRef ''main'', e_sha = [] \<rparr>"] by blast
qed

text \<open>
  A reference that only the third fetch brings is reported as not found although it is in the
  clone: the check is not made after the last fetch.
\<close>

theorem last_fetch_not_checked:
  "MacroEnsureRefExists (late_git 3) (BranchRef b) spec dir 0 = (Inr NOT_FOUND, 3) \<and>
   holds (git_RefExists (late_git 3) (BranchRef b) dir) 3"
  by (simp add: MacroEnsureRefExists_def RETRY_COUNT_def eval_nat_numeral op_bind_def late_git_steps done_with_def holds_def)

lemma executeInternal_cached:
  assumes "List.find (\<lambda>c. ss_id c = src_id s) (gf_sources fac) = Some conf"
    and "remote_origin (gf_secrets fac) conf s = Inr origin"
    and "gt_cloned G (repositoryPath (gf_cache fac) s) g"
  shows "executeInternal G fac s cmd CACHED g = executeCommand (cmd (repositoryPath (gf_cache fac) s)) GIT_RETRY_COUNT g"
  using assms by (simp add: executeInternal_def op_bind_def done_with_def Let_def)

text \<open>C22
  In a clone that exists a command is run at most five times in place: the answer is that of the
  first attempt that does not fail, or, when all five failed, that of the command in a fresh
  clone of what the fifth left; no attempt follows one that succeeds.
\<close>

theorem attempts_are_bounded:
  assumes "List.find (\<lambda>c. ss_id c = src_id s) (gf_sources fac) = Some conf"
    and "remote_origin (gf_secrets fac) conf s = Inr origin"
    and "gt_cloned G (repositoryPath (gf_cache fac) s) g"
  shows "\<exists>k \<le> 5. (\<forall>j < k. fails (cmd (repositoryPath (gf_cache fac) s)) (state_after (cmd (repositoryPath (gf_cache fac) s)) j g)) \<and>
    git_execute G fac s cmd CACHED g =
      (if k < 5 then cmd (repositoryPath (gf_cache fac) s) (state_after (cmd (repositoryPath (gf_cache fac) s)) k g)
       else executeInternal G fac s cmd REFRESH (state_after (cmd (repositoryPath (gf_cache fac) s)) 5 g)) \<and>
    (k < 5 \<longrightarrow> \<not> fails (cmd (repositoryPath (gf_cache fac) s)) (state_after (cmd (repositoryPath (gf_cache fac) s)) k g))"
proof -
  let ?c = "cmd (repositoryPath (gf_cache fac) s)"
  note internal = executeInternal_cached [OF assms, of cmd]
  from executeCommand_attempts [of GIT_RETRY_COUNT ?c g] obtain k where k: "k \<le> 4"
    "executeCommand ?c GIT_RETRY_COUNT g = ?c (state_after ?c k g)"
    "\<forall>j < k. fails ?c (state_after ?c j g)" "k < 4 \<longrightarrow> \<not> fails ?c (state_after ?c k g)"
    by (auto simp: GIT_RETRY_COUNT_def)
  show ?thesis
  proof (cases "fails ?c (state_after ?c k g)")
    case False
    then have "git_execute G fac s cmd CACHED g = ?c (state_after ?c k g)"
      by (cases "?c (state_after ?c k g)") (auto simp: git_execute_def op_catch_def internal k(2) fails_def split: sum.splits)
    with k False show ?thesis by (intro exI [of _ k]) simp
  next
    case True
    with k have four: "k = 4" by linarith
    from True obtain e g' where e: "?c (state_after ?c k g) = (Inl e, g')" by (auto simp: fails_def)
    have "state_after ?c 5 g = snd (?c (state_after ?c 4 g))"
      by (simp add: state_after_def eval_nat_numeral)
    with e four have "state_after ?c 5 g = g'" by simp
    then have "git_execute G fac s cmd CACHED g = executeInternal G fac s cmd REFRESH (state_after ?c 5 g)"
      by (simp add: git_execute_def op_catch_def internal k(2) e)
    moreover have "\<forall>j < 5. fails ?c (state_after ?c j g)"
    proof (intro allI impI)
      fix j :: nat assume "j < 5"
      then consider "j < 4" | "j = 4" by linarith
      then show "fails ?c (state_after ?c j g)" using k(3) True four by cases auto
    qed
    ultimately show ?thesis by (intro exI [of _ 5]) simp
  qed
qed




definition sample_factory :: git_factory where
  "sample_factory = \<lparr> gf_cache = ''c'', gf_sources = [GitlabSourceService ''i'' ''h''], gf_secrets = (\<lambda>_. Inr ''u:p'') \<rparr>"

lemma attempts_are_bounded_witness:
  "git_execute (late_git 7) sample_factory \<lparr> src_id = ''i'', src_path = ''p'' \<rparr>
     (git_FetchDefaultRemotes (late_git 7)) CACHED 0 = (Inr (), 1)"
proof -
  have fetch: "git_FetchDefaultRemotes (late_git 7) dir g = (Inr (), Suc g)" for dir g
    by (simp add: git_FetchDefaultRemotes_def late_git_def)
  have secret: "splitUserSecret ''u:p'' = Inr (''u'', ''p'')" by (simp add: splitUserSecret_def split_eval)
  have "\<exists>origin. remote_origin (gf_secrets sample_factory) (GitlabSourceService ''i'' ''h'') \<lparr> src_id = ''i'', src_path = ''p'' \<rparr> = Inr origin"
    by (simp add: sample_factory_def secret)
  then obtain origin where origin:
    "remote_origin (gf_secrets sample_factory) (GitlabSourceService ''i'' ''h'') \<lparr> src_id = ''i'', src_path = ''p'' \<rparr> = Inr origin" ..
  have find: "List.find (\<lambda>c. ss_id c = src_id \<lparr> src_id = ''i'', src_path = ''p'' \<rparr>) (gf_sources sample_factory) = Some (GitlabSourceService ''i'' ''h'')"
    by (simp add: sample_factory_def)
  have cloned: "gt_cloned (late_git 7) (repositoryPath (gf_cache sample_factory) \<lparr> src_id = ''i'', src_path = ''p'' \<rparr>) 0"
    by (simp add: late_git_def)
  from attempts_are_bounded [OF find origin cloned, of "git_FetchDefaultRemotes (late_git 7)"]
  obtain k where k: "\<forall>j < k. fails (git_FetchDefaultRemotes (late_git 7) (repositoryPath (gf_cache sample_factory) \<lparr> src_id = ''i'', src_path = ''p'' \<rparr>))
      (state_after (git_FetchDefaultRemotes (late_git 7) (repositoryPath (gf_cache sample_factory) \<lparr> src_id = ''i'', src_path = ''p'' \<rparr>)) j 0)"
    and e: "git_execute (late_git 7) sample_factory \<lparr> src_id = ''i'', src_path = ''p'' \<rparr> (git_FetchDefaultRemotes (late_git 7)) CACHED 0 =
      (if k < 5 then git_FetchDefaultRemotes (late_git 7) (repositoryPath (gf_cache sample_factory) \<lparr> src_id = ''i'', src_path = ''p'' \<rparr>)
          (state_after (git_FetchDefaultRemotes (late_git 7) (repositoryPath (gf_cache sample_factory) \<lparr> src_id = ''i'', src_path = ''p'' \<rparr>)) k 0)
       else executeInternal (late_git 7) sample_factory \<lparr> src_id = ''i'', src_path = ''p'' \<rparr> (git_FetchDefaultRemotes (late_git 7)) REFRESH
          (state_after (git_FetchDefaultRemotes (late_git 7) (repositoryPath (gf_cache sample_factory) \<lparr> src_id = ''i'', src_path = ''p'' \<rparr>)) 5 0))"
    by blast
  have "k = 0" using k by (cases k) (auto simp: fails_def fetch)
  with e show ?thesis by (simp add: state_after_def fetch)
qed

section \<open>The list of references\<close>

text \<open>
  How \<open>show-ref --dereference\<close> prints a reference: its sha and its name in the clone; an annotated
  tag has a sha of its own, and a second line with the commit.
\<close>

fun show_ref_lines :: "entity \<times> string option \<Rightarrow> string list" where
  "show_ref_lines (e, None) = [e_sha e @ '' '' @ originRef (e_ref e)]"
| "show_ref_lines (e, Some tagSha) =
     [tagSha @ '' '' @ originRef (e_ref e), e_sha e @ '' '' @ originRef (e_ref e) @ deref_suffix]"

definition print_refs :: "(entity \<times> string option) list \<Rightarrow> string" where
  "print_refs es = concat (map (\<lambda>l. l @ [CHR 0x0A]) (concat (map show_ref_lines es)))"

definition printable :: "entity \<times> string option \<Rightarrow> bool" where
  "printable p \<longleftrightarrow>
     (\<exists>n. e_ref (fst p) \<in> {BranchRef n, TagRef n} \<and> CHR 0x0A \<notin> set n \<and> CHR 0x0D \<notin> set n \<and> CHR ''^'' \<notin> set n) \<and>
     is_sha (e_sha (fst p)) \<and> (snd p \<noteq> None \<longrightarrow> is_sha (the (snd p)))"

lemma printable_name:
  assumes "printable p"
  shows "CHR 0x0A \<notin> set (originRef (e_ref (fst p)))" and "CHR 0x0D \<notin> set (originRef (e_ref (fst p)))"
    and "CHR ''^'' \<notin> set (originRef (e_ref (fst p)))"
    and "tryCreateFromRemoteRef (originRef (e_ref (fst p))) = Some (e_ref (fst p))"
  using assms unfolding printable_def
  by (auto simp: tryCreateFromRemoteRef_def createFromRemoteRef_remote [unfolded append_Cons append_Nil])

lemma sha_chars: "is_sha s \<Longrightarrow> CHR 0x0A \<notin> set s"
  by (auto simp: is_sha_def list_all_iff hex_val_def Let_def dest!: bspec)

lemma split_lines:
  "\<forall>l \<in> set ls. CHR 0x0A \<notin> set l \<and> l \<noteq> [] \<Longrightarrow>
   filter (\<lambda>s. s \<noteq> []) (split [CHR 0x0A] (concat (map (\<lambda>l. l @ [CHR 0x0A]) ls))) = ls"
proof (induction ls)
  case (Cons l ls)
  then show ?case using split_safe [of "[CHR 0x0A]" l] by simp
qed simp

lemma lines_of_printable:
  assumes "printable p"
  shows "\<forall>l \<in> set (show_ref_lines p). CHR 0x0A \<notin> set l \<and> l \<noteq> []"
  using printable_name [OF assms] assms unfolding printable_def
  by (cases p rule: show_ref_lines.cases) (auto simp: sha_chars deref_suffix_def)

lemma match_ref_line_plain:
  assumes "is_sha sha" and "CHR 0x0D \<notin> set name" and "CHR ''^'' \<notin> set name"
  shows "match_ref_line (sha @ '' '' @ name) = Some (sha, name, False)"
    and "match_ref_line (sha @ '' '' @ name @ deref_suffix) = Some (sha, name, True)"
proof -
  have len: "length sha = 40" using assms(1) by (simp add: is_sha_def)
  have space: "is_space (CHR '' '')" by (simp add: is_space_def)
  have "drop n name \<noteq> deref_suffix" for n
    using assms(3) by (metis deref_suffix_def in_set_dropD list.set_intros(1))
  then show "match_ref_line (sha @ '' '' @ name) = Some (sha, name, False)"
    using assms len space by (simp add: match_ref_line_def Let_def)
  show "match_ref_line (sha @ '' '' @ name @ deref_suffix) = Some (sha, name, True)"
    using assms len space by (simp add: match_ref_line_def Let_def deref_suffix_def)
qed

lemma update_new: "k \<notin> fst ` set al \<Longrightarrow> AList.update k v al = al @ [(k, v)]"
  by (induction al) auto

lemma update_last: "k \<notin> fst ` set al \<Longrightarrow> AList.update k v (al @ [(k, w)]) = al @ [(k, v)]"
  by (induction al) auto

lemma collect_printed:
  assumes "printable p" and "originRef (e_ref (fst p)) \<notin> fst ` set acc"
  shows "fold collect_ref (show_ref_lines p) acc = acc @ [(originRef (e_ref (fst p)), fst p)]"
proof -
  note name = printable_name [OF assms(1)]
  from assms(2) have new: "map_of acc (originRef (e_ref (fst p))) = None" by (simp add: map_of_eq_None_iff)
  show ?thesis
  proof (cases p rule: show_ref_lines.cases)
    case (1 e)
    with assms name new show ?thesis
      by (simp add: collect_ref_def match_ref_line_plain [simplified] update_new printable_def)
  next
    case (2 e t)
    with assms name new show ?thesis
      by (simp add: collect_ref_def match_ref_line_plain [simplified] update_new update_last printable_def)
  qed
qed

lemma collect_all_printed:
  assumes "\<forall>p \<in> set es. printable p" and "distinct (map (originRef \<circ> e_ref \<circ> fst) es)"
    and "(originRef \<circ> e_ref \<circ> fst) ` set es \<inter> fst ` set acc = {}"
  shows "map snd (fold collect_ref (concat (map show_ref_lines es)) acc) = map snd acc @ map fst es"
  using assms
proof (induction es arbitrary: acc)
  case (Cons p es)
  then have "fold collect_ref (show_ref_lines p) acc = acc @ [(originRef (e_ref (fst p)), fst p)]"
    by (intro collect_printed) auto
  with Cons show ?case by (auto simp: image_iff)
qed simp

text \<open>
  Reading what the git program prints for branches and tags with different names gives back every
  branch with its commit and every tag with the commit it points to, also for an annotated tag,
  whose own sha is printed first, in the order in which they were printed.
\<close>

theorem printed_refs_are_read:
  assumes "\<forall>p \<in> set es. printable p" and "distinct (map (originRef \<circ> e_ref \<circ> fst) es)"
  shows "parseReferences (print_refs es) = map fst es"
proof -
  have "\<forall>l \<in> set (concat (map show_ref_lines es)). CHR 0x0A \<notin> set l \<and> l \<noteq> []"
    using assms(1) lines_of_printable by auto
  from split_lines [OF this] collect_all_printed [OF assms, of "[]"] show ?thesis
    by (simp add: parseReferences_def print_refs_def)
qed

lemma printed_refs_are_read_witness:
  "parseReferences (print_refs [(\<lparr> e_ref = BranchRef ''main'', e_sha = replicate 40 CHR ''a'' \<rparr>, None),
      (\<lparr> e_ref = TagRef ''1.0'', e_sha = replicate 40 CHR ''b'' \<rparr>, Some (replicate 40 CHR ''c''))]) =
   [\<lparr> e_ref = BranchRef ''main'', e_sha = replicate 40 CHR ''a'' \<rparr>, \<lparr> e_ref = TagRef ''1.0'', e_sha = replicate 40 CHR ''b'' \<rparr>]"
proof -
  have "is_sha (replicate 40 CHR ''a'')" "is_sha (replicate 40 CHR ''b'')" "is_sha (replicate 40 CHR ''c'')"
    by (simp_all add: is_sha_def list_all_iff hex_val_def)
  then show ?thesis
    by (subst printed_refs_are_read) (auto simp: printable_def)
qed

text \<open>
  Two repositories share a clone on the disk when their paths differ only in a slash against an
  underscore; the commands for them are not kept apart by the serializer, whose key has the path.
\<close>

lemma clones_collide:
  "repositoryPath cache \<lparr> src_id = i, src_path = ''a/b'' \<rparr> = repositoryPath cache \<lparr> src_id = i, src_path = ''a_b'' \<rparr>"
  by (simp add: repositoryPath_def split_eval)

text \<open>The origin of a clone from the second kind of service does not name the repository.\<close>

lemma gitlab_origin_without_path:
  "remote_origin secrets (GitlabSourceService i https) s = remote_origin secrets (GitlabSourceService i https) s'"
  by simp

end
