(* ===== verification/Source_Cache.thy ===== *)
theory Source_Cache
  imports Local_Git Repository_Model "HOL-Library.Countable"
begin

text \<open>
  The service over the local clones (\<open>backend/src/system/source-cache-impl.ts\<close>), its listeners,
  and the models of the repositories that are kept in the key-value server until a listener removes
  them (\<open>backend/src/repositories/repository/raw-model-repository.ts\<close>). The text form of a model is
  a parameter, as is the git program.
\<close>

section \<open>State\<close>

record 'g cached =
  cd_git :: 'g
  cd_models :: "string \<Rightarrow> string option"

definition on_git :: "('g, 'a) operation \<Rightarrow> ('g cached, 'a) operation" where
  "on_git f w = (let (r, g) = f (cd_git w) in (r, w \<lparr> cd_git := g \<rparr>))"

text \<open>The service: its git program, its factory and its listeners.\<close>

record 'g source_cache =
  sc_git :: "'g git_program"
  sc_factory :: git_factory
  sc_listeners :: "(source \<Rightarrow> ('g cached, unit) operation) list"

definition sc_execute :: "'g source_cache \<Rightarrow> source \<Rightarrow> ('g, 'a) git_function \<Rightarrow> ('g cached, 'a) operation" where
  "sc_execute S s cmd = on_git (git_execute (sc_git S) (sc_factory S) s cmd CACHED)"

definition fireListeners :: "'g source_cache \<Rightarrow> source \<Rightarrow> ('g cached, unit) operation" where
  "fireListeners S s = op_all (\<lambda>l. l s) (sc_listeners S)"

definition handleEnsureResult :: "'g source_cache \<Rightarrow> source \<Rightarrow> ensure_result \<Rightarrow> string \<Rightarrow> ('g cached, unit) operation" where
  "handleEnsureResult S s result what =
     (case result of
        NO_ACTION \<Rightarrow> done_with ()
      | UPDATED \<Rightarrow> fireListeners S s
      | NOT_FOUND \<Rightarrow> (\<lambda>w. (Inl (Error (''Could not load '' @ what @ ''.'')), w)))"

fun entity_toString :: "entity \<Rightarrow> string" where
  "entity_toString e =
     (if is_branch_ref (e_ref e) then ''Branch '' else ''Tag '') @ ref_name (e_ref e) @ '' -> '' @ e_sha e"

definition fetchAllDefaults :: "'g source_cache \<Rightarrow> source \<Rightarrow> ('g cached, unit) operation" where
  "fetchAllDefaults S s = op_bind (sc_execute S s (git_FetchDefaultRemotes (sc_git S))) (\<lambda>_. fireListeners S s)"

definition ensureRef :: "'g source_cache \<Rightarrow> source \<Rightarrow> ref \<Rightarrow> string \<Rightarrow> ('g cached, unit) operation" where
  "ensureRef S s r spec =
     op_bind (sc_execute S s (MacroEnsureRefExists (sc_git S) r spec)) (\<lambda>result. handleEnsureResult S s result (ref_toString r))"

definition ensureEntity :: "'g source_cache \<Rightarrow> source \<Rightarrow> entity \<Rightarrow> string \<Rightarrow> ('g cached, unit) operation" where
  "ensureEntity S s entity spec =
     op_bind (sc_execute S s (MacroEnsureEntityExists (sc_git S) entity spec)) (\<lambda>result.
       handleEnsureResult S s result (entity_toString entity))"

definition ensureDeleted :: "'g source_cache \<Rightarrow> source \<Rightarrow> ref \<Rightarrow> ('g cached, unit) operation" where
  "ensureDeleted S s r =
     op_bind (sc_execute S s (MacroEnsureRefDeleted (sc_git S) r)) (\<lambda>result. handleEnsureResult S s result (ref_toString r))"

definition prune :: "'g source_cache \<Rightarrow> source \<Rightarrow> ('g cached, unit) operation" where
  "prune S s = sc_execute S s (git_FetchPrune (sc_git S))"

definition getEntities :: "'g source_cache \<Rightarrow> source \<Rightarrow> ('g cached, entity list) operation" where
  "getEntities S s = sc_execute S s (git_getBranchesAndTags (sc_git S))"

text \<open>The number of commits that the caller asks for is not used.\<close>

definition MAX_COMMIT_COUNT :: int where
  "MAX_COMMIT_COUNT = 100"

definition getCommits ::
    "'g source_cache \<Rightarrow> source \<Rightarrow> ref \<Rightarrow> ref option \<Rightarrow> int \<Rightarrow> ('g cached, git_commit list) operation" where
  "getCommits S s to from maxCount = sc_execute S s (git_getCommits (sc_git S) to from MAX_COMMIT_COUNT)"

section \<open>Models kept in the key-value server\<close>

text \<open>How a model is written as text and read again.\<close>

record model_codec =
  mc_encode :: "root \<Rightarrow> string"
  mc_decode :: "string \<Rightarrow> root res"

definition modelKey :: "source \<Rightarrow> string" where
  "modelKey s = ''repository-model:'' @ src_id s @ '':'' @ src_path s"

definition model_onUpdate :: "source \<Rightarrow> ('g cached, unit) operation" where
  "model_onUpdate s w = (Inr (), w \<lparr> cd_models := (cd_models w) (modelKey s := None) \<rparr>)"

definition lift_res :: "'a res \<Rightarrow> ('g, 'a) operation" where
  "lift_res r g = (r, g)"

definition model_get :: "string \<Rightarrow> ('g cached, string option) operation" where
  "model_get k w = (Inr (cd_models w k), w)"

definition model_set :: "string \<Rightarrow> string \<Rightarrow> ('g cached, unit) operation" where
  "model_set k v w = (Inr (), w \<lparr> cd_models := (cd_models w) (k \<mapsto> v) \<rparr>)"

definition getRawModelFromSource :: "'g source_cache \<Rightarrow> source \<Rightarrow> ('g cached, raw_data) operation" where
  "getRawModelFromSource S s = op_bind (getEntities S s) (\<lambda>es. lift_res (getRawModel es))"

definition getModel :: "'g source_cache \<Rightarrow> model_codec \<Rightarrow> source \<Rightarrow> ('g cached, root) operation" where
  "getModel S C s =
     op_bind (model_get (modelKey s)) (\<lambda>serialized.
       if truthy serialized then lift_res (mc_decode C (the serialized))
       else op_bind (getRawModelFromSource S s) (\<lambda>raw.
         let loaded = convertModel raw in
         op_bind (model_set (modelKey s) (mc_encode C loaded)) (\<lambda>_. done_with loaded)))"

section \<open>Listeners\<close>

text \<open>
  What the service relies on: a listener does not fail, does not touch the clones, and afterwards
  what it keeps of the repository is up to date. \<open>fresh\<close> says the last.
\<close>

locale cache_listener =
  fixes notify :: "source \<Rightarrow> ('g cached, unit) operation"
    and fresh :: "source \<Rightarrow> 'g cached \<Rightarrow> bool"
  assumes notify_ok: "fst (notify s w) = Inr ()"
    and notify_git: "cd_git (snd (notify s w)) = cd_git w"
    and notify_fresh: "fresh s (snd (notify s w))"
begin

lemma fire:
  assumes "sc_listeners S = [notify]"
  shows "fst (fireListeners S s w) = Inr ()" "cd_git (snd (fireListeners S s w)) = cd_git w"
    "fresh s (snd (fireListeners S s w))"
proof -
  have "notify s w = (Inr (), snd (notify s w))"
    using notify_ok [of s w] by (cases "notify s w") simp
  then have "fireListeners S s w = (Inr (), snd (notify s w))"
    by (simp add: fireListeners_def assms op_bind_def done_with_def split: sum.split prod.split)
  then show "fst (fireListeners S s w) = Inr ()" "cd_git (snd (fireListeners S s w)) = cd_git w"
    "fresh s (snd (fireListeners S s w))"
    using notify_git notify_fresh by auto
qed

text \<open>A command that reports truthfully keeps what is up to date so.\<close>

lemma ensured_fresh:
  assumes "sc_listeners S = [notify]" and "fresh s w"
    and "on_git f w = (Inr r, w1)" and "r = NO_ACTION \<Longrightarrow> w1 = w"
    and "op_bind (on_git f) (\<lambda>r. handleEnsureResult S s r what) w = (Inr (), w2)"
  shows "fresh s w2 \<and> cd_git w2 = cd_git w1"
proof -
  from assms(3,5) have h: "handleEnsureResult S s r what w1 = (Inr (), w2)" by (auto simp: op_bind_Inr)
  show ?thesis
  proof (cases r)
    case NO_ACTION
    with assms(2,4) h show ?thesis by (simp add: handleEnsureResult_def done_with_def)
  next
    case UPDATED
    with h have "w2 = snd (fireListeners S s w1)" by (simp add: handleEnsureResult_def)
    with fire [OF assms(1)] show ?thesis by simp
  next
    case NOT_FOUND
    with h show ?thesis by (simp add: handleEnsureResult_def)
  qed
qed

end


section \<open>Calm commands\<close>

text \<open>
  A command is calm when the source is configured, its clone exists, and the first attempt does not
  fail: then it is run once.
\<close>

definition configured :: "'g source_cache \<Rightarrow> source \<Rightarrow> bool" where
  "configured S s \<longleftrightarrow>
     (case List.find (\<lambda>c. ss_id c = src_id s) (gf_sources (sc_factory S)) of
        None \<Rightarrow> False
      | Some conf \<Rightarrow> \<exists>origin. remote_origin (gf_secrets (sc_factory S)) conf s = Inr origin)"

definition clone_of :: "'g source_cache \<Rightarrow> source \<Rightarrow> string" where
  "clone_of S s = repositoryPath (gf_cache (sc_factory S)) s"

definition calm :: "'g source_cache \<Rightarrow> source \<Rightarrow> ('g, 'a) git_function \<Rightarrow> 'g cached \<Rightarrow> bool" where
  "calm S s cmd w \<longleftrightarrow> configured S s \<and> gt_cloned (sc_git S) (clone_of S s) (cd_git w) \<and> \<not> fails (cmd (clone_of S s)) (cd_git w)"

lemma executeCommand_first: "\<not> fails f g \<Longrightarrow> executeCommand f n g = f g"
  by (cases n; cases "f g") (auto simp: op_catch_def fails_def split: sum.splits)

lemma calm_executes:
  assumes "calm S s cmd w"
  shows "sc_execute S s cmd w = on_git (cmd (clone_of S s)) w"
proof -
  from assms obtain conf origin where
    "List.find (\<lambda>c. ss_id c = src_id s) (gf_sources (sc_factory S)) = Some conf"
    "remote_origin (gf_secrets (sc_factory S)) conf s = Inr origin"
    by (auto simp: calm_def configured_def split: option.splits)
  moreover have "gt_cloned (sc_git S) (repositoryPath (gf_cache (sc_factory S)) s) (cd_git w)"
    using assms by (simp add: calm_def clone_of_def)
  ultimately have "executeInternal (sc_git S) (sc_factory S) s cmd CACHED (cd_git w) =
      executeCommand (cmd (clone_of S s)) GIT_RETRY_COUNT (cd_git w)"
    by (simp add: executeInternal_cached clone_of_def)
  then have "executeInternal (sc_git S) (sc_factory S) s cmd CACHED (cd_git w) = cmd (clone_of S s) (cd_git w)"
    using assms by (simp add: executeCommand_first calm_def)
  then have "git_execute (sc_git S) (sc_factory S) s cmd CACHED (cd_git w) = cmd (clone_of S s) (cd_git w)"
    using assms by (cases "cmd (clone_of S s) (cd_git w)") (auto simp: git_execute_def op_catch_def calm_def fails_def split: sum.splits)
  then show ?thesis by (simp add: sc_execute_def on_git_def)
qed

lemma calm_sum: "\<not> fails f g \<Longrightarrow> \<exists>x. f g = (Inr x, snd (f g))"
  by (cases "f g"; cases "fst (f g)") (auto simp: fails_def)

lemma on_git_same: "on_git f w = (r, w1) \<Longrightarrow> snd (f (cd_git w)) = cd_git w \<Longrightarrow> w1 = w"
  by (auto simp: on_git_def split: prod.splits)

lemma no_action_same:
  assumes "reads_only G"
  shows "MacroEnsureEntityExists G entity spec dir g = (Inr NO_ACTION, g') \<Longrightarrow> g' = g"
    and "MacroEnsureRefExists G r spec dir g = (Inr NO_ACTION, g') \<Longrightarrow> g' = g"
    and "MacroEnsureRefDeleted G r dir g = (Inr NO_ACTION, g') \<Longrightarrow> g' = g"
  unfolding MacroEnsureEntityExists_def MacroEnsureRefExists_def MacroEnsureRefDeleted_def
  by (drule ensure_loop_report [rotated],
      simp_all add: RefExists_quiet EntityExists_quiet quiet_negated assms ensure_report_def)+

section \<open>Models that are up to date\<close>

text \<open>What is kept of a repository is the model of the references that its clone lists.\<close>

definition coherent :: "'g source_cache \<Rightarrow> model_codec \<Rightarrow> source \<Rightarrow> 'g cached \<Rightarrow> bool" where
  "coherent S C s w \<longleftrightarrow>
     (case cd_models w (modelKey s) of
        None \<Rightarrow> True
      | Some t \<Rightarrow> t \<noteq> [] \<and> (\<exists>es. fst (getEntities S s w) = Inr es \<and> mc_decode C t = getModelFromEntities es))"

interpretation models: cache_listener model_onUpdate "coherent S C"
  by unfold_locales (simp_all add: model_onUpdate_def coherent_def)

datatype cache_op =
    EnsureRefOp ref string
  | EnsureEntityOp entity string
  | EnsureDeletedOp ref
  | FetchAllOp
  | GetModelOp

fun run_cache_op :: "'g source_cache \<Rightarrow> model_codec \<Rightarrow> source \<Rightarrow> cache_op \<Rightarrow> ('g cached, unit) operation" where
  "run_cache_op S C s (EnsureRefOp r spec) = ensureRef S s r spec"
| "run_cache_op S C s (EnsureEntityOp entity spec) = ensureEntity S s entity spec"
| "run_cache_op S C s (EnsureDeletedOp r) = ensureDeleted S s r"
| "run_cache_op S C s FetchAllOp = fetchAllDefaults S s"
| "run_cache_op S C s GetModelOp = ignore_result (getModel S C s)"

fun calm_op :: "'g source_cache \<Rightarrow> source \<Rightarrow> cache_op \<Rightarrow> 'g cached \<Rightarrow> bool" where
  "calm_op S s (EnsureRefOp r spec) w = calm S s (MacroEnsureRefExists (sc_git S) r spec) w"
| "calm_op S s (EnsureEntityOp entity spec) w = calm S s (MacroEnsureEntityExists (sc_git S) entity spec) w"
| "calm_op S s (EnsureDeletedOp r) w = calm S s (MacroEnsureRefDeleted (sc_git S) r) w"
| "calm_op S s FetchAllOp w = calm S s (git_FetchDefaultRemotes (sc_git S)) w"
| "calm_op S s GetModelOp w = calm S s (git_getBranchesAndTags (sc_git S)) w"

text \<open>Operations that follow each other, all of them calm and successful.\<close>

fun undisturbed :: "'g source_cache \<Rightarrow> model_codec \<Rightarrow> source \<Rightarrow> cache_op list \<Rightarrow> 'g cached \<Rightarrow> bool" where
  "undisturbed S C s [] w \<longleftrightarrow> True"
| "undisturbed S C s (op # ops) w \<longleftrightarrow>
     calm_op S s op w \<and> fst (run_cache_op S C s op w) = Inr () \<and>
     undisturbed S C s ops (snd (run_cache_op S C s op w))"

definition run_cache_ops :: "'g source_cache \<Rightarrow> model_codec \<Rightarrow> source \<Rightarrow> cache_op list \<Rightarrow> ('g cached, unit) operation" where
  "run_cache_ops S C s ops = op_all (run_cache_op S C s) ops"


definition codec_ok :: "model_codec \<Rightarrow> bool" where
  "codec_ok C \<longleftrightarrow> (\<forall>m. mc_encode C m \<noteq> [] \<and> mc_decode C (mc_encode C m) = Inr m)"

lemma calm_listing:
  assumes "reads_only (sc_git S)" and "calm S s (git_getBranchesAndTags (sc_git S)) w"
  shows "\<exists>es. getEntities S s w = (Inr es, w)"
proof -
  let ?cmd = "git_getBranchesAndTags (sc_git S) (clone_of S s)"
  from calm_sum [of ?cmd "cd_git w"] assms(2) obtain es where es: "?cmd (cd_git w) = (Inr es, snd (?cmd (cd_git w)))"
    by (auto simp: calm_def)
  have "snd (gt_raw (sc_git S) (clone_of S s) [''show-ref'', ''--dereference''] (cd_git w)) = cd_git w"
    using assms(1) by (simp add: reads_only_def reading_def)
  then have "snd (?cmd (cd_git w)) = cd_git w"
    by (auto simp: git_getBranchesAndTags_def op_bind_def done_with_def split: prod.splits sum.splits)
  with es have "on_git ?cmd w = (Inr es, w)" by (simp add: on_git_def)
  then show ?thesis by (simp add: getEntities_def calm_executes [OF assms(2)])
qed

lemma getEntities_git: "cd_git w = cd_git w' \<Longrightarrow> fst (getEntities S s w) = fst (getEntities S s w')"
  by (simp add: getEntities_def sc_execute_def on_git_def split: prod.splits)

text \<open>Where the listing succeeds and the kept model is up to date, a model that is read is the model of the listing.\<close>

lemma getModel_listing:
  assumes "getEntities S s w = (Inr es, w)" and "coherent S C s w" and "codec_ok C"
  shows "fst (getModel S C s w) = getModelFromEntities es" and "coherent S C s (snd (getModel S C s w))"
    and "cd_git (snd (getModel S C s w)) = cd_git w"
proof -
  have "fst (getModel S C s w) = getModelFromEntities es \<and> coherent S C s (snd (getModel S C s w)) \<and>
    cd_git (snd (getModel S C s w)) = cd_git w"
  proof (cases "truthy (cd_models w (modelKey s))")
    case True
    with assms(1,2) have "getModel S C s w = (getModelFromEntities es, w)"
      by (auto simp: getModel_def op_bind_def model_get_def lift_res_def coherent_def truthy_iff)
    with assms(2) show ?thesis by simp
  next
    case False
    with assms(2) have none: "cd_models w (modelKey s) = None"
      by (auto simp: coherent_def split: option.splits)
    show ?thesis
    proof (cases "getRawModel es")
      case (Inl e)
      with none assms(1,2) show ?thesis
        by (simp add: getModel_def op_bind_def model_get_def getRawModelFromSource_def lift_res_def getModelFromEntities_def)
    next
      case (Inr raw)
      let ?w = "w \<lparr> cd_models := (cd_models w) (modelKey s \<mapsto> mc_encode C (convertModel raw)) \<rparr>"
      from none Inr assms(1) have get: "getModel S C s w = (Inr (convertModel raw), ?w)"
        by (simp add: getModel_def op_bind_def model_get_def getRawModelFromSource_def lift_res_def model_set_def Let_def done_with_def)
      have "fst (getEntities S s ?w) = Inr es"
        using getEntities_git [of ?w w S s] assms(1) by simp
      then have "coherent S C s ?w"
        using assms(3) Inr by (simp add: coherent_def codec_ok_def getModelFromEntities_def)
      with get Inr show ?thesis by (simp add: getModelFromEntities_def)
    qed
  qed
  then show "fst (getModel S C s w) = getModelFromEntities es" "coherent S C s (snd (getModel S C s w))"
    "cd_git (snd (getModel S C s w)) = cd_git w" by auto
qed

lemma result_eq: "fst p = Inr x \<Longrightarrow> p = (Inr x, snd p)"
  by (cases p) simp

text \<open>The three ensuring operations have one form, and none of them changes the clone when it reports no action.\<close>

lemma ensured_coherent:
  assumes "sc_listeners S = [model_onUpdate]" and "calm S s cmd w" and "coherent S C s w"
    and "fst (op_bind (sc_execute S s cmd) (\<lambda>r. handleEnsureResult S s r what) w) = Inr ()"
    and same: "\<And>g'. cmd (clone_of S s) (cd_git w) = (Inr NO_ACTION, g') \<Longrightarrow> g' = cd_git w"
  shows "coherent S C s (snd (op_bind (sc_execute S s cmd) (\<lambda>r. handleEnsureResult S s r what) w))"
proof -
  let ?f = "cmd (clone_of S s)"
  let ?p = "op_bind (on_git ?f) (\<lambda>r. handleEnsureResult S s r what) w"
  have p: "op_bind (sc_execute S s cmd) (\<lambda>r. handleEnsureResult S s r what) w = ?p"
    by (simp add: op_bind_def calm_executes [OF assms(2)])
  from assms(4) have "?p = (Inr (), snd ?p)" unfolding p by (rule result_eq)
  moreover from this obtain r w1 where f: "on_git ?f w = (Inr r, w1)" by (auto simp: op_bind_Inr)
  moreover have "w1 = w" if "r = NO_ACTION"
    using f that same by (auto simp: on_git_def split: prod.splits)
  ultimately show ?thesis
    unfolding p using models.ensured_fresh [OF assms(1) assms(3), of ?f r w1 what "snd ?p"] by blast
qed

lemma run_cache_op_coherent:
  assumes "reads_only (sc_git S)" and "sc_listeners S = [model_onUpdate]" and "codec_ok C"
    and "calm_op S s op w" and "fst (run_cache_op S C s op w) = Inr ()" and "coherent S C s w"
  shows "coherent S C s (snd (run_cache_op S C s op w))"
proof (cases op)
  case (EnsureRefOp r spec)
  with assms show ?thesis
    using ensured_coherent [OF assms(2) _ assms(6), of "MacroEnsureRefExists (sc_git S) r spec"] no_action_same [OF assms(1)]
    by (auto simp: ensureRef_def)
next
  case (EnsureEntityOp entity spec)
  with assms show ?thesis
    using ensured_coherent [OF assms(2) _ assms(6), of "MacroEnsureEntityExists (sc_git S) entity spec"] no_action_same [OF assms(1)]
    by (auto simp: ensureEntity_def simp del: entity_toString.simps)
next
  case (EnsureDeletedOp r)
  with assms show ?thesis
    using ensured_coherent [OF assms(2) _ assms(6), of "MacroEnsureRefDeleted (sc_git S) r"] no_action_same [OF assms(1)]
    by (auto simp: ensureDeleted_def)
next
  case FetchAllOp
  with assms(5) obtain w1 where "fetchAllDefaults S s w = fireListeners S s w1"
    by (auto simp: fetchAllDefaults_def op_bind_def split: prod.splits sum.splits)
  with FetchAllOp show ?thesis using models.fire(3) [OF assms(2)] by simp
next
  case GetModelOp
  with assms(1,4) obtain es where es: "getEntities S s w = (Inr es, w)" using calm_listing by (metis calm_op.simps(5))
  have "snd (ignore_result f w) = snd (f w)" for f :: "('a cached, root) operation"
    by (simp add: ignore_result_def op_bind_def done_with_def split: prod.splits sum.splits)
  with GetModelOp getModel_listing(2) [OF es assms(6,3)] show ?thesis by simp
qed

lemma undisturbed_coherent:
  assumes "reads_only (sc_git S)" and "sc_listeners S = [model_onUpdate]" and "codec_ok C"
    and "undisturbed S C s ops w" and "coherent S C s w"
  shows "coherent S C s (snd (run_cache_ops S C s ops w))"
  using assms(4,5)
proof (induction ops arbitrary: w)
  case (Cons op ops)
  let ?w = "snd (run_cache_op S C s op w)"
  from Cons.prems have "run_cache_op S C s op w = (Inr (), ?w)" by (simp add: result_eq)
  then have "run_cache_ops S C s (op # ops) w = run_cache_ops S C s ops ?w"
    by (simp only: run_cache_ops_def op_all.simps op_bind_def) (erule ssubst, simp)
  moreover have "coherent S C s ?w"
    using Cons.prems run_cache_op_coherent [OF assms(1-3)] by simp
  ultimately show ?case using Cons.IH Cons.prems by simp
qed (simp add: run_cache_ops_def done_with_def)

text \<open>C18
  Starting without a kept model, after any sequence of ensuring, fetching and reading operations on
  a repository of which each is calm and succeeds, the model that is read is the one of the
  branches and tags that the clone lists at that moment, whether it was kept or not.
\<close>

theorem read_model_is_current:
  assumes "reads_only (sc_git S)" and "sc_listeners S = [model_onUpdate]" and "codec_ok C"
    and "cd_models w (modelKey s) = None" and "undisturbed S C s ops w"
    and "w' = snd (run_cache_ops S C s ops w)" and "calm S s (git_getBranchesAndTags (sc_git S)) w'"
  shows "\<exists>es. getEntities S s w' = (Inr es, w') \<and> fst (getModel S C s w') = getModelFromEntities es"
proof -
  from calm_listing [OF assms(1,7)] obtain es where es: "getEntities S s w' = (Inr es, w')" by blast
  have "coherent S C s w" by (simp add: coherent_def assms(4))
  then have "coherent S C s w'" unfolding assms(6) by (rule undisturbed_coherent [OF assms(1-3,5)])
  from getModel_listing(1) [OF es this assms(3)] es show ?thesis by blast
qed


text \<open>
  A remote with one branch: its sha there, and its sha in the clone after the last fetch.
\<close>

definition tracked_git :: "(string \<times> string) git_program" where
  "tracked_git =
     \<lparr> gt_cloned = (\<lambda>dir g. True), gt_empty = (\<lambda>dir g. g), gt_init = (\<lambda>dir origin g. (Inr (), g)),
       gt_raw = (\<lambda>dir args g.
         if args = [''show-ref'', ''--dereference''] then (Inr (snd g @ '' refs/remotes/origin/main'' @ [CHR 0x0A]), g)
         else if reading args then (if args ! 2 = snd g then Inr [] else Inl (Error ''no''), g)
         else (Inr [], (fst g, fst g))),
       gt_fetch = (\<lambda>dir args g. (Inr (), (fst g, fst g))), gt_show = (\<lambda>dir spec g. (Inl (Error ''no''), g)),
       gt_write = (\<lambda>dir path data g. (Inr (), g)), gt_unlink = (\<lambda>dir path g. (Inr (), g)),
       gt_add = (\<lambda>dir path g. (Inr (), g)), gt_commit = (\<lambda>dir msg g. (Inr (), g)),
       gt_deleteBranch = (\<lambda>dir name g. (Inr (), g)) \<rparr>"

definition tracked_cache :: "(string \<times> string) source_cache" where
  "tracked_cache = \<lparr> sc_git = tracked_git, sc_factory = sample_factory, sc_listeners = [model_onUpdate] \<rparr>"

abbreviation "tracked_source \<equiv> \<lparr> src_id = ''i'', src_path = ''p'' \<rparr>"

lemma tracked_reads_only: "reads_only tracked_git"
  by (simp add: reads_only_def tracked_git_def)

lemma tracked_configured: "configured tracked_cache tracked_source"
proof -
  have "splitUserSecret ''u:p'' = Inr (''u'', ''p'')" by (simp add: splitUserSecret_def split_eval)
  then show ?thesis by (simp add: configured_def tracked_cache_def sample_factory_def)
qed

lemma tracked_calm: "calm tracked_cache tracked_source cmd w \<longleftrightarrow> \<not> fails (cmd (clone_of tracked_cache tracked_source)) (cd_git w)"
  by (simp add: calm_def tracked_configured) (simp add: tracked_cache_def tracked_git_def)


lemma tracked_steps:
  "git_FetchPrune tracked_git dir g = (Inr (), (fst g, fst g))"
  "git_FetchDefaultRemotes tracked_git dir g = (Inr (), (fst g, fst g))"
  "git_Fetch tracked_git specs dir g = (Inr (), (fst g, fst g))"
  "git_EntityExists tracked_git \<lparr> e_ref = BranchRef n, e_sha = sha \<rparr> dir g = (Inr (sha = snd g), g)"
  by (simp_all add: git_FetchPrune_def git_FetchDefaultRemotes_def git_Fetch_def ignore_result_def git_EntityExists_def tracked_git_def
      op_catch_def op_bind_def done_with_def reading_def)

lemma tracked_listing:
  assumes "is_sha (snd g)"
  shows "git_getBranchesAndTags tracked_git dir g = (Inr [\<lparr> e_ref = BranchRef ''main'', e_sha = snd g \<rparr>], g)"
proof -
  have "parseReferences (print_refs [(\<lparr> e_ref = BranchRef ''main'', e_sha = snd g \<rparr>, None)]) = [\<lparr> e_ref = BranchRef ''main'', e_sha = snd g \<rparr>]"
    using collect_all_printed [of "[(\<lparr> e_ref = BranchRef ''main'', e_sha = snd g \<rparr>, None)]" "[]"]
      split_lines [of "show_ref_lines (\<lparr> e_ref = BranchRef ''main'', e_sha = snd g \<rparr>, None)"]
      lines_of_printable [of "(\<lparr> e_ref = BranchRef ''main'', e_sha = snd g \<rparr>, None)"] assms
    by (simp add: parseReferences_def print_refs_def printable_def)
  then have "parseReferences (snd g @ '' refs/remotes/origin/main'' @ [CHR 0x0A]) = [\<lparr> e_ref = BranchRef ''main'', e_sha = snd g \<rparr>]"
    by (simp add: print_refs_def)
  then show ?thesis
    by (simp add: git_getBranchesAndTags_def tracked_git_def op_bind_def done_with_def)
qed

text \<open>C24
  After a prune has brought the new commit of a branch into the clone, the event that announces the
  commit takes no action, the listeners are not told by either, and the model that is read is the
  one that was kept before, whatever the clone lists.
\<close>

theorem prune_hides_push:
  assumes "reads_only (sc_git S)" and "cd_models w (modelKey s) = Some t" and "t \<noteq> []"
    and "w1 = snd (prune S s w)" and "calm S s (MacroEnsureEntityExists (sc_git S) entity spec) w1"
    and "holds (git_EntityExists (sc_git S) entity (clone_of S s)) (cd_git w1)"
  shows "ensureEntity S s entity spec w1 = (Inr (), w1) \<and> fst (getModel S C s w1) = mc_decode C t"
proof -
  have kept: "cd_models w1 = cd_models w"
    by (simp add: assms(4) prune_def sc_execute_def on_git_def split: prod.splits)
  have "MacroEnsureEntityExists (sc_git S) entity spec (clone_of S s) (cd_git w1) = (Inr NO_ACTION, cd_git w1)"
    using assms(6) EntityExists_quiet [OF assms(1)]
    by (simp add: MacroEnsureEntityExists_def RETRY_COUNT_def eval_nat_numeral op_bind_def quiet_check done_with_def)
  then have "sc_execute S s (MacroEnsureEntityExists (sc_git S) entity spec) w1 = (Inr NO_ACTION, w1)"
    by (simp add: calm_executes [OF assms(5)] on_git_def)
  then have "ensureEntity S s entity spec w1 = (Inr (), w1)"
    by (simp add: ensureEntity_def op_bind_def handleEnsureResult_def done_with_def)
  moreover have "fst (getModel S C s w1) = mc_decode C t"
    using assms(2,3) by (simp add: getModel_def op_bind_def model_get_def kept lift_res_def)
  ultimately show ?thesis ..
qed

lemma prune_hides_push_witness:
  "ensureEntity tracked_cache tracked_source \<lparr> e_ref = BranchRef ''main'', e_sha = ''b'' \<rparr> ''spec''
     \<lparr> cd_git = (''b'', ''b''), cd_models = [modelKey tracked_source \<mapsto> ''old''] \<rparr> =
     (Inr (), \<lparr> cd_git = (''b'', ''b''), cd_models = [modelKey tracked_source \<mapsto> ''old''] \<rparr>)"
proof -
  let ?w = "\<lparr> cd_git = (''b'', ''a''), cd_models = [modelKey tracked_source \<mapsto> ''old''] \<rparr>"
  let ?e = "\<lparr> e_ref = BranchRef ''main'', e_sha = ''b'' \<rparr>"
  have pruned: "snd (prune tracked_cache tracked_source ?w) = \<lparr> cd_git = (''b'', ''b''), cd_models = [modelKey tracked_source \<mapsto> ''old''] \<rparr>"
    unfolding prune_def
    by (subst calm_executes) (simp_all add: tracked_calm tracked_steps fails_def on_git_def, simp_all add: tracked_cache_def tracked_steps)
  have git: "sc_git tracked_cache = tracked_git" by (simp add: tracked_cache_def)
  have exists: "holds (git_EntityExists (sc_git tracked_cache) ?e (clone_of tracked_cache tracked_source))
      (cd_git (snd (prune tracked_cache tracked_source ?w)))"
    by (simp add: git tracked_steps holds_def pruned)
  have "MacroEnsureEntityExists tracked_git ?e ''spec'' dir (''b'', ''b'') = (Inr NO_ACTION, (''b'', ''b''))" for dir
    by (simp add: MacroEnsureEntityExists_def RETRY_COUNT_def eval_nat_numeral op_bind_def tracked_steps done_with_def)
  then have "calm tracked_cache tracked_source (MacroEnsureEntityExists (sc_git tracked_cache) ?e ''spec'')
      (snd (prune tracked_cache tracked_source ?w))"
    by (simp add: tracked_calm git pruned fails_def)
  from prune_hides_push [OF _ _ _ refl this exists, of "''old''"] show ?thesis
    by (simp add: git tracked_reads_only pruned)
qed


text \<open>A codec to instantiate with: a model is the number of its fields, written in unary.\<close>

lemma record_etas:
  "\<lparr> rel_patch = rel_patch r, rel_sha = rel_sha r \<rparr> = r"
  "\<lparr> mc_minor = mc_minor m, mc_releases = mc_releases m, mc_branch = mc_branch m \<rparr> = m"
  "\<lparr> mb_name = mb_name b, mb_sha = mb_sha b \<rparr> = b"
  "\<lparr> main_major = main_major c, main_main = main_main c, main_minors = main_minors c, main_start = main_start c \<rparr> = c"
  "\<lparr> maj_major = maj_major j, maj_minors = maj_minors j, maj_start = maj_start j, maj_branch = maj_branch j \<rparr> = j"
  "\<lparr> root_main = root_main x, root_majors = root_majors x \<rparr> = x"
  by simp_all

definition minor_fields :: "minor_container \<Rightarrow> int \<times> (int \<times> string) list \<times> string option" where
  "minor_fields m = (mc_minor m, map (\<lambda>r. (rel_patch r, rel_sha r)) (mc_releases m), mc_branch m)"

definition fields_minor :: "int \<times> (int \<times> string) list \<times> string option \<Rightarrow> minor_container" where
  "fields_minor = (\<lambda>(n, rs, b).
     \<lparr> mc_minor = n, mc_releases = map (\<lambda>(p, s). \<lparr> rel_patch = p, rel_sha = s \<rparr>) rs, mc_branch = b \<rparr>)"

lemma fields_minor_inverse: "fields_minor (minor_fields m) = m"
  by (simp add: fields_minor_def minor_fields_def comp_def record_etas)

definition root_fields :: "root \<Rightarrow> (int \<times> (string \<times> string) \<times> (int \<times> (int \<times> string) list \<times> string option) list \<times> string option) \<times>
    (int \<times> (int \<times> (int \<times> string) list \<times> string option) list \<times> string option \<times> string option) list" where
  "root_fields m =
     ((main_major (root_main m), (mb_name (main_main (root_main m)), mb_sha (main_main (root_main m))),
       map minor_fields (main_minors (root_main m)), main_start (root_main m)),
      map (\<lambda>j. (maj_major j, map minor_fields (maj_minors j), maj_start j, maj_branch j)) (root_majors m))"

definition fields_root :: "(int \<times> (string \<times> string) \<times> (int \<times> (int \<times> string) list \<times> string option) list \<times> string option) \<times>
    (int \<times> (int \<times> (int \<times> string) list \<times> string option) list \<times> string option \<times> string option) list \<Rightarrow> root" where
  "fields_root = (\<lambda>((n, (b, sha), ms, st), js).
     \<lparr> root_main = \<lparr> main_major = n, main_main = \<lparr> mb_name = b, mb_sha = sha \<rparr>, main_minors = map fields_minor ms, main_start = st \<rparr>,
       root_majors = map (\<lambda>(n, ms, st, b). \<lparr> maj_major = n, maj_minors = map fields_minor ms, maj_start = st, maj_branch = b \<rparr>) js \<rparr>)"

lemma fields_root_inverse: "fields_root (root_fields m) = m"
  by (simp add: fields_root_def root_fields_def comp_def fields_minor_inverse record_etas)

definition unary_codec :: model_codec where
  "unary_codec = \<lparr> mc_encode = (\<lambda>m. replicate (Suc (to_nat (root_fields m))) CHR ''1''),
     mc_decode = (\<lambda>t. Inr (fields_root (from_nat (length t - 1)))) \<rparr>"

lemma unary_codec_ok: "codec_ok unary_codec"
  by (simp add: codec_ok_def unary_codec_def fields_root_inverse)

lemma read_model_is_current_witness:
  "\<exists>w m. run_cache_ops tracked_cache unary_codec tracked_source [GetModelOp, EnsureEntityOp \<lparr> e_ref = BranchRef ''main'', e_sha = replicate 40 CHR ''b'' \<rparr> ''spec'']
       \<lparr> cd_git = (replicate 40 CHR ''b'', replicate 40 CHR ''a''), cd_models = Map.empty \<rparr> = (Inr (), w) \<and>
     fst (getModel tracked_cache unary_codec tracked_source w) = Inr m \<and>
     mb_sha (main_main (root_main m)) = replicate 40 CHR ''b''"
proof -
  have step: "\<exists>w m. run_cache_ops tracked_cache unary_codec tracked_source [GetModelOp, EnsureEntityOp \<lparr> e_ref = BranchRef ''main'', e_sha = b \<rparr> ''spec'']
       \<lparr> cd_git = (b, a), cd_models = Map.empty \<rparr> = (Inr (), w) \<and>
     fst (getModel tracked_cache unary_codec tracked_source w) = Inr m \<and>
     mb_sha (main_main (root_main m)) = b"
    if sha: "is_sha a" "is_sha b" and differ: "a \<noteq> b" for a b :: string
  proof -
    let ?w = "\<lparr> cd_git = (b, a), cd_models = Map.empty \<rparr>"
    let ?e = "\<lparr> e_ref = BranchRef ''main'', e_sha = b \<rparr>"
    let ?key = "modelKey tracked_source"
    have git: "sc_git tracked_cache = tracked_git" and listeners: "sc_listeners tracked_cache = [model_onUpdate]"
      by (simp_all add: tracked_cache_def)
    have list_calm: "calm tracked_cache tracked_source (git_getBranchesAndTags tracked_git) \<lparr> cd_git = g, cd_models = ms \<rparr>"
      if "is_sha (snd g)" for g ms
      using that by (simp add: tracked_calm tracked_listing fails_def)
    have list: "getEntities tracked_cache tracked_source \<lparr> cd_git = g, cd_models = ms \<rparr> =
        (Inr [\<lparr> e_ref = BranchRef ''main'', e_sha = snd g \<rparr>], \<lparr> cd_git = g, cd_models = ms \<rparr>)" if "is_sha (snd g)" for g ms
      using calm_executes [OF list_calm [OF that]] that by (simp add: getEntities_def git on_git_def tracked_listing)
    have main: "match_mainBranch ''main'' = Some ''main''" by code_simp
    have model: "\<exists>raw. getRawModel [\<lparr> e_ref = BranchRef ''main'', e_sha = x \<rparr>] = Inr raw \<and> mb_sha (main_main (root_main (convertModel raw))) = x" for x
      by (simp add: getRawModel_def collect_entity_def main convertModel_def all_builders_def)
    from model [of a] obtain raw where raw: "getRawModel [\<lparr> e_ref = BranchRef ''main'', e_sha = a \<rparr>] = Inr raw" by blast
    define t where "t = mc_encode unary_codec (convertModel raw)"
    let ?w1 = "\<lparr> cd_git = (b, a), cd_models = [?key \<mapsto> t] \<rparr>" and ?w2 = "\<lparr> cd_git = (b, b), cd_models = Map.empty \<rparr>"
    have run1: "run_cache_op tracked_cache unary_codec tracked_source GetModelOp ?w = (Inr (), ?w1)"
      using list [of "(b, a)"] sha raw
      by (simp add: ignore_result_def getModel_def op_bind_def model_get_def getRawModelFromSource_def lift_res_def model_set_def
          Let_def done_with_def t_def)
    have macro: "MacroEnsureEntityExists tracked_git ?e ''spec'' dir (b, a) = (Inr UPDATED, (b, b))" for dir
      by (simp add: MacroEnsureEntityExists_def RETRY_COUNT_def eval_nat_numeral op_bind_def tracked_steps done_with_def differ [symmetric])
    then have calm: "calm tracked_cache tracked_source (MacroEnsureEntityExists tracked_git ?e ''spec'') ?w1"
      by (simp add: tracked_calm fails_def)
    then have "sc_execute tracked_cache tracked_source (MacroEnsureEntityExists tracked_git ?e ''spec'') ?w1 = (Inr UPDATED, ?w1 \<lparr> cd_git := (b, b) \<rparr>)"
      by (simp add: calm_executes on_git_def macro)
    then have run2: "run_cache_op tracked_cache unary_codec tracked_source (EnsureEntityOp ?e ''spec'') ?w1 = (Inr (), ?w2)"
      by (simp add: ensureEntity_def git op_bind_def handleEnsureResult_def fireListeners_def listeners model_onUpdate_def done_with_def
          del: entity_toString.simps)
    have runs: "run_cache_ops tracked_cache unary_codec tracked_source [GetModelOp, EnsureEntityOp ?e ''spec''] ?w = (Inr (), ?w2)"
      using run1 run2 by (simp only: run_cache_ops_def op_all.simps op_bind_def) (simp add: done_with_def)
    have "undisturbed tracked_cache unary_codec tracked_source [GetModelOp, EnsureEntityOp ?e ''spec''] ?w"
      using run1 run2 calm list_calm [of "(b, a)"] sha
      by (simp only: undisturbed.simps calm_op.simps git) simp
    then have "\<exists>es. getEntities tracked_cache tracked_source ?w2 = (Inr es, ?w2) \<and>
        fst (getModel tracked_cache unary_codec tracked_source ?w2) = getModelFromEntities es"
      using list_calm [of "(b, b)"] sha
      by (intro read_model_is_current [of tracked_cache unary_codec ?w tracked_source "[GetModelOp, EnsureEntityOp ?e ''spec'']"])
        (simp_all add: git listeners tracked_reads_only unary_codec_ok runs)
    moreover have "getEntities tracked_cache tracked_source ?w2 = (Inr [\<lparr> e_ref = BranchRef ''main'', e_sha = b \<rparr>], ?w2)"
      using list [of "(b, b)"] sha by simp
    ultimately have "fst (getModel tracked_cache unary_codec tracked_source ?w2) = getModelFromEntities [\<lparr> e_ref = BranchRef ''main'', e_sha = b \<rparr>]"
      by simp
    moreover from model [of b] obtain raw2 where "getRawModel [\<lparr> e_ref = BranchRef ''main'', e_sha = b \<rparr>] = Inr raw2"
      "mb_sha (main_main (root_main (convertModel raw2))) = b" by blast
    ultimately show ?thesis
      using runs by (intro exI [of _ ?w2] exI [of _ "convertModel raw2"]) (simp add: getModelFromEntities_def)
  qed
  have "is_sha (replicate 40 CHR ''a'')" "is_sha (replicate 40 CHR ''b'')" "replicate 40 CHR ''a'' \<noteq> replicate 40 CHR ''b''"
    by (simp_all add: is_sha_def list_all_iff hex_val_def)
  then show ?thesis by (rule step)
qed

end
