(* ===== verification/Event_Stream.thy ===== *)
theory Event_Stream
  imports Json Refs Repository_Source
begin

text \<open>
  The stream of events of the review server: cutting the received data into lines
  (\<open>backend/src/utils/string-newline-tokenizer.ts\<close>), reading an event and telling the build system
  (\<open>backend/src/repositories/repository-access/gerrit/gerrit-stream-listener.ts\<close>, \<open>events.ts\<close>,
  \<open>change-cache.ts\<close>, \<open>gerrit-update.ts\<close>), and the connection with its restarts. A field whose type is
  not the one that \<open>events.ts\<close> declares counts as an error here.
\<close>

section \<open>Lines\<close>

text \<open>The lines that the callback is given, and the data that is left.\<close>

function stringNewlineTokenizer :: "string \<Rightarrow> string list \<times> string" where
  "stringNewlineTokenizer data =
     (case find_index (\<lambda>c. c = CHR 0x0A) data of
        None \<Rightarrow> ([], data)
      | Some pos \<Rightarrow>
          (let event = trim (take pos data);
               rest = stringNewlineTokenizer (drop (pos + 1) data)
           in (if length event > 0 then event # fst rest else fst rest, snd rest)))"
  by pat_completeness auto
termination
  by (relation "measure length") (auto dest!: find_index_Some)

declare stringNewlineTokenizer.simps [simp del]

section \<open>Events\<close>

record stream_config =
  st_id :: string
  st_limited :: "string list option"

record gerrit_update =
  gu_source :: source
  gu_id :: string
  gu_sha :: string
  gu_target :: string
  gu_title :: string
  gu_labels :: "string list"
  gu_url :: string
  gu_number :: int

text \<open>What an event makes the listener call; the related changes are asked for before an update is passed on.\<close>

datatype stream_call =
    OnPush source entity
  | OnDelete source ref
  | OnPrune source
  | RelatedChanges gerrit_update string

definition isProjectActive :: "stream_config \<Rightarrow> string \<Rightarrow> bool" where
  "isProjectActive L project = (case st_limited L of None \<Rightarrow> True | Some ps \<Rightarrow> project \<in> set ps)"

definition js_get :: "json option \<Rightarrow> string \<Rightarrow> json option res" where
  "js_get v k =
     (case v of
        None \<Rightarrow> Inl (Error (''Cannot read properties of undefined (reading '' @ k @ '')''))
      | Some JNull \<Rightarrow> Inl (Error (''Cannot read properties of null (reading '' @ k @ '')''))
      | Some (JObj fs) \<Rightarrow> Inr (map_of fs k)
      | Some _ \<Rightarrow> Inr None)"

fun js_truthy :: "json option \<Rightarrow> bool" where
  "js_truthy None \<longleftrightarrow> False"
| "js_truthy (Some JNull) \<longleftrightarrow> False"
| "js_truthy (Some (JBool b)) \<longleftrightarrow> b"
| "js_truthy (Some (JNum n)) \<longleftrightarrow> n \<noteq> 0"
| "js_truthy (Some (JStr s)) \<longleftrightarrow> s \<noteq> []"
| "js_truthy (Some v) \<longleftrightarrow> True"

fun as_string :: "json option \<Rightarrow> string res" where
  "as_string (Some (JStr s)) = Inr s"
| "as_string v = Inl (Error ''string expected'')"

fun as_int :: "json option \<Rightarrow> int res" where
  "as_int (Some (JNum n)) = Inr n"
| "as_int v = Inl (Error ''number expected'')"

definition get_string :: "json option \<Rightarrow> string \<Rightarrow> string res" where
  "get_string v k = res_bind (js_get v k) as_string"

definition as_strings :: "json option \<Rightarrow> string list res" where
  "as_strings v =
     (if \<not> js_truthy v then Inr []
      else case v of
        Some (JArr vs) \<Rightarrow> res_mapM (\<lambda>x. as_string (Some x)) vs
      | _ \<Rightarrow> Inl (Error ''list expected''))"

definition no_revision :: string where
  "no_revision = replicate 40 CHR ''0''"

text \<open>\<open>/^refs\\/heads\\//\<close>, \<open>/^refs\\/tags\\//\<close> and \<open>/^refs\\/meta\\/config$/\<close>.\<close>

definition valid_ref :: "string \<Rightarrow> bool" where
  "valid_ref name \<longleftrightarrow> prefix ''refs/heads/'' name \<or> prefix ''refs/tags/'' name \<or> name = ''refs/meta/config''"

definition ref_updated :: "stream_config \<Rightarrow> json option \<Rightarrow> stream_call list res" where
  "ref_updated L event =
     res_bind (js_get event ''refUpdate'') (\<lambda>refUpdate.
     res_bind (get_string refUpdate ''project'') (\<lambda>project.
       if isProjectActive L project then
         res_bind (get_string refUpdate ''refName'') (\<lambda>refName.
           if valid_ref refName then
             (let source = \<lparr> src_id = st_id L, src_path = project \<rparr> in
              case tryCreateFromRemoteRef refName of
                Some ref \<Rightarrow>
                  res_bind (get_string refUpdate ''newRev'') (\<lambda>newRev.
                    if newRev = no_revision then Inr [OnDelete source ref]
                    else res_bind (sha_create newRev) (\<lambda>newSha. Inr [OnPush source \<lparr> e_ref = ref, e_sha = newRev \<rparr>]))
              | None \<Rightarrow> Inr [])
           else Inr [])
       else Inr []))"

definition newline :: string where
  "newline = [CHR 0x0A]"

definition update_comment :: "gerrit_update \<Rightarrow> json \<Rightarrow> string" where
  "update_comment u event =
     ''Gerrit `ref-updated` [Gerrit]('' @ gu_url u @ '')'' @ newline @ newline @ ''```json'' @ newline @
     stringify2 event @ newline @ ''```''"

definition gerrit_update_of :: "source \<Rightarrow> json option \<Rightarrow> gerrit_update res" where
  "gerrit_update_of source event =
     res_bind (js_get event ''change'') (\<lambda>change.
     res_bind (js_get event ''patchSet'') (\<lambda>patchSet.
     res_bind (get_string change ''id'') (\<lambda>id.
     res_bind (get_string patchSet ''revision'') (\<lambda>revision.
     res_bind (sha_create revision) (\<lambda>sha.
     res_bind (get_string change ''branch'') (\<lambda>branch.
     res_bind (get_string change ''subject'') (\<lambda>subject.
     res_bind (js_get change ''hashtags'') (\<lambda>hashtags.
     res_bind (as_strings hashtags) (\<lambda>labels.
     res_bind (get_string change ''url'') (\<lambda>url.
     res_bind (js_get change ''number'') (\<lambda>number.
     res_bind (as_int number) (\<lambda>n.
       Inr \<lparr> gu_source = source, gu_id = id, gu_sha = revision, gu_target = branch, gu_title = subject,
             gu_labels = labels, gu_url = url, gu_number = n \<rparr>))))))))))))"

definition patch_set_created :: "stream_config \<Rightarrow> json \<Rightarrow> stream_call list res" where
  "patch_set_created L event =
     res_bind (js_get (Some event) ''change'') (\<lambda>change.
     res_bind (js_get change ''private'') (\<lambda>private.
       if js_truthy private then Inr []
       else res_bind (get_string (Some event) ''project'') (\<lambda>project.
         if isProjectActive L project then
           res_bind (gerrit_update_of \<lparr> src_id = st_id L, src_path = project \<rparr> (Some event)) (\<lambda>u.
             Inr [RelatedChanges u (update_comment u event)])
         else Inr [])))"

definition change_merged :: "stream_config \<Rightarrow> json option \<Rightarrow> stream_call list res" where
  "change_merged L event =
     res_bind (get_string event ''project'') (\<lambda>project.
       if isProjectActive L project then Inr [OnPrune \<lparr> src_id = st_id L, src_path = project \<rparr>] else Inr [])"

text \<open>The callback of a line, up to the answer about related changes.\<close>

definition stream_event :: "stream_config \<Rightarrow> string \<Rightarrow> stream_call list res" where
  "stream_event L line =
     (case json_parse line of
        None \<Rightarrow> Inl (Error ''SyntaxError'')
      | Some event \<Rightarrow>
          res_bind (js_get (Some event) ''type'') (\<lambda>type.
            if type = Some (JStr ''ref-updated'') then ref_updated L (Some event)
            else if type = Some (JStr ''patchset-created'') then patch_set_created L event
            else if type = Some (JStr ''change-merged'') then change_merged L (Some event)
            else Inr []))"

text \<open>The answer of the review server are the related changes; the update is passed on with a message, or as an error.\<close>

definition getRelatedChanges :: "'c list res \<Rightarrow> nat res" where
  "getRelatedChanges answer = res_bind answer (\<lambda>changes. Inr (length changes))"

definition related_answered :: "gerrit_update \<Rightarrow> string \<Rightarrow> 'c list res \<Rightarrow> (gerrit_update \<times> string \<times> bool) res" where
  "related_answered u comment answer =
     res_bind (getRelatedChanges answer) (\<lambda>count.
       if count = 0 then Inr (u, comment, False)
       else Inr (u, ''Can not process change because it has related changes (bad practice) in a commit chain ('' @
         show_int (int count) @ '' changes). To resolve: abandon all related changes, reset your working copy to the latest on `origin/'' @
         gu_target u @ ''` and re-push a new commit of your change to `refs/for/'' @ gu_target u @ ''`.'' @ newline @ newline @ comment, True))"

section \<open>Data\<close>

text \<open>
  A chunk is a buffer of bytes: it is made a text of its own (\<open>decode\<close>, the \<open>toString\<close> of the buffer) when it
  is appended to what was left, and the complete lines are handled. A character of several bytes that is cut
  between two chunks is so decoded in two parts.
\<close>

type_synonym bytes = "nat list"

definition on_data :: "(bytes \<Rightarrow> string) \<Rightarrow> stream_config \<Rightarrow> string \<Rightarrow> bytes \<Rightarrow> stream_call list res list \<times> string" where
  "on_data decode L fullData chunk =
     (let (lines, rest) = stringNewlineTokenizer (fullData @ decode chunk) in (map (stream_event L) lines, rest))"

fun on_chunks :: "(bytes \<Rightarrow> string) \<Rightarrow> stream_config \<Rightarrow> string \<Rightarrow> bytes list \<Rightarrow> stream_call list res list \<times> string" where
  "on_chunks decode L fullData [] = ([], fullData)"
| "on_chunks decode L fullData (chunk # chunks) =
     (let (calls, rest) = on_data decode L fullData chunk; (calls', rest') = on_chunks decode L rest chunks
      in (calls @ calls', rest'))"

section \<open>The connection\<close>

text \<open>
  The listener: whether it is active, the numbers of the client in use and of the next one, the data
  that is left of the current stream. Every connection has its own data.
\<close>

record stream_listener =
  sl_active :: bool
  sl_client :: "nat option"
  sl_next :: nat
  sl_data :: "nat \<Rightarrow> string"

datatype connection_event =
    StartCalled
  | ClientError nat
  | ClientReady nat bool
  | StreamClosed nat
  | StreamData nat bytes
  | DelayOver
  | ShutdownCalled

datatype connection_action =
    ConnectClient nat
  | EndClient nat
  | ExecStreamEvents nat
  | DelayStart nat
  | HandleEvent "stream_call list res"

definition listener_start :: "stream_listener \<Rightarrow> stream_listener \<times> connection_action list" where
  "listener_start s =
     (if sl_active s then
        (s \<lparr> sl_client := Some (sl_next s), sl_next := sl_next s + 1 \<rparr>,
         (case sl_client s of None \<Rightarrow> [] | Some c \<Rightarrow> [EndClient c]) @ [ConnectClient (sl_next s)])
      else (s, []))"

text \<open>\<open>ClientReady\<close> carries whether the command could be executed.\<close>

fun connection_step :: "(bytes \<Rightarrow> string) \<Rightarrow> stream_config \<Rightarrow> connection_event \<Rightarrow> stream_listener \<Rightarrow> stream_listener \<times> connection_action list" where
  "connection_step decode L StartCalled s = listener_start s"
| "connection_step decode L (ClientError c) s = (s, [DelayStart 5])"
| "connection_step decode L (ClientReady c ok) s =
     (s \<lparr> sl_data := (sl_data s) (c := []) \<rparr>, ExecStreamEvents c # (if ok then [] else [DelayStart 5]))"
| "connection_step decode L (StreamClosed c) s = listener_start s"
| "connection_step decode L (StreamData c chunk) s =
     (let (calls, rest) = on_data decode L (sl_data s c) chunk
      in (s \<lparr> sl_data := (sl_data s) (c := rest) \<rparr>, map HandleEvent calls))"
| "connection_step decode L DelayOver s = listener_start s"
| "connection_step decode L ShutdownCalled s =
     (s \<lparr> sl_active := False \<rparr>, (case sl_client s of None \<Rightarrow> [] | Some c \<Rightarrow> [EndClient c]))"

fun connection_run :: "(bytes \<Rightarrow> string) \<Rightarrow> stream_config \<Rightarrow> connection_event list \<Rightarrow> stream_listener \<Rightarrow> stream_listener \<times> connection_action list" where
  "connection_run decode L [] s = (s, [])"
| "connection_run decode L (e # es) s =
     (let (s', as) = connection_step decode L e s; (s'', as') = connection_run decode L es s' in (s'', as @ as'))"

section \<open>Lines of chunks\<close>

lemma find_index_append:
  "find_index P (xs @ ys) =
     (case find_index P xs of Some i \<Rightarrow> Some i | None \<Rightarrow> map_option (\<lambda>i. length xs + i) (find_index P ys))"
proof (induction xs)
  case Nil
  then show ?case by (cases "find_index P ys") simp_all
next
  case (Cons x xs)
  then show ?case by (cases "find_index P xs"; cases "find_index P ys") simp_all
qed

lemma no_line_iff: "find_index (\<lambda>c. c = CHR 0x0A) d = None \<longleftrightarrow> CHR 0x0A \<notin> set d"
  by (auto simp: find_index_None)

lemma tokenizer_no_line:
  assumes "CHR 0x0A \<notin> set d"
  shows "stringNewlineTokenizer d = ([], d)"
  using assms [folded no_line_iff] by (subst stringNewlineTokenizer.simps) simp

lemma tokenizer_some:
  assumes "find_index (\<lambda>c. c = CHR 0x0A) d = Some pos"
  shows "stringNewlineTokenizer d =
    ((if trim (take pos d) = [] then [] else [trim (take pos d)]) @ fst (stringNewlineTokenizer (drop (Suc pos) d)),
     snd (stringNewlineTokenizer (drop (Suc pos) d)))"
  using assms by (subst stringNewlineTokenizer.simps) (simp add: Let_def)

lemma line_induct [case_names no_line line]:
  assumes "\<And>d. CHR 0x0A \<notin> set d \<Longrightarrow> P d"
    and "\<And>d pos. find_index (\<lambda>c. c = CHR 0x0A) d = Some pos \<Longrightarrow> P (drop (Suc pos) d) \<Longrightarrow> P d"
  shows "P d"
proof (induction "length d" arbitrary: d rule: less_induct)
  case less
  show ?case
  proof (cases "find_index (\<lambda>c. c = CHR 0x0A) d")
    case None
    with assms(1) show ?thesis by (simp add: no_line_iff)
  next
    case (Some pos)
    then have "pos < length d" by (simp add: find_index_Some)
    then have "P (drop (Suc pos) d)" by (intro less) simp
    with assms(2) Some show ?thesis by blast
  qed
qed

lemma tokenizer_append:
  "stringNewlineTokenizer (a @ b) =
     (fst (stringNewlineTokenizer a) @ fst (stringNewlineTokenizer (snd (stringNewlineTokenizer a) @ b)),
      snd (stringNewlineTokenizer (snd (stringNewlineTokenizer a) @ b)))"
proof (induction a rule: line_induct)
  case (no_line a)
  then show ?case by (simp add: tokenizer_no_line)
next
  case (line a pos)
  then have "pos < length a" by (simp add: find_index_Some)
  moreover have "find_index (\<lambda>c. c = CHR 0x0A) (a @ b) = Some pos" by (simp add: find_index_append line)
  ultimately show ?case using line by (simp add: tokenizer_some)
qed

lemma tokenizer_rest: "CHR 0x0A \<notin> set (snd (stringNewlineTokenizer d))"
  by (induction d rule: line_induct) (simp_all add: tokenizer_no_line tokenizer_some)

lemma tokenizer_line:
  assumes "CHR 0x0A \<notin> set l" and "trim l \<noteq> []"
  shows "stringNewlineTokenizer (l @ CHR 0x0A # r) = (trim l # fst (stringNewlineTokenizer r), snd (stringNewlineTokenizer r))"
proof -
  have "find_index (\<lambda>c. c = CHR 0x0A) l = None" using assms(1) by (auto simp: find_index_None)
  then have "find_index (\<lambda>c. c = CHR 0x0A) (l @ CHR 0x0A # r) = Some (length l)" by (simp add: find_index_append)
  with assms(2) show ?thesis by (subst stringNewlineTokenizer.simps) (simp add: Let_def)
qed

text \<open>Once the chunks are texts, it does not matter how the data was cut.\<close>

lemma on_chunks_concat:
  "CHR 0x0A \<notin> set fullData \<Longrightarrow>
   on_chunks decode L fullData chunks =
     (let (ls, rest) = stringNewlineTokenizer (fullData @ concat (map decode chunks)) in (map (stream_event L) ls, rest))"
proof (induction chunks arbitrary: fullData)
  case (Cons c cs)
  obtain ls rest where t: "stringNewlineTokenizer (fullData @ decode c) = (ls, rest)" by fastforce
  then have "CHR 0x0A \<notin> set rest" using tokenizer_rest [of "fullData @ decode c"] by simp
  from Cons.IH [OF this] t show ?case
    using tokenizer_append [of "fullData @ decode c" "concat (map decode cs)"] by (simp add: on_data_def Let_def split_beta)
qed (simp add: tokenizer_no_line)

section \<open>Printed events\<close>

lemma print_one_line: "CHR 0x0A \<notin> set (print_json (\<lambda>l. []) '':'' l v)"
proof -
  have codes: "32 \<le> (of_char d :: nat)" if "d \<in> set (escape c)" for c d
    using that by (auto simp: escape_def Let_def backslash_def hex_digit_def split: if_splits)
  have "32 \<le> (of_char c :: nat)" if "c \<in> set (quoted s)" for c s
    using that codes by (auto simp: quoted_def quote_char_def)
  then have quoted_line: "CHR 0x0A \<notin> set (quoted s)" for s by force
  have join_line: "CHR 0x0A \<notin> set (join '','' xs)" if "\<forall>x \<in> set xs. CHR 0x0A \<notin> set x" for xs
    using that by (induction "'',''" xs rule: join.induct) auto
  show ?thesis
  proof (induction v arbitrary: l)
    case (JNum n)
    then show ?case by (auto dest!: show_int_chars simp: is_digit_def)
  next
    case (JArr vs)
    then show ?case by (auto intro!: join_line [rule_format] simp: image_iff dest: join_line [rotated])
  next
    case (JObj fs)
    then show ?case using quoted_line by (auto intro!: join_line)
  qed (simp_all add: quoted_line)
qed

lemma object_line: "trim (stringify (JObj fs)) = stringify (JObj fs)"
  by (rule trim_no_space) (auto simp: stringify_def is_space_def)

section \<open>Changes of a repository\<close>

text \<open>What happens in a repository on the review server: a branch or tag is created or moved, or removed; a change is merged.\<close>

datatype remote_change = Moved string entity | Gone string ref | Merged string

text \<open>The events that describe it: the fields that are read have these values, other fields are free.\<close>

fun describes :: "(string \<times> json) list \<Rightarrow> remote_change \<Rightarrow> bool" where
  "describes fs (Moved project e) \<longleftrightarrow>
     map_of fs ''type'' = Some (JStr ''ref-updated'') \<and>
     (\<exists>us. map_of fs ''refUpdate'' = Some (JObj us) \<and> map_of us ''project'' = Some (JStr project) \<and>
        map_of us ''refName'' = Some (JStr (remoteRef (e_ref e))) \<and> map_of us ''newRev'' = Some (JStr (e_sha e)))"
| "describes fs (Gone project r) \<longleftrightarrow>
     map_of fs ''type'' = Some (JStr ''ref-updated'') \<and>
     (\<exists>us. map_of fs ''refUpdate'' = Some (JObj us) \<and> map_of us ''project'' = Some (JStr project) \<and>
        map_of us ''refName'' = Some (JStr (remoteRef r)) \<and> map_of us ''newRev'' = Some (JStr no_revision))"
| "describes fs (Merged project) \<longleftrightarrow>
     map_of fs ''type'' = Some (JStr ''change-merged'') \<and> map_of fs ''project'' = Some (JStr project)"

fun proper :: "remote_change \<Rightarrow> bool" where
  "proper (Moved project e) \<longleftrightarrow> is_entity_ref (e_ref e) \<and> is_sha (e_sha e) \<and> e_sha e \<noteq> no_revision"
| "proper (Gone project r) \<longleftrightarrow> is_entity_ref r"
| "proper (Merged project) \<longleftrightarrow> True"

definition announced :: "stream_config \<Rightarrow> string \<Rightarrow> stream_call \<Rightarrow> stream_call list" where
  "announced L project call = (if isProjectActive L project then [call] else [])"

fun expected_calls :: "stream_config \<Rightarrow> remote_change \<Rightarrow> stream_call list" where
  "expected_calls L (Moved project e) = announced L project (OnPush \<lparr> src_id = st_id L, src_path = project \<rparr> e)"
| "expected_calls L (Gone project r) = announced L project (OnDelete \<lparr> src_id = st_id L, src_path = project \<rparr> r)"
| "expected_calls L (Merged project) = announced L project (OnPrune \<lparr> src_id = st_id L, src_path = project \<rparr>)"

lemma remote_name_valid:
  "is_entity_ref r \<Longrightarrow> valid_ref (remoteRef r) \<and> tryCreateFromRemoteRef (remoteRef r) = Some r"
  by (cases r) (simp_all add: valid_ref_def tryCreateFromRemoteRef_def createFromRemoteRef_meta
      createFromRemoteRef_remote [unfolded append_Cons append_Nil])

lemma described_event:
  assumes "describes fs c" and "proper c" and "json_ok (JObj fs)"
  shows "stream_event L (stringify (JObj fs)) = Inr (expected_calls L c)"
proof -
  have parsed: "stream_event L (stringify (JObj fs)) =
      res_bind (js_get (Some (JObj fs)) ''type'') (\<lambda>type.
        if type = Some (JStr ''ref-updated'') then ref_updated L (Some (JObj fs))
        else if type = Some (JStr ''patchset-created'') then patch_set_created L (JObj fs)
        else if type = Some (JStr ''change-merged'') then change_merged L (Some (JObj fs))
        else Inr [])"
    using assms(3) by (simp add: stream_event_def)
  show ?thesis
  proof (cases c)
    case (Moved project e)
    with assms(1,2) show ?thesis
      unfolding parsed
      by (cases e) (auto simp: js_get_def ref_updated_def get_string_def announced_def remote_name_valid Let_def sha_create_def)
  next
    case (Gone project r)
    with assms(1,2) show ?thesis
      unfolding parsed
      by (auto simp: js_get_def ref_updated_def get_string_def announced_def remote_name_valid Let_def)
  next
    case (Merged project)
    with assms(1,2) show ?thesis
      unfolding parsed by (auto simp: js_get_def change_merged_def get_string_def announced_def)
  qed
qed

lemma printed_lines:
  "stringNewlineTokenizer (concat (map (\<lambda>fs. stringify (JObj fs) @ newline) fss)) = (map (\<lambda>fs. stringify (JObj fs)) fss, [])"
proof (induction fss)
  case Nil
  then show ?case by (simp add: tokenizer_no_line)
next
  case (Cons fs fss)
  have "CHR 0x0A \<notin> set (stringify (JObj fs))" unfolding stringify_def by (rule print_one_line)
  then show ?case
    using tokenizer_line [of "stringify (JObj fs)"] Cons by (simp add: object_line newline_def)
qed

text \<open>What decoding is assumed to do: bytes below 128 are characters of their own.\<close>

definition decodes_ascii :: "(bytes \<Rightarrow> string) \<Rightarrow> bool" where
  "decodes_ascii decode \<longleftrightarrow> (\<forall>bs. list_all (\<lambda>b. b < 128) bs \<longrightarrow> decode bs = map char_of bs)"

lemma decoded_chunks:
  assumes "decodes_ascii decode" and "list_all (\<lambda>b. b < 128) (concat chunks)"
  shows "concat (map decode chunks) = map char_of (concat chunks)"
  using assms(2)
proof (induction chunks)
  case (Cons c cs)
  then have "decode c = map char_of c" using assms(1) by (simp add: decodes_ascii_def)
  with Cons show ?case by simp
qed simp

text \<open>C19
  However the stream of bytes is cut into chunks, printed events that describe a sequence of changes of
  repositories, in ASCII characters, make the listener announce exactly these changes, in their order and with
  their references and shas, for the projects that the listener is not limited to exclude; nothing is
  left over. Fields that are not read may hold anything in ASCII. For other characters this is not so: every
  chunk is decoded on its own.
\<close>

theorem stream_announces_changes:
  assumes "decodes_ascii decode"
    and "text = concat (map (\<lambda>fs. stringify (JObj fs) @ newline) fss)" and "list_all (\<lambda>c. of_char c < (128 :: nat)) text"
    and "concat chunks = map of_char text"
    and "list_all2 describes fss cs" and "list_all proper cs" and "list_all (\<lambda>fs. json_ok (JObj fs)) fss"
  shows "on_chunks decode L [] chunks = (map (\<lambda>c. Inr (expected_calls L c)) cs, [])"
proof -
  have "map (stream_event L) (map (\<lambda>fs. stringify (JObj fs)) fss) = map (\<lambda>c. Inr (expected_calls L c)) cs"
    using assms(5-7) by (induction rule: list_all2_induct) (simp_all add: described_event)
  moreover have "list_all (\<lambda>b. b < 128) (concat chunks)" using assms(3) by (simp add: assms(4) list_all_iff)
  from decoded_chunks [OF assms(1) this] have "concat (map decode chunks) = text" by (simp add: assms(4) comp_def)
  ultimately show ?thesis
    using on_chunks_concat [of "[]" decode L chunks] by (simp add: assms(2) printed_lines)
qed

lemma stream_announces_changes_witness:
  "let bytes = map of_char (stringify (JObj [(''type'', JStr ''change-merged''), (''project'', JStr ''p'')]))
   in on_chunks (map char_of) \<lparr> st_id = ''g'', st_limited = None \<rparr> [] [take 9 bytes, drop 9 bytes, [10]] =
     ([Inr [OnPrune \<lparr> src_id = ''g'', src_path = ''p'' \<rparr>]], [])"
proof -
  let ?event = "[(''type'', JStr ''change-merged''), (''project'', JStr ''p'')]"
  let ?text = "stringify (JObj ?event) @ newline"
  let ?bytes = "map of_char (stringify (JObj ?event)) :: nat list"
  have printed: "?text = concat (map (\<lambda>fs. stringify (JObj fs) @ newline) [?event])" by simp
  have ascii: "list_all (\<lambda>c. of_char c < (128 :: nat)) ?text" by code_simp
  have chunks: "concat [take 9 ?bytes, drop 9 ?bytes, [10]] = map of_char ?text" by (simp add: newline_def)
  have "decodes_ascii (map char_of)" by (simp add: decodes_ascii_def)
  from stream_announces_changes [OF this printed ascii chunks, of "[Merged ''p'']" "\<lparr> st_id = ''g'', st_limited = None \<rparr>"]
  show ?thesis by (simp add: Let_def announced_def isProjectActive_def)
qed

section \<open>Shutting down\<close>

definition connects :: "connection_action list \<Rightarrow> bool" where
  "connects as \<longleftrightarrow> (\<exists>c. ConnectClient c \<in> set as)"

lemma inactive_step:
  assumes "\<not> sl_active s"
  shows "\<not> sl_active (fst (connection_step decode L e s)) \<and> \<not> connects (snd (connection_step decode L e s))"
  using assms by (cases e) (auto simp: connects_def listener_start_def Let_def split: option.splits prod.splits)

lemma inactive_run:
  "\<not> sl_active s \<Longrightarrow> \<not> connects (snd (connection_run decode L es s))"
proof (induction es arbitrary: s)
  case (Cons e es)
  then show ?case using inactive_step [of s decode L e] by (auto simp: connects_def split_beta Let_def)
qed (simp add: connects_def)

lemma connection_run_append:
  "connection_run decode L (es @ fs) s =
     (fst (connection_run decode L fs (fst (connection_run decode L es s))),
      snd (connection_run decode L es s) @ snd (connection_run decode L fs (fst (connection_run decode L es s))))"
  by (induction es arbitrary: s) (simp_all add: split_beta Let_def)

text \<open>
  After the shutdown the listener never connects again, whatever happens to its clients, streams and
  delays, and the client that is in use is ended by the shutdown.
\<close>

theorem shutdown_is_final:
  "\<not> connects (snd (connection_run decode L (ShutdownCalled # es) s)) \<and>
   (case sl_client s of None \<Rightarrow> True | Some c \<Rightarrow> EndClient c \<in> set (snd (connection_run decode L (ShutdownCalled # es) s)))"
  using inactive_run [of "s \<lparr> sl_active := False \<rparr>" decode L es]
  by (auto simp: connects_def split_beta Let_def split: option.splits)

text \<open>
  An error of a client that has a stream starts the listener twice: when the stream closes, and
  when the delay is over; the second start ends the client that the first connected.
\<close>

lemma error_restarts_twice:
  "snd (connection_run decode L [StartCalled, ClientReady 0 True, ClientError 0, StreamClosed 0, ClientReady 1 True, DelayOver]
     \<lparr> sl_active = True, sl_client = None, sl_next = 0, sl_data = (\<lambda>c. []) \<rparr>) =
   [ConnectClient 0, ExecStreamEvents 0, DelayStart 5, EndClient 0, ConnectClient 1, ExecStreamEvents 1, EndClient 1, ConnectClient 2]"
  by (simp add: listener_start_def)

end
