(* ===== verification/Http_Requests.thy ===== *)
theory Http_Requests
  imports Json Event_Stream Local_Git
begin

text \<open>
  Requests to a service: the encoding of names in a path (\<open>backend/src/utils/string-util.ts\<close>), the
  request and its answer (\<open>backend/src/utils/http.ts\<close>), the decoding of answers of the review server
  (\<open>gerrit-json-response-decoder.ts\<close>), and the authenticated request of a repository access
  (\<open>abstract-repository-access.ts\<close>). The service is a parameter that answers a request with a
  status and a body or not at all; as the http library documents it, only a status from 200 to 299
  fulfils the request. Characters are code units below 256.
\<close>

section \<open>Bytes\<close>

definition utf8 :: "string \<Rightarrow> nat list" where
  "utf8 s = concat (map (\<lambda>c. let n = of_char c :: nat in if n < 128 then [n] else [192 + n div 64, 128 + n mod 64]) s)"

definition base64_digit :: "nat \<Rightarrow> char" where
  "base64_digit n =
     (if n < 26 then char_of (65 + n) else if n < 52 then char_of (71 + n) else if n < 62 then char_of (n - 4)
      else if n = 62 then CHR ''+'' else CHR ''/'')"

fun base64 :: "nat list \<Rightarrow> string" where
  "base64 (a # b # c # r) =
     [base64_digit (a div 4), base64_digit (a mod 4 * 16 + b div 16), base64_digit (b mod 16 * 4 + c div 64), base64_digit (c mod 64)] @ base64 r"
| "base64 [a, b] = [base64_digit (a div 4), base64_digit (a mod 4 * 16 + b div 16), base64_digit (b mod 16 * 4), CHR ''='']"
| "base64 [a] = [base64_digit (a div 4), base64_digit (a mod 4 * 16), CHR ''='', CHR ''='']"
| "base64 [] = []"

section \<open>Names in a path\<close>

text \<open>\<open>encodeURIComponent\<close> of the language.\<close>

definition upper_hex :: "nat \<Rightarrow> char" where
  "upper_hex n = (if n < 10 then char_of (48 + n) else char_of (55 + n))"

definition unreserved :: "nat \<Rightarrow> bool" where
  "unreserved n \<longleftrightarrow> 65 \<le> n \<and> n \<le> 90 \<or> 97 \<le> n \<and> n \<le> 122 \<or> 48 \<le> n \<and> n \<le> 57 \<or>
     n = 45 \<or> n = 95 \<or> n = 46 \<or> n = 33 \<or> n = 126 \<or> n = 42 \<or> n = 39 \<or> n = 40 \<or> n = 41"

definition percent :: "nat \<Rightarrow> string" where
  "percent n = [CHR ''%'', upper_hex (n div 16), upper_hex (n mod 16)]"

definition encode_byte :: "nat \<Rightarrow> string" where
  "encode_byte n = (if unreserved n then [char_of n] else percent n)"

definition encodeURIComponent :: "string \<Rightarrow> string" where
  "encodeURIComponent s = concat (map encode_byte (utf8 s))"

text \<open>
  \<open>/\{(.*?)\}/gm\<close>: from an opening brace to the next closing one, on a line. \<open>brace_end\<close> is the text
  between them and what follows.
\<close>

fun brace_end :: "string \<Rightarrow> (string \<times> string) option" where
  "brace_end [] = None"
| "brace_end (c # cs) =
     (if c = CHR ''}'' then Some ([], cs)
      else if c = CHR 0x0A \<or> c = CHR 0x0D then None
      else map_option (\<lambda>(s, r). (c # s, r)) (brace_end cs))"

lemma brace_end_length: "brace_end cs = Some (s, r) \<Longrightarrow> length r < length cs"
  by (induction cs arbitrary: s) (auto split: if_splits)

function encodeReplace :: "string \<Rightarrow> string" where
  "encodeReplace [] = []"
| "encodeReplace (c # cs) =
     (if c = CHR ''{'' then
        (case brace_end cs of
           Some (s, r) \<Rightarrow> encodeURIComponent s @ encodeReplace r
         | None \<Rightarrow> c # encodeReplace cs)
      else c # encodeReplace cs)"
  by pat_completeness auto
termination
  by (relation "measure length") (auto dest: brace_end_length)

definition chopString :: "string \<Rightarrow> nat \<Rightarrow> string" where
  "chopString input maxLength = (if length input \<le> maxLength then input else take maxLength input @ ''...'')"

text \<open>\<open>/\s+|,/\<close> separates; empty pieces are left out, so that runs of separators do not matter.\<close>

definition splitAndFilter :: "string \<Rightarrow> string list" where
  "splitAndFilter input =
     filter (\<lambda>s. length s > 0) (map trim (split '','' (map (\<lambda>c. if is_space c then CHR '','' else c) input)))"

section \<open>Requests\<close>

datatype HttpMethod = GET | POST | PUT | DELETE

record http_request =
  rq_url :: string
  rq_method :: HttpMethod
  rq_auth :: "string \<times> string"
  rq_data :: "json option"

text \<open>A body is text, unless the http library has already parsed it.\<close>

datatype http_body = BodyText string | BodyJson json

datatype http_answer = Answer int http_body | NoAnswer string

type_synonym 'h service = "http_request \<Rightarrow> 'h \<Rightarrow> http_answer \<times> 'h"

text \<open>An error is one of the http library, with the answer if there was one, an error object or a rejected text.\<close>

datatype access_error =
    HttpError "(int \<times> http_body) option" string
  | ErrorObject string
  | Rejected string

type_synonym ('h, 'a) call = "'h \<Rightarrow> (access_error + 'a) \<times> 'h"

definition call_done :: "'a \<Rightarrow> ('h, 'a) call" where
  "call_done x h = (Inr x, h)"

definition call_fail :: "access_error \<Rightarrow> ('h, 'a) call" where
  "call_fail e h = (Inl e, h)"

definition call_bind :: "('h, 'a) call \<Rightarrow> ('a \<Rightarrow> ('h, 'b) call) \<Rightarrow> ('h, 'b) call" where
  "call_bind f k h = (case f h of (Inl e, h') \<Rightarrow> (Inl e, h') | (Inr x, h') \<Rightarrow> k x h')"

definition call_catch :: "('h, 'a) call \<Rightarrow> (access_error \<Rightarrow> ('h, 'a) call) \<Rightarrow> ('h, 'a) call" where
  "call_catch f k h = (case f h of (Inl e, h') \<Rightarrow> k e h' | (Inr x, h') \<Rightarrow> (Inr x, h'))"

fun of_res :: "'a res \<Rightarrow> ('h, 'a) call" where
  "of_res (Inr x) = call_done x"
| "of_res (Inl (Error m)) = call_fail (ErrorObject m)"

definition http_execute :: "'h service \<Rightarrow> http_request \<Rightarrow> ('h, int \<times> http_body) call" where
  "http_execute server rq h =
     (case server rq h of
        (Answer status body, h') \<Rightarrow>
          (if 200 \<le> status \<and> status < 300 then (Inr (status, body), h')
           else (Inl (HttpError (Some (status, body)) (''Request failed with status code '' @ show_int status)), h'))
      | (NoAnswer m, h') \<Rightarrow> (Inl (HttpError None m), h'))"

text \<open>The access to a service: its id, its host, the vault and the service itself.\<close>

record 'h repository_access =
  ra_id :: string
  ra_host :: string
  ra_secrets :: "string \<Rightarrow> string res"
  ra_service :: "'h service"

definition createRequest :: "'h repository_access \<Rightarrow> string \<Rightarrow> HttpMethod \<Rightarrow> json option \<Rightarrow> ('h, int \<times> http_body) call" where
  "createRequest A path method data =
     call_bind (of_res (res_bind (ra_secrets A (''csp/common-build/https-'' @ ra_host A)) splitUserSecret)) (\<lambda>auth.
       http_execute (ra_service A)
         \<lparr> rq_url = ''https://'' @ ra_host A @ ''/'' @ path, rq_method = method, rq_auth = auth, rq_data = data \<rparr>)"

section \<open>Answers of the review server\<close>

text \<open>\<open>/^\)\]\}'\s+/m\<close>: the first line that starts with the prefix loses it, and the white space behind it.\<close>

definition magic :: string where
  "magic = [CHR '')'', CHR '']'', CHR ''}'', CHR 0x27]"

fun strip_magic :: "bool \<Rightarrow> string \<Rightarrow> string" where
  "strip_magic lineStart [] = []"
| "strip_magic lineStart (c # cs) =
     (let rest = drop (length magic) (c # cs) in
      if lineStart \<and> prefix magic (c # cs) \<and> rest \<noteq> [] \<and> is_space (hd rest) then dropWhile is_space rest
      else c # strip_magic (c = CHR 0x0A \<or> c = CHR 0x0D) cs)"

definition gerritJsonResponseDecode :: "http_body \<Rightarrow> json res" where
  "gerritJsonResponseDecode body =
     (case body of
        BodyText s \<Rightarrow> (case json_parse (strip_magic True s) of Some v \<Rightarrow> Inr v | None \<Rightarrow> Inl (Error ''SyntaxError''))
      | BodyJson v \<Rightarrow> Inr v)"

section \<open>Encoded names\<close>

text \<open>What the service does with a piece of a path.\<close>

definition upper_val :: "char \<Rightarrow> nat" where
  "upper_val c = (let n = of_char c :: nat in if n < 65 then n - 48 else n - 55)"

fun decode_bytes :: "string \<Rightarrow> nat list" where
  "decode_bytes (a # b # c # s) =
     (if a = CHR ''%'' then (16 * upper_val b + upper_val c) # decode_bytes s else of_char a # decode_bytes (b # c # s))"
| "decode_bytes (a # s) = of_char a # decode_bytes s"
| "decode_bytes [] = []"

fun utf8_chars :: "nat list \<Rightarrow> string" where
  "utf8_chars (n # ns) =
     (if n < 128 then char_of n # utf8_chars ns
      else case ns of [] \<Rightarrow> [] | m # ms \<Rightarrow> char_of (64 * (n - 192) + (m - 128)) # utf8_chars ms)"
| "utf8_chars [] = []"

definition decodeURIComponent :: "string \<Rightarrow> string" where
  "decodeURIComponent s = utf8_chars (decode_bytes s)"

lemma utf8_cons: "utf8 (c # s) = (let n = of_char c :: nat in if n < 128 then [n] else [192 + n div 64, 128 + n mod 64]) @ utf8 s"
  by (simp add: utf8_def)

lemma code_bytes:
  assumes "x < (256::nat)"
  shows "192 + x div 64 < 256" and "128 + x mod 64 < 256"
proof -
  have "x div 64 < 4" by (rule less_mult_imp_div_less) (use assms in simp)
  then show "192 + x div 64 < 256" by simp
  have "x mod 64 < 64" by simp
  then show "128 + x mod 64 < 256" by linarith
qed

lemma utf8_bytes: "n \<in> set (utf8 s) \<Longrightarrow> n < 256"
proof (induction s)
  case (Cons c s)
  define x :: nat where "x = of_char c"
  have "x < 256" unfolding x_def by (rule nat_of_char_less_256)
  from Cons.prems have "n \<in> set (if x < 128 then [x] else [192 + x div 64, 128 + x mod 64]) \<or> n \<in> set (utf8 s)"
    by (simp only: utf8_cons Let_def x_def set_append Un_iff)
  with Cons.IH code_bytes [OF \<open>x < 256\<close>] \<open>x < 256\<close> show ?case by (auto split: if_splits)
qed (simp add: utf8_def)

lemma utf8_chars_utf8: "utf8_chars (utf8 s) = s"
proof (induction s)
  case (Cons c s)
  have "64 * (of_char c div 64) + of_char c mod 64 = (of_char c :: nat)" by simp
  with Cons show ?case by (simp add: utf8_cons Let_def)
qed (simp add: utf8_def)

lemma upper_val_hex: "n < 16 \<Longrightarrow> upper_val (upper_hex n) = n"
  by (simp add: upper_val_def upper_hex_def Let_def)

lemma decode_encode_byte: "n < 256 \<Longrightarrow> decode_bytes (encode_byte n @ s) = n # decode_bytes s"
proof (cases "unreserved n")
  case True
  assume "n < 256"
  have "char_of n \<noteq> CHR ''%''"
  proof
    assume "char_of n = CHR ''%''"
    then have "of_char (char_of n :: char) = (of_char CHR ''%'' :: nat)" by (rule arg_cong)
    with \<open>n < 256\<close> have "n = 37" by simp
    with True show False by (simp add: unreserved_def)
  qed
  with True \<open>n < 256\<close> show ?thesis
    by (cases s; cases "tl s") (simp_all add: encode_byte_def)
next
  case False
  assume "n < 256"
  then have "n div 16 < 16" "n mod 16 < 16" by auto
  then show ?thesis using False by (simp add: encode_byte_def percent_def upper_val_hex)
qed

lemma decode_encoded: "list_all (\<lambda>n. n < 256) ns \<Longrightarrow> decode_bytes (concat (map encode_byte ns)) = ns"
  by (induction ns) (simp_all add: decode_encode_byte)

lemma decode_encodeURIComponent [simp]: "decodeURIComponent (encodeURIComponent s) = s"
  using utf8_bytes [of _ s] by (simp add: decodeURIComponent_def encodeURIComponent_def decode_encoded list_all_iff utf8_chars_utf8)

lemma encoded_chars: "c \<in> set (encodeURIComponent s) \<Longrightarrow> c = CHR ''%'' \<or> unreserved (of_char c)"
proof -
  have hex: "unreserved (of_char (upper_hex n))" if "n < 16" for n
    using that by (auto simp: upper_hex_def unreserved_def)
  have "c = CHR ''%'' \<or> unreserved (of_char c)" if "n < 256" "c \<in> set (encode_byte n)" for n
  proof (cases "unreserved n")
    case True
    with that show ?thesis by (simp add: encode_byte_def)
  next
    case False
    from that(1) have "n div 16 < 16" "n mod 16 < 16" by auto
    with False that(2) show ?thesis by (auto simp: encode_byte_def percent_def hex)
  qed
  then show "c \<in> set (encodeURIComponent s) \<Longrightarrow> c = CHR ''%'' \<or> unreserved (of_char c)"
    using utf8_bytes [of _ s] by (auto simp: encodeURIComponent_def)
qed

text \<open>A name between braces is encoded when it has no closing brace and no line break.\<close>

definition name_ok :: "string \<Rightarrow> bool" where
  "name_ok s \<longleftrightarrow> list_all (\<lambda>c. c \<noteq> CHR ''}'' \<and> c \<noteq> CHR 0x0A \<and> c \<noteq> CHR 0x0D) s"

lemma brace_end_name: "name_ok s \<Longrightarrow> brace_end (s @ CHR ''}'' # r) = Some (s, r)"
  by (induction s) (auto simp: name_ok_def)

lemma encodeReplace_plain: "list_all (\<lambda>c. c \<noteq> CHR ''{'') s \<Longrightarrow> encodeReplace (s @ r) = s @ encodeReplace r"
  by (induction s) auto

lemma encodeReplace_name: "name_ok s \<Longrightarrow> encodeReplace (CHR ''{'' # s @ CHR ''}'' # r) = encodeURIComponent s @ encodeReplace r"
  by (simp add: brace_end_name)

lemma encodeURIComponent_inject [simp]: "encodeURIComponent s = encodeURIComponent t \<longleftrightarrow> s = t"
  by (metis decode_encodeURIComponent)

section \<open>Answers with the prefix\<close>

lemma strip_magic_prefix:
  assumes "s \<noteq> []" and "\<not> is_space (hd s)"
  shows "strip_magic True (magic @ CHR 0x0A # s) = s"
proof -
  have "is_space (CHR 0x0A)" by (simp add: is_space_def)
  with assms show ?thesis
    by (simp add: magic_def dropWhile_id)
qed

lemma print_hd_no_space: "\<not> is_space (hd (stringify v))" "stringify v \<noteq> []"
proof -
  show "stringify v \<noteq> []" by simp
  show "\<not> is_space (hd (stringify v))"
  proof (cases v)
    case (JNum n)
    then show ?thesis using hd_show_int [of n]
      by (auto simp: stringify_def digit_not_space) (simp add: is_space_def)
  qed (auto simp: stringify_def is_space_def quoted_def quote_char_def)
qed

lemma decode_printed:
  assumes "json_ok v"
  shows "gerritJsonResponseDecode (BodyText (magic @ CHR 0x0A # stringify v)) = Inr v"
  using assms print_hd_no_space by (simp add: gerritJsonResponseDecode_def strip_magic_prefix del: strip_magic.simps)

end
