(* ===== verification/Gerrit_Access.thy ===== *)
theory Gerrit_Access
  imports Http_Requests
begin

text \<open>
  The access to the repositories of a source service: what every access does through the local
  clones (\<open>backend/src/repositories/repository-access/abstract-repository-access.ts\<close>), the requests
  to the review server (\<open>gerrit/gerrit-repository-access.ts\<close>), the access to the other kind of service,
  which refuses everything (\<open>gitlab/gitlab-repository-access.ts\<close>), and the choice between them
  (\<open>repository-access-factory.ts\<close>). Requests that the source sends together follow each other here,
  and of several errors the first in the list counts.
\<close>

section \<open>Errors as text\<close>

text \<open>A value in a template.\<close>

fun js_toString :: "json \<Rightarrow> string" where
  "js_toString JNull = ''null''"
| "js_toString (JBool b) = (if b then ''true'' else ''false'')"
| "js_toString (JNum n) = show_int n"
| "js_toString (JStr s) = s"
| "js_toString (JArr vs) = join '','' (map (\<lambda>v. if v = JNull then [] else js_toString v) vs)"
| "js_toString (JObj fs) = ''[object Object]''"

fun body_toString :: "http_body \<Rightarrow> string" where
  "body_toString (BodyText s) = s"
| "body_toString (BodyJson v) = js_toString v"

fun access_error_toString :: "access_error \<Rightarrow> string" where
  "access_error_toString (HttpError r m) = ''AxiosError: '' @ m"
| "access_error_toString (ErrorObject m) = error_toString (Error m)"
| "access_error_toString (Rejected m) = m"

fun error_status :: "access_error \<Rightarrow> int option" where
  "error_status (HttpError (Some (status, body)) m) = Some status"
| "error_status e = None"

fun error_data :: "access_error \<Rightarrow> http_body option" where
  "error_data (HttpError (Some (status, body)) m) = Some body"
| "error_data e = None"

definition show_undefined :: "('a \<Rightarrow> string) \<Rightarrow> 'a option \<Rightarrow> string" where
  "show_undefined f v = (case v of None \<Rightarrow> ''undefined'' | Some x \<Rightarrow> f x)"

section \<open>Requests to the review server\<close>

definition createGerritRequest ::
    "'h repository_access \<Rightarrow> string \<Rightarrow> HttpMethod \<Rightarrow> json option \<Rightarrow> ('h, int \<times> http_body) call" where
  "createGerritRequest A path method data = createRequest A (''a/'' @ encodeReplace path) method data"

definition braced :: "string \<Rightarrow> string" where
  "braced s = ''{'' @ s @ ''}''"

text \<open>A request whose answer must have one status; the answer is decoded.\<close>

definition expect_status :: "int \<Rightarrow> (int \<Rightarrow> string) \<Rightarrow> ('h, int \<times> http_body) call \<Rightarrow> ('h, http_body) call" where
  "expect_status expected message request =
     call_bind request (\<lambda>(status, body).
       if status = expected then call_done body else call_fail (ErrorObject (message status)))"

definition decoded :: "('h, http_body) call \<Rightarrow> ('h, json) call" where
  "decoded request = call_bind request (\<lambda>body. of_res (gerritJsonResponseDecode body))"

definition field_string :: "json \<Rightarrow> string \<Rightarrow> ('h, string) call" where
  "field_string v k = of_res (get_string (Some v) k)"

definition internalGetChange :: "'h repository_access \<Rightarrow> string \<Rightarrow> ('h, json) call" where
  "internalGetChange A updateId =
     decoded (expect_status 200 (\<lambda>st. ''Could not fetch ChangeId['' @ updateId @ '']: '' @ show_int st)
       (createGerritRequest A (''changes/'' @ updateId @ ''?o=CURRENT_REVISION'') GET None))"

definition internalGetChangeByChangeNr :: "'h repository_access \<Rightarrow> int \<Rightarrow> ('h, json option) call" where
  "internalGetChangeByChangeNr A n =
     call_bind (decoded (expect_status 200 (\<lambda>st. ''Could not fetch changeNr['' @ show_int n @ '']: '' @ show_int st)
       (createGerritRequest A (''changes/?q=change:'' @ show_int n) GET None)))
     (\<lambda>v. of_res (case v of JArr [] \<Rightarrow> Inr None | JArr (c # cs) \<Rightarrow> Inr (Some c) | _ \<Rightarrow> js_get (Some v) ''0''))"

definition internalGetBranch :: "'h repository_access \<Rightarrow> string \<Rightarrow> string \<Rightarrow> ('h, json) call" where
  "internalGetBranch A repository branch =
     decoded (expect_status 200 (\<lambda>st. ''Error while fetching branch: '' @ branch @ '' ['' @ show_int st @ '']'')
       (createGerritRequest A (''projects/'' @ braced repository @ ''/branches/'' @ branch) GET None))"

text \<open>A change without related changes may be answered with the status 404.\<close>

definition internalGetRelatedChanges :: "'h repository_access \<Rightarrow> string \<Rightarrow> string \<Rightarrow> ('h, json) call" where
  "internalGetRelatedChanges A updateId sha =
     call_catch
       (decoded (expect_status 200 (\<lambda>st. ''Could not fetch ChangeId['' @ updateId @ '']: '' @ show_int st)
         (createGerritRequest A (''changes/'' @ updateId @ ''/revisions/'' @ sha @ ''/related'') GET None)))
       (\<lambda>e. if error_status e = Some 404 then call_done (JObj [(''changes'', JArr [])]) else call_fail e)"

definition internalGetProjectLabels :: "'h repository_access \<Rightarrow> string \<Rightarrow> ('h, json) call" where
  "internalGetProjectLabels A repository =
     decoded (expect_status 200 (\<lambda>st. ''Error while fetching available labels from ['' @ repository @ '']'')
       (createGerritRequest A (''projects/'' @ braced repository @ ''/labels?inherited'') GET None))"

definition internalSetLabels :: "'h repository_access \<Rightarrow> string \<Rightarrow> string \<Rightarrow> (string \<times> json) list \<Rightarrow> ('h, unit) call" where
  "internalSetLabels A updateId revision labels =
     call_bind (expect_status 200 (\<lambda>st. ''Could not set labels: '' @ show_int st)
       (createGerritRequest A (''changes/'' @ updateId @ ''/revisions/'' @ revision @ ''/review'') POST
         (Some (JObj [(''message'', JStr ''Added by common-build''), (''labels'', JObj labels)]))))
       (\<lambda>_. call_done ())"

definition internalSetHashTags :: "'h repository_access \<Rightarrow> string \<Rightarrow> string list \<Rightarrow> ('h, unit) call" where
  "internalSetHashTags A updateId tags =
     (if tags = [] then call_done ()
      else call_bind (expect_status 200 (\<lambda>st. ''Could not set labels: '' @ show_int st)
        (createGerritRequest A (''changes/'' @ updateId @ ''/hashtags'') POST
          (Some (JObj [(''add'', JArr (map JStr tags)), (''remove'', JArr [])]))))
        (\<lambda>_. call_done ()))"

section \<open>Content of a change\<close>

record content =
  co_path :: string
  co_bytes :: "nat list"

definition text_content :: "string \<Rightarrow> string \<Rightarrow> content" where
  "text_content path data = \<lparr> co_path = path, co_bytes = utf8 data \<rparr>"

text \<open>A file whose content is already that of the change is answered with the status 409.\<close>

definition put_edit :: "'h repository_access \<Rightarrow> string \<Rightarrow> content \<Rightarrow> ('h, bool) call" where
  "put_edit A updateId c =
     call_catch
       (call_bind (createGerritRequest A (''changes/'' @ updateId @ ''/edit/'' @ braced (co_path c)) PUT
         (Some (JObj [(''binary_content'', JStr (''data:text/plain;base64,'' @ base64 (co_bytes c)))])))
         (\<lambda>_. call_done True))
       (\<lambda>e. if error_status e = Some 409 then call_done False else call_fail e)"

text \<open>\<open>Promise.all\<close>: every call is made.\<close>

fun call_all :: "('a \<Rightarrow> ('h, 'b) call) \<Rightarrow> 'a list \<Rightarrow> ('h, 'b list) call" where
  "call_all f [] h = (Inr [], h)"
| "call_all f (x # xs) h =
     (let (r, h1) = f x h; (rs, h2) = call_all f xs h1 in
      (case r of Inl e \<Rightarrow> Inl e | Inr y \<Rightarrow> (case rs of Inl e \<Rightarrow> Inl e | Inr ys \<Rightarrow> Inr (y # ys)), h2))"

definition internalUpsertFileContent :: "'h repository_access \<Rightarrow> string \<Rightarrow> content list \<Rightarrow> ('h, unit) call" where
  "internalUpsertFileContent A updateId contents =
     call_bind (call_all (put_edit A updateId) contents) (\<lambda>updates.
       if True \<in> set updates then
         call_bind (createGerritRequest A (''changes/'' @ updateId @ ''/edit:publish'') POST
           (Some (JObj [(''notify'', JStr ''NONE'')]))) (\<lambda>_. call_done ())
       else call_done ())"

definition updateUpdate :: "'h repository_access \<Rightarrow> string \<Rightarrow> content list \<Rightarrow> ('h, bool) call" where
  "updateUpdate A updateId contents =
     (if length contents \<noteq> 0 then call_bind (internalUpsertFileContent A updateId contents) (\<lambda>_. call_done True)
      else call_done False)"

definition createUpdate :: "'h repository_access \<Rightarrow> string \<Rightarrow> ref \<Rightarrow> string list \<Rightarrow> content list \<Rightarrow> ('h, string) call" where
  "createUpdate A repository target labels contents =
     call_catch
       (call_bind (decoded (expect_status 201
           (\<lambda>st. ''Could not create update to '' @ ref_name target @ '' in '' @ ra_id A @ ''/'' @ repository @ '' '' @ show_int st)
           (createGerritRequest A ''changes/'' POST (Some (JObj
             [(''project'', JStr repository),
              (''subject'', JStr (''CommonBuild update: '' @ join '','' (map co_path (take 5 contents)))),
              (''branch'', JStr (ref_name target)), (''status'', JStr ''NEW''), (''is_private'', JBool True)])))))
         (\<lambda>change. call_bind (field_string change ''change_id'') (\<lambda>changeId.
          call_bind (internalSetHashTags A changeId labels) (\<lambda>_.
          call_bind (createGerritRequest A (''changes/'' @ changeId @ ''/private'') DELETE None) (\<lambda>_.
          call_bind (internalUpsertFileContent A changeId contents) (\<lambda>_. call_done changeId))))))
       (\<lambda>e. call_fail (Rejected (''Could not create update on '' @ ra_id A @ ''/'' @ repository @ '': '' @
          show_undefined show_int (error_status e) @ '' '' @ access_error_toString e)))"

section \<open>Reviews\<close>

definition setValidBuild :: "'h repository_access \<Rightarrow> string \<Rightarrow> string \<Rightarrow> string \<Rightarrow> ('h, unit) call" where
  "setValidBuild A repository updateId sha = internalSetLabels A updateId sha [(''Verified'', JNum 1)]"

definition rebase_request :: "'h repository_access \<Rightarrow> string \<Rightarrow> string \<Rightarrow> ('h, string) call" where
  "rebase_request A updateId base =
     call_bind (decoded (expect_status 200 (\<lambda>st. ''Error while rebasing ['' @ show_int st @ ''] '' @ updateId)
       (createGerritRequest A (''changes/'' @ updateId @ ''/rebase'') POST (Some (JObj [(''base'', JStr base)])))))
     (\<lambda>change. call_bind (field_string change ''current_revision'') (\<lambda>revision.
        call_bind (of_res (sha_create revision)) (\<lambda>_. call_done revision)))"

text \<open>\<open>None\<close> is the result null: no rebase was needed.\<close>

definition rebase_end :: "'h repository_access \<Rightarrow> string \<Rightarrow> string \<Rightarrow> ('h, string option) call" where
  "rebase_end A updateId base =
     call_catch (call_bind (rebase_request A updateId base) (\<lambda>sha. call_done (Some sha)))
       (\<lambda>e. if error_status e = Some 409 then call_done None else call_fail e)"

definition rebase_onto :: "'h repository_access \<Rightarrow> string \<Rightarrow> string \<Rightarrow> string \<Rightarrow> ('h, string option) call" where
  "rebase_onto A repository updateId branch =
     call_bind (internalGetBranch A repository branch) (\<lambda>targetBranch.
     call_bind (field_string targetBranch ''revision'') (\<lambda>base. rebase_end A updateId base))"

definition rebase :: "'h repository_access \<Rightarrow> string \<Rightarrow> string \<Rightarrow> ('h, string option) call" where
  "rebase A repository updateId =
     call_bind (internalGetChange A updateId) (\<lambda>update.
     call_bind (of_res (js_get (Some update) ''mergeable'')) (\<lambda>mergeable.
       if \<not> js_truthy mergeable then call_fail (Rejected ''Update is not mergeable.'')
       else call_bind (field_string update ''branch'') (\<lambda>branch. rebase_onto A repository updateId branch)))"

text \<open>The highest value of a label; a key that is no number is passed over.\<close>

fun highestValue :: "int option list \<Rightarrow> int option" where
  "highestValue [] = None"
| "highestValue (None # vs) = highestValue vs"
| "highestValue (Some n # vs) = (case highestValue vs of None \<Rightarrow> Some n | Some m \<Rightarrow> Some (max n m))"

definition add_label :: "json \<Rightarrow> (string \<times> json) list \<Rightarrow> (string \<times> json) list res" where
  "add_label definition acc =
     res_bind (get_string (Some definition) ''name'') (\<lambda>name.
     res_bind (js_get (Some definition) ''values'') (\<lambda>vs.
       case vs of
         Some (JObj fs) \<Rightarrow>
           Inr (case highestValue (map (\<lambda>f. parse_int (fst f)) fs) of None \<Rightarrow> acc | Some n \<Rightarrow> AList.update name (JNum n) acc)
       | _ \<Rightarrow> Inl (Error ''values expected'')))"

fun labels_from :: "json list \<Rightarrow> (string \<times> json) list \<Rightarrow> (string \<times> json) list res" where
  "labels_from [] acc = Inr acc"
| "labels_from (d # ds) acc = res_bind (add_label d acc) (\<lambda>acc'. labels_from ds acc')"

definition labelsToSet :: "json \<Rightarrow> (string \<times> json) list res" where
  "labelsToSet available = (case available of JArr ds \<Rightarrow> labels_from ds [] | _ \<Rightarrow> Inl (Error ''list expected''))"

definition submit :: "'h repository_access \<Rightarrow> string \<Rightarrow> string \<Rightarrow> ('h, entity) call" where
  "submit A repository updateId =
     call_bind (decoded (expect_status 200 (\<lambda>st. ''Error while rebasing ['' @ show_int st @ ''] '' @ updateId)
       (createGerritRequest A (''changes/'' @ updateId @ ''/submit'') POST None)))
     (\<lambda>change. call_bind (field_string change ''branch'') (\<lambda>branch.
        call_bind (internalGetBranch A repository branch) (\<lambda>updatedBranch.
        call_bind (field_string updatedBranch ''revision'') (\<lambda>revision.
        of_res (branch_create branch revision)))))"

definition merge_labelled :: "'h repository_access \<Rightarrow> string \<Rightarrow> string \<Rightarrow> string \<Rightarrow> (string \<times> json) list \<Rightarrow> ('h, entity) call" where
  "merge_labelled A repository updateId revision labels =
     call_bind (internalSetLabels A updateId revision labels) (\<lambda>_.
     call_catch (submit A repository updateId)
       (\<lambda>e. call_fail (ErrorObject (show_undefined body_toString (error_data e) @ '' Error code:  '' @ access_error_toString e))))"

definition merge :: "'h repository_access \<Rightarrow> string \<Rightarrow> string \<Rightarrow> ('h, entity) call" where
  "merge A repository updateId =
     call_bind (internalGetChange A updateId) (\<lambda>update.
     call_bind (internalGetProjectLabels A repository) (\<lambda>available.
     call_bind (of_res (labelsToSet available)) (\<lambda>labels.
     call_bind (of_res (res_bind (get_string (Some update) ''current_revision'') (\<lambda>revision.
         res_bind (sha_create revision) (\<lambda>_. Inr revision)))) (\<lambda>revision.
     merge_labelled A repository updateId revision labels))))"

section \<open>Branches, tags and changes of a repository\<close>

definition createBranch :: "'h repository_access \<Rightarrow> string \<Rightarrow> string \<Rightarrow> string \<Rightarrow> ('h, entity) call" where
  "createBranch A repository fromSha name =
     call_bind (expect_status 201 (\<lambda>st. ''Could not create branch '' @ name @ '' for sha:'' @ fromSha @ '' '' @ show_int st)
       (createGerritRequest A (''projects/'' @ braced repository @ ''/branches/'' @ braced name) PUT
         (Some (JObj [(''revision'', JStr fromSha)]))))
     (\<lambda>_. call_done \<lparr> e_ref = BranchRef (''refs/heads/'' @ name), e_sha = fromSha \<rparr>)"

definition createTag :: "'h repository_access \<Rightarrow> string \<Rightarrow> string \<Rightarrow> string \<Rightarrow> string option \<Rightarrow> ('h, entity) call" where
  "createTag A repository sha name message =
     call_bind (decoded (expect_status 201 (\<lambda>st. ''Could not create tag '' @ name @ '' for sha:'' @ sha @ '' '' @ show_int st)
       (createGerritRequest A (''projects/'' @ braced repository @ ''/tags/'' @ braced name) PUT
         (Some (JObj [(''message'', JStr (or_else message ''Action by CommonBuild'')), (''revision'', JStr sha)])))))
     (\<lambda>tagInfo. call_bind (of_res (js_get (Some tagInfo) ''object'')) (\<lambda>object.
        if js_truthy object then call_bind (of_res (as_string object)) (\<lambda>s. of_res (tag_create name s))
        else call_fail (Rejected (''Created tag was not annotated for tag '' @ name))))"

definition trimEnd :: "char \<Rightarrow> string \<Rightarrow> string" where
  "trimEnd c s = rev (dropWhile (\<lambda>x. x = c) (rev s))"

definition update_of_change :: "'h repository_access \<Rightarrow> string \<Rightarrow> json \<Rightarrow> gerrit_update res" where
  "update_of_change A repository change =
     res_bind (get_string (Some change) ''change_id'') (\<lambda>id.
     res_bind (get_string (Some change) ''current_revision'') (\<lambda>revision.
     res_bind (sha_create revision) (\<lambda>_.
     res_bind (get_string (Some change) ''branch'') (\<lambda>branch.
     res_bind (get_string (Some change) ''subject'') (\<lambda>subject.
     res_bind (js_get (Some change) ''hashtags'') (\<lambda>hashtags.
     res_bind (as_strings hashtags) (\<lambda>labels.
     res_bind (js_get (Some change) ''_number'') (\<lambda>number.
     res_bind (as_int number) (\<lambda>n.
       Inr \<lparr> gu_source = \<lparr> src_id = ra_id A, src_path = repository \<rparr>, gu_id = id, gu_sha = revision, gu_target = branch,
             gu_title = subject, gu_labels = labels,
             gu_url = ''https://'' @ trimEnd (CHR ''/'') (ra_host A) @ ''/c/'' @ repository @ ''/+/'' @ show_int n,
             gu_number = n \<rparr>)))))))))"

definition getUpdates :: "'h repository_access \<Rightarrow> string \<Rightarrow> ('h, gerrit_update list) call" where
  "getUpdates A repository =
     call_bind (decoded (expect_status 200 (\<lambda>st. ''Could not fetch updates from '' @ ra_id A @ ''/'' @ repository @ '': '' @ show_int st)
       (createGerritRequest A (''changes/?q=status:open+project:'' @ braced repository @ ''&o=CURRENT_REVISION'') GET None)))
     (\<lambda>v. case v of
        JArr changes \<Rightarrow> of_res (res_mapM (update_of_change A repository) changes)
      | _ \<Rightarrow> call_fail (ErrorObject ''list expected''))"

definition getLabels :: "'h repository_access \<Rightarrow> string \<Rightarrow> ('h, string list) call" where
  "getLabels A updateId =
     call_bind (internalGetChange A updateId) (\<lambda>change.
       of_res (res_bind (js_get (Some change) ''hashtags'') as_strings))"

section \<open>What every access does in the local clones\<close>

record 'g clone_access =
  la_id :: string
  la_git :: "'g git_program"
  la_factory :: git_factory

definition clone_execute :: "'g clone_access \<Rightarrow> string \<Rightarrow> ('g, 'a) git_function \<Rightarrow> ('g, 'a) operation" where
  "clone_execute L repository cmd =
     git_execute (la_git L) (la_factory L) \<lparr> src_id = la_id L, src_path = repository \<rparr> cmd CACHED"

definition access_getFile :: "'g clone_access \<Rightarrow> string \<Rightarrow> string \<Rightarrow> ref \<Rightarrow> ('g, string option) operation" where
  "access_getFile L repository path r = clone_execute L repository (git_getFile (la_git L) path r)"

definition access_updateBranch :: "'g clone_access \<Rightarrow> string \<Rightarrow> string \<Rightarrow> ref \<Rightarrow> git_content list \<Rightarrow> ('g, unit) operation" where
  "access_updateBranch L tempLocalBranch repository r contents =
     clone_execute L repository (git_updateBranch (la_git L) tempLocalBranch r contents None)"

definition getBranchesAndTags :: "'g clone_access \<Rightarrow> string \<Rightarrow> ('g, entity list) operation" where
  "getBranchesAndTags L repository = clone_execute L repository (git_getBranchesAndTags (la_git L))"

definition is_tag :: "entity \<Rightarrow> bool" where
  "is_tag e \<longleftrightarrow> (case e_ref e of TagRef n \<Rightarrow> True | _ \<Rightarrow> False)"

definition getBranches :: "'g clone_access \<Rightarrow> string \<Rightarrow> ('g, entity list) operation" where
  "getBranches L repository =
     op_bind (getBranchesAndTags L repository) (\<lambda>entities. done_with (filter (\<lambda>e. is_branch_ref (e_ref e)) entities))"

definition getBranch :: "'g clone_access \<Rightarrow> string \<Rightarrow> string \<Rightarrow> ('g, entity option) operation" where
  "getBranch L repository name =
     op_bind (getBranches L repository) (\<lambda>bs. done_with (List.find (\<lambda>b. ref_name (e_ref b) = name) bs))"

definition getTags :: "'g clone_access \<Rightarrow> string \<Rightarrow> ('g, entity list) operation" where
  "getTags L repository = op_bind (getBranchesAndTags L repository) (\<lambda>entities. done_with (filter is_tag entities))"

definition getTag :: "'g clone_access \<Rightarrow> string \<Rightarrow> string \<Rightarrow> ('g, entity option) operation" where
  "getTag L repository name =
     op_bind (getTags L repository) (\<lambda>ts. done_with (List.find (\<lambda>t. ref_name (e_ref t) = name) ts))"

section \<open>Choosing the access\<close>

datatype access_kind = GerritKind | GitlabKind

fun service_kind :: "source_service \<Rightarrow> access_kind" where
  "service_kind (GerritSourceService i ssh https cyn) = GerritKind"
| "service_kind (GitlabSourceService i https) = GitlabKind"

text \<open>The last service with an id counts.\<close>

definition connectors :: "source_service list \<Rightarrow> string \<Rightarrow> source_service option" where
  "connectors services storeId = map_of (rev (map (\<lambda>s. (ss_id s, s)) services)) storeId"

definition createAccess :: "source_service list \<Rightarrow> string \<Rightarrow> source_service res" where
  "createAccess services storeId =
     (case connectors services storeId of
        Some s \<Rightarrow> Inr s
      | None \<Rightarrow> Inl (Error (''Source config '' @ storeId @ '' doesn'' @ [CHR 0x27] @ ''t exist.'')))"

definition getImplementation :: "source_service list \<Rightarrow> string \<Rightarrow> source_service res" where
  "getImplementation services storeId =
     (case connectors services storeId of
        Some s \<Rightarrow>
          (if service_kind s = GerritKind then Inr s
           else Inl (Error (''Mismatching RepositorySource '' @ storeId @ ''. Not expected impl. GitlabRepositoryAccess!=GerritRepositoryAccess'')))
      | None \<Rightarrow> Inl (Error (''Source config '' @ storeId @ '' doesn'' @ [CHR 0x27] @ ''t exist.'')))"

text \<open>The other kind of service.\<close>

datatype gitlab_operation = GL_setValidBuild | GL_rebase | GL_merge | GL_createBranch | GL_createTag | GL_getUpdates |
  GL_getLabels | GL_createUpdate | GL_updateUpdate

definition gitlab_access :: "gitlab_operation \<Rightarrow> ('h, 'a) call" where
  "gitlab_access op =
     (if op = GL_getLabels then call_fail (ErrorObject ''Method not implemented.'')
      else call_fail (Rejected ''Operation not implemented in GitLab access''))"

section \<open>The log of a service\<close>

text \<open>A service that keeps the requests and its answers.\<close>

type_synonym log = "(http_request \<times> http_answer) list"

definition logging :: "('h \<times> log) repository_access \<Rightarrow> bool" where
  "logging A \<longleftrightarrow> (\<forall>rq h log. \<exists>a h'. ra_service A rq (h, log) = (a, (h', log @ [(rq, a)])))"

text \<open>\<open>runs f log r log'\<close>: the call appends to the log and returns.\<close>

definition runs :: "('h \<times> log, 'a) call \<Rightarrow> access_error + 'a \<Rightarrow> log \<Rightarrow> bool" where
  "runs f r new \<longleftrightarrow> (\<exists>h log h'. f (h, log) = (r, (h', log @ new)))"

definition appends :: "('h \<times> log, 'a) call \<Rightarrow> bool" where
  "appends f \<longleftrightarrow> (\<forall>h log. \<exists>r h' new. f (h, log) = (r, (h', log @ new)))"

lemma appends_runs: "appends f \<Longrightarrow> f (h, log) = (r, (h', log')) \<Longrightarrow> \<exists>new. log' = log @ new \<and> runs f r new"
  unfolding appends_def runs_def by (metis prod.inject)

lemma appends_simple [simp]: "appends (call_done x)" "appends (call_fail e)" "appends (of_res v)"
  by (auto simp: appends_def call_done_def call_fail_def intro!: exI [of _ "[]"], cases v rule: of_res.cases)
    (auto simp: call_done_def call_fail_def)

lemma appends_bind: "appends f \<Longrightarrow> (\<And>x. appends (k x)) \<Longrightarrow> appends (call_bind f k)"
  unfolding appends_def
proof (intro allI)
  fix h and log :: log
  assume f: "\<forall>h log. \<exists>r h' new. f (h, log) = (r, h', log @ new)" and k: "\<And>x. \<forall>h log. \<exists>r h' new. k x (h, log) = (r, h', log @ new)"
  from f obtain r h1 new where 1: "f (h, log) = (r, h1, log @ new)" by blast
  show "\<exists>r h' new. call_bind f k (h, log) = (r, h', log @ new)"
  proof (cases r)
    case (Inl e)
    with 1 show ?thesis by (auto simp: call_bind_def)
  next
    case (Inr x)
    from k [of x] obtain r2 h2 new2 where "k x (h1, log @ new) = (r2, h2, (log @ new) @ new2)" by blast
    with 1 Inr have "call_bind f k (h, log) = (r2, h2, log @ (new @ new2))" by (simp add: call_bind_def)
    then show ?thesis by blast
  qed
qed

lemma appends_catch: "appends f \<Longrightarrow> (\<And>e. appends (k e)) \<Longrightarrow> appends (call_catch f k)"
  unfolding appends_def
proof (intro allI)
  fix h and log :: log
  assume f: "\<forall>h log. \<exists>r h' new. f (h, log) = (r, h', log @ new)" and k: "\<And>e. \<forall>h log. \<exists>r h' new. k e (h, log) = (r, h', log @ new)"
  from f obtain r h1 new where 1: "f (h, log) = (r, h1, log @ new)" by blast
  show "\<exists>r h' new. call_catch f k (h, log) = (r, h', log @ new)"
  proof (cases r)
    case (Inr x)
    with 1 show ?thesis by (auto simp: call_catch_def)
  next
    case (Inl e)
    from k [of e] obtain r2 h2 new2 where "k e (h1, log @ new) = (r2, h2, (log @ new) @ new2)" by blast
    with 1 Inl have "call_catch f k (h, log) = (r2, h2, log @ (new @ new2))" by (simp add: call_catch_def)
    then show ?thesis by blast
  qed
qed

lemma runs_done [simp]: "runs (call_done x) r new \<longleftrightarrow> r = Inr x \<and> new = []"
  by (auto simp: runs_def call_done_def)

lemma runs_fail [simp]: "runs (call_fail e) r new \<longleftrightarrow> r = Inl e \<and> new = []"
  by (auto simp: runs_def call_fail_def)

lemma runs_of_res: "runs (of_res v) r new \<longleftrightarrow> new = [] \<and> r = (case v of Inr x \<Rightarrow> Inr x | Inl (Error m) \<Rightarrow> Inl (ErrorObject m))"
  by (cases v rule: of_res.cases) auto

text \<open>A run of a sequence is a run of its first part, and of the second when the first succeeds.\<close>

lemma runs_bind:
  assumes "appends f" and "\<And>x. appends (k x)" and "runs (call_bind f k) r new"
  shows "(\<exists>e. r = Inl e \<and> runs f (Inl e) new) \<or> (\<exists>x n1 n2. new = n1 @ n2 \<and> runs f (Inr x) n1 \<and> runs (k x) r n2)"
proof -
  from assms(3) obtain h log h' where b: "call_bind f k (h, log) = (r, (h', log @ new))" by (auto simp: runs_def)
  from assms(1) obtain r1 h1 n1 where f: "f (h, log) = (r1, (h1, log @ n1))" unfolding appends_def by blast
  then have run1: "runs f r1 n1" by (auto simp: runs_def)
  show ?thesis
  proof (cases r1)
    case (Inl e)
    with b f run1 show ?thesis by (auto simp: call_bind_def)
  next
    case (Inr x)
    with b f have k: "k x (h1, log @ n1) = (r, (h', log @ new))" by (simp add: call_bind_def)
    from appends_runs [OF assms(2) k] obtain n2 where "log @ new = (log @ n1) @ n2" "runs (k x) r n2" by blast
    with run1 Inr show ?thesis by auto
  qed
qed

lemma runs_catch:
  assumes "appends f" and "\<And>e. appends (k e)" and "runs (call_catch f k) r new"
  shows "(\<exists>x. r = Inr x \<and> runs f (Inr x) new) \<or> (\<exists>e n1 n2. new = n1 @ n2 \<and> runs f (Inl e) n1 \<and> runs (k e) r n2)"
proof -
  from assms(3) obtain h log h' where b: "call_catch f k (h, log) = (r, (h', log @ new))" by (auto simp: runs_def)
  from assms(1) obtain r1 h1 n1 where f: "f (h, log) = (r1, (h1, log @ n1))" unfolding appends_def by blast
  then have run1: "runs f r1 n1" by (auto simp: runs_def)
  show ?thesis
  proof (cases r1)
    case (Inr x)
    with b f run1 show ?thesis by (auto simp: call_catch_def)
  next
    case (Inl e)
    with b f have k: "k e (h1, log @ n1) = (r, (h', log @ new))" by (simp add: call_catch_def)
    from appends_runs [OF assms(2) k] obtain n2 where "log @ new = (log @ n1) @ n2" "runs (k e) r n2" by blast
    with run1 Inl show ?thesis by auto
  qed
qed

lemma runs_bindE:
  assumes "runs (call_bind f k) r new" and "appends f" and "\<And>x. appends (k x)"
  obtains (fail) e where "r = Inl e" and "runs f (Inl e) new"
    | (ok) x n1 n2 where "new = n1 @ n2" and "runs f (Inr x) n1" and "runs (k x) r n2"
  using runs_bind [OF assms(2,3,1)] by blast

lemma runs_catchE:
  assumes "runs (call_catch f k) r new" and "appends f" and "\<And>e. appends (k e)"
  obtains (fine) x where "r = Inr x" and "runs f (Inr x) new"
    | (caught) e n1 n2 where "new = n1 @ n2" and "runs f (Inl e) n1" and "runs (k e) r n2"
  using runs_catch [OF assms(2,3,1)] by blast

definition is_request :: "('h \<times> log) repository_access \<Rightarrow> string \<Rightarrow> HttpMethod \<Rightarrow> json option \<Rightarrow> http_request \<Rightarrow> bool" where
  "is_request A path method data rq \<longleftrightarrow>
     rq_url rq = ''https://'' @ ra_host A @ ''/a/'' @ encodeReplace path \<and> rq_method rq = method \<and> rq_data rq = data"

fun answer_status :: "http_answer \<Rightarrow> int option" where
  "answer_status (Answer status body) = Some status"
| "answer_status (NoAnswer m) = None"

lemma logging_answer:
  assumes "logging A"
  obtains a h' where "ra_service A rq (h, log) = (a, (h', log @ [(rq, a)]))"
  using assms unfolding logging_def by blast

lemma execute_appends:
  assumes "logging A"
  shows "appends (http_execute (ra_service A) rq)"
  unfolding appends_def
proof (intro allI)
  fix h log
  obtain a h' where a: "ra_service A rq (h, log) = (a, (h', log @ [(rq, a)]))" using logging_answer [OF assms] .
  show "\<exists>r h' new. http_execute (ra_service A) rq (h, log) = (r, h', log @ new)"
    by (cases a) (simp_all add: http_execute_def a)
qed

lemma request_appends: "logging A \<Longrightarrow> appends (createGerritRequest A path method data)"
  unfolding createGerritRequest_def createRequest_def by (intro appends_bind execute_appends appends_simple)

definition refused :: "access_error \<Rightarrow> http_answer \<Rightarrow> bool" where
  "refused e a \<longleftrightarrow>
     error_status e = (case answer_status a of None \<Rightarrow> None | Some s \<Rightarrow> if 200 \<le> s \<and> s < 300 then None else Some s)"

lemma runs_request:
  assumes "logging A" and "runs (createGerritRequest A path method data) r new"
  shows "(new = [] \<and> (\<exists>m. r = Inl (ErrorObject m))) \<or>
    (\<exists>rq a. new = [(rq, a)] \<and> is_request A path method data rq \<and>
      (case r of
         Inr (status, body) \<Rightarrow> a = Answer status body \<and> 200 \<le> status \<and> status < 300
       | Inl e \<Rightarrow> refused e a))"
proof -
  let ?rq = "\<lambda>auth. \<lparr> rq_url = ''https://'' @ ra_host A @ ''/'' @ ''a/'' @ encodeReplace path, rq_method = method, rq_auth = auth, rq_data = data \<rparr>"
  from assms(2) obtain h log h' where run: "createGerritRequest A path method data (h, log) = (r, (h', log @ new))"
    by (auto simp: runs_def)
  show ?thesis
  proof (cases "res_bind (ra_secrets A (''csp/common-build/https-'' @ ra_host A)) splitUserSecret")
    case (Inl e)
    with run show ?thesis
      by (cases e) (auto simp: createGerritRequest_def createRequest_def call_bind_def call_fail_def)
  next
    case (Inr auth)
    with run have exec: "http_execute (ra_service A) (?rq auth) (h, log) = (r, (h', log @ new))"
      by (simp add: createGerritRequest_def createRequest_def call_bind_def call_done_def)
    obtain a h1 where a: "ra_service A (?rq auth) (h, log) = (a, (h1, log @ [(?rq auth, a)]))"
      using logging_answer [OF assms(1)] .
    have "is_request A path method data (?rq auth)" by (simp add: is_request_def)
    moreover have "new = [(?rq auth, a)]" using exec a by (auto simp: http_execute_def split: http_answer.splits if_splits)
    ultimately show ?thesis using exec a by (auto simp: http_execute_def refused_def split: http_answer.splits if_splits)
  qed
qed

text \<open>A request that expects one status, and one whose answer is decoded.\<close>

lemma expect_appends [intro]: "logging A \<Longrightarrow> appends (expect_status st m (createGerritRequest A path method data))"
  unfolding expect_status_def by (intro appends_bind request_appends) (auto split: prod.split)

lemma decoded_appends: "appends f \<Longrightarrow> appends (decoded f)"
  unfolding decoded_def by (intro appends_bind) auto

lemma runs_expect:
  assumes "logging A" and "runs (expect_status st m (createGerritRequest A path method data)) r new"
  shows "(new = [] \<and> (\<exists>m. r = Inl (ErrorObject m))) \<or>
    (\<exists>rq a. new = [(rq, a)] \<and> is_request A path method data rq \<and>
      (case r of Inr body \<Rightarrow> a = Answer st body | Inl e \<Rightarrow> refused e a))"
  using assms(2) unfolding expect_status_def
proof (rule runs_bindE)
  fix e assume fail: "r = Inl e" "runs (createGerritRequest A path method data) (Inl e) new"
  then show ?thesis using runs_request [OF assms(1) fail(2)] by auto
next
  fix x n1 n2 assume ok: "new = n1 @ n2" "runs (createGerritRequest A path method data) (Inr x) n1"
    "runs (case x of (status, body) \<Rightarrow> if status = st then call_done body else call_fail (ErrorObject (m status))) r n2"
  obtain status body where x: "x = (status, body)" by fastforce
  from runs_request [OF assms(1) ok(2)] x obtain rq where rq: "n1 = [(rq, Answer status body)]" "is_request A path method data rq"
    and range: "200 \<le> status" "status < 300" by auto
  from ok(3) x have "n2 = [] \<and> r = (if status = st then Inr body else Inl (ErrorObject (m status)))" by (auto split: if_splits)
  with ok(1) rq range show ?thesis by (auto simp: refused_def)
qed (auto intro: request_appends assms(1) split: prod.split)

lemma runs_decoded:
  assumes "logging A" and "runs (decoded (expect_status st m (createGerritRequest A path method data))) r new"
    and "200 \<le> st" and "st < 300"
  shows "(new = [] \<and> (\<exists>m. r = Inl (ErrorObject m))) \<or>
    (\<exists>rq a. new = [(rq, a)] \<and> is_request A path method data rq \<and>
      (case r of Inr v \<Rightarrow> \<exists>body. a = Answer st body \<and> gerritJsonResponseDecode body = Inr v | Inl e \<Rightarrow> refused e a))"
  using assms(2) unfolding decoded_def
proof (rule runs_bindE)
  fix e assume fail: "r = Inl e" "runs (expect_status st m (createGerritRequest A path method data)) (Inl e) new"
  then show ?thesis using runs_expect [OF assms(1) fail(2)] by auto
next
  fix x n1 n2 assume ok: "new = n1 @ n2" "runs (expect_status st m (createGerritRequest A path method data)) (Inr x) n1"
    "runs (of_res (gerritJsonResponseDecode x)) r n2"
  from runs_expect [OF assms(1) ok(2)] obtain rq where "n1 = [(rq, Answer st x)]" "is_request A path method data rq"
    by auto
  with ok(1,3) assms(3,4) show ?thesis
    by (cases "gerritJsonResponseDecode x" rule: of_res.cases) (auto simp: refused_def)
qed (auto intro: assms(1))

definition posts :: "log \<Rightarrow> log" where
  "posts log = filter (\<lambda>p. rq_method (fst p) \<noteq> GET) log"

lemma posts_append [simp]: "posts (a @ b) = posts a @ posts b" "posts [] = []"
  by (simp_all add: posts_def)

lemma posts_single: "is_request A path method data rq \<Longrightarrow> posts [(rq, a)] = (if method = GET then [] else [(rq, a)])"
  by (simp add: posts_def is_request_def)

lemma posts_cons: "is_request A path POST data rq \<Longrightarrow> posts ((rq, a) # new) = (rq, a) # posts new"
  by (simp add: posts_def is_request_def)

lemma change_appends: "logging A \<Longrightarrow> appends (internalGetChange A updateId)"
  unfolding internalGetChange_def by (intro decoded_appends expect_appends)

lemma branch_appends: "logging A \<Longrightarrow> appends (internalGetBranch A repository branch)"
  unfolding internalGetBranch_def by (intro decoded_appends expect_appends)

lemma labels_appends: "logging A \<Longrightarrow> appends (internalGetProjectLabels A repository)"
  unfolding internalGetProjectLabels_def by (intro decoded_appends expect_appends)

lemma field_appends [simp]: "appends (field_string v k)"
  by (simp add: field_string_def)

text \<open>Reading a change, a branch or the labels posts nothing; what is read was answered.\<close>

definition was_read :: "('h \<times> log) repository_access \<Rightarrow> string \<Rightarrow> json \<Rightarrow> log \<Rightarrow> bool" where
  "was_read A path v log \<longleftrightarrow>
     (\<exists>rq body. (rq, Answer 200 body) \<in> set log \<and> is_request A path GET None rq \<and> gerritJsonResponseDecode body = Inr v)"

lemma reading_runs:
  assumes "logging A" and "runs (decoded (expect_status 200 m (createGerritRequest A path GET None))) r new"
  shows "posts new = []" and "r = Inr v \<Longrightarrow> was_read A path v new"
  using runs_decoded [OF assms] by (auto simp: posts_single was_read_def)

lemma rebase_request_appends: "logging A \<Longrightarrow> appends (rebase_request A updateId base)"
  unfolding rebase_request_def by (intro appends_bind decoded_appends expect_appends field_appends appends_simple)

lemma runs_fields: "runs (field_string v k) r new \<Longrightarrow> new = [] \<and> (\<forall>x. r = Inr x \<longrightarrow> get_string (Some v) k = Inr x) \<and>
    (\<forall>e. r = Inl e \<longrightarrow> error_status e = None)"
  by (auto simp: field_string_def runs_of_res split: sum.splits error.splits)

lemma runs_rebase_request:
  assumes "logging A" and "runs (rebase_request A updateId base) r new"
  shows "(new = [] \<and> (\<exists>e. r = Inl e \<and> error_status e = None)) \<or>
    (\<exists>rq a. new = [(rq, a)] \<and> is_request A (''changes/'' @ updateId @ ''/rebase'') POST (Some (JObj [(''base'', JStr base)])) rq \<and>
      (case r of
         Inr sha \<Rightarrow> is_sha sha \<and> (\<exists>b v. a = Answer 200 b \<and> gerritJsonResponseDecode b = Inr v \<and> get_string (Some v) ''current_revision'' = Inr sha)
       | Inl e \<Rightarrow> refused e a))"
  using assms(2) unfolding rebase_request_def
proof (rule runs_bindE)
  fix e assume "r = Inl e" "runs (decoded (expect_status 200 (\<lambda>st. ''Error while rebasing ['' @ show_int st @ ''] '' @ updateId)
       (createGerritRequest A (''changes/'' @ updateId @ ''/rebase'') POST (Some (JObj [(''base'', JStr base)]))))) (Inl e) new"
  then show ?thesis using runs_decoded [OF assms(1)] by fastforce
next
  fix v n1 n2
  assume n: "new = n1 @ n2" and v: "runs (decoded (expect_status 200 (\<lambda>st. ''Error while rebasing ['' @ show_int st @ ''] '' @ updateId)
       (createGerritRequest A (''changes/'' @ updateId @ ''/rebase'') POST (Some (JObj [(''base'', JStr base)]))))) (Inr v) n1"
    and rest: "runs (call_bind (field_string v ''current_revision'') (\<lambda>revision.
        call_bind (of_res (sha_create revision)) (\<lambda>_. call_done revision))) r n2"
  from runs_decoded [OF assms(1) v] obtain rq b where rq: "n1 = [(rq, Answer 200 b)]" "gerritJsonResponseDecode b = Inr v"
    "is_request A (''changes/'' @ updateId @ ''/rebase'') POST (Some (JObj [(''base'', JStr base)])) rq" by auto
  have "n2 = [] \<and> (\<forall>sha. r = Inr sha \<longrightarrow> is_sha sha \<and> get_string (Some v) ''current_revision'' = Inr sha) \<and> (\<forall>e. r = Inl e \<longrightarrow> error_status e = None)"
    using rest
  proof (rule runs_bindE)
    fix e assume "r = Inl e" "runs (field_string v ''current_revision'') (Inl e) n2"
    then show ?thesis by (auto dest: runs_fields)
  next
    fix x m1 m2 assume 1: "n2 = m1 @ m2" "runs (field_string v ''current_revision'') (Inr x) m1"
      "runs (call_bind (of_res (sha_create x)) (\<lambda>_. call_done x)) r m2"
    have "m2 = [] \<and> (\<forall>sha. r = Inr sha \<longrightarrow> is_sha sha \<and> sha = x) \<and> (\<forall>e. r = Inl e \<longrightarrow> error_status e = None)"
      using 1(3) by (rule runs_bindE) (auto simp: runs_of_res sha_create_def split: if_splits)
    with 1 show ?thesis by (auto dest: runs_fields)
  qed (simp_all add: appends_bind)
  with n rq show ?thesis by (cases r) (auto simp: refused_def)
qed (auto intro: assms(1) decoded_appends intro!: appends_bind)

lemma runs_pure_bind:
  assumes "runs (call_bind (of_res x) k) r new"
  shows "(new = [] \<and> (\<exists>e. r = Inl e)) \<or> (\<exists>y. x = Inr y \<and> runs (k y) r new)"
  using assms by (cases x rule: of_res.cases) (auto simp: runs_def call_bind_def call_done_def call_fail_def)

lemma runs_reading_bind:
  assumes "logging A" and "runs (call_bind (decoded (expect_status 200 m (createGerritRequest A path GET None))) k) r new"
    and "\<And>v. appends (k v)"
  shows "(posts new = [] \<and> (\<exists>e. r = Inl e)) \<or>
    (\<exists>v n1 n2. new = n1 @ n2 \<and> posts n1 = [] \<and> was_read A path v n1 \<and> runs (k v) r n2)"
  using assms(2)
proof (rule runs_bindE)
  fix e assume "r = Inl e" "runs (decoded (expect_status 200 m (createGerritRequest A path GET None))) (Inl e) new"
  then show ?thesis using reading_runs(1) [OF assms(1)] by blast
next
  fix v n1 n2
  assume "new = n1 @ n2" and v: "runs (decoded (expect_status 200 m (createGerritRequest A path GET None))) (Inr v) n1"
    and "runs (k v) r n2"
  then show ?thesis using reading_runs [OF assms(1) v] by blast
qed (auto intro: assms(1,3) decoded_appends)

lemma was_read_append: "was_read A path v n1 \<Longrightarrow> was_read A path v (n1 @ n2)" "was_read A path v n2 \<Longrightarrow> was_read A path v (n1 @ n2)"
  by (auto simp: was_read_def)

lemma rebase_end_appends: "logging A \<Longrightarrow> appends (rebase_end A updateId base)"
  unfolding rebase_end_def by (intro appends_catch appends_bind rebase_request_appends) auto

text \<open>What the only request that changes something says about the result.\<close>

definition rebase_answered :: "http_answer \<Rightarrow> access_error + string option \<Rightarrow> bool" where
  "rebase_answered a r \<longleftrightarrow>
     (case r of
        Inl e \<Rightarrow> answer_status a \<noteq> Some 409
      | Inr None \<Rightarrow> answer_status a = Some 409
      | Inr (Some sha) \<Rightarrow> is_sha sha \<and>
          (\<exists>b v. a = Answer 200 b \<and> gerritJsonResponseDecode b = Inr v \<and> get_string (Some v) ''current_revision'' = Inr sha))"

lemma runs_rebase_end:
  assumes "logging A" and "runs (rebase_end A updateId base) r new"
  shows "(new = [] \<and> (\<exists>e. r = Inl e)) \<or>
    (\<exists>rq a. new = [(rq, a)] \<and> is_request A (''changes/'' @ updateId @ ''/rebase'') POST (Some (JObj [(''base'', JStr base)])) rq \<and>
      rebase_answered a r)"
  using assms(2) unfolding rebase_end_def
proof (rule runs_catchE)
  fix x assume r: "r = Inr x" "runs (call_bind (rebase_request A updateId base) (\<lambda>sha. call_done (Some sha))) (Inr x) new"
  from r(2) obtain sha where "x = Some sha" "runs (rebase_request A updateId base) (Inr sha) new"
    by (rule runs_bindE) (auto intro: rebase_request_appends assms(1))
  with r(1) runs_rebase_request [OF assms(1) this(2)] show ?thesis by (auto simp: rebase_answered_def)
next
  fix e n1 n2
  assume n: "new = n1 @ n2" and e: "runs (call_bind (rebase_request A updateId base) (\<lambda>sha. call_done (Some sha))) (Inl e) n1"
    and rest: "runs (if error_status e = Some 409 then call_done None else call_fail e) r n2"
  from e have "runs (rebase_request A updateId base) (Inl e) n1"
    by (rule runs_bindE) (auto intro: rebase_request_appends assms(1))
  from runs_rebase_request [OF assms(1) this] rest n show ?thesis
    by (auto simp: rebase_answered_def refused_def split: if_splits option.splits)
qed (auto intro!: appends_bind rebase_request_appends assms(1))

lemma rebase_onto_appends: "logging A \<Longrightarrow> appends (rebase_onto A repository updateId branch)"
  unfolding rebase_onto_def by (intro appends_bind branch_appends field_appends rebase_end_appends)

lemma runs_rebase_onto:
  assumes "logging A" and "runs (rebase_onto A repository updateId branch) r new"
  shows "posts new = [] \<and> (\<exists>e. r = Inl e) \<or>
    (\<exists>rq a base. posts new = [(rq, a)] \<and>
       is_request A (''changes/'' @ updateId @ ''/rebase'') POST (Some (JObj [(''base'', JStr base)])) rq \<and> rebase_answered a r)"
proof -
  have "appends (call_bind (field_string v ''revision'') (\<lambda>base. rebase_end A updateId base))" for v
    by (intro appends_bind field_appends rebase_end_appends assms(1))
  from runs_reading_bind [OF assms(1) assms(2) [unfolded rebase_onto_def internalGetBranch_def] this]
  consider "posts new = [] \<and> (\<exists>e. r = Inl e)" | v n1 n2 where "new = n1 @ n2" "posts n1 = []"
    "runs (call_bind (field_string v ''revision'') (\<lambda>base. rebase_end A updateId base)) r n2" by blast
  then show ?thesis
  proof cases
    case 2
    from runs_pure_bind [OF 2(3) [unfolded field_string_def]]
    consider "n2 = [] \<and> (\<exists>e. r = Inl e)" | base where "runs (rebase_end A updateId base) r n2" by blast
    then show ?thesis
    proof cases
      case 1
      with 2 show ?thesis by auto
    next
      case inner: 2
      from runs_rebase_end [OF assms(1) inner] 2(1,2) show ?thesis by (auto simp: posts_single)
    qed
  qed blast
qed

text \<open>C21
  A rebase changes something on the review server by at most one request, made only after the
  change was read as mergeable: if it is made, the result is the new sha exactly as answered with
  status 200, null exactly for the status 409, and an error otherwise; if it is not made, the
  result is an error.
\<close>

theorem rebase_outcomes:
  assumes "logging A" and "rebase A repository updateId (h, log) = (r, (h', log'))"
  shows "\<exists>new. log' = log @ new \<and>
    (posts new = [] \<and> (\<exists>e. r = Inl e) \<or>
     (\<exists>rq a base change m. posts new = [(rq, a)] \<and>
       is_request A (''changes/'' @ updateId @ ''/rebase'') POST (Some (JObj [(''base'', JStr base)])) rq \<and>
       was_read A (''changes/'' @ updateId @ ''?o=CURRENT_REVISION'') change new \<and>
       js_get (Some change) ''mergeable'' = Inr m \<and> js_truthy m \<and> rebase_answered a r))"
proof -
  define rest where "rest = (\<lambda>change. call_bind (of_res (js_get (Some change) ''mergeable'')) (\<lambda>mergeable.
      if \<not> js_truthy mergeable then call_fail (Rejected ''Update is not mergeable.'')
      else call_bind (field_string change ''branch'') (\<lambda>branch. rebase_onto A repository updateId branch)))"
  have rest_appends: "appends (rest c)" for c
    unfolding rest_def by (intro appends_bind) (auto intro!: appends_bind rebase_onto_appends assms(1))
  have rebase: "rebase A repository updateId = call_bind (internalGetChange A updateId) rest"
    by (simp add: rebase_def rest_def)
  then have "appends (rebase A repository updateId)"
    by (simp add: appends_bind change_appends assms(1) rest_appends)
  from appends_runs [OF this assms(2)] obtain new where new: "log' = log @ new" "runs (rebase A repository updateId) r new" by blast
  from runs_reading_bind [OF assms(1) new(2) [unfolded rebase internalGetChange_def] rest_appends]
  consider (no) "posts new = [] \<and> (\<exists>e. r = Inl e)"
    | (yes) change n1 n2 where "new = n1 @ n2" "posts n1 = []"
        "was_read A (''changes/'' @ updateId @ ''?o=CURRENT_REVISION'') change n1" "runs (rest change) r n2" by blast
  then show ?thesis
  proof cases
    case no
    with new(1) show ?thesis by blast
  next
    case yes
    note read = was_read_append(1) [OF yes(3), of n2, folded yes(1)]
    from runs_pure_bind [OF yes(4) [unfolded rest_def]]
    consider (fail) "n2 = [] \<and> (\<exists>e. r = Inl e)" | (go) m where "js_get (Some change) ''mergeable'' = Inr m"
      "runs (if \<not> js_truthy m then call_fail (Rejected ''Update is not mergeable.'')
        else call_bind (field_string change ''branch'') (\<lambda>branch. rebase_onto A repository updateId branch)) r n2" by blast
    then show ?thesis
    proof cases
      case fail
      with new(1) yes(1,2) show ?thesis by auto
    next
      case go
      show ?thesis
      proof (cases "js_truthy m")
        case False
        with go(2) new(1) yes(1,2) show ?thesis by auto
      next
        case True
        with go(2) have "runs (call_bind (of_res (get_string (Some change) ''branch'')) (\<lambda>branch. rebase_onto A repository updateId branch)) r n2"
          by (simp add: field_string_def)
        from runs_pure_bind [OF this]
        consider "n2 = [] \<and> (\<exists>e. r = Inl e)" | branch where "runs (rebase_onto A repository updateId branch) r n2" by blast
        then show ?thesis
        proof cases
          case 1
          with new(1) yes(1,2) show ?thesis by auto
        next
          case 2
          from runs_rebase_onto [OF assms(1) 2] new(1) yes(1,2) read go(1) True show ?thesis by fastforce
        qed
      qed
    qed
  qed
qed

lemma call_bind_assoc: "call_bind (call_bind f g) k = call_bind f (\<lambda>x. call_bind (g x) k)"
  by (rule ext) (simp add: call_bind_def split: prod.split sum.split)

lemma call_bind_done: "call_bind (call_done x) k = k x"
  by (rule ext) (simp add: call_bind_def call_done_def)

lemma submit_appends: "logging A \<Longrightarrow> appends (submit A repository updateId)"
  unfolding submit_def by (intro appends_bind decoded_appends expect_appends field_appends branch_appends appends_simple)

lemma set_labels_appends: "logging A \<Longrightarrow> appends (internalSetLabels A updateId revision labels)"
  unfolding internalSetLabels_def by (intro appends_bind expect_appends appends_simple)

lemma merge_labelled_appends: "logging A \<Longrightarrow> appends (merge_labelled A repository updateId revision labels)"
  unfolding merge_labelled_def by (intro appends_bind set_labels_appends appends_catch submit_appends appends_simple)

lemma runs_submit:
  assumes "logging A" and "runs (submit A repository updateId) r new"
  shows "posts new = [] \<and> (\<exists>e. r = Inl e) \<or>
    (\<exists>rq a. posts new = [(rq, a)] \<and> is_request A (''changes/'' @ updateId @ ''/submit'') POST None rq \<and>
      ((\<exists>e. r = Inr e) \<longrightarrow> answer_status a = Some 200))"
proof -
  note append_Cons [simp del]
  show ?thesis
  using assms(2) unfolding submit_def
proof (rule runs_bindE)
  fix e assume "r = Inl e" "runs (decoded (expect_status 200 (\<lambda>st. ''Error while rebasing ['' @ show_int st @ ''] '' @ updateId)
       (createGerritRequest A (''changes/'' @ updateId @ ''/submit'') POST None))) (Inl e) new"
  from runs_decoded [OF assms(1) this(2)] this(1) show ?thesis by (auto simp: posts_single)
next
  fix change n1 n2
  assume n: "new = n1 @ n2" and v: "runs (decoded (expect_status 200 (\<lambda>st. ''Error while rebasing ['' @ show_int st @ ''] '' @ updateId)
       (createGerritRequest A (''changes/'' @ updateId @ ''/submit'') POST None))) (Inr change) n1"
    and rest: "runs (call_bind (field_string change ''branch'') (\<lambda>branch.
        call_bind (internalGetBranch A repository branch) (\<lambda>updatedBranch.
        call_bind (field_string updatedBranch ''revision'') (\<lambda>revision.
        of_res (branch_create branch revision))))) r n2"
  from runs_decoded [OF assms(1) v] obtain rq b where rq: "n1 = [(rq, Answer 200 b)]"
    "is_request A (''changes/'' @ updateId @ ''/submit'') POST None rq" by auto
  have "posts n2 = []"
  proof -
    from runs_pure_bind [OF rest [unfolded field_string_def [of change]]]
    consider "n2 = []" | branch where "runs (call_bind (internalGetBranch A repository branch) (\<lambda>updatedBranch.
        call_bind (field_string updatedBranch ''revision'') (\<lambda>revision. of_res (branch_create branch revision)))) r n2" by blast
    then show ?thesis
    proof cases
      case 2
      let ?k = "\<lambda>v. call_bind (of_res (get_string (Some v) ''revision'')) (\<lambda>revision. of_res (branch_create branch revision))"
      have app: "appends (?k v)" for v by (intro appends_bind appends_simple)
      have ends: "posts m2 = []" if "runs (?k v) r m2" for v m2
        using runs_pure_bind [OF that] by (auto simp: runs_of_res)
      from runs_reading_bind [OF assms(1) 2 [unfolded internalGetBranch_def field_string_def] app] show ?thesis
        by (elim disjE exE conjE) (simp_all add: ends)
    qed simp
  qed
  from n have "posts new = [(rq, Answer 200 b)]" using rq posts_single [OF rq(2)] \<open>posts n2 = []\<close> by simp
  with rq(2) show ?thesis by (metis answer_status.simps(1))
qed (intro appends_bind decoded_appends expect_appends field_appends branch_appends appends_simple assms(1))+
qed

definition review_data :: "(string \<times> json) list \<Rightarrow> json" where
  "review_data labels = JObj [(''message'', JStr ''Added by common-build''), (''labels'', JObj labels)]"

definition labelled :: "('h \<times> log) repository_access \<Rightarrow> string \<Rightarrow> string \<Rightarrow> (string \<times> json) list \<Rightarrow> log \<Rightarrow> access_error + entity \<Rightarrow> bool" where
  "labelled A updateId revision labels ps r \<longleftrightarrow>
     (\<exists>review a rest. ps = (review, a) # rest \<and>
        is_request A (''changes/'' @ updateId @ ''/revisions/'' @ revision @ ''/review'') POST (Some (review_data labels)) review \<and>
        (rest = [] \<and> (\<exists>e. r = Inl e) \<or>
         answer_status a = Some 200 \<and>
           (\<exists>rq b. rest = [(rq, b)] \<and> is_request A (''changes/'' @ updateId @ ''/submit'') POST None rq \<and>
              ((\<exists>e. r = Inr e) \<longrightarrow> answer_status b = Some 200))))"

lemma runs_merge_labelled:
  assumes "logging A" and "runs (merge_labelled A repository updateId revision labels) r new"
  shows "posts new = [] \<and> (\<exists>e. r = Inl e) \<or> labelled A updateId revision labels (posts new) r"
proof -
  note append_Cons [simp del]
  let ?submit = "call_catch (submit A repository updateId)
    (\<lambda>e. call_fail (ErrorObject (show_undefined body_toString (error_data e) @ '' Error code:  '' @ access_error_toString e)))"
  let ?review = "expect_status 200 (\<lambda>st. ''Could not set labels: '' @ show_int st)
      (createGerritRequest A (''changes/'' @ updateId @ ''/revisions/'' @ revision @ ''/review'') POST (Some (review_data labels)))"
  have app: "appends ?submit" by (intro appends_catch submit_appends appends_simple assms(1))
  have "runs (call_bind (call_bind ?review (\<lambda>_. call_done ())) (\<lambda>_. ?submit)) r new"
    using assms(2) by (simp only: merge_labelled_def internalSetLabels_def review_data_def)
  then have "runs (call_bind ?review (\<lambda>_. ?submit)) r new"
    by (simp only: call_bind_assoc call_bind_done)
  then show ?thesis
  proof (rule runs_bindE)
    fix e assume "r = Inl e" "runs ?review (Inl e) new"
    from runs_expect [OF assms(1) this(2)] this(1) show ?thesis by (auto simp: posts_single labelled_def)
  next
    fix x n1 n2 assume n: "new = n1 @ n2" "runs ?review (Inr x) n1" "runs ?submit r n2"
    from runs_expect [OF assms(1) n(2)] obtain rq where rq: "n1 = [(rq, Answer 200 x)]"
      "is_request A (''changes/'' @ updateId @ ''/revisions/'' @ revision @ ''/review'') POST (Some (review_data labels)) rq" by auto
    have "posts n2 = [] \<and> (\<exists>e. r = Inl e) \<or>
      (\<exists>rq a. posts n2 = [(rq, a)] \<and> is_request A (''changes/'' @ updateId @ ''/submit'') POST None rq \<and>
        ((\<exists>e. r = Inr e) \<longrightarrow> answer_status a = Some 200))"
      using n(3)
    proof (rule runs_catchE)
      fix e m1 m2 assume m: "n2 = m1 @ m2" "runs (submit A repository updateId) (Inl e) m1"
        "runs (call_fail (ErrorObject (show_undefined body_toString (error_data e) @ '' Error code:  '' @ access_error_toString e))) r m2"
      with runs_submit [OF assms(1) m(2)] show ?thesis by auto
    next
      fix e assume "r = Inr e" "runs (submit A repository updateId) (Inr e) n2"
      with runs_submit [OF assms(1) this(2)] show ?thesis by blast
    qed (intro submit_appends appends_simple assms(1))+
    moreover have "posts new = (rq, Answer 200 x) # posts n2" using n(1) posts_cons [OF rq(2)] rq(1) by simp
    ultimately show ?thesis unfolding labelled_def using rq(2) answer_status.simps(1) by blast
  qed (intro app expect_appends assms(1))+
qed

text \<open>C20
  A merge changes something on the review server by at most two requests: the labels of the current
  revision of the change, with the highest values of the labels that the project was read to
  have, and, only when these were accepted with status 200, the submission; a branch is the result
  only when that was answered with status 200 as well.
\<close>

theorem merge_submits_labelled:
  assumes "logging A" and "merge A repository updateId (h, log) = (r, (h', log'))"
  shows "\<exists>new. log' = log @ new \<and>
    (posts new = [] \<and> (\<exists>e. r = Inl e) \<or>
     (\<exists>change available labels revision.
       was_read A (''changes/'' @ updateId @ ''?o=CURRENT_REVISION'') change new \<and>
       get_string (Some change) ''current_revision'' = Inr revision \<and>
       was_read A (''projects/'' @ braced repository @ ''/labels?inherited'') available new \<and>
       labelsToSet available = Inr labels \<and> labelled A updateId revision labels (posts new) r))"
proof -
  note append_Cons [simp del]
  let ?rev = "\<lambda>change. res_bind (get_string (Some change) ''current_revision'') (\<lambda>revision. res_bind (sha_create revision) (\<lambda>_. Inr revision))"
  let ?fin = "\<lambda>change labels. call_bind (of_res (?rev change)) (\<lambda>revision. merge_labelled A repository updateId revision labels)"
  let ?mid = "\<lambda>change available. call_bind (of_res (labelsToSet available)) (?fin change)"
  let ?rest = "\<lambda>change. call_bind (internalGetProjectLabels A repository) (?mid change)"
  have end_app: "appends (?fin c l)" for c l by (intro appends_bind appends_simple merge_labelled_appends assms(1))
  have mid_app: "appends (?mid c v)" for c v by (rule appends_bind [OF appends_simple(3) end_app])
  have rest_app: "appends (?rest c)" for c by (rule appends_bind [OF labels_appends [OF assms(1)] mid_app])
  have merge: "merge A repository updateId = call_bind (internalGetChange A updateId) ?rest"
    by (simp only: merge_def)
  then have "appends (merge A repository updateId)"
    by (simp only: appends_bind change_appends assms(1) rest_app)
  from appends_runs [OF this assms(2)] obtain new where new: "log' = log @ new" "runs (merge A repository updateId) r new" by blast
  have final: "posts n = [] \<and> (\<exists>e. r = Inl e) \<or>
      (\<exists>revision. get_string (Some change) ''current_revision'' = Inr revision \<and> labelled A updateId revision labels (posts n) r)"
    if "runs (?fin change labels) r n" for change labels n
    using runs_pure_bind [OF that]
  proof (elim disjE exE conjE)
    fix revision assume rev: "?rev change = Inr revision" and run: "runs (merge_labelled A repository updateId revision labels) r n"
    from rev have "get_string (Some change) ''current_revision'' = Inr revision"
      by (cases "get_string (Some change) ''current_revision''") (auto simp: sha_create_def split: if_splits)
    with runs_merge_labelled [OF assms(1) run] show ?thesis by blast
  qed simp_all
  have middle: "posts n = [] \<and> (\<exists>e. r = Inl e) \<or>
      (\<exists>revision labels. labelsToSet available = Inr labels \<and>
         get_string (Some change) ''current_revision'' = Inr revision \<and> labelled A updateId revision labels (posts n) r)"
    if "runs (?mid change available) r n" for change available n
    using runs_pure_bind [OF that] final by fastforce
  from runs_reading_bind [OF assms(1) new(2) [unfolded merge internalGetChange_def] rest_app]
  show ?thesis
  proof (elim disjE exE conjE)
    fix change n1 n2
    assume n: "new = n1 @ n2" "posts n1 = []" "was_read A (''changes/'' @ updateId @ ''?o=CURRENT_REVISION'') change n1"
      and run: "runs (?rest change) r n2"
    from runs_reading_bind [OF assms(1) run [unfolded internalGetProjectLabels_def] mid_app]
    show ?thesis
    proof (elim disjE exE conjE)
      fix e assume "posts n2 = []" "r = Inl e"
      with n new(1) show ?thesis by auto
    next
      fix available m1 m2
      assume m: "n2 = m1 @ m2" "posts m1 = []" "was_read A (''projects/'' @ braced repository @ ''/labels?inherited'') available m1"
        and run: "runs (?mid change available) r m2"
      have "was_read A (''changes/'' @ updateId @ ''?o=CURRENT_REVISION'') change new"
        "was_read A (''projects/'' @ braced repository @ ''/labels?inherited'') available new"
        using n m by (simp_all add: was_read_append)
      moreover have "posts new = posts m2" using n m by simp
      ultimately show ?thesis using middle [OF run] new(1) by metis
    qed
  qed (use new(1) in blast)
qed

text \<open>The highest value of a label is its greatest one.\<close>

lemma highestValue_Max:
  "highestValue vs = (if {n. Some n \<in> set vs} = {} then None else Some (Max {n. Some n \<in> set vs}))"
proof (induction vs rule: highestValue.induct)
  case (3 n vs)
  have fin: "finite {m. Some m \<in> set vs}"
    by (rule finite_subset [of _ "the ` set vs"]) (force simp: image_iff)+
  have "{m. Some m \<in> set (Some n # vs)} = insert n {m. Some m \<in> set vs}" by auto
  with 3 fin show ?case by (auto simp: max_def)
qed simp_all

text \<open>
  The path of a request that creates a branch or a tag leads the service back to the repository and
  the name, whatever characters they have other than a closing brace and line breaks: its pieces
  between slashes, decoded, are the fixed words, the path of the repository and the name.
\<close>

theorem request_paths_name_their_target:
  assumes "name_ok repository" and "name_ok name"
  shows "map decodeURIComponent (split ''/'' (encodeReplace (''projects/'' @ braced repository @ ''/branches/'' @ braced name))) =
      [''projects'', repository, ''branches'', name] \<and>
    map decodeURIComponent (split ''/'' (encodeReplace (''projects/'' @ braced repository @ ''/tags/'' @ braced name))) =
      [''projects'', repository, ''tags'', name]"
proof -
  have slash: "CHR ''/'' \<notin> set (encodeURIComponent s)" for s
    using encoded_chars [of "CHR ''/''" s] by (auto simp: unreserved_def)
  have word: "decodeURIComponent ''projects'' = ''projects''" "decodeURIComponent ''branches'' = ''branches''"
    "decodeURIComponent ''tags'' = ''tags''"
    by code_simp+
  have pieces: "split ''/'' (''projects'' @ ''/'' @ encodeURIComponent repository @ ''/'' @ w @ ''/'' @ encodeURIComponent name) =
      [''projects'', encodeURIComponent repository, w, encodeURIComponent name]" if "CHR ''/'' \<notin> set w" for w
  proof -
    have "split ''/'' (''projects'' @ ''/'' @ x) = ''projects'' # split ''/'' x" for x by (rule split_safe) simp_all
    moreover have "split ''/'' (w @ ''/'' @ x) = w # split ''/'' x" for x by (rule split_safe) (use that in simp_all)
    moreover have "split ''/'' (encodeURIComponent repository @ ''/'' @ x) = encodeURIComponent repository # split ''/'' x" for x
      by (rule split_safe) (simp_all add: slash)
    moreover have "split ''/'' (encodeURIComponent name) = [encodeURIComponent name]" by (rule split_last) (simp_all add: slash)
    ultimately show ?thesis by (simp only:)
  qed
  have encoded: "encodeReplace (''projects/'' @ braced repository @ ''/'' @ w @ ''/'' @ braced name) =
      ''projects'' @ ''/'' @ encodeURIComponent repository @ ''/'' @ w @ ''/'' @ encodeURIComponent name"
    if "list_all (\<lambda>c. c \<noteq> CHR ''{'') w" for w
    using that encodeReplace_plain [of w] encodeReplace_name [OF assms(1)] encodeReplace_name [OF assms(2), of "[]"]
    by (simp add: braced_def)
  have piece: "map decodeURIComponent (split ''/'' (encodeReplace (''projects/'' @ braced repository @ ''/'' @ w @ ''/'' @ braced name))) =
      [decodeURIComponent ''projects'', repository, decodeURIComponent w, name]"
    if "CHR ''/'' \<notin> set w" "list_all (\<lambda>c. c \<noteq> CHR ''{'') w" for w
    by (simp only: encoded [OF that(2)] pieces [OF that(1)] list.map decode_encodeURIComponent)
  show ?thesis using piece [of "''branches''"] piece [of "''tags''"] by (simp add: word)
qed

lemma request_paths_name_their_target_witness:
  "map decodeURIComponent (split ''/'' (encodeReplace (''projects/'' @ braced ''a/b c'' @ ''/tags/'' @ braced ''v1/2''))) =
     [''projects'', ''a/b c'', ''tags'', ''v1/2'']"
  using request_paths_name_their_target [of "''a/b c''" "''v1/2''"] by (simp add: name_ok_def)

text \<open>Reading a branch does not put its name between braces, so that a slash in it cuts the path.\<close>

lemma branch_path_is_cut:
  "split ''/'' (encodeReplace (''projects/'' @ braced ''r'' @ ''/branches/'' @ ''feature/x'')) =
     [''projects'', ''r'', ''branches'', ''feature'', ''x'']"
proof -
  have "encodeURIComponent ''r'' = ''r''" by code_simp
  then have "encodeReplace (''projects/'' @ braced ''r'' @ ''/branches/'' @ ''feature/x'') = ''projects/r/branches/feature/x''"
    by (simp add: braced_def)
  then show ?thesis by (simp add: split_eval)
qed

text \<open>The branch that is created has another name than the one in the result.\<close>

lemma created_branch_is_another:
  "remoteRef (BranchRef (''refs/heads/'' @ name)) \<noteq> remoteRef (BranchRef name)"
  by simp

text \<open>A service to instantiate with: the answer depends on the request only.\<close>

definition fixed_service :: "(http_request \<Rightarrow> http_answer) \<Rightarrow> (unit \<times> log) repository_access" where
  "fixed_service answer = \<lparr> ra_id = ''g'', ra_host = ''h'', ra_secrets = (\<lambda>s. Inr ''u:p''),
     ra_service = (\<lambda>rq (h, log). (answer rq, (h, log @ [(rq, answer rq)]))) \<rparr>"

lemma fixed_logging: "logging (fixed_service answer)"
  by (simp add: logging_def fixed_service_def)

definition sample_request :: "string \<Rightarrow> HttpMethod \<Rightarrow> json option \<Rightarrow> http_request" where
  "sample_request path method data =
     \<lparr> rq_url = ''https://h/a/'' @ encodeReplace path, rq_method = method, rq_auth = (''u'', ''p''), rq_data = data \<rparr>"

lemma sample_request_method [simp]: "rq_method (sample_request path method data) = method"
  by (simp add: sample_request_def)

lemma fixed_request:
  "createGerritRequest (fixed_service answer) path method data (h, log) =
     (let rq = sample_request path method data
      in (case answer rq of
            Answer status body \<Rightarrow>
              (if 200 \<le> status \<and> status < 300 then Inr (status, body)
               else Inl (HttpError (Some (status, body)) (''Request failed with status code '' @ show_int status)))
          | NoAnswer m \<Rightarrow> Inl (HttpError None m), (h, log @ [(rq, answer rq)])))"
proof -
  have "splitUserSecret ''u:p'' = Inr (''u'', ''p'')" by (simp add: splitUserSecret_def split_eval)
  then show ?thesis
    by (simp add: createGerritRequest_def createRequest_def fixed_service_def call_bind_def call_done_def http_execute_def Let_def
        sample_request_def)
      (cases "answer (sample_request path method data)"; simp add: sample_request_def)
qed

definition sample_sha :: string where
  "sample_sha = replicate 40 CHR ''a''"

lemma sample_sha: "sha_create sample_sha = Inr (ShaRef sample_sha)" "is_sha sample_sha"
proof -
  show "is_sha sample_sha" by (simp add: sample_sha_def is_sha_def list_all_iff hex_val_def)
  then show "sha_create sample_sha = Inr (ShaRef sample_sha)" by (simp add: sha_create_def)
qed

definition sample_change :: json where
  "sample_change = JObj [(''mergeable'', JBool True), (''branch'', JStr ''main''), (''revision'', JStr sample_sha),
     (''current_revision'', JStr sample_sha)]"

definition sample_labels :: json where
  "sample_labels = JArr [JObj [(''name'', JStr ''Code-Review''), (''values'', JObj [(''-1'', JStr ''no''), ('' 0'', JStr ''none''), (''+2'', JStr ''yes'')])]]"

lemma sample_fields:
  "js_get (Some sample_change) ''mergeable'' = Inr (Some (JBool True))"
  "get_string (Some sample_change) ''branch'' = Inr ''main''" "get_string (Some sample_change) ''revision'' = Inr sample_sha"
  "get_string (Some sample_change) ''current_revision'' = Inr sample_sha"
  by (simp_all add: js_get_def get_string_def sample_change_def)

lemma sample_labels_to_set: "labelsToSet sample_labels = Inr [(''Code-Review'', JNum 2)]"
proof -
  have "parse_int ''-1'' = Some (-1)" "parse_int '' 0'' = Some 0" "parse_int ''+2'' = Some 2" by code_simp+
  then show ?thesis by (simp add: labelsToSet_def sample_labels_def add_label_def get_string_def js_get_def)
qed

text \<open>A review server where the change was read and posting is answered as given.\<close>

definition sample_server :: "http_answer \<Rightarrow> http_request \<Rightarrow> http_answer" where
  "sample_server posted rq =
     (if rq_method rq \<noteq> GET then posted
      else Answer 200 (BodyJson (if rq = sample_request (''projects/'' @ braced ''p'' @ ''/labels?inherited'') GET None then sample_labels else sample_change)))"

lemma sample_paths:
  "sample_request (''changes/1?o=CURRENT_REVISION'') GET None \<noteq> sample_request (''projects/'' @ braced ''p'' @ ''/labels?inherited'') GET None"
  "sample_request (''projects/'' @ braced ''p'' @ ''/branches/main'') GET None \<noteq> sample_request (''projects/'' @ braced ''p'' @ ''/labels?inherited'') GET None"
  by (simp_all add: sample_request_def braced_def)

lemma sample_steps:
  "internalGetChange (fixed_service (sample_server posted)) ''1'' (h, log) =
     (Inr sample_change, (h, log @ [(sample_request (''changes/1?o=CURRENT_REVISION'') GET None, Answer 200 (BodyJson sample_change))]))"
  "internalGetBranch (fixed_service (sample_server posted)) ''p'' ''main'' (h, log) =
     (Inr sample_change, (h, log @ [(sample_request (''projects/'' @ braced ''p'' @ ''/branches/main'') GET None, Answer 200 (BodyJson sample_change))]))"
  "internalGetProjectLabels (fixed_service (sample_server posted)) ''p'' (h, log) =
     (Inr sample_labels, (h, log @ [(sample_request (''projects/'' @ braced ''p'' @ ''/labels?inherited'') GET None, Answer 200 (BodyJson sample_labels))]))"
proof -
  note append_Cons [simp del]
  have path: "''changes/'' @ ''1'' @ ''?o=CURRENT_REVISION'' = ''changes/1?o=CURRENT_REVISION''" 
    "''/branches/'' @ ''main'' = ''/branches/main''" by (simp_all add: append_Cons)
  show "internalGetChange (fixed_service (sample_server posted)) ''1'' (h, log) =
     (Inr sample_change, (h, log @ [(sample_request (''changes/1?o=CURRENT_REVISION'') GET None, Answer 200 (BodyJson sample_change))]))"
    by (simp add: internalGetChange_def path decoded_def expect_status_def call_bind_def fixed_request sample_server_def sample_paths
        call_done_def gerritJsonResponseDecode_def Let_def)
  show "internalGetBranch (fixed_service (sample_server posted)) ''p'' ''main'' (h, log) =
     (Inr sample_change, (h, log @ [(sample_request (''projects/'' @ braced ''p'' @ ''/branches/main'') GET None, Answer 200 (BodyJson sample_change))]))"
    by (simp add: internalGetBranch_def path decoded_def expect_status_def call_bind_def fixed_request sample_server_def sample_paths
        call_done_def gerritJsonResponseDecode_def Let_def)
  show "internalGetProjectLabels (fixed_service (sample_server posted)) ''p'' (h, log) =
     (Inr sample_labels, (h, log @ [(sample_request (''projects/'' @ braced ''p'' @ ''/labels?inherited'') GET None, Answer 200 (BodyJson sample_labels))]))"
    by (simp add: internalGetProjectLabels_def decoded_def expect_status_def call_bind_def fixed_request sample_server_def
        call_done_def gerritJsonResponseDecode_def Let_def)
qed

lemma rebase_outcomes_witness:
  "\<exists>h log. rebase (fixed_service (sample_server (Answer 409 (BodyText [])))) ''p'' ''1'' ((), []) = (Inr None, (h, log)) \<and> length (posts log) = 1"
proof -
  let ?A = "fixed_service (sample_server (Answer 409 (BodyText [])))"
  have posted: "sample_server (Answer 409 (BodyText [])) (sample_request path POST data) = Answer 409 (BodyText [])" for path data
    by (simp add: sample_server_def)
  obtain log where run: "rebase ?A ''p'' ''1'' ((), []) = (Inr None, ((), log))"
    by (simp add: rebase_def rebase_onto_def rebase_end_def rebase_request_def call_bind_def call_catch_def field_string_def
        sample_steps Let_def sample_fields call_done_def decoded_def expect_status_def fixed_request posted)
  from rebase_outcomes [OF fixed_logging run] have "length (posts log) = 1" by auto
  with run show ?thesis by blast
qed

lemma merge_submits_labelled_witness:
  "\<exists>h log. merge (fixed_service (sample_server (Answer 200 (BodyJson sample_change)))) ''p'' ''1'' ((), []) =
     (Inr \<lparr> e_ref = BranchRef ''main'', e_sha = sample_sha \<rparr>, (h, log)) \<and> length (posts log) = 2"
proof -
  let ?A = "fixed_service (sample_server (Answer 200 (BodyJson sample_change)))"
  have posted: "sample_server (Answer 200 (BodyJson sample_change)) (sample_request path POST data) = Answer 200 (BodyJson sample_change)" for path data
    by (simp add: sample_server_def)
  obtain log where run: "merge ?A ''p'' ''1'' ((), []) = (Inr \<lparr> e_ref = BranchRef ''main'', e_sha = sample_sha \<rparr>, ((), log))"
    by (simp add: merge_def merge_labelled_def internalSetLabels_def submit_def call_bind_def call_catch_def field_string_def
        sample_steps Let_def sample_fields sample_labels_to_set sample_sha call_done_def decoded_def expect_status_def fixed_request posted
        gerritJsonResponseDecode_def)
  from merge_submits_labelled [OF fixed_logging run] have "length (posts log) = 2" by (auto simp: labelled_def)
  with run show ?thesis by blast
qed

end
