(* ===== verification/Secrets.thy ===== *)
theory Secrets
  imports Json Event_Stream
begin

text \<open>
  Secrets and configured values: the cache of the vault (\<open>backend/src/vault/vault-service.ts\<close>), the
  masking of secrets in what is printed (\<open>masker.ts\<close>), and the replacing of markers in the
  configuration (\<open>backend/src/config/value-substitutor.ts\<close> and \<open>value-substitutors/\<close>). The vault
  itself, the environment and the files are parameters.
\<close>

section \<open>Masking\<close>

text \<open>\<open>s.replace(p, r)\<close> with a text \<open>p\<close>: the first occurrence.\<close>

fun replace_first :: "string \<Rightarrow> string \<Rightarrow> string \<Rightarrow> string" where
  "replace_first p r [] = (if p = [] then r else [])"
| "replace_first p r (c # cs) =
     (if prefix p (c # cs) then r @ drop (length p) (c # cs) else c # replace_first p r cs)"

definition mask_text :: "string \<Rightarrow> string" where
  "mask_text secret = ''**'' @ show_nat (length secret) @ ''**''"

definition mask_string :: "string list \<Rightarrow> string \<Rightarrow> string" where
  "mask_string secrets target = foldl (\<lambda>result secret. replace_first secret (mask_text secret) result) target secrets"

text \<open>\<open>null\<close> is an object without fields to the utility library.\<close>

fun maskValues :: "string list \<Rightarrow> json \<Rightarrow> json" where
  "maskValues secrets (JStr s) = JStr (mask_string secrets s)"
| "maskValues secrets (JArr vs) = JArr (map (maskValues secrets) vs)"
| "maskValues secrets (JObj fs) = JObj (map (\<lambda>(k, v). (k, maskValues secrets v)) fs)"
| "maskValues secrets JNull = JObj []"
| "maskValues secrets v = v"

section \<open>The vault\<close>

text \<open>
  The cache holds the answers of the vault for the parents of paths and the results for the paths;
  a rejection is kept as well.
\<close>

record 'h vault =
  va_cache :: "string \<Rightarrow> json res option"
  va_resolved :: "string list"
  va_server :: 'h

definition vault_clear :: "'h vault \<Rightarrow> 'h vault" where
  "vault_clear w = w \<lparr> va_cache := Map.empty \<rparr>"

type_synonym 'h vault_read = "string \<Rightarrow> 'h \<Rightarrow> json res \<times> 'h"

definition parent_path :: "string \<Rightarrow> string" where
  "parent_path path = join ''/'' (butlast (split ''/'' path))"

definition path_key :: "string \<Rightarrow> string" where
  "path_key path = last (split ''/'' path)"

definition is_object :: "json \<Rightarrow> bool" where
  "is_object v \<longleftrightarrow> (case v of JObj fs \<Rightarrow> True | JArr vs \<Rightarrow> True | _ \<Rightarrow> False)"

definition field_of :: "json option \<Rightarrow> string \<Rightarrow> json option" where
  "field_of v k = (case v of Some (JObj fs) \<Rightarrow> map_of fs k | _ \<Rightarrow> None)"

text \<open>What is made of the answer for the parent.\<close>

definition secret_of :: "string \<Rightarrow> json res \<Rightarrow> json res" where
  "secret_of path answer =
     (case answer of
        Inl e \<Rightarrow> Inl (Error (''Vault error for secret '' @ path @ '': '' @ error_toString e))
      | Inr obj \<Rightarrow>
          (if is_object obj then
             (if path_key path \<noteq> [] then
                (let value = field_of (field_of (Some obj) ''data'') (path_key path) in
                 if js_truthy value then Inr (the value) else Inl (Error (''No secret found: '' @ path)))
              else Inl (Error (''Key was not defined in '' @ path)))
           else Inl (Error ''Vault did not return an object'')))"

definition load_parent :: "'h vault_read \<Rightarrow> string \<Rightarrow> 'h vault \<Rightarrow> json res \<times> 'h vault" where
  "load_parent vread path w =
     (case va_cache w (parent_path path) of
        Some answer \<Rightarrow> (answer, w)
      | None \<Rightarrow>
          (let (answer, h) = vread (parent_path path) (va_server w)
           in (answer, w \<lparr> va_cache := (va_cache w) (parent_path path \<mapsto> answer), va_server := h \<rparr>)))"

fun value_text :: "json \<Rightarrow> string list" where
  "value_text (JStr s) = [s]"
| "value_text v = []"

text \<open>Values that are not text are not kept for masking here.\<close>

definition getSecret :: "'h vault_read \<Rightarrow> string \<Rightarrow> 'h vault \<Rightarrow> json res \<times> 'h vault" where
  "getSecret vread path w =
     (case va_cache w path of
        Some existing \<Rightarrow> (existing, w)
      | None \<Rightarrow>
          (let (answer, w1) = load_parent vread path w;
               result = secret_of path answer;
               resolved = (case result of Inl e \<Rightarrow> va_resolved w1 | Inr v \<Rightarrow> uniq (va_resolved w1 @ value_text v))
           in (result, w1 \<lparr> va_cache := (va_cache w1) (path \<mapsto> result), va_resolved := resolved \<rparr>)))"

definition vault_mask :: "'h vault \<Rightarrow> json \<Rightarrow> json" where
  "vault_mask w input = maskValues (va_resolved w) input"

section \<open>Markers in the configuration\<close>

definition is_word :: "char \<Rightarrow> bool" where
  "is_word c = (let n = of_char c :: nat in 48 \<le> n \<and> n \<le> 57 \<or> 65 \<le> n \<and> n \<le> 90 \<or> 97 \<le> n \<and> n \<le> 122 \<or> n = 95)"

definition is_line_end :: "char \<Rightarrow> bool" where
  "is_line_end c \<longleftrightarrow> c = CHR 0x0A \<or> c = CHR 0x0D"

text \<open>
  \<open>/\$\{([\w]+):(.+?)\}/gm\<close> at the start of a text: the name, the value, and what follows. The value
  is at least one character and ends before the next closing brace on the line.
\<close>

fun until_brace :: "string \<Rightarrow> (string \<times> string) option" where
  "until_brace [] = None"
| "until_brace (c # cs) =
     (if c = CHR ''}'' then Some ([], cs)
      else if is_line_end c then None
      else map_option (\<lambda>(v, r). (c # v, r)) (until_brace cs))"

definition match_marker :: "string \<Rightarrow> (string \<times> string \<times> string) option" where
  "match_marker s =
     (if take 2 s = ''${'' then
        (let name = takeWhile is_word (drop 2 s); rest = dropWhile is_word (drop 2 s) in
         if name \<noteq> [] \<and> length rest \<ge> 2 \<and> hd rest = CHR '':'' \<and> \<not> is_line_end (rest ! 1) then
           map_option (\<lambda>(v, r). (name, rest ! 1 # v, r)) (until_brace (drop 2 rest))
         else None)
      else None)"

lemma until_brace_length: "until_brace s = Some (v, r) \<Longrightarrow> length r < length s"
  by (induction s arbitrary: v) (auto split: if_splits)

lemma match_marker_length: "match_marker s = Some (n, v, r) \<Longrightarrow> length r < length s"
proof -
  assume m: "match_marker s = Some (n, v, r)"
  then obtain v' where "until_brace (drop 2 (dropWhile is_word (drop 2 s))) = Some (v', r)"
    by (auto simp: match_marker_def Let_def split: if_splits)
  from until_brace_length [OF this] have "length r < length (dropWhile is_word (drop 2 s))" by simp
  also have "\<dots> \<le> length s" by (metis diff_le_self dual_order.trans length_drop length_dropWhile_le)
  finally show ?thesis .
qed

text \<open>A substitutor has a name and a function; the first with the name counts.\<close>

type_synonym substitutor = "string \<times> (string \<Rightarrow> string res)"

definition lookup_value :: "substitutor list \<Rightarrow> string \<Rightarrow> string \<Rightarrow> string res" where
  "lookup_value subs name v =
     (case map_of subs name of
        Some f \<Rightarrow> f v
      | None \<Rightarrow> Inl (Error (''Unknown substitutor: '' @ name)))"

text \<open>
  What \<open>Promise.all\<close> makes of several answers: all values, in order, or a rejection as soon as one of them is
  rejected. Which one is the first in time is not determined by their order, so the errors of all of them are kept:
  the error of the rejection is one of these. \<open>settled first\<close> is the result when \<open>first\<close> tells which one came first.
\<close>

type_synonym 'a settling = "error list + 'a"

fun join_settling :: "('a \<Rightarrow> 'b \<Rightarrow> 'c) \<Rightarrow> 'a settling \<Rightarrow> 'b settling \<Rightarrow> 'c settling" where
  "join_settling f (Inr x) (Inr y) = Inr (f x y)"
| "join_settling f (Inl es) (Inr y) = Inl es"
| "join_settling f (Inr x) (Inl es) = Inl es"
| "join_settling f (Inl es) (Inl fs) = Inl (es @ fs)"

fun map_settling :: "('a \<Rightarrow> 'b) \<Rightarrow> 'a settling \<Rightarrow> 'b settling" where
  "map_settling f (Inr x) = Inr (f x)"
| "map_settling f (Inl es) = Inl es"

fun promise_all :: "'a settling list \<Rightarrow> 'a list settling" where
  "promise_all [] = Inr []"
| "promise_all (r # rs) = join_settling (#) r (promise_all rs)"

fun one_settling :: "'a res \<Rightarrow> 'a settling" where
  "one_settling (Inr x) = Inr x"
| "one_settling (Inl e) = Inl [e]"

fun settled :: "(error list \<Rightarrow> error) \<Rightarrow> 'a settling \<Rightarrow> 'a res" where
  "settled first (Inr x) = Inr x"
| "settled first (Inl es) = Inl (first es)"

text \<open>Every marker is looked up at once; the text is put together when all values are there.\<close>

function replaceString :: "substitutor list \<Rightarrow> string \<Rightarrow> string settling" where
  "replaceString subs s =
     (case match_marker s of
        Some (name, v, r) \<Rightarrow> join_settling (@) (one_settling (lookup_value subs name v)) (replaceString subs r)
      | None \<Rightarrow> (case s of [] \<Rightarrow> Inr [] | c # cs \<Rightarrow> map_settling ((#) c) (replaceString subs cs)))"
  by pat_completeness auto
termination
  by (relation "measure (\<lambda>(subs, s). length s)") (auto dest: match_marker_length)

declare replaceString.simps [simp del]

fun substitute :: "substitutor list \<Rightarrow> json \<Rightarrow> json settling" where
  "substitute subs (JStr s) = map_settling JStr (replaceString subs s)"
| "substitute subs (JArr vs) = map_settling JArr (promise_all (map (substitute subs) vs))"
| "substitute subs (JObj fs) =
     map_settling JObj (promise_all (map (\<lambda>(k, v). map_settling (Pair k) (substitute subs v)) fs))"
| "substitute subs JNull = Inr (JObj [])"
| "substitute subs v = Inr v"

definition env_substitutor :: "(string \<Rightarrow> string option) \<Rightarrow> substitutor" where
  "env_substitutor env = (''env'', \<lambda>v. if truthy (env v) then Inr (the (env v)) else Inl (Error (''Unknown value in ENV: '' @ v @ ''.'')))"

definition file_substitutor :: "(string \<Rightarrow> string res) \<Rightarrow> substitutor" where
  "file_substitutor readFile = (''file'', readFile)"

definition vault_substitutor :: "(string \<Rightarrow> string res) \<Rightarrow> substitutor" where
  "vault_substitutor secret = (''vault'', secret)"

section \<open>What markers become\<close>

text \<open>A text in pieces: literal text and markers.\<close>

datatype piece = Literal string | Marker string string

fun piece_text :: "piece \<Rightarrow> string" where
  "piece_text (Literal s) = s"
| "piece_text (Marker name v) = ''${'' @ name @ '':'' @ v @ ''}''"

fun piece_value :: "substitutor list \<Rightarrow> piece \<Rightarrow> string res" where
  "piece_value subs (Literal s) = Inr s"
| "piece_value subs (Marker name v) = lookup_value subs name v"

fun piece_ok :: "piece \<Rightarrow> bool" where
  "piece_ok (Literal s) \<longleftrightarrow> CHR ''$'' \<notin> set s"
| "piece_ok (Marker name v) \<longleftrightarrow> name \<noteq> [] \<and> list_all is_word name \<and> v \<noteq> [] \<and>
     list_all (\<lambda>c. c \<noteq> CHR ''}'' \<and> \<not> is_line_end c) v"

lemma until_brace_value:
  "list_all (\<lambda>c. c \<noteq> CHR ''}'' \<and> \<not> is_line_end c) v \<Longrightarrow> until_brace (v @ CHR ''}'' # r) = Some (v, r)"
  by (induction v) auto

lemma match_marker_piece:
  assumes "piece_ok (Marker name v)"
  shows "match_marker (piece_text (Marker name v) @ r) = Some (name, v, r)"
proof -
  from assms obtain c cs where v: "v = c # cs" by (cases v) auto
  have colon: "\<not> is_word (CHR '':'')" by (simp add: is_word_def)
  have word: "takeWhile is_word (name @ CHR '':'' # x) = name" "dropWhile is_word (name @ CHR '':'' # x) = CHR '':'' # x" for x
    using assms colon by (auto simp: takeWhile_append dropWhile_append list_all_iff)
  from assms v have "until_brace (cs @ CHR ''}'' # r) = Some (cs, r)" by (simp add: until_brace_value)
  with assms v show ?thesis by (simp add: match_marker_def Let_def word)
qed

lemma map_settling_id [simp]: "map_settling (\<lambda>x. x) r = r"
  by (cases r) simp_all

lemma map_settling_comp [simp]: "map_settling f (map_settling g r) = map_settling (\<lambda>x. f (g x)) r"
  by (cases r) simp_all

lemma replace_literal:
  "CHR ''$'' \<notin> set s \<Longrightarrow> replaceString subs (s @ r) = map_settling ((@) s) (replaceString subs r)"
proof (induction s)
  case Nil
  then show ?case by (cases "replaceString subs r") simp_all
next
  case (Cons c s)
  then have "c \<noteq> CHR ''$''" by auto
  then have "match_marker ((c # s) @ r) = None" by (simp add: match_marker_def)
  then have "replaceString subs ((c # s) @ r) = map_settling ((#) c) (replaceString subs (s @ r))"
    by (subst replaceString.simps) simp
  with Cons show ?case by simp
qed

text \<open>The errors of the markers that have no value.\<close>

definition marker_errors :: "substitutor list \<Rightarrow> piece list \<Rightarrow> error list" where
  "marker_errors subs ps = List.map_filter (\<lambda>p. case piece_value subs p of Inl e \<Rightarrow> Some e | Inr v \<Rightarrow> None) ps"

lemma marker_errors_simps [simp]:
  "marker_errors subs [] = []"
  "marker_errors subs (p # ps) = (case piece_value subs p of Inl e \<Rightarrow> [e] | Inr v \<Rightarrow> []) @ marker_errors subs ps"
  by (simp_all add: marker_errors_def List.map_filter_simps split: sum.split)

lemma set_marker_errors: "set (marker_errors subs ps) = {e. \<exists>p \<in> set ps. piece_value subs p = Inl e}"
  by (induction ps) (auto split: sum.splits)

lemma replace_pieces:
  assumes "list_all piece_ok ps"
  shows "replaceString subs (concat (map piece_text ps)) =
    (case res_mapM (piece_value subs) ps of Inr vs \<Rightarrow> Inr (concat vs) | Inl _ \<Rightarrow> Inl (marker_errors subs ps)) \<and>
    (marker_errors subs ps = [] \<longleftrightarrow> (\<exists>vs. res_mapM (piece_value subs) ps = Inr vs))"
  using assms
proof (induction ps)
  case Nil
  then show ?case by (subst replaceString.simps) (simp add: match_marker_def)
next
  case (Cons p ps)
  then have IH: "replaceString subs (concat (map piece_text ps)) =
      (case res_mapM (piece_value subs) ps of Inr vs \<Rightarrow> Inr (concat vs) | Inl _ \<Rightarrow> Inl (marker_errors subs ps))"
    "marker_errors subs ps = [] \<longleftrightarrow> (\<exists>vs. res_mapM (piece_value subs) ps = Inr vs)" by simp_all
  have "replaceString subs (concat (map piece_text (p # ps))) =
      join_settling (@) (one_settling (piece_value subs p)) (replaceString subs (concat (map piece_text ps)))"
  proof (cases p)
    case (Literal s)
    with Cons.prems replace_literal [of s subs "concat (map piece_text ps)"] show ?thesis
      by (cases "replaceString subs (concat (map piece_text ps))") simp_all
  next
    case (Marker name v)
    with Cons.prems have "piece_ok (Marker name v)" by simp
    from match_marker_piece [OF this, of "concat (map piece_text ps)"] Marker show ?thesis
      by (subst replaceString.simps) simp
  qed
  with IH show ?case
    by (cases "piece_value subs p"; cases "res_mapM (piece_value subs) ps") simp_all
qed

text \<open>C34
  In a text of literal pieces without a dollar sign and of markers, replacing puts for every marker
  the value of the substitutor with its name and keeps every literal piece, when all markers have a value;
  otherwise it fails, with the error of one of the markers whose substitutor is unknown or fails, whichever
  of them fails first in time. What a substitutor returns is not searched for markers again.
\<close>

theorem markers_are_replaced:
  assumes "list_all piece_ok ps" and "\<And>es. es \<noteq> [] \<Longrightarrow> first es \<in> set es"
  shows "case settled first (replaceString subs (concat (map piece_text ps))) of
      Inr text \<Rightarrow> \<exists>vs. list_all2 (\<lambda>p v. piece_value subs p = Inr v) ps vs \<and> text = concat vs
    | Inl e \<Rightarrow> \<exists>p \<in> set ps. piece_value subs p = Inl e"
proof (cases "res_mapM (piece_value subs) ps")
  case (Inr vs)
  then have "list_all2 (\<lambda>p v. piece_value subs p = Inr v) ps vs"
    by (induction ps arbitrary: vs) (auto simp: res_bind_eq_Inr)
  with Inr replace_pieces [OF assms(1), of subs] show ?thesis by auto
next
  case (Inl e)
  with replace_pieces [OF assms(1), of subs] have "marker_errors subs ps \<noteq> []" by simp
  from assms(2) [OF this] have "\<exists>p \<in> set ps. piece_value subs p = Inl (first (marker_errors subs ps))"
    by (simp add: set_marker_errors)
  with Inl replace_pieces [OF assms(1), of subs] show ?thesis by simp
qed

lemma markers_are_replaced_witness:
  "settled last (replaceString [env_substitutor (\<lambda>v. if v = ''HOST'' then Some ''a${env:X}'' else None)] ''ssh://${env:HOST}/r'') =
     Inr ''ssh://a${env:X}/r''"
proof -
  let ?subs = "[env_substitutor (\<lambda>v. if v = ''HOST'' then Some ''a${env:X}'' else None)]"
  let ?ps = "[Literal ''ssh://'', Marker ''env'' ''HOST'', Literal ''/r'']"
  have "list_all piece_ok ?ps" by (simp add: is_word_def is_line_end_def)
  from markers_are_replaced [OF this, of last ?subs] show ?thesis
    by (auto simp: lookup_value_def env_substitutor_def list_all2_Cons1 split: sum.splits)
qed

text \<open>An unknown substitutor behind a missing value: both errors can be the result.\<close>

lemma any_missing_marker_may_be_told:
  "replaceString [env_substitutor (\<lambda>v. None)] ''${env:MISSING}${foo:x}'' =
     Inl [Error ''Unknown value in ENV: MISSING.'', Error ''Unknown substitutor: foo'']"
  by code_simp

section \<open>What masking leaves\<close>

lemma replace_first_suffix: "p \<noteq> [] \<Longrightarrow> suffix rest (replace_first p r (a @ p @ rest))"
proof (induction a)
  case Nil
  then show ?case by (cases p) (auto simp: suffix_def)
next
  case (Cons c a)
  show ?case
  proof (cases "prefix p ((c # a) @ p @ rest)")
    case True
    have "drop (length p) (((c # a) @ p) @ rest) = drop (length p) ((c # a) @ p) @ rest"
      unfolding drop_append [of _ "(c # a) @ p"] by simp
    with True show ?thesis by (auto simp: suffix_def)
  next
    case False
    with Cons show ?thesis by (auto simp: suffix_def)
  qed
qed

text \<open>
  Masking a secret in a text leaves everything behind its first occurrence as it is: a secret that
  occurs in the text twice can still be read in it.
\<close>

theorem masking_leaves_the_rest:
  assumes "secret \<noteq> []"
  shows "(\<exists>shown. maskValues [secret] (JStr (before @ secret @ rest)) = JStr (shown @ rest)) \<and>
    (\<exists>a b. maskValues [secret] (JStr (before @ secret @ between @ secret @ rest)) = JStr (a @ secret @ b))"
proof -
  have tail: "\<exists>shown. maskValues [secret] (JStr (before @ secret @ x)) = JStr (shown @ x)" for x
    using replace_first_suffix [OF assms, of x "mask_text secret" before] by (auto simp: mask_string_def suffix_def)
  from tail [of "between @ secret @ rest"] obtain shown where
    "maskValues [secret] (JStr (before @ secret @ between @ secret @ rest)) = JStr ((shown @ between) @ secret @ rest)" by auto
  with tail [of rest] show ?thesis by blast
qed

lemma masking_leaves_the_rest_witness:
  "\<exists>a b. maskValues [''pw''] (JStr ''u:pw@h u:pw@k'') = JStr (a @ ''pw'' @ b)"
  using masking_leaves_the_rest [of "''pw''" "''u:''" "''@k''" "''@h u:''"] by simp

section \<open>What the vault keeps\<close>

lemma getSecret_keeps: "va_cache w p = Some r \<Longrightarrow> va_cache (snd (getSecret vread q w)) p = Some r"
  by (auto simp: getSecret_def load_parent_def Let_def split: option.split prod.split)

lemma getSecret_stores: "getSecret vread p w = (r, w1) \<Longrightarrow> va_cache w1 p = Some r"
  by (auto simp: getSecret_def Let_def split: option.splits prod.splits)

text \<open>Further requests, with whatever the vault answers to each.\<close>

fun getSecrets :: "('h vault_read \<times> string) list \<Rightarrow> 'h vault \<Rightarrow> 'h vault" where
  "getSecrets [] w = w"
| "getSecrets ((vread, q) # qs) w = getSecrets qs (snd (getSecret vread q w))"

lemma getSecrets_keeps: "va_cache w p = Some r \<Longrightarrow> va_cache (getSecrets qs w) p = Some r"
  by (induction qs w rule: getSecrets.induct) (simp_all add: getSecret_keeps)

text \<open>
  The first result for a path is the result for it from then on, after any requests for other
  paths and whatever the vault answers later; this is so for a failure too.
\<close>

theorem first_secret_is_kept:
  assumes "getSecret vread p w = (r, w1)" and "w2 = getSecrets qs w1"
  shows "getSecret vread' p w2 = (r, w2)"
  using getSecrets_keeps [OF getSecret_stores [OF assms(1)], of qs] by (simp add: getSecret_def assms(2))

lemma first_secret_is_kept_witness:
  "\<exists>e w1. getSecret (\<lambda>path h. (Inl (Error ''down''), h)) ''a/b'' \<lparr> va_cache = Map.empty, va_resolved = [], va_server = () \<rparr> = (Inl e, w1) \<and>
     getSecret (\<lambda>path h. (Inr (JObj [(''data'', JObj [(''b'', JStr ''s'')])]), h)) ''a/b'' w1 = (Inl e, w1)"
proof -
  let ?w = "\<lparr> va_cache = Map.empty, va_resolved = [], va_server = () \<rparr>"
  let ?down = "\<lambda>path h. (Inl (Error ''down''), h)"
  let ?up = "\<lambda>path h. (Inr (JObj [(''data'', JObj [(''b'', JStr ''s'')])]), h)"
  obtain r w1 where first: "getSecret ?down ''a/b'' ?w = (r, w1)" by fastforce
  then have "\<exists>e. r = Inl e" by (auto simp: getSecret_def load_parent_def secret_of_def Let_def)
  then obtain e where e: "r = Inl e" ..
  have "getSecret ?up ''a/b'' w1 = (r, w1)"
    by (rule first_secret_is_kept [OF first, of w1 "[]"]) simp
  with first e show ?thesis by blast
qed

end
