(* ===== verification/Services.thy ===== *)
theory Services
  imports Js_Text Redis "HOL-Library.Multiset"
begin

text \<open>
  Small services: the serializer that keeps commands for one key apart
  (\<open>backend/src/system/execution-serializer.ts\<close>), the shutdown manager
  (\<open>backend/src/shutdown-manager/shutdown-manager-impl.ts\<close>), labels
  (\<open>backend/src/system/label.ts\<close>) and the cache of contents
  (\<open>backend/src/repositories/repository-access/data-cache.ts\<close>).
\<close>

section \<open>The serializer\<close>

text \<open>
  A call of \<open>execute\<close> is a command with a key and, if there was one, the last command for the key
  before it. It waits for the end of that, runs, and is settled.
\<close>

datatype command_state = CommandWaiting | CommandRunning | CommandSettled

record serial_command =
  cm_key :: string
  cm_after :: "nat option"
  cm_state :: command_state

record serializer =
  sr_last :: "string \<Rightarrow> nat option"
  sr_commands :: "serial_command list"

definition serializer_new :: serializer where
  "serializer_new = \<lparr> sr_last = Map.empty, sr_commands = [] \<rparr>"

definition serializer_execute :: "string \<Rightarrow> serializer \<Rightarrow> serializer" where
  "serializer_execute semaphore s =
     (let key = ''semaphore:'' @ semaphore;
          lastPromise = sr_last s key;
          newPromise = \<lparr> cm_key = key, cm_after = lastPromise,
            cm_state = (if lastPromise = None then CommandRunning else CommandWaiting) \<rparr>
      in s \<lparr> sr_last := (sr_last s)(key \<mapsto> length (sr_commands s)), sr_commands := sr_commands s @ [newPromise] \<rparr>)"

definition set_command :: "nat \<Rightarrow> command_state \<Rightarrow> serializer \<Rightarrow> serializer" where
  "set_command i st s = s \<lparr> sr_commands := (sr_commands s)[i := (sr_commands s ! i) \<lparr> cm_state := st \<rparr>] \<rparr>"

text \<open>What can happen: a new call, the start of a command whose predecessor is settled, the end of one that runs.\<close>

inductive serial_step :: "serializer \<Rightarrow> serializer \<Rightarrow> bool" where
  call: "serial_step s (serializer_execute semaphore s)"
| start: "i < length (sr_commands s) \<Longrightarrow> cm_state (sr_commands s ! i) = CommandWaiting \<Longrightarrow>
    cm_after (sr_commands s ! i) = Some p \<Longrightarrow> cm_state (sr_commands s ! p) = CommandSettled \<Longrightarrow>
    serial_step s (set_command i CommandRunning s)"
| settle: "i < length (sr_commands s) \<Longrightarrow> cm_state (sr_commands s ! i) = CommandRunning \<Longrightarrow>
    serial_step s (set_command i CommandSettled s)"

inductive serial_reach :: "serializer \<Rightarrow> bool" where
  new: "serial_reach serializer_new"
| step: "serial_reach s \<Longrightarrow> serial_step s s' \<Longrightarrow> serial_reach s'"

text \<open>The last command before another one for its key.\<close>

definition last_before :: "serial_command list \<Rightarrow> string \<Rightarrow> nat \<Rightarrow> nat option" where
  "last_before cs key n = (if \<exists>i < n. cm_key (cs ! i) = key then Some (Max {i. i < n \<and> cm_key (cs ! i) = key}) else None)"

text \<open>The call of a command names the last one before it, and a command that started has a settled one before it.\<close>

definition linked :: "serializer \<Rightarrow> bool" where
  "linked s \<longleftrightarrow>
     (\<forall>key. sr_last s key = last_before (sr_commands s) key (length (sr_commands s))) \<and>
     (\<forall>i < length (sr_commands s). cm_after (sr_commands s ! i) = last_before (sr_commands s) (cm_key (sr_commands s ! i)) i)"

definition in_turn :: "serializer \<Rightarrow> bool" where
  "in_turn s \<longleftrightarrow>
     (\<forall>i < length (sr_commands s).
        (case cm_after (sr_commands s ! i) of
           None \<Rightarrow> cm_state (sr_commands s ! i) \<noteq> CommandWaiting
         | Some p \<Rightarrow> p < i \<and> (cm_state (sr_commands s ! i) \<noteq> CommandWaiting \<longrightarrow> cm_state (sr_commands s ! p) = CommandSettled)))"

lemma last_before_cong: "(\<And>i. i < n \<Longrightarrow> cm_key (cs ! i) = cm_key (ds ! i)) \<Longrightarrow> last_before cs key n = last_before ds key n"
  by (simp add: last_before_def cong: conj_cong)

lemma last_before_Some:
  assumes "last_before cs key n = Some p"
  shows "p < n" and "cm_key (cs ! p) = key" and "i < n \<Longrightarrow> cm_key (cs ! i) = key \<Longrightarrow> i \<le> p"
proof -
  let ?S = "{i. i < n \<and> cm_key (cs ! i) = key}"
  from assms have "?S \<noteq> {}" and p: "p = Max ?S" by (auto simp: last_before_def split: if_splits)
  then have "Max ?S \<in> ?S" by (intro Max_in) auto
  with p show "p < n" "cm_key (cs ! p) = key" by auto
  show "i < n \<Longrightarrow> cm_key (cs ! i) = key \<Longrightarrow> i \<le> p" using p by (auto intro: Max_ge)
qed

lemma last_before_Suc: "last_before cs key (Suc n) = (if cm_key (cs ! n) = key then Some n else last_before cs key n)"
proof (cases "cm_key (cs ! n) = key")
  case True
  then have "Max {i. i < Suc n \<and> cm_key (cs ! i) = key} = n" by (intro Max_eqI) auto
  with True show ?thesis by (auto simp: last_before_def)
next
  case False
  then have "{i. i < Suc n \<and> cm_key (cs ! i) = key} = {i. i < n \<and> cm_key (cs ! i) = key}" by (auto simp: less_Suc_eq)
  with False show ?thesis by (auto simp: last_before_def less_Suc_eq)
qed

lemma linked_execute:
  assumes "linked s"
  shows "linked (serializer_execute semaphore s)"
proof -
  define key where "key = ''semaphore:'' @ semaphore"
  define new where "new = \<lparr> cm_key = key, cm_after = sr_last s key, cm_state = (if sr_last s key = None then CommandRunning else CommandWaiting) \<rparr>"
  have exec: "serializer_execute semaphore s = s \<lparr> sr_last := (sr_last s)(key \<mapsto> length (sr_commands s)), sr_commands := sr_commands s @ [new] \<rparr>"
    by (simp add: serializer_execute_def Let_def key_def new_def)
  have before: "last_before (sr_commands s @ [new]) k i = last_before (sr_commands s) k i" if "i \<le> length (sr_commands s)" for k i
    using that by (intro last_before_cong) (simp add: nth_append)
  have new_sel: "cm_key new = key" "cm_after new = sr_last s key" by (simp_all add: new_def)
  show ?thesis
    using assms unfolding linked_def exec
    by (simp add: last_before_Suc before nth_append less_Suc_eq new_sel)
qed

lemma in_turn_execute:
  assumes "linked s" and "in_turn s"
  shows "in_turn (serializer_execute semaphore s)"
proof -
  define key where "key = ''semaphore:'' @ semaphore"
  define new where "new = \<lparr> cm_key = key, cm_after = sr_last s key, cm_state = (if sr_last s key = None then CommandRunning else CommandWaiting) \<rparr>"
  have exec: "serializer_execute semaphore s = s \<lparr> sr_last := (sr_last s)(key \<mapsto> length (sr_commands s)), sr_commands := sr_commands s @ [new] \<rparr>"
    by (simp add: serializer_execute_def Let_def key_def new_def)
  have last: "p < length (sr_commands s)" if "sr_last s key = Some p" for p
    using assms(1) that last_before_Some(1) by (simp add: linked_def)
  have new_ok: "case cm_after new of None \<Rightarrow> cm_state new \<noteq> CommandWaiting
      | Some p \<Rightarrow> p < length (sr_commands s) \<and> cm_state new = CommandWaiting"
    using last by (auto simp: new_def split: option.split)
  show ?thesis unfolding in_turn_def
  proof (intro allI impI)
    fix i assume "i < length (sr_commands (serializer_execute semaphore s))"
    then consider "i < length (sr_commands s)" | "i = length (sr_commands s)" by (auto simp: exec less_Suc_eq)
    then show "case cm_after (sr_commands (serializer_execute semaphore s) ! i) of
        None \<Rightarrow> cm_state (sr_commands (serializer_execute semaphore s) ! i) \<noteq> CommandWaiting
      | Some p \<Rightarrow> p < i \<and> (cm_state (sr_commands (serializer_execute semaphore s) ! i) \<noteq> CommandWaiting \<longrightarrow>
          cm_state (sr_commands (serializer_execute semaphore s) ! p) = CommandSettled)"
    proof cases
      case 1
      with assms(2) show ?thesis by (auto simp: exec in_turn_def nth_append split: option.splits)
    next
      case 2
      with new_ok show ?thesis by (auto simp: exec nth_append split: option.splits)
    qed
  qed
qed

lemma set_command_nth:
  "i < length (sr_commands s) \<Longrightarrow>
   sr_commands (set_command i st s) ! j = (if j = i then (sr_commands s ! i) \<lparr> cm_state := st \<rparr> else sr_commands s ! j)"
  by (simp add: set_command_def)

lemma set_command_keys:
  assumes "i < length (sr_commands s)"
  shows "cm_key (sr_commands (set_command i st s) ! j) = cm_key (sr_commands s ! j)"
    and "cm_after (sr_commands (set_command i st s) ! j) = cm_after (sr_commands s ! j)"
    and "length (sr_commands (set_command i st s)) = length (sr_commands s)"
    and "sr_last (set_command i st s) = sr_last s"
    and "cm_state (sr_commands (set_command i st s) ! j) = (if j = i then st else cm_state (sr_commands s ! j))"
  using assms by (simp_all add: set_command_nth) (simp_all add: set_command_def)

lemma linked_set: "linked s \<Longrightarrow> i < length (sr_commands s) \<Longrightarrow> linked (set_command i st s)"
  unfolding linked_def
  by (simp add: set_command_keys last_before_cong [of _ "sr_commands (set_command i st s)" "sr_commands s"])

lemma in_turn_start:
  assumes "in_turn s" and "i < length (sr_commands s)" and "cm_state (sr_commands s ! i) = CommandWaiting"
    and "cm_after (sr_commands s ! i) = Some p" and "cm_state (sr_commands s ! p) = CommandSettled"
  shows "in_turn (set_command i CommandRunning s)"
  unfolding in_turn_def
proof (intro allI impI)
  fix j assume "j < length (sr_commands (set_command i CommandRunning s))"
  with assms show "case cm_after (sr_commands (set_command i CommandRunning s) ! j) of
      None \<Rightarrow> cm_state (sr_commands (set_command i CommandRunning s) ! j) \<noteq> CommandWaiting
    | Some q \<Rightarrow> q < j \<and> (cm_state (sr_commands (set_command i CommandRunning s) ! j) \<noteq> CommandWaiting \<longrightarrow>
        cm_state (sr_commands (set_command i CommandRunning s) ! q) = CommandSettled)"
    by (auto simp: set_command_keys in_turn_def split: option.splits)
qed

lemma in_turn_settle:
  assumes "in_turn s" and "i < length (sr_commands s)" and "cm_state (sr_commands s ! i) = CommandRunning"
  shows "in_turn (set_command i CommandSettled s)"
  unfolding in_turn_def
proof (intro allI impI)
  fix j assume "j < length (sr_commands (set_command i CommandSettled s))"
  with assms show "case cm_after (sr_commands (set_command i CommandSettled s) ! j) of
      None \<Rightarrow> cm_state (sr_commands (set_command i CommandSettled s) ! j) \<noteq> CommandWaiting
    | Some q \<Rightarrow> q < j \<and> (cm_state (sr_commands (set_command i CommandSettled s) ! j) \<noteq> CommandWaiting \<longrightarrow>
        cm_state (sr_commands (set_command i CommandSettled s) ! q) = CommandSettled)"
    by (auto simp: set_command_keys in_turn_def split: option.splits)
qed

lemma serial_reach_ok: "serial_reach s \<Longrightarrow> linked s \<and> in_turn s"
proof (induction rule: serial_reach.induct)
  case new
  show ?case by (simp add: linked_def in_turn_def serializer_new_def last_before_def)
next
  case (step s s')
  from step.hyps(2) show ?case
    by cases (use step.IH in \<open>auto intro: linked_execute in_turn_execute linked_set in_turn_start in_turn_settle\<close>)
qed

text \<open>Everything before a command that is not waiting is settled.\<close>

lemma earlier_settled:
  assumes "linked s" and "in_turn s" and "j < length (sr_commands s)" and "cm_state (sr_commands s ! j) \<noteq> CommandWaiting"
    and "i < j" and "cm_key (sr_commands s ! i) = cm_key (sr_commands s ! j)"
  shows "cm_state (sr_commands s ! i) = CommandSettled"
  using assms(3-6)
proof (induction j rule: less_induct)
  case (less j)
  have "last_before (sr_commands s) (cm_key (sr_commands s ! j)) j \<noteq> None"
    using less.prems by (auto simp: last_before_def)
  then obtain p where p: "last_before (sr_commands s) (cm_key (sr_commands s ! j)) j = Some p" by blast
  note before = last_before_Some [OF p]
  have "cm_after (sr_commands s ! j) = Some p" using assms(1) less.prems(1) p by (simp add: linked_def)
  then have settled: "cm_state (sr_commands s ! p) = CommandSettled"
    using assms(2) less.prems(1,2) by (fastforce simp: in_turn_def)
  show ?case
  proof (cases "i = p")
    case False
    have "i \<le> p" using before(3) less.prems(3,4) by blast
    with False have "i < p" by simp
    from less.IH [OF before(1) _ _ this] settled before less.prems show ?thesis by simp
  qed (use settled in simp)
qed

text \<open>C35
  In every reachable state of the serializer two commands for one key do not run together and run
  in the order of their calls: when a command has started, all earlier ones for its key are
  settled. And it never blocks: as long as some command is not settled, one can be started or one
  is running, whatever the keys and however the commands end.
\<close>

theorem commands_take_turns:
  assumes "serial_reach s" and "j < length (sr_commands s)"
  shows "(cm_state (sr_commands s ! j) \<noteq> CommandWaiting \<longrightarrow>
      (\<forall>i < j. cm_key (sr_commands s ! i) = cm_key (sr_commands s ! j) \<longrightarrow> cm_state (sr_commands s ! i) = CommandSettled)) \<and>
    (cm_state (sr_commands s ! j) \<noteq> CommandSettled \<longrightarrow>
      (\<exists>i \<le> j. cm_state (sr_commands s ! i) = CommandRunning \<or> serial_step s (set_command i CommandRunning s)))"
proof -
  from serial_reach_ok [OF assms(1)] have ok: "linked s" "in_turn s" by auto
  have "\<exists>i \<le> j. cm_state (sr_commands s ! i) = CommandRunning \<or> serial_step s (set_command i CommandRunning s)"
    if "cm_state (sr_commands s ! j) \<noteq> CommandSettled"
    using assms(2) that
  proof (induction j rule: less_induct)
    case (less j)
    show ?case
    proof (cases "cm_state (sr_commands s ! j)")
      case CommandWaiting
      then obtain p where p: "cm_after (sr_commands s ! j) = Some p" "p < j"
        using ok(2) less.prems(1) by (fastforce simp: in_turn_def split: option.splits)
      show ?thesis
      proof (cases "cm_state (sr_commands s ! p) = CommandSettled")
        case True
        from serial_step.start [OF less.prems(1) CommandWaiting p(1) True] show ?thesis by blast
      next
        case False
        with less.IH [OF p(2)] less.prems p(2) show ?thesis by (meson less_imp_le less_trans order_trans)
      qed
    qed (use less.prems in auto)
  qed
  with earlier_settled [OF ok assms(2)] show ?thesis by blast
qed

lemma commands_take_turns_witness:
  "\<exists>i \<le> 1. cm_state (sr_commands (serializer_execute ''a'' (serializer_execute ''a'' serializer_new)) ! i) = CommandRunning \<or>
     serial_step (serializer_execute ''a'' (serializer_execute ''a'' serializer_new))
       (set_command i CommandRunning (serializer_execute ''a'' (serializer_execute ''a'' serializer_new)))"
proof -
  let ?s = "serializer_execute ''a'' (serializer_execute ''a'' serializer_new)"
  have "serial_reach ?s" by (rule serial_reach.step [OF serial_reach.step [OF serial_reach.new serial_step.call] serial_step.call])
  moreover have "1 < length (sr_commands ?s)" and "cm_state (sr_commands ?s ! 1) = CommandWaiting"
    by (simp_all add: serializer_execute_def serializer_new_def Let_def)
  ultimately show ?thesis using commands_take_turns [of ?s 1] by simp
qed

section \<open>Shutting down\<close>

text \<open>A service may end, reject, or throw before it returns a promise.\<close>

datatype shutdown_end = ShutdownDone | ShutdownRejected error | ShutdownThrown error

record 'h shutdown_service =
  sv_serviceName :: string
  sv_shutdownPriority :: int
  sv_shutdown :: "'h \<Rightarrow> shutdown_end \<times> 'h"

record 'h shutdown_manager =
  sm_services :: "'h shutdown_service list"
  sm_shutdownCount :: nat

definition shutdown_manager_new :: "'h shutdown_manager" where
  "shutdown_manager_new = \<lparr> sm_services = [], sm_shutdownCount = 0 \<rparr>"

definition register_service :: "'h shutdown_service \<Rightarrow> 'h shutdown_manager \<Rightarrow> 'h shutdown_manager" where
  "register_service service m = m \<lparr> sm_services := sm_services m @ [service] \<rparr>"

fun shutdown_services :: "'h shutdown_service list \<Rightarrow> 'h \<Rightarrow> unit res \<times> 'h" where
  "shutdown_services [] h = (Inr (), h)"
| "shutdown_services (s # rest) h =
     (case sv_shutdown s h of
        (ShutdownThrown e, h') \<Rightarrow> (Inl e, h')
      | (_, h') \<Rightarrow> shutdown_services rest h')"

definition shutdownAll :: "'h shutdown_manager \<Rightarrow> 'h \<Rightarrow> unit res \<times> 'h shutdown_manager \<times> 'h" where
  "shutdownAll m h =
     (let m' = m \<lparr> sm_shutdownCount := sm_shutdownCount m + 1 \<rparr> in
      if sm_shutdownCount m' = 1 then
        (let (r, h') = shutdown_services (sort_key sv_shutdownPriority (sm_services m')) h in (r, m', h'))
      else (Inr (), m', h))"

definition throws :: "'h shutdown_service \<Rightarrow> bool" where
  "throws s \<longleftrightarrow> (\<exists>h e h'. sv_shutdown s h = (ShutdownThrown e, h'))"

lemma shutdown_services_all:
  "list_all (\<lambda>s. \<not> throws s) ss \<Longrightarrow> shutdown_services ss h = (Inr (), fold (\<lambda>s h. snd (sv_shutdown s h)) ss h)"
proof (induction ss arbitrary: h)
  case (Cons s ss)
  then have "fst (sv_shutdown s h) \<noteq> ShutdownThrown e" for e by (auto simp: throws_def) (metis prod.collapse)
  with Cons show ?case by (cases "sv_shutdown s h") (auto split: shutdown_end.split)
qed simp

text \<open>Every service is shut down once, in the order of the priorities, whatever fails; a second call does nothing.\<close>

lemma shutdown_in_order:
  assumes "sm_shutdownCount m = 0" and "list_all (\<lambda>s. \<not> throws s) (sm_services m)" and "shutdownAll m h = (r, m', h')"
  shows "\<exists>ss. mset ss = mset (sm_services m) \<and> sorted (map sv_shutdownPriority ss) \<and>
      r = Inr () \<and> h' = fold (\<lambda>s h. snd (sv_shutdown s h)) ss h"
    and "shutdownAll m' h'' = (Inr (), m' \<lparr> sm_shutdownCount := 2 \<rparr>, h'')"
proof -
  let ?ss = "sort_key sv_shutdownPriority (sm_services m)"
  have "list_all (\<lambda>s. \<not> throws s) ?ss" using assms(2) by (simp add: list_all_iff)
  from shutdown_services_all [OF this, of h] assms(1,3)
  have "r = Inr ()" "h' = fold (\<lambda>s h. snd (sv_shutdown s h)) ?ss h" "m' = m \<lparr> sm_shutdownCount := 1 \<rparr>"
    by (simp_all add: shutdownAll_def Let_def)
  then show "\<exists>ss. mset ss = mset (sm_services m) \<and> sorted (map sv_shutdownPriority ss) \<and>
      r = Inr () \<and> h' = fold (\<lambda>s h. snd (sv_shutdown s h)) ss h"
    and "shutdownAll m' h'' = (Inr (), m' \<lparr> sm_shutdownCount := 2 \<rparr>, h'')"
    by (auto intro!: exI [of _ ?ss] simp: shutdownAll_def Let_def)
qed

text \<open>A service that throws leaves all later ones running.\<close>

lemma thrown_ends_shutdown: "sv_shutdown s h = (ShutdownThrown e, h') \<Longrightarrow> shutdown_services (s # ss) h = (Inl e, h')"
  by simp

section \<open>Labels\<close>

record label = lb_label :: string

definition covers :: "label \<Rightarrow> label \<Rightarrow> bool" where
  "covers l other \<longleftrightarrow> prefix (lb_label l) (lb_label other)"

text \<open>The separator is the text of a regular expression, not the expression.\<close>

definition label_separator :: string where
  "label_separator = ''['' @ [CHR 0x5C] @ ''s,]+''"

definition extractLabels :: "string \<Rightarrow> label list" where
  "extractLabels labels = map (\<lambda>part. \<lparr> lb_label = trim part \<rparr>) (split label_separator labels)"

definition extractFirstLabel :: "string \<Rightarrow> label option" where
  "extractFirstLabel labels = Some (hd (extractLabels labels))"

definition coversAll :: "label list \<Rightarrow> label list \<Rightarrow> bool" where
  "coversAll requiredLabels availableLabels = list_all (\<lambda>required. List.find (\<lambda>available. covers available required) availableLabels \<noteq> None) requiredLabels"

lemma coversAll_iff: "coversAll rs as \<longleftrightarrow> (\<forall>r \<in> set rs. \<exists>a \<in> set as. covers a r)"
  by (auto simp: coversAll_def list_all_iff find_None_iff)

lemma labels_not_separated: "\<not> sublist label_separator s \<Longrightarrow> extractLabels s = [\<lparr> lb_label = trim s \<rparr>]"
proof -
  assume "\<not> sublist label_separator s"
  then have "split label_separator s = [s]"
  proof (induction s)
    case (Cons c s)
    then have "\<not> prefix label_separator (c # s)" "\<not> sublist label_separator s"
      by (auto simp: sublist_Cons_right)
    with Cons.IH show ?case by (simp add: split_step)
  qed simp
  then show ?thesis by (simp add: extractLabels_def)
qed

section \<open>The cache of contents\<close>

definition NOT_FOUND_VALUE :: string where
  "NOT_FOUND_VALUE = ''!!__<CONTENT_NOT_FOUND>!!__''"

text \<open>\<open>Some None\<close> is \<open>null\<close>: known not to exist; \<open>None\<close> is \<open>undefined\<close>: not known.\<close>

definition dataCache_get :: "'db redis \<Rightarrow> string \<Rightarrow> 'db \<Rightarrow> string option option" where
  "dataCache_get R key db =
     (let result = rd_get R key db in
      if result = Some NOT_FOUND_VALUE then Some None
      else if truthy result then Some result
      else None)"

definition dataCache_set :: "'db redis \<Rightarrow> string \<Rightarrow> string option \<Rightarrow> 'db \<Rightarrow> 'db" where
  "dataCache_set R key data db = rd_set R key (or_else data NOT_FOUND_VALUE) db"

context redis_server
begin

lemma dataCache_get_set:
  "dataCache_get R key (dataCache_set R key data db) =
     Some (if truthy data \<and> data \<noteq> Some NOT_FOUND_VALUE then data else None)"
proof -
  have "rd_get R key (dataCache_set R key data db) = Some (or_else data NOT_FOUND_VALUE)"
    by (intro get) (simp add: dataCache_set_def set)
  moreover have "NOT_FOUND_VALUE \<noteq> []" by (simp add: NOT_FOUND_VALUE_def)
  ultimately show ?thesis by (auto simp: dataCache_get_def Let_def or_else_def truthy_iff)
qed

text \<open>An empty file is found as a file that does not exist.\<close>

lemma empty_content_is_not_found: "dataCache_get R key (dataCache_set R key (Some []) db) = Some None"
  by (simp add: dataCache_get_set)

end

end
