(* ===== verification/Cynosure.thy ===== *)
theory Cynosure
  imports Gerrit_Access Job_Executor Redis_Memory
begin

text \<open>
  The build service: the requests of \<open>backend/src/cynosure/cynosure-api-connector\<close> and the executor
  of jobs around its rounds (\<open>cynosure-job-executor.ts\<close>). The service is a parameter as in
  \<open>Http_Requests\<close>; requests to it carry no authentication, which is written as two empty names.
  What happens while the program waits is a parameter too.
\<close>

section \<open>Requests\<close>

definition cynosure_request :: "string \<Rightarrow> json \<Rightarrow> http_request" where
  "cynosure_request url data = \<lparr> rq_url = url, rq_method = POST, rq_auth = ([], []), rq_data = Some data \<rparr>"

text \<open>An error in a template string.\<close>

fun access_error_text :: "access_error \<Rightarrow> string" where
  "access_error_text (HttpError a m) = error_toString (Error m)"
| "access_error_text (ErrorObject m) = error_toString (Error m)"
| "access_error_text (Rejected m) = m"

definition productUpdated :: string where
  "productUpdated = ''https://core.messagebus.cynosure.volvocars.biz/api/3.0.0/ProductUpdated''"

definition product_instance :: "string \<Rightarrow> string \<Rightarrow> json" where
  "product_instance productId sha = JObj [(''namespace'', JStr productId), (''instance'', JStr sha)]"

section \<open>The link to the log\<close>

definition setUrlRetryCount :: nat where
  "setUrlRetryCount = 20"

definition info_url_request :: "string \<Rightarrow> string \<Rightarrow> string \<Rightarrow> http_request" where
  "info_url_request productId sha url =
     cynosure_request productUpdated (JObj [(''productId'', product_instance productId sha), (''url'', JStr url)])"

function setInfoUrl_execute :: "'h service \<Rightarrow> ('h \<Rightarrow> 'h) \<Rightarrow> string \<Rightarrow> string \<Rightarrow> string \<Rightarrow> nat \<Rightarrow> ('h, unit) call" where
  "setInfoUrl_execute server wait productId sha url currentCount h =
     (if currentCount < setUrlRetryCount then
        (case http_execute server (info_url_request productId sha url) h of
           (Inr response, h') \<Rightarrow> (Inr (), h')
         | (Inl e, h') \<Rightarrow> setInfoUrl_execute server wait productId sha url (currentCount + 1) (wait h'))
      else
        (Inl (ErrorObject (''Product instance '' @ productId @ ''/'' @ ref_toString (ShaRef sha) @ '' was found in Cynosure in '' @
          show_nat setUrlRetryCount @ '' retries.'')), h))"
  by pat_completeness auto
termination
  by (relation "measure (\<lambda>(server, wait, p, s, u, n, h). setUrlRetryCount - n)") auto

declare setInfoUrl_execute.simps [simp del]

definition setInfoUrl :: "'h service \<Rightarrow> ('h \<Rightarrow> 'h) \<Rightarrow> string \<Rightarrow> string \<Rightarrow> string \<Rightarrow> ('h, unit) call" where
  "setInfoUrl server wait productId sha url = setInfoUrl_execute server wait productId sha url 1"

section \<open>Products\<close>

definition product_cache_key :: "string \<Rightarrow> string \<Rightarrow> string" where
  "product_cache_key i path = ''cynosure-product-id:'' @ i @ ''/'' @ path"

definition product_host :: "string \<Rightarrow> string option \<Rightarrow> string" where
  "product_host ssh cyn =
     (let host = or_else cyn ssh in if CHR '':'' \<notin> set host then host @ '':22'' else host)"

definition product_query :: "string \<Rightarrow> string \<Rightarrow> http_request" where
  "product_query host path =
     cynosure_request ''https://core.productdb.cynosure.volvocars.biz/api/2.0.0/product/query''
       (JObj [(''query'', JObj [(''access.uri'', JStr (''ssh://'' @ host @ ''/'' @ path))])])"

text \<open>
  The namespace of the first product; a product without one has no id. Only a list has a length
  and elements of its own here.
\<close>

definition first_namespace :: "http_body \<Rightarrow> string option res" where
  "first_namespace body =
     (case body of
        BodyJson (JArr (v # vs)) \<Rightarrow>
          res_bind (js_get (Some v) ''namespace'') (\<lambda>n. Inr (case n of Some (JStr s) \<Rightarrow> Some s | _ \<Rightarrow> None))
      | BodyJson JNull \<Rightarrow> Inl (Error ''Cannot read properties of null (reading length)'')
      | _ \<Rightarrow> Inr None)"

text \<open>The state is that of the service and of the key-value server.\<close>

definition query_product :: "'db redis \<Rightarrow> 'h service \<Rightarrow> string \<Rightarrow> string \<Rightarrow> string \<Rightarrow> ('h \<times> 'db, string option) call" where
  "query_product R server i host path s =
     (let failed = (\<lambda>e h. (Inl (ErrorObject (''Could not fetch product-id for '' @ i @ ''/'' @ path @ '': '' @ e)), (h, snd s))) in
      case http_execute server (product_query host path) (fst s) of
        (Inl e, h) \<Rightarrow> failed (access_error_text e) h
      | (Inr (status, body), h) \<Rightarrow>
          (case first_namespace body of
             Inl e \<Rightarrow> failed (error_toString e) h
           | Inr None \<Rightarrow> (Inr None, (h, snd s))
           | Inr (Some productId) \<Rightarrow> (Inr (Some productId), (h, rd_set R (product_cache_key i path) productId (snd s)))))"

fun findProductId :: "'db redis \<Rightarrow> 'h service \<Rightarrow> source_service \<Rightarrow> string \<Rightarrow> ('h \<times> 'db, string option) call" where
  "findProductId R server (GerritSourceService i ssh https cyn) path s =
     (let existing = rd_get R (product_cache_key i path) (snd s) in
      if truthy existing then (Inr existing, s)
      else if ssh \<noteq> [] then query_product R server i (product_host ssh cyn) path s
      else (Inl (ErrorObject (''The GerritSource '' @ i @ '' doesn't have a stream configuration. No produt id can be done.'')), s))"
| "findProductId R server (GitlabSourceService i https) path s = (Inr None, s)"

section \<open>Activities\<close>







datatype CynosureTagOp = ADD | REMOVE

definition tag_request :: "string \<Rightarrow> string \<Rightarrow> string \<Rightarrow> CynosureTagOp \<Rightarrow> http_request" where
  "tag_request productId sha tagValue tagOp =
     (let tags = JObj [(''tags'', JStr tagValue)];
          updateOps = (if tagOp = ADD then JObj [(''push'', tags)] else JObj [(''pull'', tags)])
      in cynosure_request productUpdated
           (JObj [(''productId'', product_instance productId sha), (''sender'', JObj [(''service'', JStr ''common-build'')]),
              (''_updateOps'', updateOps)]))"

text \<open>The code of an error without an answer is not part of its message here.\<close>

definition changeTag :: "'h service \<Rightarrow> string \<Rightarrow> string \<Rightarrow> string \<Rightarrow> CynosureTagOp \<Rightarrow> ('h, bool) call" where
  "changeTag server productId sha tagValue tagOp =
     call_catch
       (call_bind (http_execute server (tag_request productId sha tagValue tagOp)) (\<lambda>response. call_done True))
       (\<lambda>e. if error_status e = Some 404 then call_done False
            else call_fail (ErrorObject (''Could not start activity for product '' @ productId @ ''. Error '' @
              (case error_status e of Some s \<Rightarrow> show_int s | None \<Rightarrow> ''undefined''))))"

definition CYNOSURE_START_BUILD_TAG :: string where
  "CYNOSURE_START_BUILD_TAG = ''ready_to_build''"


definition unstartActivity :: "'h service \<Rightarrow> string \<Rightarrow> string \<Rightarrow> ('h, bool) call" where
  "unstartActivity server productId sha = changeTag server productId sha CYNOSURE_START_BUILD_TAG REMOVE"



section \<open>The connectors\<close>

fun is_gerrit :: "source_service \<Rightarrow> bool" where
  "is_gerrit (GerritSourceService i ssh https cyn) = True"
| "is_gerrit (GitlabSourceService i https) = False"

text \<open>A later service replaces an earlier one with its id.\<close>

definition createApiConnector :: "source_service list \<Rightarrow> string \<Rightarrow> source_service option" where
  "createApiConnector sources i = List.find (\<lambda>s. is_gerrit s \<and> ss_id s = i) (rev sources)"



section \<open>The executor\<close>

text \<open>Whether it is active, whether a listener is set, and the wait of the timer that is set.\<close>

record job_executor =
  ex_active :: bool
  ex_listener :: bool
  ex_timer :: "duration option"

definition job_executor_new :: job_executor where
  "job_executor_new = \<lparr> ex_active = True, ex_listener = False, ex_timer = None \<rparr>"

definition scheduleProcess :: "duration \<Rightarrow> job_executor \<Rightarrow> job_executor" where
  "scheduleProcess wait x = (if ex_active x then x \<lparr> ex_timer := Some wait \<rparr> else x)"

definition executor_setListener :: "job_executor \<Rightarrow> job_executor" where
  "executor_setListener x = scheduleProcess NO_DURATION (x \<lparr> ex_listener := True \<rparr>)"

definition executor_shutdown :: "job_executor \<Rightarrow> job_executor" where
  "executor_shutdown x = x \<lparr> ex_active := False, ex_timer := None \<rparr>"

text \<open>The timer has fired and the round has ended; \<open>result\<close> is what a round with a listener gives.\<close>

definition executor_round :: "bool res \<Rightarrow> job_executor \<Rightarrow> job_executor" where
  "executor_round result x =
     (let x1 = x \<lparr> ex_timer := None \<rparr> in
      if ex_listener x1 then (case next_poll result of Some d \<Rightarrow> scheduleProcess d x1 | None \<Rightarrow> x1)
      else scheduleProcess REPOLL_delayed (scheduleProcess REPOLL_delayed x1))"

text \<open>\<open>startJob\<close> and \<open>abortJob\<close> poll at once, whether the task could be put into the queue or not.\<close>

definition executor_startJob :: "'db redis \<Rightarrow> string \<Rightarrow> time \<Rightarrow> int \<Rightarrow> job_key \<Rightarrow> job_executor \<times> 'db \<Rightarrow> job_executor \<times> 'db" where
  "executor_startJob R q now stamp key s = (scheduleProcess NO_DURATION (fst s), startJob R q now stamp key (snd s))"

definition executor_abortJob :: "'db redis \<Rightarrow> string \<Rightarrow> time \<Rightarrow> int \<Rightarrow> job_key \<Rightarrow> job_executor \<times> 'db \<Rightarrow> job_executor \<times> 'db" where
  "executor_abortJob R q now stamp key s = (scheduleProcess NO_DURATION (fst s), abortJob R q now stamp key (snd s))"

text \<open>The result is the error that nobody handles.\<close>

definition executor_setInfoUrl ::
    "'db redis \<Rightarrow> 'h service \<Rightarrow> ('h \<Rightarrow> 'h) \<Rightarrow> source_service list \<Rightarrow> job_key \<Rightarrow> string \<Rightarrow> ('h \<times> 'db, unit) call" where
  "executor_setInfoUrl R server wait sources key url s =
     (case createApiConnector sources (src_id (jk_source key)) of
        None \<Rightarrow> (Inr (), s)
      | Some connector \<Rightarrow>
          (case findProductId R server connector (src_path (jk_source key)) s of
             (Inl e, s1) \<Rightarrow> (Inl e, s1)
           | (Inr productId, s1) \<Rightarrow>
               if truthy productId then
                 (let (r, h) = setInfoUrl server wait (the productId) (job_sha (jk_ref key)) url (fst s1) in (Inr (), (h, snd s1)))
               else (Inr (), s1)))"

section \<open>Attempts\<close>

definition accepted :: "http_answer \<Rightarrow> bool" where
  "accepted a \<longleftrightarrow> (case answer_status a of Some s \<Rightarrow> 200 \<le> s \<and> s < 300 | None \<Rightarrow> False)"

definition keeps_log :: "('h \<times> log) service \<Rightarrow> bool" where
  "keeps_log server \<longleftrightarrow> (\<forall>rq h log. \<exists>a h'. server rq (h, log) = (a, (h', log @ [(rq, a)])))"

lemma keeps_log_answer:
  assumes "keeps_log server"
  obtains a h' where "server rq (h, log) = (a, (h', log @ [(rq, a)]))"
  using assms unfolding keeps_log_def by blast

lemma http_execute_accepted:
  assumes "server rq h = (a, h')"
  shows "accepted a \<Longrightarrow> \<exists>x. http_execute server rq h = (Inr x, h')"
    and "\<not> accepted a \<Longrightarrow> \<exists>e. http_execute server rq h = (Inl e, h')"
  using assms by (cases a; simp add: http_execute_def accepted_def)+

lemma setInfoUrl_execute_attempts:
  assumes "keeps_log server" and "\<forall>h log. \<exists>h'. wait (h, log) = (h', log)"
    and "setInfoUrl_execute server wait p sha url n (h, log) = (r, (h', log'))"
  shows "\<exists>answers. log' = log @ map (Pair (info_url_request p sha url)) answers \<and>
    (case r of
       Inr u \<Rightarrow> length answers \<le> setUrlRetryCount - n \<and> answers \<noteq> [] \<and> accepted (last answers) \<and> (\<forall>a \<in> set (butlast answers). \<not> accepted a)
     | Inl e \<Rightarrow> length answers = setUrlRetryCount - n \<and> (\<forall>a \<in> set answers. \<not> accepted a))"
  using assms(3)
proof (induction "setUrlRetryCount - n" arbitrary: n h log)
  case 0
  then show ?case by (intro exI [of _ "[]"]) (auto simp: setInfoUrl_execute.simps [of _ _ _ _ _ n])
next
  case (Suc k)
  let ?rq = "info_url_request p sha url"
  have less: "n < setUrlRetryCount" using Suc.hyps(2) by simp
  obtain a h1 where a: "server ?rq (h, log) = (a, (h1, log @ [(?rq, a)]))" using keeps_log_answer [OF assms(1)] .
  show ?case
  proof (cases "accepted a")
    case True
    from http_execute_accepted(1) [of server ?rq, OF a this] less Suc.prems
    show ?thesis by (intro exI [of _ "[a]"]) (auto simp: setInfoUrl_execute.simps [of _ _ _ _ _ n] True)
  next
    case False
    obtain h2 where w: "wait (h1, log @ [(?rq, a)]) = (h2, log @ [(?rq, a)])" using assms(2) by blast
    from http_execute_accepted(2) [of server ?rq, OF a False] less Suc.prems w
    have "setInfoUrl_execute server wait p sha url (Suc n) (h2, log @ [(?rq, a)]) = (r, (h', log'))"
      by (auto simp: setInfoUrl_execute.simps [of _ _ _ _ _ n])
    moreover have "k = setUrlRetryCount - Suc n" using Suc.hyps(2) by simp
    ultimately obtain answers where rest: "log' = (log @ [(?rq, a)]) @ map (Pair ?rq) answers"
      "case r of
         Inr u \<Rightarrow> length answers \<le> setUrlRetryCount - Suc n \<and> answers \<noteq> [] \<and> accepted (last answers) \<and> (\<forall>a \<in> set (butlast answers). \<not> accepted a)
       | Inl e \<Rightarrow> length answers = setUrlRetryCount - Suc n \<and> (\<forall>a \<in> set answers. \<not> accepted a)"
      using Suc.hyps(1) by blast
    with False less show ?thesis
      by (intro exI [of _ "a # answers"]) (auto split: sum.splits)
  qed
qed

text \<open>
  Setting the link sends one and the same request again and again until it is accepted, at most 19
  times: it succeeds exactly when one of these was accepted, which is the last that is sent, and fails after the
  19th that was not.
\<close>

theorem info_url_attempts_are_bounded:
  assumes "keeps_log server" and "\<forall>h log. \<exists>h'. wait (h, log) = (h', log)"
    and "setInfoUrl server wait p sha url (h, log) = (r, (h', log'))"
  shows "\<exists>answers. log' = log @ map (Pair (info_url_request p sha url)) answers \<and>
    (case r of
       Inr u \<Rightarrow> length answers \<le> 19 \<and> answers \<noteq> [] \<and> accepted (last answers) \<and> (\<forall>a \<in> set (butlast answers). \<not> accepted a)
     | Inl e \<Rightarrow> length answers = 19 \<and> (\<forall>a \<in> set answers. \<not> accepted a))"
proof -
  have n: "setUrlRetryCount - 1 = 19" by (simp add: setUrlRetryCount_def)
  show ?thesis using setInfoUrl_execute_attempts [OF assms(1,2) assms(3)[unfolded setInfoUrl_def]] unfolding n .
qed

lemma info_url_attempts_are_bounded_witness:
  "\<exists>r h' answers. setInfoUrl (\<lambda>rq (h, log). (NoAnswer ''down'', (h, log @ [(rq, NoAnswer ''down'')]))) id ''p'' ''s'' ''u'' ((), []) =
      (r, (h', map (Pair (info_url_request ''p'' ''s'' ''u'')) answers)) \<and>
    (case r of
       Inr u \<Rightarrow> length answers \<le> 19 \<and> answers \<noteq> [] \<and> accepted (last answers) \<and> (\<forall>a \<in> set (butlast answers). \<not> accepted a)
     | Inl e \<Rightarrow> length answers = 19 \<and> (\<forall>a \<in> set answers. \<not> accepted a))"
proof -
  let ?server = "\<lambda>rq (h, log). (NoAnswer ''down'', (h, log @ [(rq, NoAnswer ''down'')]))"
  have s: "keeps_log ?server" by (simp add: keeps_log_def)
  obtain r h' log' where run: "setInfoUrl ?server id ''p'' ''s'' ''u'' ((), []) = (r, (h', log'))"
    using prod_cases3 by blast
  from info_url_attempts_are_bounded [OF s _ run] run show ?thesis by auto
qed

section \<open>Products are asked for once\<close>

context redis_server
begin

lemma product_id_is_kept:
  assumes "findProductId R server source path s = (Inr (Some p), s1)" and "p \<noteq> []"
  shows "findProductId R server' source path (h, snd s1) = (Inr (Some p), (h, snd s1))"
proof (cases source)
  case (GerritSourceService i ssh https cyn)
  have stored: "rd_get R k (rd_set R k p db) = Some p" for k db by (intro get) (simp add: set)
  have "rd_get R (product_cache_key i path) (snd s1) = Some p"
    using assms GerritSourceService stored
    by (auto simp: Let_def query_product_def split: if_splits prod.splits sum.splits option.splits)
  with GerritSourceService assms(2) show ?thesis by simp
qed (use assms in simp)

end

section \<open>What the answer means for a job\<close>





text \<open>What a job does besides writing to its log.\<close>

definition actions :: "effect list \<Rightarrow> effect list" where
  "actions es = filter (\<lambda>e. \<nexists>m. e = OnJobLog m) es"

lemma actions_append [simp]: "actions (xs @ ys) = actions xs @ actions ys"
  by (simp add: actions_def)

lemma actions_Cons [simp]: "actions (e # es) = (if \<exists>m. e = OnJobLog m then [] else [e]) @ actions es"
  by (simp add: actions_def)

lemma actions_Nil [simp]: "actions [] = []"
  by (simp add: actions_def)







section \<open>The life of the executor\<close>

text \<open>After the shutdown no timer is set any more.\<close>

lemma shutdown_stops_polling:
  assumes "\<not> ex_active x" and "ex_timer x = None"
  shows "scheduleProcess d x = x" and "\<not> ex_active (executor_round r x)" and "ex_timer (executor_round r x) = None"
    and "ex_timer (executor_setListener x) = None"
  using assms by (simp_all add: scheduleProcess_def executor_round_def executor_setListener_def Let_def split: option.split)

text \<open>A round that is rejected leaves the executor without a timer until the next job is started or aborted.\<close>

lemma rejected_round_stops_polling:
  "ex_listener x \<Longrightarrow> ex_timer (executor_round (Inl e) x) = None"
  by (simp add: executor_round_def next_poll_def Let_def)

lemma fulfilled_round_polls_again:
  "ex_active x \<Longrightarrow> ex_timer (executor_round (Inr again) x) \<noteq> None"
  by (cases again) (simp_all add: executor_round_def next_poll_def Let_def scheduleProcess_def)

end
