(* ===== verification/Artifacts.thy ===== *)
theory Artifacts
  imports Gerrit_Access Publisher
begin

text \<open>
  The storage of binaries: \<open>backend/src/artifact-storage/artifactory/artifactory.ts\<close> for artifacts
  and \<open>artifact-storage/docker\<close> for images. The service is a parameter as in \<open>Http_Requests\<close>; the
  header with the key of the program takes the place of the authentication of a request. The other
  headers are constants and left out. The content of a stream is the text that can be read from it.
\<close>

section \<open>Artifacts\<close>

record 'h artifactory =
  ay_host :: string
  ay_secrets :: "string \<Rightarrow> string res"
  ay_service :: "'h service"

definition createHeaders :: "(string \<Rightarrow> string res) \<Rightarrow> string \<Rightarrow> (string \<times> string) res" where
  "createHeaders secrets host =
     res_bind (secrets (''csp/common-build/artifactory-'' @ host)) (\<lambda>secret. Inr (''X-JFrog-Art-Api'', secret))"

definition keyed_request :: "'h artifactory \<Rightarrow> string \<Rightarrow> HttpMethod \<Rightarrow> json option \<Rightarrow> ('h, int \<times> http_body) call" where
  "keyed_request A url method data =
     call_bind (of_res (createHeaders (ay_secrets A) (ay_host A))) (\<lambda>headers.
       http_execute (ay_service A) \<lparr> rq_url = url, rq_method = method, rq_auth = headers, rq_data = data \<rparr>)"

definition query_line :: "nat \<Rightarrow> string \<Rightarrow> string" where
  "query_line indent s = [CHR 0x0A] @ replicate indent CHR '' '' @ s"

definition equals_clause :: "string \<Rightarrow> string \<Rightarrow> string" where
  "equals_clause k v = [CHR 0x22] @ k @ [CHR 0x22] @ '':{'' @ [CHR 0x22] @ ''$eq'' @ [CHR 0x22] @ '': '' @ [CHR 0x22] @ v @ [CHR 0x22] @ ''}''"

definition createQuery :: "string \<Rightarrow> string \<Rightarrow> string option \<Rightarrow> string" where
  "createQuery repository path name =
     ''items.find({'' @ query_line 12 (equals_clause ''repo'' repository @ '','') @ query_line 12 (equals_clause ''path'' path @ '','') @
     query_line 12 (if truthy name then equals_clause ''name'' (the name) @ '','' else []) @
     query_line 12 (equals_clause ''type'' ''folder'') @
     query_line 11 (''}).include('' @ [CHR 0x22] @ ''*'' @ [CHR 0x22] @ '', '' @ [CHR 0x22] @ ''property.*'' @ [CHR 0x22] @ '')'')"

text \<open>\<open>Object.keys\<close> of the properties is the order of the list; a key stands in it once.\<close>

definition property_text :: "string \<times> string \<Rightarrow> string" where
  "property_text kv = fst kv @ ''='' @ encodeURIComponent (snd kv)"

definition properties_url :: "'h artifactory \<Rightarrow> string \<Rightarrow> string \<Rightarrow> string \<Rightarrow> (string \<times> string) list \<Rightarrow> string" where
  "properties_url A repository path name properties =
     ''https://'' @ ay_host A @ ''/artifactory/api/storage/'' @ repository @ ''/'' @ path @ ''/'' @ name @
     ''?properties='' @ join '';'' (map property_text properties) @ ''&recursive=1''"

definition addArtifactProperties :: "'h artifactory \<Rightarrow> string \<Rightarrow> string \<Rightarrow> string \<Rightarrow> (string \<times> string) list \<Rightarrow> ('h, unit) call" where
  "addArtifactProperties A repository path name properties =
     (if properties \<noteq> [] then
        call_bind (keyed_request A (properties_url A repository path name properties) PUT None) (\<lambda>(status, body).
          if 200 \<le> status \<and> status < 300 then call_done ()
          else call_fail (ErrorObject (''Could not set properties to '' @ properties_url A repository path name properties @
            ''. Response: '' @ show_int status)))
      else call_done ())"

definition content_url :: "'h artifactory \<Rightarrow> string \<Rightarrow> string \<Rightarrow> string \<Rightarrow> string \<Rightarrow> string" where
  "content_url A repository path name fileName =
     ''https://'' @ ay_host A @ ''/artifactory/'' @ repository @ ''/'' @ path @ ''/'' @ name @ ''/'' @ fileName"

definition addArtifactContent :: "'h artifactory \<Rightarrow> string \<Rightarrow> string \<Rightarrow> string \<Rightarrow> string \<Rightarrow> string \<Rightarrow> ('h, unit) call" where
  "addArtifactContent A repository path name fileName text =
     call_bind (keyed_request A (content_url A repository path name fileName) PUT (Some (JStr text))) (\<lambda>(status, body).
       if 200 \<le> status \<and> status < 300 then call_done ()
       else call_fail (ErrorObject (''Could not publish to '' @ content_url A repository path name fileName @
         ''. Response: '' @ show_int status)))"

text \<open>
  The message about the status of the answer is never shown: the http library has rejected such an
  answer before.
\<close>

lemma keyed_request_status:
  "keyed_request A url method data h = (Inr (status, body), h') \<Longrightarrow> 200 \<le> status \<and> status < 300"
  by (auto simp: keyed_request_def call_bind_def http_execute_def split: sum.splits prod.splits http_answer.splits if_splits)

lemma content_outcome:
  "addArtifactContent A repository path name fileName text h =
     (case keyed_request A (content_url A repository path name fileName) PUT (Some (JStr text)) h of
        (Inl e, h') \<Rightarrow> (Inl e, h') | (Inr answer, h') \<Rightarrow> (Inr (), h'))"
proof (cases "keyed_request A (content_url A repository path name fileName) PUT (Some (JStr text)) h")
  case (Pair result h')
  show ?thesis
  proof (cases result)
    case (Inr answer)
    obtain status body where "answer = (status, body)" by force
    with Pair Inr keyed_request_status [of A "content_url A repository path name fileName"] show ?thesis
      by (simp add: addArtifactContent_def call_bind_def call_done_def)
  qed (use Pair in \<open>simp add: addArtifactContent_def call_bind_def\<close>)
qed

definition copy_artifact :: "'h artifactory \<Rightarrow> string \<Rightarrow> string \<Rightarrow> string \<Rightarrow> string \<Rightarrow> ('h, unit) call" where
  "copy_artifact A repository path source destination =
     (if length (split ''/'' path) > 1 \<and> source \<noteq> [] \<and> destination \<noteq> [] then
        (let from = repository @ ''/'' @ path @ ''/'' @ source; to = repository @ ''/'' @ path @ ''/'' @ destination in
         call_bind (keyed_request A (''https://'' @ ay_host A @ ''/artifactory/api/copy/'' @ from @ ''?to=/'' @ to) POST None)
           (\<lambda>response. call_done ()))
      else call_done ())"

text \<open>
  A property of an answer overwrites an earlier one with its key. Names and values of properties are
  text, as the types say; anything else is an error here.
\<close>

definition add_property :: "(string \<times> string) list \<Rightarrow> json \<Rightarrow> (string \<times> string) list res" where
  "add_property memo p =
     res_bind (get_string (Some p) ''key'') (\<lambda>k. res_bind (get_string (Some p) ''value'') (\<lambda>v. Inr (AList.update k v memo)))"

fun properties_of :: "(string \<times> string) list \<Rightarrow> json list \<Rightarrow> (string \<times> string) list res" where
  "properties_of memo [] = Inr memo"
| "properties_of memo (p # ps) = res_bind (add_property memo p) (\<lambda>m. properties_of m ps)"

definition list_or_empty :: "json option \<Rightarrow> json list res" where
  "list_or_empty v =
     (if \<not> js_truthy v then Inr [] else case v of Some (JArr vs) \<Rightarrow> Inr vs | _ \<Rightarrow> Inl (Error ''list expected''))"

definition convertInternalArtifact :: "json \<Rightarrow> artifact res" where
  "convertInternalArtifact a =
     res_bind (get_string (Some a) ''name'') (\<lambda>name.
     res_bind (js_get (Some a) ''properties'') (\<lambda>properties.
     res_bind (list_or_empty properties) (\<lambda>ps.
     res_bind (properties_of [] ps) (\<lambda>kvs.
       Inr \<lparr> art_version = name, art_properties = kvs \<rparr>))))"

definition answer_results :: "int \<times> http_body \<Rightarrow> json list res" where
  "answer_results response =
     (case snd response of
        BodyText s \<Rightarrow> Inr []
      | BodyJson v \<Rightarrow> res_bind (js_get (Some v) ''results'') list_or_empty)"

definition query_artifacts :: "'h artifactory \<Rightarrow> string \<Rightarrow> string \<Rightarrow> string option \<Rightarrow> ('h, json list) call" where
  "query_artifacts A repository path name =
     call_bind (keyed_request A (''https://'' @ ay_host A @ ''/artifactory/api/search/aql'') POST
         (Some (JStr (createQuery repository path name))))
       (\<lambda>response. of_res (answer_results response))"

definition getArtifact :: "'h artifactory \<Rightarrow> string \<Rightarrow> string \<Rightarrow> string \<Rightarrow> ('h, artifact option) call" where
  "getArtifact A repository path name =
     call_bind (query_artifacts A repository path (Some name)) (\<lambda>results.
       case results of
         [] \<Rightarrow> call_done None
       | first # rest \<Rightarrow>
           if js_truthy (Some first) then of_res (res_bind (convertInternalArtifact first) (\<lambda>a. Inr (Some a)))
           else call_done None)"

definition getArtifacts :: "'h artifactory \<Rightarrow> string \<Rightarrow> string \<Rightarrow> ('h, artifact list) call" where
  "getArtifacts A repository path =
     call_bind (query_artifacts A repository path None) (\<lambda>results. of_res (res_mapM convertInternalArtifact results))"

section \<open>Images\<close>

definition registry_url :: "docker_registry \<Rightarrow> string \<Rightarrow> string \<Rightarrow> string" where
  "registry_url c repository rest =
     ''https://'' @ dr_artifactoryHost c @ ''/artifactory/api/docker/'' @ dr_registryRepository c @ ''/v2/'' @ repository @ rest"

definition registry_access :: "(string \<Rightarrow> string res) \<Rightarrow> 'h service \<Rightarrow> docker_registry \<Rightarrow> 'h artifactory" where
  "registry_access secrets server c = \<lparr> ay_host = dr_artifactoryHost c, ay_secrets = secrets, ay_service = server \<rparr>"

definition docker_getTags :: "(string \<Rightarrow> string res) \<Rightarrow> 'h service \<Rightarrow> docker_registry \<Rightarrow> string \<Rightarrow> ('h, json list) call" where
  "docker_getTags secrets server c repository =
     call_bind (keyed_request (registry_access secrets server c) (registry_url c repository ''/tags/list'') GET None) (\<lambda>(status, body).
       if status = 200 then
         of_res (case body of
             BodyText s \<Rightarrow> Inr []
           | BodyJson v \<Rightarrow> res_bind (js_get (Some v) ''tags'') list_or_empty)
       else call_fail (ErrorObject (''Could not find docker tags for '' @ repository @ '' in '' @ dr_registryRepository c @
         ''. Status:'' @ show_int status)))"

text \<open>
  The upload of the manifest is sent, and nobody waits for its end: the copy is done when it is
  sent. The second part is the error of the upload, which nobody handles.
\<close>

definition docker_upload :: "'h service \<Rightarrow> docker_registry \<Rightarrow> string \<times> string \<Rightarrow> string \<Rightarrow> string \<Rightarrow> json \<Rightarrow> ('h, unit) call" where
  "docker_upload server c headers repository destination manifest =
     call_bind (http_execute server
         \<lparr> rq_url = registry_url c repository (''/manifests/'' @ destination), rq_method = PUT, rq_auth = headers, rq_data = Some manifest \<rparr>)
       (\<lambda>(status, body).
         if status = 201 then call_done ()
         else call_fail (ErrorObject (''Could not upload docker-manifest for '' @ destination @ ''@'' @ repository)))"

definition body_json :: "http_body \<Rightarrow> json" where
  "body_json body = (case body of BodyText s \<Rightarrow> JStr s | BodyJson v \<Rightarrow> v)"

definition docker_copy ::
    "(string \<Rightarrow> string res) \<Rightarrow> 'h service \<Rightarrow> docker_registry \<Rightarrow> string \<Rightarrow> string \<Rightarrow> string \<Rightarrow> ('h, access_error option) call" where
  "docker_copy secrets server c repository source destination =
     call_bind (of_res (createHeaders secrets (dr_artifactoryHost c))) (\<lambda>headers.
     call_bind (http_execute server
         \<lparr> rq_url = registry_url c repository (''/manifests/'' @ source), rq_method = GET, rq_auth = headers, rq_data = None \<rparr>)
       (\<lambda>(status, body).
         if status = 200 then
           (\<lambda>h. case docker_upload server c headers repository destination (body_json body) h of
              (Inl e, h') \<Rightarrow> (Inr (Some e), h')
            | (Inr u, h') \<Rightarrow> (Inr None, h'))
         else call_fail (ErrorObject (''Could not find docker-manifest for '' @ source @ ''@'' @ repository @ '' in '' @
           dr_registryRepository c @ ''. Status:'' @ show_int status))))"

section \<open>Properties of artifacts\<close>

definition property_key_ok :: "string \<Rightarrow> bool" where
  "property_key_ok k \<longleftrightarrow> list_all (\<lambda>c. c \<notin> set '';=&'') k"

text \<open>What the service reads: the pieces between semicolons, up to the first equals sign and after it.\<close>

definition read_property :: "string \<Rightarrow> string \<times> string" where
  "read_property s = (takeWhile (\<lambda>c. c \<noteq> CHR ''='') s, decodeURIComponent (drop 1 (dropWhile (\<lambda>c. c \<noteq> CHR ''='') s)))"

definition query_part :: "string \<Rightarrow> string" where
  "query_part s = takeWhile (\<lambda>c. c \<noteq> CHR ''&'') s"

lemma encoded_safe: "CHR '';'' \<notin> set (encodeURIComponent s)" "CHR ''&'' \<notin> set (encodeURIComponent s)"
  using encoded_chars [of "CHR '';''" s] encoded_chars [of "CHR ''&''" s] by (auto simp: unreserved_def)

lemma read_property_text: "property_key_ok k \<Longrightarrow> read_property (property_text (k, v)) = (k, v)"
proof -
  assume "property_key_ok k"
  then have "\<forall>c \<in> set k. c \<noteq> CHR ''=''" by (auto simp: property_key_ok_def list_all_iff)
  then show ?thesis by (simp add: read_property_def property_text_def takeWhile_append dropWhile_append)
qed

lemma property_text_safe: "property_key_ok (fst kv) \<Longrightarrow> CHR '';'' \<notin> set (property_text kv) \<and> CHR ''&'' \<notin> set (property_text kv)"
  using encoded_safe by (auto simp: property_text_def property_key_ok_def list_all_iff)

lemma split_properties:
  "list_all (\<lambda>kv. property_key_ok (fst kv)) kvs \<Longrightarrow> kvs \<noteq> [] \<Longrightarrow> split '';'' (join '';'' (map property_text kvs)) = map property_text kvs"
  using property_text_safe by (intro split_join) (auto simp: list_all_iff intro: delim_safe_notin)

lemma joined_safe:
  "list_all (\<lambda>kv. property_key_ok (fst kv)) kvs \<Longrightarrow> CHR ''&'' \<notin> set (join '';'' (map property_text kvs))"
proof (induction kvs rule: induct_list012)
  case (2 kv)
  then show ?case using property_text_safe [of kv] by simp
next
  case (3 kv kv' kvs)
  then show ?case using property_text_safe [of kv] by simp
qed simp

text \<open>
  The service reads from the address of the one request that adds properties exactly the properties that were given,
  whatever characters the values have, as long as no key has a semicolon, an equals sign or an ampersand.
\<close>

theorem properties_are_read_back:
  assumes "list_all (\<lambda>kv. property_key_ok (fst kv)) kvs" and "kvs \<noteq> []"
  shows "\<exists>before after. properties_url A repository path name kvs = before @ ''?properties='' @ after \<and>
    map read_property (split '';'' (query_part after)) = kvs"
proof -
  let ?after = "join '';'' (map property_text kvs) @ ''&recursive=1''"
  have "query_part ?after = join '';'' (map property_text kvs)"
    using joined_safe [OF assms(1)] by (auto simp: query_part_def takeWhile_append)
  moreover have "map (read_property \<circ> property_text) kvs = kvs"
    using assms(1) by (intro map_idI) (auto simp: list_all_iff comp_def read_property_text)
  ultimately have "map read_property (split '';'' (query_part ?after)) = kvs"
    by (simp add: split_properties [OF assms])
  then show ?thesis unfolding properties_url_def append_assoc [symmetric] by (metis append_assoc)
qed

lemma properties_are_read_back_witness:
  "\<exists>before after. properties_url \<lparr> ay_host = ''h'', ay_secrets = (\<lambda>_. Inr ''k''), ay_service = (\<lambda>rq s. (NoAnswer ''m'', s)) \<rparr>
      ''r'' ''p'' ''n'' [(''id'', ''g/a;b=c&d'')] = before @ ''?properties='' @ after \<and>
    map read_property (split '';'' (query_part after)) = [(''id'', ''g/a;b=c&d'')]"
  by (rule properties_are_read_back) (simp_all add: property_key_ok_def)

section \<open>Copies that nobody waits for\<close>

text \<open>
  The copy of an image is reported as done as soon as its manifest was read with status 200: what
  the registry answers to the upload under the new name, or whether it answers at all, does not
  change the report.
\<close>

theorem image_copy_ignores_upload:
  assumes "secrets (''csp/common-build/artifactory-'' @ dr_artifactoryHost c) = Inr key"
    and "server \<lparr> rq_url = registry_url c repository (''/manifests/'' @ source), rq_method = GET,
      rq_auth = (''X-JFrog-Art-Api'', key), rq_data = None \<rparr> h = (Answer 200 body, h1)"
    and "server \<lparr> rq_url = registry_url c repository (''/manifests/'' @ destination), rq_method = PUT,
      rq_auth = (''X-JFrog-Art-Api'', key), rq_data = Some (body_json body) \<rparr> h1 = (upload, h2)"
  shows "\<exists>unhandled. docker_copy secrets server c repository source destination h = (Inr unhandled, h2) \<and>
    (unhandled = None \<longleftrightarrow> answer_status upload = Some 201)"
  using assms
  by (cases upload)
    (auto simp: docker_copy_def docker_upload_def createHeaders_def http_execute_def call_bind_def call_done_def call_fail_def)

lemma image_copy_ignores_upload_witness:
  "\<exists>unhandled. docker_copy (\<lambda>_. Inr ''k'') (\<lambda>rq h. (if rq_method rq = GET then Answer 200 (BodyText ''m'') else Answer 500 (BodyText []), h))
      \<lparr> dr_host = ''d'', dr_artifactoryHost = ''a'', dr_registryRepository = ''r'' \<rparr> ''image'' ''sha'' ''1.0'' () = (Inr unhandled, ()) \<and>
    unhandled \<noteq> None"
  using image_copy_ignores_upload [of "\<lambda>_. Inr ''k''" "\<lparr> dr_host = ''d'', dr_artifactoryHost = ''a'', dr_registryRepository = ''r'' \<rparr>" "''k''"
    "\<lambda>rq h. (if rq_method rq = GET then Answer 200 (BodyText ''m'') else Answer 500 (BodyText []), h)"
    "''image''" "''sha''" "()" "BodyText ''m''" "()" "''1.0''" "Answer 500 (BodyText [])" "()"]
  by auto

text \<open>An artifact whose path is a single name is not copied, and this is reported as done.\<close>

lemma short_path_is_not_copied: "CHR ''/'' \<notin> set path \<Longrightarrow> copy_artifact A repository path source destination h = (Inr (), h)"
  by (simp add: copy_artifact_def split_last call_done_def)

end
