(* ===== verification/Build_Log.thy ===== *)
theory Build_Log
  imports Build_Events Event_Stream Redis_Memory
begin

text \<open>
  The log of a build, \<open>backend/src/buildlog/buildlog-impl.ts\<close>: entries are pushed to a list of the
  key-value server, and links are fields of a hash. Reading all fields of a hash is one more command
  of the server (\<open>hgetall\<close>). The printed time of an entry comes from the clock; expiry is left out.
\<close>

section \<open>Entries\<close>

record log_entry =
  le_message :: string
  le_level :: log_level
  le_timestamp :: string

record build_log =
  bl_entries :: "log_entry list"
  bl_metaUrls :: "(string \<times> string) list"

fun level_text :: "log_level \<Rightarrow> string" where
  "level_text LogDebug = ''debug''"
| "level_text LogInfo = ''info''"
| "level_text LogWarning = ''warning''"
| "level_text LogError = ''error''"

text \<open>Only what is written is read: entries with other levels or without a field are errors here.\<close>

definition text_level :: "string \<Rightarrow> log_level res" where
  "text_level s =
     (if s = ''debug'' then Inr LogDebug else if s = ''info'' then Inr LogInfo
      else if s = ''warning'' then Inr LogWarning else if s = ''error'' then Inr LogError
      else Inl (Error ''level expected''))"

definition entry_json :: "log_entry \<Rightarrow> json" where
  "entry_json e =
     JObj [(''message'', JStr (le_message e)), (''level'', JStr (level_text (le_level e))), (''timestamp'', JStr (le_timestamp e))]"

definition json_entry :: "json \<Rightarrow> log_entry res" where
  "json_entry v =
     res_bind (get_string (Some v) ''message'') (\<lambda>m.
     res_bind (get_string (Some v) ''level'') (\<lambda>l.
     res_bind (text_level l) (\<lambda>level.
     res_bind (get_string (Some v) ''timestamp'') (\<lambda>t.
       Inr \<lparr> le_message = m, le_level = level, le_timestamp = t \<rparr>))))"

definition entry_toInstance :: "string \<Rightarrow> log_entry res" where
  "entry_toInstance s = (case json_parse s of None \<Rightarrow> Inl (Error ''SyntaxError'') | Some v \<Rightarrow> json_entry v)"

section \<open>The service\<close>

definition createEntryKey :: "source \<Rightarrow> string \<Rightarrow> string" where
  "createEntryKey s logId = ''build-log-entries:'' @ source_asString s @ '':'' @ logId"

definition createMetaKey :: "source \<Rightarrow> string \<Rightarrow> string" where
  "createMetaKey s logId = ''build-log-meta'' @ source_asString s @ '':'' @ logId"

definition log_get :: "'db redis \<Rightarrow> (string \<Rightarrow> 'db \<Rightarrow> (string \<times> string) list) \<Rightarrow> source \<Rightarrow> string \<Rightarrow> 'db \<Rightarrow> build_log res" where
  "log_get R hgetall s logId db =
     res_bind (res_mapM entry_toInstance (rd_lrange R (createEntryKey s logId) db)) (\<lambda>entries.
       Inr \<lparr> bl_entries = rev entries, bl_metaUrls = hgetall (createMetaKey s logId) db \<rparr>)"

definition log_addMetaUrl :: "'db redis \<Rightarrow> string \<Rightarrow> string \<Rightarrow> source \<Rightarrow> string \<Rightarrow> 'db \<Rightarrow> 'db" where
  "log_addMetaUrl R name url s logId db = rd_hset R (createMetaKey s logId) [(name, url)] db"

definition log_add :: "'db redis \<Rightarrow> string \<Rightarrow> string \<Rightarrow> log_level \<Rightarrow> source \<Rightarrow> string \<Rightarrow> 'db \<Rightarrow> 'db" where
  "log_add R timestamp message level s logId db =
     rd_rpush R (createEntryKey s logId)
       (stringify2 (entry_json \<lparr> le_message = message, le_level = level, le_timestamp = timestamp \<rparr>)) db"

section \<open>What a log shows\<close>

lemma text_level_text [simp]: "text_level (level_text l) = Inr l"
  by (cases l) (simp_all add: text_level_def)

lemma entry_roundtrip [simp]: "entry_toInstance (stringify2 (entry_json e)) = Inr e"
proof -
  have "json_ok (entry_json e)" by (simp add: entry_json_def)
  then have "entry_toInstance (stringify2 (entry_json e)) = json_entry (entry_json e)" by (simp add: entry_toInstance_def)
  also have "\<dots> = Inr e" by (simp add: json_entry_def entry_json_def get_string_def js_get_def)
  finally show ?thesis .
qed

text \<open>What is written to logs: messages and links.\<close>

datatype log_write = AddEntry source string log_entry | AddMetaUrl source string string string

fun run_write :: "'db redis \<Rightarrow> log_write \<Rightarrow> 'db \<Rightarrow> 'db" where
  "run_write R (AddEntry s logId e) db = log_add R (le_timestamp e) (le_message e) (le_level e) s logId db"
| "run_write R (AddMetaUrl s logId name url) db = log_addMetaUrl R name url s logId db"

text \<open>What a write adds to the log of a repository with an id.\<close>

fun message_for :: "source \<Rightarrow> string \<Rightarrow> log_write \<Rightarrow> log_entry option" where
  "message_for s logId (AddEntry t i e) = (if t = s \<and> i = logId then Some e else None)"
| "message_for s logId (AddMetaUrl t i name url) = None"

text \<open>What it adds to the list of a key. Logs are told apart by their keys: see below.\<close>

fun entry_for :: "string \<Rightarrow> log_write \<Rightarrow> log_entry option" where
  "entry_for key (AddEntry s logId e) = (if createEntryKey s logId = key then Some e else None)"
| "entry_for key (AddMetaUrl s logId name url) = None"

lemma entry_key_not_meta: "createEntryKey s i \<noteq> createMetaKey t j"
  by (simp add: createEntryKey_def createMetaKey_def)

text \<open>
  The keys of logs are different when no id of a source service has a slash and no path of a repository a colon;
  with a colon in a path two logs can be one.
\<close>

definition log_source :: "source \<Rightarrow> bool" where
  "log_source s \<longleftrightarrow> CHR ''/'' \<notin> set (src_id s) \<and> CHR '':'' \<notin> set (src_path s)"

fun write_source :: "log_write \<Rightarrow> source" where
  "write_source (AddEntry s i e) = s"
| "write_source (AddMetaUrl s i name url) = s"

lemma createEntryKey_inject:
  assumes "log_source s" and "log_source t"
  shows "createEntryKey s i = createEntryKey t j \<longleftrightarrow> s = t \<and> i = j"
proof -
  have "createEntryKey s i = createEntryKey t j \<longleftrightarrow>
      src_id s @ CHR ''/'' # (src_path s @ CHR '':'' # i) = src_id t @ CHR ''/'' # (src_path t @ CHR '':'' # j)"
    by (simp add: createEntryKey_def source_asString_def)
  also have "\<dots> \<longleftrightarrow> src_id s = src_id t \<and> src_path s = src_path t \<and> i = j"
    using assms by (simp add: log_source_def first_part_inj)
  finally show ?thesis by auto
qed

lemma logs_with_colons_can_meet:
  "createEntryKey \<lparr> src_id = ''g'', src_path = ''p'' \<rparr> ''q:l'' = createEntryKey \<lparr> src_id = ''g'', src_path = ''p:q'' \<rparr> ''l''"
  by (simp add: createEntryKey_def source_asString_def)

lemma messages_by_key:
  assumes "log_source s" and "list_all (\<lambda>w. log_source (write_source w)) ws"
  shows "List.map_filter (entry_for (createEntryKey s i)) ws = List.map_filter (message_for s i) ws"
  using assms(2)
proof (induction ws)
  case (Cons w ws)
  with assms(1) have "entry_for (createEntryKey s i) w = message_for s i w"
    by (cases w) (auto simp: createEntryKey_inject)
  with Cons show ?case by (simp add: List.map_filter_simps split: option.split)
qed (simp add: List.map_filter_simps)

definition log_list :: "log_entry list \<Rightarrow> string list" where
  "log_list es = map (\<lambda>e. stringify2 (entry_json e)) es"

text \<open>Every key of a log holds a list of entries or a hash.\<close>

definition logs_ok :: "('db \<Rightarrow> string \<Rightarrow> rvalue option) \<Rightarrow> 'db \<Rightarrow> bool" where
  "logs_ok view db \<longleftrightarrow>
     (\<forall>s i. (\<exists>es. as_list (view db (createEntryKey s i)) = Some (log_list es)) \<and> as_hash (view db (createMetaKey s i)) \<noteq> None)"

context redis_server
begin

lemma run_write_step:
  assumes "logs_ok view db" and "as_list (view db (createEntryKey s i)) = Some (log_list es)"
  shows "logs_ok view (run_write R w db)"
    and "as_list (view (run_write R w db) (createEntryKey s i)) =
      Some (log_list (es @ (case entry_for (createEntryKey s i) w of Some e \<Rightarrow> [e] | None \<Rightarrow> [])))"
proof (atomize (full), cases w)
  case (AddEntry t j e)
  from assms(1) obtain fs where fs: "as_list (view db (createEntryKey t j)) = Some (log_list fs)" unfolding logs_ok_def by blast
  have e: "entry_json \<lparr> le_message = le_message e, le_level = le_level e, le_timestamp = le_timestamp e \<rparr> = entry_json e"
    by (simp add: entry_json_def)
  have new: "view (run_write R w db) = (view db)(createEntryKey t j := Some (RList (log_list (fs @ [e]))))"
    using rpush [OF fs] by (simp add: AddEntry log_add_def log_list_def e)
  have "logs_ok view (run_write R w db)"
    unfolding logs_ok_def
  proof (intro allI conjI)
    fix s' i'
    show "\<exists>es. as_list (view (run_write R w db) (createEntryKey s' i')) = Some (log_list es)"
      using assms(1) by (cases "createEntryKey s' i' = createEntryKey t j") (auto simp: new logs_ok_def)
    show "as_hash (view (run_write R w db) (createMetaKey s' i')) \<noteq> None"
      using assms(1) entry_key_not_meta [of t j s' i'] by (auto simp: new logs_ok_def)
  qed
  moreover have "as_list (view (run_write R w db) (createEntryKey s i)) =
      Some (log_list (es @ (if createEntryKey t j = createEntryKey s i then [e] else [])))"
    using assms(2) fs by (cases "createEntryKey s i = createEntryKey t j") (auto simp: new log_list_def)
  ultimately show "logs_ok view (run_write R w db) \<and> as_list (view (run_write R w db) (createEntryKey s i)) =
      Some (log_list (es @ (case entry_for (createEntryKey s i) w of Some e \<Rightarrow> [e] | None \<Rightarrow> [])))"
    by (simp add: AddEntry)
next
  case (AddMetaUrl t j n u)
  from assms(1) obtain h where h: "as_hash (view db (createMetaKey t j)) = Some h" unfolding logs_ok_def by auto
  have new: "view (run_write R w db) = (view db)(createMetaKey t j := put_hash (h ++ map_of (rev [(n, u)])))"
    using hset [OF h] by (simp add: AddMetaUrl log_addMetaUrl_def)
  have other: "createEntryKey s' i' \<noteq> createMetaKey t j" for s' i' by (rule entry_key_not_meta)
  have "as_hash (view (run_write R w db) (createMetaKey s' i')) \<noteq> None" for s' i'
    using assms(1) by (cases "createMetaKey s' i' = createMetaKey t j") (auto simp: new logs_ok_def)
  with assms(1) other have "logs_ok view (run_write R w db)" by (simp add: logs_ok_def new)
  moreover have "as_list (view (run_write R w db) (createEntryKey s i)) = Some (log_list es)"
    using assms(2) other by (simp add: new)
  ultimately show "logs_ok view (run_write R w db) \<and> as_list (view (run_write R w db) (createEntryKey s i)) =
      Some (log_list (es @ (case entry_for (createEntryKey s i) w of Some e \<Rightarrow> [e] | None \<Rightarrow> [])))"
    by (simp add: AddMetaUrl)
qed

lemma run_writes:
  assumes "logs_ok view db" and "as_list (view db (createEntryKey s i)) = Some (log_list es)"
  shows "as_list (view (fold (run_write R) ws db) (createEntryKey s i)) =
      Some (log_list (es @ List.map_filter (entry_for (createEntryKey s i)) ws))"
  using assms
proof (induction ws arbitrary: db es)
  case Nil
  then show ?case by (simp add: List.map_filter_simps)
next
  case (Cons w ws)
  from Cons.IH [OF run_write_step [OF Cons.prems]] show ?case by (simp add: List.map_filter_simps split: option.split)
qed

lemma log_get_list:
  assumes "as_list (view db (createEntryKey s i)) = Some (log_list es)"
  shows "log_get R hgetall s i db = Inr \<lparr> bl_entries = rev es, bl_metaUrls = hgetall (createMetaKey s i) db \<rparr>"
proof -
  have "res_mapM entry_toInstance (log_list es) = Inr es"
    by (induction es) (simp_all add: log_list_def)
  then show ?thesis by (simp add: log_get_def lrange [OF assms])
qed

lemma log_shows_what_was_written:
  assumes "logs_ok view db" and "as_list (view db (createEntryKey s i)) = Some (log_list es)"
  shows "log_get R hgetall s i (fold (run_write R) ws db) =
    Inr \<lparr> bl_entries = rev (List.map_filter (entry_for (createEntryKey s i)) ws) @ rev es,
          bl_metaUrls = hgetall (createMetaKey s i) (fold (run_write R) ws db) \<rparr>"
  using log_get_list [OF run_writes [OF assms]] by simp

end

text \<open>C37
  A build log shows, the newest first, exactly the messages that were written for its repository under its id,
  with their levels and times, whatever is written for other repositories or ids and whatever links are set in
  between, and it never fails to be read: on any server that keeps the laws of its commands, when the ids of the
  source services have no slash and the paths of the repositories no colon, so that no two logs share a key, and
  until the log expires, two weeks after its last message.
\<close>

theorem build_log_is_complete:
  assumes "redis_server R view" and "view db = Map.empty"
    and "log_source s" and "list_all (\<lambda>w. log_source (write_source w)) ws"
  shows "\<exists>urls. log_get R hgetall s i (fold (run_write R) ws db) =
    Inr \<lparr> bl_entries = rev (List.map_filter (message_for s i) ws), bl_metaUrls = urls \<rparr>"
  using redis_server.log_shows_what_was_written [OF assms(1), of db s i "[]" hgetall ws] assms(2)
    messages_by_key [OF assms(3,4), of i]
  by (simp add: logs_ok_def log_list_def)

lemma build_log_is_complete_witness:
  "\<exists>urls. log_get mem_redis (\<lambda>k db. []) \<lparr> src_id = ''g'', src_path = ''p'' \<rparr> ''l''
      (fold (run_write mem_redis)
        [AddEntry \<lparr> src_id = ''g'', src_path = ''p'' \<rparr> ''l'' \<lparr> le_message = ''a'', le_level = LogInfo, le_timestamp = ''1'' \<rparr>,
         AddEntry \<lparr> src_id = ''g'', src_path = ''p'' \<rparr> ''m'' \<lparr> le_message = ''b'', le_level = LogInfo, le_timestamp = ''2'' \<rparr>,
         AddEntry \<lparr> src_id = ''g'', src_path = ''p'' \<rparr> ''l'' \<lparr> le_message = ''c'', le_level = LogError, le_timestamp = ''3'' \<rparr>] []) =
    Inr \<lparr> bl_entries = [\<lparr> le_message = ''c'', le_level = LogError, le_timestamp = ''3'' \<rparr>,
        \<lparr> le_message = ''a'', le_level = LogInfo, le_timestamp = ''1'' \<rparr>], bl_metaUrls = urls \<rparr>"
proof -
  have empty: "mem_view [] = Map.empty" by (rule ext) (simp add: mem_view_def)
  show ?thesis
    using build_log_is_complete [OF memory.redis_server_axioms empty,
        of "\<lparr> src_id = ''g'', src_path = ''p'' \<rparr>"
          "[AddEntry \<lparr> src_id = ''g'', src_path = ''p'' \<rparr> ''l'' \<lparr> le_message = ''a'', le_level = LogInfo, le_timestamp = ''1'' \<rparr>,
         AddEntry \<lparr> src_id = ''g'', src_path = ''p'' \<rparr> ''m'' \<lparr> le_message = ''b'', le_level = LogInfo, le_timestamp = ''2'' \<rparr>,
         AddEntry \<lparr> src_id = ''g'', src_path = ''p'' \<rparr> ''l'' \<lparr> le_message = ''c'', le_level = LogError, le_timestamp = ''3'' \<rparr>]"
          "\<lambda>k db. []" "''l''"]
    by (simp add: List.map_filter_simps log_source_def)
qed

end
