(* ===== verification/Admin_Api.thy ===== *)
theory Admin_Api
  imports Build_Log Source_Cache Majors
begin

text \<open>
  The requests of the administration page: \<open>backend/src/router/admin\<close> and the classes of their bodies,
  \<open>backend/src/domain-model/api\<close>. The services behind a handler are records of their answers; a
  handler returns the calls it makes that change something, in order, and its reply. What a handler
  throws is caught by the server (\<open>backend/src/index.ts\<close>). How a body is sent, and how a request is
  parsed into its class, is the work of libraries.
\<close>

section \<open>Requests and replies\<close>

datatype api_request =
    ModelRequest source
  | BuildConfigRequest source
  | ReleaseRequest source int string
  | UnreleasedCommitsRequest source int
  | CreatePatchBranchRequest source int
  | ConfigRequest source
  | SaveConfigRequest source "repository_config option"
  | BuildLogRequest source string
  | MajorValuesRequest
  | MajorSerieAddValueRequest major_value
  | ConfigValuesRequest
  | ActiveRepositoriesRequest

record api_commit =
  ac_sha :: string
  ac_committer :: string
  ac_timestamp :: "int option"
  ac_message :: string

datatype api_body =
    MessageResponse string
  | ModelResponse root
  | BuildConfigResponse string string
  | ReleaseResponse root string
  | UnreleasedCommitsResponse "api_commit list"
  | CreatePatchBranchResponse root string
  | ConfigResponse repository_config
  | BuildLogResponse build_log
  | MajorSeriesResponse "serie list"
  | MajorSerieAddValueResponse "serie option" string
  | ConfigValuesResponse "serie list" "string list"
  | ActiveRepositoriesResponse "source list"
  | TextBody string
  | ErrorBody

record reply =
  rp_status :: int
  rp_message :: "string option"
  rp_body :: "api_body option"

definition ok_reply :: "api_body \<Rightarrow> reply" where
  "ok_reply b = \<lparr> rp_status = 200, rp_message = None, rp_body = Some b \<rparr>"

definition not_found :: "api_body \<Rightarrow> reply" where
  "not_found b = \<lparr> rp_status = 404, rp_message = None, rp_body = Some b \<rparr>"

definition bad_request :: "string \<Rightarrow> reply" where
  "bad_request m = \<lparr> rp_status = 400, rp_message = Some m, rp_body = None \<rparr>"

text \<open>
  The server catches what a handler throws and makes an object of it the body; with no status set
  before, a body means the status 200.
\<close>

definition uncaught_reply :: reply where
  "uncaught_reply = \<lparr> rp_status = 200, rp_message = None, rp_body = Some ErrorBody \<rparr>"

text \<open>The message of an error.\<close>

fun error_message :: "error \<Rightarrow> string" where
  "error_message (Error m) = m"

definition reply_of :: "reply res \<Rightarrow> reply" where
  "reply_of r = (case r of Inl e \<Rightarrow> uncaught_reply | Inr x \<Rightarrow> x)"

section \<open>Services\<close>

record update_access =
  ua_getUpdates :: "string \<Rightarrow> open_update list res"
  ua_updateUpdate :: "string \<Rightarrow> string \<Rightarrow> contents \<Rightarrow> unit res"
  ua_createUpdate :: "string \<Rightarrow> ref \<Rightarrow> string list \<Rightarrow> contents \<Rightarrow> string res"
  ua_createBranch :: "string \<Rightarrow> string \<Rightarrow> string \<Rightarrow> entity res"

text \<open>The model is read before the change and after it.\<close>

record api_services =
  av_model :: "source \<Rightarrow> root res"
  av_updatedModel :: "source \<Rightarrow> root res"
  av_connector :: "string \<Rightarrow> (string \<Rightarrow> string option res) option"
  av_release :: "source \<Rightarrow> entity \<Rightarrow> version_type \<Rightarrow> version res"
  av_getCommits :: "source \<Rightarrow> ref \<Rightarrow> ref option \<Rightarrow> int \<Rightarrow> git_commit list res"
  av_createAccess :: "string \<Rightarrow> update_access res"
  av_files :: file_access
  av_buildLog :: "source \<Rightarrow> string \<Rightarrow> build_log res"
  av_majors :: "serie list res"
  av_addValue :: "major_value \<Rightarrow> serie option res"
  av_systems :: "string list res"
  av_active :: "source list res"

datatype api_call =
    CallRelease source entity version_type
  | CallCreateBranch string string string string
  | CallSaveConfig source "repository_config option"
  | CallAddValue major_value
  | CallApplyMajors major_value "source list"
  | CallUpdateUpdate source string contents
  | CallCreateUpdate source ref "string list" contents

section \<open>Handlers for repositories\<close>

definition post_model :: "api_services \<Rightarrow> source \<Rightarrow> api_call list \<times> reply" where
  "post_model V s = ([], reply_of (res_bind (av_model V s) (\<lambda>model. Inr (ok_reply (ModelResponse model)))))"

definition post_build_config :: "api_services \<Rightarrow> source \<Rightarrow> api_call list \<times> reply" where
  "post_build_config V s =
     ([], case av_connector V (src_id s) of
        Some findProduct \<Rightarrow>
          reply_of (res_bind (findProduct (src_path s)) (\<lambda>productId. Inr
            (if truthy productId then
               ok_reply (BuildConfigResponse (''https://victoria.volvocars.biz/product/'' @ the productId) ''Cynosure'')
             else not_found (TextBody (''Could not find product in Cynosure for '' @ source_toString s)))))
      | None \<Rightarrow> not_found (TextBody (''Could not find Cynosure connector for source: '' @ src_id s)))"

definition release_branch :: "api_services \<Rightarrow> source \<Rightarrow> int \<Rightarrow> string \<Rightarrow> entity \<Rightarrow> api_call list \<times> reply" where
  "release_branch V s mj sha branch =
     (case branch_withSha branch sha of
        Inl e \<Rightarrow> ([], bad_request (error_message e))
      | Inr b \<Rightarrow>
          ([CallRelease s b MINOR],
           case res_bind (av_release V s b MINOR) (\<lambda>v. res_bind (av_updatedModel V s) (\<lambda>m. Inr (v, m))) of
             Inl e \<Rightarrow> bad_request (error_message e)
           | Inr (v, updatedModel) \<Rightarrow>
               ok_reply (ReleaseResponse updatedModel (''Version '' @ version_string v @ '' was released from '' @ sha @ ''.''))))"

definition post_release :: "api_services \<Rightarrow> source \<Rightarrow> int \<Rightarrow> string \<Rightarrow> api_call list \<times> reply" where
  "post_release V s mj sha =
     (case res_bind (av_model V s) (\<lambda>model. findBranch model mj None) of
        Inl e \<Rightarrow> ([], uncaught_reply)
      | Inr None \<Rightarrow> ([], bad_request (''Could not find expected branch to release next version of Major '' @ show_int mj @ ''.''))
      | Inr (Some branch) \<Rightarrow> release_branch V s mj sha branch)"

definition api_commit_of :: "git_commit \<Rightarrow> api_commit" where
  "api_commit_of c = \<lparr> ac_sha = gc_sha c, ac_committer = gc_commiter c, ac_timestamp = gc_timestamp c, ac_message = gc_message c \<rparr>"

text \<open>The promise of the commits is returned and not awaited, so that its failure is not caught.\<close>

definition unreleased_reply :: "api_services \<Rightarrow> source \<Rightarrow> int \<Rightarrow> root \<Rightarrow> reply" where
  "unreleased_reply V s mj model =
     (let fromVersion = highestVersion model (Some mj) in
      case findBranch model mj None of
        Inl e \<Rightarrow> bad_request (error_message e)
      | Inr None \<Rightarrow> bad_request (''Could not find branch for Major '' @ show_int mj @ ''.'')
      | Inr (Some toBranch) \<Rightarrow>
          reply_of (res_bind
            (av_getCommits V s (ShaRef (e_sha toBranch)) (map_option (\<lambda>v. TagRef (''v'' @ version_string v)) fromVersion) 100)
            (\<lambda>commits. Inr (ok_reply (UnreleasedCommitsResponse (map api_commit_of commits))))))"

definition post_unreleased_commits :: "api_services \<Rightarrow> source \<Rightarrow> int \<Rightarrow> api_call list \<times> reply" where
  "post_unreleased_commits V s mj =
     ([], case av_model V s of Inl e \<Rightarrow> uncaught_reply | Inr model \<Rightarrow> unreleased_reply V s mj model)"

text \<open>An error of reading the model again is reported like one of creating the branch.\<close>

definition create_patch_branch :: "api_services \<Rightarrow> source \<Rightarrow> string \<Rightarrow> string \<Rightarrow> api_call list \<times> (entity \<times> root) res" where
  "create_patch_branch V s start name =
     (case res_bind (av_createAccess V (src_id s)) (\<lambda>access. res_bind (sha_create start) (\<lambda>sha. Inr access)) of
        Inl e \<Rightarrow> ([], Inl e)
      | Inr access \<Rightarrow>
          ([CallCreateBranch (src_id s) (src_path s) start name],
           res_bind (ua_createBranch access (src_path s) start name) (\<lambda>created.
             res_bind (av_updatedModel V s) (\<lambda>model. Inr (created, model)))))"

definition patch_major :: "api_services \<Rightarrow> source \<Rightarrow> int \<Rightarrow> top_container \<Rightarrow> api_call list \<times> reply" where
  "patch_major V s mj nextMajor =
     (let name = ''patch-'' @ show_int mj in
      if truthy (top_start nextMajor) then
        (let (calls, result) = create_patch_branch V s (the (top_start nextMajor)) name in
         (calls, case result of
            Inl e \<Rightarrow> bad_request (''Could not create branch '' @ name @ ''. Probably already exists. Root cause: '' @ error_toString e)
          | Inr (created, updatedModel) \<Rightarrow>
              ok_reply (CreatePatchBranchResponse updatedModel
                (''Branch '' @ ref_name (e_ref created) @ '' was created from sha '' @ e_sha created @ ''.''))))
      else ([], bad_request (''The next major ('' @ show_int (top_major nextMajor) @ '') from major '' @ show_int mj @
        '' doesn't have a start location (major-'' @ show_int (top_major nextMajor) @ '' git tag)'')))"

definition post_patch :: "api_services \<Rightarrow> source \<Rightarrow> int \<Rightarrow> api_call list \<times> reply" where
  "post_patch V s mj =
     (case av_model V s of
        Inl e \<Rightarrow> ([], uncaught_reply)
      | Inr model \<Rightarrow>
          (case findNextMajor model mj of
             Some nextMajor \<Rightarrow> patch_major V s mj nextMajor
           | None \<Rightarrow> ([], bad_request (''Could not find a next major to major '' @ show_int mj))))"

definition post_config :: "api_services \<Rightarrow> source \<Rightarrow> api_call list \<times> reply" where
  "post_config V s =
     ([], reply_of (res_bind (getRepositoryConfig (av_files V) s) (\<lambda>config. Inr
        (case config of
           Some c \<Rightarrow> ok_reply (ConfigResponse c)
         | None \<Rightarrow> not_found (MessageResponse ''Repository has not configuration yet.'')))))"

definition post_config_set :: "api_services \<Rightarrow> source \<Rightarrow> repository_config option \<Rightarrow> api_call list \<times> reply" where
  "post_config_set V s config =
     ([CallSaveConfig s config],
      reply_of (res_bind (saveRepositoryConfig (av_files V) s config) (\<lambda>u. Inr (ok_reply (MessageResponse ''Repository config was updated'')))))"

definition post_buildlog_events :: "api_services \<Rightarrow> source \<Rightarrow> string \<Rightarrow> api_call list \<times> reply" where
  "post_buildlog_events V s logId = ([], reply_of (res_bind (av_buildLog V s logId) (\<lambda>log. Inr (ok_reply (BuildLogResponse log)))))"

section \<open>Handlers for majors and systems\<close>

definition get_major_values :: "api_services \<Rightarrow> api_call list \<times> reply" where
  "get_major_values V = ([], reply_of (res_bind (av_majors V) (\<lambda>series. Inr (ok_reply (MajorSeriesResponse series)))))"

text \<open>The value is applied to the active repositories afterwards; nobody waits for that.\<close>

definition post_add_value :: "api_services \<Rightarrow> major_value \<Rightarrow> api_call list \<times> reply" where
  "post_add_value V v =
     (case av_addValue V v of
        Inl e \<Rightarrow> ([CallAddValue v], \<lparr> rp_status = 400, rp_message = None, rp_body = Some (MessageResponse (error_toString e)) \<rparr>)
      | Inr serie \<Rightarrow>
          (CallAddValue v # (case av_active V of Inl e \<Rightarrow> [] | Inr repositories \<Rightarrow> [CallApplyMajors v repositories]),
           ok_reply (MajorSerieAddValueResponse serie (''Created major value '' @ show_int (mv_value v) @ '' in '' @ mv_id v @ ''.''))))"

definition get_config_values :: "api_services \<Rightarrow> api_call list \<times> reply" where
  "get_config_values V =
     ([], case res_bind (av_majors V) (\<lambda>series. res_bind (av_systems V) (\<lambda>systems. Inr (series, systems))) of
        Inl e \<Rightarrow> \<lparr> rp_status = 500, rp_message = None,
          rp_body = Some (TextBody (''Could not load MajorSeries or AvailableSystems: '' @ error_toString e)) \<rparr>
      | Inr (series, systems) \<Rightarrow> ok_reply (ConfigValuesResponse series systems))"

definition get_repositories :: "api_services \<Rightarrow> api_call list \<times> reply" where
  "get_repositories V = ([], reply_of (res_bind (av_active V) (\<lambda>rs. Inr (ok_reply (ActiveRepositoriesResponse rs)))))"

fun api_handle :: "api_services \<Rightarrow> api_request \<Rightarrow> api_call list \<times> reply" where
  "api_handle V (ModelRequest s) = post_model V s"
| "api_handle V (BuildConfigRequest s) = post_build_config V s"
| "api_handle V (ReleaseRequest s mj sha) = post_release V s mj sha"
| "api_handle V (UnreleasedCommitsRequest s mj) = post_unreleased_commits V s mj"
| "api_handle V (CreatePatchBranchRequest s mj) = post_patch V s mj"
| "api_handle V (ConfigRequest s) = post_config V s"
| "api_handle V (SaveConfigRequest s config) = post_config_set V s config"
| "api_handle V (BuildLogRequest s logId) = post_buildlog_events V s logId"
| "api_handle V MajorValuesRequest = get_major_values V"
| "api_handle V (MajorSerieAddValueRequest v) = post_add_value V v"
| "api_handle V ConfigValuesRequest = get_config_values V"
| "api_handle V ActiveRepositoriesRequest = get_repositories V"

section \<open>Content from outside\<close>

text \<open>The files of the archive in their order; the archive library is the parameter \<open>extract\<close>.\<close>

definition content_update :: "update_access \<Rightarrow> source \<Rightarrow> string \<Rightarrow> string \<Rightarrow> contents \<Rightarrow> api_call list \<times> unit res" where
  "content_update access s label main contents =
     (case ua_getUpdates access (src_path s) of
        Inl e \<Rightarrow> ([], Inl e)
      | Inr updates \<Rightarrow>
          (case List.find (\<lambda>u. label \<in> set (up_labels u) \<and> up_target u = main) updates of
             Some existing \<Rightarrow>
               ([CallUpdateUpdate s (up_id existing) contents], ua_updateUpdate access (src_path s) (up_id existing) contents)
           | None \<Rightarrow>
               ([CallCreateUpdate s (BranchRef main) [label] contents],
                res_bind (ua_createUpdate access (src_path s) (BranchRef main) [label] contents) (\<lambda>i. Inr ()))))"

definition file_problem :: "error \<Rightarrow> reply" where
  "file_problem e = \<lparr> rp_status = 400, rp_message = None, rp_body = Some (TextBody (''Problem with processing file: '' @ error_toString e)) \<rparr>"

definition content_reply :: "contents \<Rightarrow> unit res \<Rightarrow> reply" where
  "content_reply contents result =
     (case result of
        Inl e \<Rightarrow> file_problem e
      | Inr u \<Rightarrow> \<lparr> rp_status = 201, rp_message = None,
          rp_body = Some (TextBody (''Updated '' @ join '', '' (map fst contents) @ '' in Change'')) \<rparr>)"

definition post_update_content ::
    "api_services \<Rightarrow> (string \<Rightarrow> contents res) \<Rightarrow> string option \<Rightarrow> string option \<Rightarrow> string option \<Rightarrow> string res \<Rightarrow> api_call list \<times> reply" where
  "post_update_content V extract storageId repoId label body =
     (if truthy storageId \<and> truthy repoId \<and> truthy label then
        (let s = \<lparr> src_id = the storageId, src_path = the repoId \<rparr> in
         case av_createAccess V (src_id s) of
           Inl e \<Rightarrow> ([], uncaught_reply)
         | Inr access \<Rightarrow>
             (case res_bind body (\<lambda>buffer. res_bind (av_model V s) (\<lambda>model. res_bind (extract buffer) (\<lambda>cs. Inr (model, cs)))) of
                Inl e \<Rightarrow> ([], file_problem e)
              | Inr (model, cs) \<Rightarrow>
                  (if cs \<noteq> [] then
                     (let (calls, result) = content_update access s (the label) (mb_name (main_main (root_main model))) cs
                      in (calls, content_reply cs result))
                   else ([], \<lparr> rp_status = 400, rp_message = None, rp_body = Some (TextBody ''Tar-file did not contain any entries.'') \<rparr>))))
      else ([], \<lparr> rp_status = 400, rp_message = None, rp_body = Some (TextBody ''Missing parameter \"storage\", \"id\" or \"label\"'') \<rparr>))"

section \<open>What the page can rely on\<close>

text \<open>The class of the body that the page reads from the reply to a request.\<close>

fun response_class :: "api_request \<Rightarrow> api_body \<Rightarrow> bool" where
  "response_class (ModelRequest s) b = (\<exists>m. b = ModelResponse m)"
| "response_class (BuildConfigRequest s) b = (\<exists>u n. b = BuildConfigResponse u n)"
| "response_class (ReleaseRequest s mj sha) b = (\<exists>m t. b = ReleaseResponse m t)"
| "response_class (UnreleasedCommitsRequest s mj) b = (\<exists>cs. b = UnreleasedCommitsResponse cs)"
| "response_class (CreatePatchBranchRequest s mj) b = (\<exists>m t. b = CreatePatchBranchResponse m t)"
| "response_class (ConfigRequest s) b = (\<exists>c. b = ConfigResponse c)"
| "response_class (SaveConfigRequest s config) b = (\<exists>t. b = MessageResponse t)"
| "response_class (BuildLogRequest s logId) b = (\<exists>l. b = BuildLogResponse l)"
| "response_class MajorValuesRequest b = (\<exists>ss. b = MajorSeriesResponse ss)"
| "response_class (MajorSerieAddValueRequest v) b = (\<exists>se t. b = MajorSerieAddValueResponse se t)"
| "response_class ConfigValuesRequest b = (\<exists>ss ns. b = ConfigValuesResponse ss ns)"
| "response_class ActiveRepositoriesRequest b = (\<exists>rs. b = ActiveRepositoriesResponse rs)"

fun changing :: "api_request \<Rightarrow> bool" where
  "changing (ReleaseRequest s mj sha) = True"
| "changing (CreatePatchBranchRequest s mj) = True"
| "changing (SaveConfigRequest s config) = True"
| "changing (MajorSerieAddValueRequest v) = True"
| "changing rq = False"

definition explained :: "reply \<Rightarrow> bool" where
  "explained r \<longleftrightarrow> rp_message r \<noteq> None \<or> (\<exists>t. rp_body r = Some (TextBody t) \<or> rp_body r = Some (MessageResponse t))"

definition typed_reply :: "api_request \<Rightarrow> reply \<Rightarrow> bool" where
  "typed_reply rq r \<longleftrightarrow>
     (if rp_status r = 200 then \<exists>b. rp_body r = Some b \<and> (response_class rq b \<or> b = ErrorBody)
      else rp_status r \<in> {400, 404, 500} \<and> explained r)"

lemma typed_simps [simp]:
  "typed_reply rq (ok_reply b) \<longleftrightarrow> response_class rq b \<or> b = ErrorBody"
  "typed_reply rq (not_found (TextBody t))" "typed_reply rq (not_found (MessageResponse t))"
  "typed_reply rq (bad_request m)" "typed_reply rq uncaught_reply"
  by (simp_all add: typed_reply_def explained_def ok_reply_def not_found_def bad_request_def uncaught_reply_def)

lemma typed_reply_of: "(\<And>x. r = Inr x \<Longrightarrow> typed_reply rq x) \<Longrightarrow> typed_reply rq (reply_of r)"
  by (cases r) (simp_all add: reply_of_def)

lemma typed_release: "typed_reply (ReleaseRequest s mj sha) (snd (release_branch V s mj sha b))"
  by (auto simp: release_branch_def split: sum.split)

lemma typed_patch: "typed_reply (CreatePatchBranchRequest s mj) (snd (patch_major V s mj c))"
  by (auto simp: patch_major_def Let_def split: sum.split prod.split)

text \<open>C38
  Whatever the services answer, every request of the page gets a reply with the status 200 and a
  body of the class that the page expects for it, or the error object that the server makes of an
  error that nobody catches, with the status 200 as well, or a status 400, 404 or 500 and an explanation
  in text; requests that only read make no call that changes something, and the others at most two.
\<close>

theorem api_replies_are_typed:
  "typed_reply rq (snd (api_handle V rq)) \<and> (fst (api_handle V rq) = [] \<or> changing rq) \<and> length (fst (api_handle V rq)) \<le> 2"
proof -
  have "typed_reply rq (snd (api_handle V rq))"
  proof (cases rq)
    case (ReleaseRequest s mj sha)
    then show ?thesis using typed_release by (auto simp: post_release_def split: sum.split option.split)
  next
    case (CreatePatchBranchRequest s mj)
    then show ?thesis using typed_patch by (auto simp: post_patch_def split: sum.split option.split)
  next
    case (MajorSerieAddValueRequest v)
    then show ?thesis by (auto simp: post_add_value_def typed_reply_def explained_def ok_reply_def split: sum.split)
  next
    case ConfigValuesRequest
    then show ?thesis by (auto simp: get_config_values_def typed_reply_def explained_def ok_reply_def split: sum.split)
  qed (auto intro!: typed_reply_of simp: res_bind_eq_Inr post_model_def post_build_config_def post_unreleased_commits_def
      unreleased_reply_def post_config_def post_config_set_def post_buildlog_events_def get_major_values_def
      get_repositories_def Let_def split: sum.split option.split)
  moreover have "(fst (api_handle V rq) = [] \<or> changing rq) \<and> length (fst (api_handle V rq)) \<le> 2"
    by (cases rq) (auto simp: post_model_def post_build_config_def post_unreleased_commits_def post_config_def post_config_set_def
      post_buildlog_events_def get_major_values_def get_repositories_def get_config_values_def post_add_value_def
      post_release_def release_branch_def post_patch_def patch_major_def create_patch_branch_def Let_def
      split: sum.split option.split prod.split)
  ultimately show ?thesis by blast
qed

text \<open>A model that cannot be read is answered with the status 200 and without a model.\<close>

lemma unreadable_model_is_ok:
  "av_model V s = Inl e \<Longrightarrow> api_handle V (ModelRequest s) = ([], \<lparr> rp_status = 200, rp_message = None, rp_body = Some ErrorBody \<rparr>)"
  by (simp add: post_model_def reply_of_def uncaught_reply_def)

text \<open>Services for concrete data, on which every call that changes something succeeds but a release.\<close>

definition sample_services :: "root \<Rightarrow> api_services" where
  "sample_services r =
     \<lparr> av_model = (\<lambda>s. Inr r), av_updatedModel = (\<lambda>s. Inr r), av_connector = (\<lambda>i. None), av_release = (\<lambda>s b v. Inl (Error ''none'')),
        av_getCommits = (\<lambda>s a b n. Inr []),
        av_createAccess = (\<lambda>i. Inr \<lparr> ua_getUpdates = (\<lambda>p. Inr []), ua_updateUpdate = (\<lambda>p u c. Inr ()),
          ua_createUpdate = (\<lambda>p b ls c. Inr ''u''), ua_createBranch = (\<lambda>p sha n. branch_create n sha) \<rparr>),
        av_files = \<lparr> fa_file = (\<lambda>s p b. Inr None), fa_updateBranch = (\<lambda>s b c. Inr ()), fa_parseRepository = (\<lambda>t. Inl (Error ''none'')),
          fa_printRepository = (\<lambda>c. []), fa_parseBuild = (\<lambda>t. Inl (Error ''none'')), fa_parsePublication = (\<lambda>t. Inl (Error ''none'')),
          fa_parseDependencies = (\<lambda>t. Inl (Error ''none'')) \<rparr>,
        av_buildLog = (\<lambda>s l. Inl (Error ''none'')), av_majors = Inr [], av_addValue = (\<lambda>v. Inr None), av_systems = Inr [], av_active = Inr [] \<rparr>"

section \<open>The branch for patches\<close>

text \<open>A patch branch among the references is one more in the raw data, and nothing else.\<close>

lemma getRawModel_insert_patch:
  assumes "getRawModel (es1 @ es2) = Inr raw" and "normalize (e_ref e) = Some (PatchBranchRef segs)"
  shows "\<exists>ps1 ps2. raw_patchBranches raw = ps1 @ ps2 \<and>
    getRawModel (es1 @ e # es2) = Inr (raw\<lparr> raw_patchBranches := ps1 @ (segs, e_sha e) # ps2 \<rparr>)"
proof -
  have "main_of e = None" "tag_major_of e = None" "release_tag_of e = None" "patch_branch_of e = Some (segs, e_sha e)"
    using assms(2) by (simp_all add: entity_parts)
  with assms(1) show ?thesis
    by (intro exI [of _ "List.map_filter patch_branch_of es1"] exI [of _ "List.map_filter patch_branch_of es2"])
      (auto simp: getRawModel_parts map_filter_append map_filter_simps split: list.splits)
qed

lemma patch_insert:
  assumes "raw_patchBranches raw = ps1 @ ps2" and "raw' = raw\<lparr> raw_patchBranches := ps1 @ ([mj], sha) # ps2 \<rparr>"
    and "mj \<in> raw_major_numbers raw" and "branch_of (all_builders raw) mj = None"
  shows "raw_major_numbers raw' = raw_major_numbers raw" and "highest_major raw' = highest_major raw"
    and "branch_of (all_builders raw') mj = Some sha" and "raw_main raw' = raw_main raw"
proof -
  show nums: "raw_major_numbers raw' = raw_major_numbers raw"
    using assms(3) by (auto simp: raw_major_numbers_def assms(1,2))
  then show "highest_major raw' = highest_major raw" by (simp add: highest_major_def)
  let ?f = "\<lambda>p. (hd (fst p), snd p)"
  have none: "map_of (rev (map ?f ps2)) mj = None"
    using assms(4) by (simp add: branch_of_all_builders assms(1) map_add_def split: option.splits)
  then show "branch_of (all_builders raw') mj = Some sha"
    by (simp add: branch_of_all_builders assms(2) map_add_def)
  show "raw_main raw' = raw_main raw" by (simp add: assms(2))
qed

lemma findNextMajor_convertModel:
  assumes "findNextMajor (convertModel raw) mj = Some c"
  shows "mj \<in> raw_major_numbers raw" and "mj \<noteq> highest_major raw"
    and "top_start c = start_of (all_builders raw) (Min {k \<in> raw_major_numbers raw. mj < k})"
proof -
  let ?all = "all_containers (convertModel raw)"
  obtain i where i: "find_index (\<lambda>m. top_major m = mj) ?all = Some (Suc i)" "c = ?all ! i"
    using assms by (auto simp: findNextMajor_def Let_def split: option.splits nat.splits)
  note f = find_index_Some [OF i(1)]
  have len: "i < length (root_majors (convertModel raw))" using f by (simp add: all_containers_def)
  have maj: "maj_major (root_majors (convertModel raw) ! i) = mj" using f len by (simp add: all_containers_def)
  from major_at_index [OF len] show "mj \<in> raw_major_numbers raw"
    and "top_start c = start_of (all_builders raw) (Min {k \<in> raw_major_numbers raw. mj < k})"
    by (simp_all add: maj i(2))
  show "mj \<noteq> highest_major raw" using i(1) by (auto simp: all_containers_def convertModel_main split: if_splits)
qed

lemma normalize_patch_branch: "0 \<le> mj \<Longrightarrow> normalize (BranchRef (''patch-'' @ show_int mj)) = Some (PatchBranchRef [mj])"
  using conjunct1 [OF conjunct2 [OF normalize_names [of "[mj]" 0]]] by (simp add: segments_full_def)

lemma create_patch_branch_call:
  assumes "create_patch_branch V s start name = ([CallCreateBranch i p sha n], result)"
  shows "i = src_id s" "p = src_path s" "sha = start" "n = name" "is_sha start"
  using assms by (auto simp: create_patch_branch_def res_bind_eq_Inr sha_create_def split: sum.splits if_splits)

lemma post_patch_call:
  assumes "av_model V s = Inr r" and "post_patch V s mj = ([CallCreateBranch i p sha n], reply)"
  shows "\<exists>c. findNextMajor r mj = Some c \<and> top_start c = Some sha \<and> is_sha sha \<and> i = src_id s \<and> p = src_path s \<and> n = ''patch-'' @ show_int mj"
proof -
  from assms obtain c where c: "findNextMajor r mj = Some c" "patch_major V s mj c = ([CallCreateBranch i p sha n], reply)"
    by (auto simp: post_patch_def split: option.splits)
  then have t: "truthy (top_start c)" by (auto simp: patch_major_def Let_def split: if_splits)
  with c obtain result where "create_patch_branch V s (the (top_start c)) (''patch-'' @ show_int mj) = ([CallCreateBranch i p sha n], result)"
    by (auto simp: patch_major_def Let_def split: prod.splits)
  from create_patch_branch_call [OF this] t c(1) show ?thesis by (auto simp: truthy_iff)
qed

end
