(* ===== verification/Page.thy ===== *)
theory Page
  imports Admin_Api
begin

text \<open>
  The administration page, \<open>frontend/src\<close>: what its views keep, what they make of the replies of the
  server, and how they edit a configuration. A view is a record; its handlers are functions on it.
  How a view is drawn is left out. A reply is the one of \<open>Admin_Api\<close>, or none; the http library fulfils
  a request with a status from 200 to 299 and rejects it otherwise. Fields that a body does not have
  are undefined in the class that is made of it.
\<close>

section \<open>Notifications\<close>

datatype note_type = NoteInfo | NoteWarning | NoteError

record notifier =
  nf_notification :: "(note_type \<times> string option) option"
  nf_timer :: "int option"

definition defaultTimeout :: int where
  "defaultTimeout = 4"

text \<open>The timer is in milliseconds; a missing timeout and 0 are the default.\<close>

definition notify :: "note_type \<Rightarrow> string option \<Rightarrow> int option \<Rightarrow> notifier \<Rightarrow> notifier" where
  "notify t text timeout n =
     n \<lparr> nf_notification := Some (t, text),
         nf_timer := Some ((case timeout of Some s \<Rightarrow> if s = 0 then defaultTimeout else s | None \<Rightarrow> defaultTimeout) * 1000) \<rparr>"

definition notify_clear :: "notifier \<Rightarrow> notifier" where
  "notify_clear n = n \<lparr> nf_notification := None, nf_timer := None \<rparr>"

definition notify_timer :: "notifier \<Rightarrow> notifier" where
  "notify_timer n = n \<lparr> nf_notification := None, nf_timer := None \<rparr>"

definition note_variant :: "note_type \<Rightarrow> string" where
  "note_variant t = (case t of NoteError \<Rightarrow> ''danger'' | NoteWarning \<Rightarrow> ''warning'' | NoteInfo \<Rightarrow> ''info'')"

section \<open>Replies\<close>

definition fulfilled :: "reply option \<Rightarrow> bool" where
  "fulfilled r = (case r of Some x \<Rightarrow> 200 \<le> rp_status x \<and> rp_status x < 300 | None \<Rightarrow> False)"

definition reply_body :: "reply option \<Rightarrow> api_body option" where
  "reply_body r = Option.bind r rp_body"

text \<open>Without a message of its own a status has the usual one.\<close>

definition status_text :: "reply \<Rightarrow> string" where
  "status_text r =
     (case rp_message r of
        Some m \<Rightarrow> m
      | None \<Rightarrow> if rp_status r = 400 then ''Bad Request'' else if rp_status r = 404 then ''Not Found''
          else if rp_status r = 500 then ''Internal Server Error'' else [])"

definition error_status_text :: "string \<Rightarrow> reply option \<Rightarrow> string" where
  "error_status_text sep r =
     (case r of None \<Rightarrow> ''undefined'' @ sep @ ''undefined'' | Some x \<Rightarrow> show_int (rp_status x) @ sep @ status_text x)"

text \<open>An error of the http library in a template string.\<close>

definition axios_error :: "reply option \<Rightarrow> string" where
  "axios_error r =
     (case r of None \<Rightarrow> ''Error: Network Error'' | Some x \<Rightarrow> ''Error: Request failed with status code '' @ show_int (rp_status x))"

fun body_model :: "api_body \<Rightarrow> root option" where
  "body_model (ModelResponse m) = Some m"
| "body_model (ReleaseResponse m t) = Some m"
| "body_model (CreatePatchBranchResponse m t) = Some m"
| "body_model b = None"

fun body_message :: "api_body \<Rightarrow> string option" where
  "body_message (MessageResponse t) = Some t"
| "body_message (ReleaseResponse m t) = Some t"
| "body_message (CreatePatchBranchResponse m t) = Some t"
| "body_message (MajorSerieAddValueResponse se t) = Some t"
| "body_message b = None"

fun body_commits :: "api_body \<Rightarrow> api_commit list option" where
  "body_commits (UnreleasedCommitsResponse cs) = Some cs"
| "body_commits b = None"

fun body_config :: "api_body \<Rightarrow> repository_config option" where
  "body_config (ConfigResponse c) = Some c"
| "body_config b = None"

fun body_series :: "api_body \<Rightarrow> serie list option" where
  "body_series (MajorSeriesResponse ss) = Some ss"
| "body_series (ConfigValuesResponse ss ns) = Some ss"
| "body_series b = None"

fun body_systems :: "api_body \<Rightarrow> string list option" where
  "body_systems (ConfigValuesResponse ss ns) = Some ns"
| "body_systems b = None"

fun body_log :: "api_body \<Rightarrow> build_log option" where
  "body_log (BuildLogResponse l) = Some l"
| "body_log b = None"

section \<open>The state of a repository\<close>

text \<open>
  The commits are those of the window that is open, with its major; they are undefined when the body
  has none. The notes are the calls of the notifier in order.
\<close>

record state_view =
  sv_model :: "root option"
  sv_seriesLoaded :: bool
  sv_commits :: "(api_commit list option \<times> int) option"
  sv_notes :: "(note_type \<times> string option) list"

definition state_view_new :: state_view where
  "state_view_new = \<lparr> sv_model = None, sv_seriesLoaded = False, sv_commits = None, sv_notes = [] \<rparr>"

definition state_note :: "note_type \<Rightarrow> string option \<Rightarrow> state_view \<Rightarrow> state_view" where
  "state_note t text v = v \<lparr> sv_notes := sv_notes v @ [(t, text)] \<rparr>"

definition state_onModel :: "reply option \<Rightarrow> state_view \<Rightarrow> state_view" where
  "state_onModel r v =
     (if fulfilled r then v \<lparr> sv_model := Option.bind (reply_body r) body_model \<rparr>
      else state_note NoteError (Some (axios_error r)) v)"

text \<open>The body is read as a list of series, which it is not; what comes out is not undefined.\<close>

definition state_onSeries :: "reply option \<Rightarrow> state_view \<Rightarrow> state_view" where
  "state_onSeries r v =
     (if fulfilled r then v \<lparr> sv_seriesLoaded := True \<rparr> else state_note NoteError (Some (error_status_text '': '' r)) v)"

definition state_onCommits :: "int \<Rightarrow> reply option \<Rightarrow> state_view \<Rightarrow> state_view" where
  "state_onCommits mj r v =
     (if fulfilled r then v \<lparr> sv_commits := Some (Option.bind (reply_body r) body_commits, mj) \<rparr>
      else state_note NoteError (Some (error_status_text '':'' r)) v)"

definition state_onPatch :: "reply option \<Rightarrow> state_view \<Rightarrow> state_view" where
  "state_onPatch r v =
     (if fulfilled r then
        (state_note NoteInfo (Option.bind (reply_body r) body_message) v) \<lparr> sv_model := Option.bind (reply_body r) body_model \<rparr>
      else state_note NoteError (Some (error_status_text '':'' r)) v)"

definition state_onReleased :: "reply option \<Rightarrow> state_view \<Rightarrow> state_view" where
  "state_onReleased r v =
     (if fulfilled r then
        (state_note NoteInfo (Option.bind (reply_body r) body_message) v)
          \<lparr> sv_model := Option.bind (reply_body r) body_model, sv_commits := None \<rparr>
      else state_note NoteError (Some (error_status_text '': '' r)) v)"

definition state_closeWindow :: "state_view \<Rightarrow> state_view" where
  "state_closeWindow v = v \<lparr> sv_commits := None \<rparr>"

definition state_isLoading :: "state_view \<Rightarrow> bool" where
  "state_isLoading v \<longleftrightarrow> sv_model v = None \<or> \<not> sv_seriesLoaded v"

text \<open>Drawing the window maps over the commits and throws when they are undefined.\<close>

definition state_draws :: "state_view \<Rightarrow> bool" where
  "state_draws v \<longleftrightarrow> state_isLoading v \<or> (case sv_commits v of Some (None, mj) \<Rightarrow> False | _ \<Rightarrow> True)"

text \<open>The request that the view sends for a commit of the open window.\<close>

definition release_request :: "source \<Rightarrow> state_view \<Rightarrow> api_commit \<Rightarrow> api_request option" where
  "release_request s v c = map_option (\<lambda>(cs, mj). ReleaseRequest s mj (ac_sha c)) (sv_commits v)"

definition last_release :: "top_container \<Rightarrow> release option" where
  "last_release c = (case top_minors c of [] \<Rightarrow> None | m # ms \<Rightarrow> (case mc_releases m of [] \<Rightarrow> None | p # ps \<Rightarrow> Some p))"

definition release_disabled :: "top_container \<Rightarrow> string option \<Rightarrow> bool" where
  "release_disabled c branchSha \<longleftrightarrow>
     (case last_release c of Some p \<Rightarrow> branchSha = Some (rel_sha p) | None \<Rightarrow> False) \<or> \<not> truthy branchSha"

definition release_tooltip :: "top_container \<Rightarrow> string option \<Rightarrow> string" where
  "release_tooltip c branchSha =
     (if \<not> truthy branchSha then ''You must first create a patch branch in order to release.''
      else if (case last_release c of Some p \<Rightarrow> branchSha = Some (rel_sha p) | None \<Rightarrow> False)
      then ''The latest release is on the same sha as the branch (Nothing to release).''
      else ''Release next version'')"

definition row_buttons :: "top_container \<Rightarrow> string list" where
  "row_buttons c =
     (case c of
        Top_Main m \<Rightarrow> (if release_disabled c (Some (mb_sha (main_main m))) then [] else [''Release''])
      | Top_Major m \<Rightarrow> (if release_disabled c (maj_branch m) then [] else [''Release'']) @
          (if truthy (maj_branch m) then [] else [''Patch'']))"

definition last_version :: "top_container \<Rightarrow> string" where
  "last_version c =
     (case List.find (\<lambda>m. length (mc_releases m) > 0) (top_minors c) of
        Some m \<Rightarrow> show_int (top_major c) @ ''.'' @ show_int (mc_minor m) @ ''.'' @ show_int (rel_patch (hd (mc_releases m)))
      | None \<Rightarrow> ''-'')"

section \<open>The configuration\<close>

record config_view =
  cv_config :: "repository_config option"
  cv_series :: "serie list option"
  cv_systems :: "string list option"
  cv_notes :: "(note_type \<times> string option) list"

definition default_config :: repository_config where
  "default_config = \<lparr> rc_version = 1, rc_majorSerie = None, rc_buildAutomation = \<lparr> ba_default = Merge, ba_labels = [] \<rparr>, rc_activeSystem = None \<rparr>"

definition config_note :: "note_type \<Rightarrow> string option \<Rightarrow> config_view \<Rightarrow> config_view" where
  "config_note t text v = v \<lparr> cv_notes := cv_notes v @ [(t, text)] \<rparr>"

definition config_onConfig :: "source \<Rightarrow> reply option \<Rightarrow> config_view \<Rightarrow> config_view" where
  "config_onConfig s r v =
     (if fulfilled r then v \<lparr> cv_config := Option.bind (reply_body r) body_config \<rparr>
      else if map_option rp_status r = Some 404 then
        config_note NoteWarning (Some (''No repository config exists for '' @ src_path s @ ''. Default values provided. Save to configure.''))
          (v \<lparr> cv_config := Some default_config \<rparr>)
      else config_note NoteError (Some (axios_error r)) v)"

text \<open>An error of this request is not handled.\<close>

definition config_onValues :: "reply option \<Rightarrow> config_view \<Rightarrow> config_view" where
  "config_onValues r v =
     (if fulfilled r then
        v \<lparr> cv_series := Option.bind (reply_body r) body_series, cv_systems := Option.bind (reply_body r) body_systems \<rparr>
      else v)"

definition config_isLoading :: "config_view \<Rightarrow> bool" where
  "config_isLoading v \<longleftrightarrow> cv_config v = None \<or> cv_series v = None \<or> cv_systems v = None"

definition change_config :: "(repository_config \<Rightarrow> repository_config) \<Rightarrow> config_view \<Rightarrow> config_view" where
  "change_config f v = v \<lparr> cv_config := map_option f (cv_config v) \<rparr>"

definition onMajorSerieConfigChanged :: "major_serie option \<Rightarrow> config_view \<Rightarrow> config_view" where
  "onMajorSerieConfigChanged m = change_config (\<lambda>c. c \<lparr> rc_majorSerie := m \<rparr>)"

definition onBuildAutomationChanged :: "build_automation \<Rightarrow> config_view \<Rightarrow> config_view" where
  "onBuildAutomationChanged b = change_config (\<lambda>c. c \<lparr> rc_buildAutomation := b \<rparr>)"

definition onNonDefaultSystemChanged :: "string option \<Rightarrow> config_view \<Rightarrow> config_view" where
  "onNonDefaultSystemChanged system = change_config (\<lambda>c. c \<lparr> rc_activeSystem := system \<rparr>)"

definition onSaveConfig :: "source \<Rightarrow> config_view \<Rightarrow> api_request option" where
  "onSaveConfig s v = map_option (\<lambda>c. SaveConfigRequest s (Some c)) (cv_config v)"

definition config_onSaved :: "reply option \<Rightarrow> config_view \<Rightarrow> config_view" where
  "config_onSaved r v = (if fulfilled r then config_note NoteInfo (Option.bind (reply_body r) body_message) v else v)"

section \<open>Editing\<close>

definition onActiveChange :: "serie list \<Rightarrow> bool \<Rightarrow> config_view \<Rightarrow> config_view" where
  "onActiveChange series newValue v =
     (if newValue then
        (case series of
           [] \<Rightarrow> v
         | defaultSerie # ss \<Rightarrow> onMajorSerieConfigChanged (Some \<lparr> ms_id = se_id defaultSerie, ms_autoApply = True \<rparr>) v)
      else onMajorSerieConfigChanged None v)"

definition current_serie :: "config_view \<Rightarrow> major_serie option" where
  "current_serie v = Option.bind (cv_config v) rc_majorSerie"

definition onSerieChange :: "serie \<Rightarrow> config_view \<Rightarrow> config_view" where
  "onSerieChange serie v =
     (case current_serie v of Some m \<Rightarrow> onMajorSerieConfigChanged (Some (m \<lparr> ms_id := se_id serie \<rparr>)) v | None \<Rightarrow> v)"

definition onAutoApplyChange :: "bool \<Rightarrow> config_view \<Rightarrow> config_view" where
  "onAutoApplyChange newValue v =
     (case current_serie v of Some m \<Rightarrow> onMajorSerieConfigChanged (Some (m \<lparr> ms_autoApply := newValue \<rparr>)) v | None \<Rightarrow> v)"

definition onDefaultActionChange :: "action \<Rightarrow> build_automation \<Rightarrow> build_automation" where
  "onDefaultActionChange newAction automation = automation \<lparr> ba_default := newAction \<rparr>"

definition onUpsertLabel :: "string \<Rightarrow> action \<Rightarrow> build_automation \<Rightarrow> build_automation" where
  "onUpsertLabel label action automation =
     (let newLabel = \<lparr> la_id = label, la_action = action \<rparr>;
          labels = map (\<lambda>l. if la_id l = label then newLabel else l) (ba_labels automation);
          updated = list_ex (\<lambda>l. la_id l = label) (ba_labels automation)
      in automation \<lparr> ba_labels := (if updated then labels else labels @ [newLabel]) \<rparr>)"

definition onDeleteLabel :: "string \<Rightarrow> build_automation \<Rightarrow> build_automation" where
  "onDeleteLabel label automation =
     automation \<lparr> ba_labels := concat (map (\<lambda>l. if la_id l = label then [] else [l]) (ba_labels automation)) \<rparr>"

text \<open>The window for a label calls with what was entered when both are there.\<close>

definition modal_create :: "string option \<Rightarrow> action option \<Rightarrow> (string \<times> action) option" where
  "modal_create newLabel newAction =
     (if truthy newLabel then map_option (Pair (the newLabel)) newAction else None)"

record system_choice =
  sy_useNonDefault :: bool
  sy_selectedSystem :: string

definition allSystems :: "string list \<Rightarrow> string option \<Rightarrow> string list" where
  "allSystems availableSystems activeSystem =
     filter (\<lambda>s. s \<noteq> []) (uniq (availableSystems @ (case activeSystem of Some s \<Rightarrow> [s] | None \<Rightarrow> [])))"

definition system_choice_new :: "string list \<Rightarrow> string option \<Rightarrow> system_choice res" where
  "system_choice_new availableSystems activeSystem =
     (if availableSystems = [] then Inl (Error ''Can not provide a zero length array for available systems.'')
      else Inr \<lparr> sy_useNonDefault = truthy activeSystem, sy_selectedSystem = or_else activeSystem (hd availableSystems) \<rparr>)"

definition onSystemChange :: "string \<Rightarrow> system_choice \<times> config_view \<Rightarrow> system_choice \<times> config_view" where
  "onSystemChange system x = ((fst x) \<lparr> sy_selectedSystem := system \<rparr>, onNonDefaultSystemChanged (Some system) (snd x))"

definition onUseNonDefault :: "bool \<Rightarrow> system_choice \<times> config_view \<Rightarrow> system_choice \<times> config_view" where
  "onUseNonDefault checked x =
     ((fst x) \<lparr> sy_useNonDefault := checked \<rparr>,
      onNonDefaultSystemChanged (if checked then Some (sy_selectedSystem (fst x)) else None) (snd x))"

section \<open>Logs and majors\<close>

definition pad_start :: "int \<Rightarrow> string" where
  "pad_start n = (let s = show_int n in replicate (2 - length s) (CHR ''0'') @ s)"

definition duration_text :: "int \<Rightarrow> string" where
  "duration_text milliseconds =
     (let hours = milliseconds div 3600000;
          minutes = (milliseconds - hours * 3600000) div 60000;
          seconds = (milliseconds - hours * 3600000 - minutes * 60000) div 1000
      in join '':'' (map pad_start (if hours > 0 then [hours, minutes, seconds] else [minutes, seconds])))"

record log_view =
  lv_log :: "build_log option"
  lv_notes :: "(note_type \<times> string option) list"

definition log_onLog :: "reply option \<Rightarrow> log_view \<Rightarrow> log_view" where
  "log_onLog r v =
     (if fulfilled r then v \<lparr> lv_log := Option.bind (reply_body r) body_log \<rparr>
      else v \<lparr> lv_notes := lv_notes v @ [(NoteError, Some (axios_error r))] \<rparr>)"

record majors_view =
  mv_series :: "serie list option"
  mv_updatedValue :: "int option"
  mv_notes :: "(note_type \<times> string option) list"

definition selectedSerie :: "string option \<Rightarrow> majors_view \<Rightarrow> serie option" where
  "selectedSerie major v = List.find (\<lambda>s. Some (se_id s) = major) (case mv_series v of Some ss \<Rightarrow> ss | None \<Rightarrow> [])"

text \<open>What drawing the view sets: the value after the highest one of the selected serie.\<close>

definition proposed_value :: "int list \<Rightarrow> int" where
  "proposed_value vs = (if vs = [] then 0 else Max (set vs)) + 1"

definition majors_draw :: "string option \<Rightarrow> majors_view \<Rightarrow> majors_view" where
  "majors_draw major v =
     (case selectedSerie major v of
        Some serie \<Rightarrow> (if mv_updatedValue v = None then v \<lparr> mv_updatedValue := Some (proposed_value (se_values serie)) \<rparr> else v)
      | None \<Rightarrow> v)"

definition majors_onSubmit :: "string option \<Rightarrow> majors_view \<Rightarrow> api_request option" where
  "majors_onSubmit major v =
     (case (selectedSerie major v, mv_updatedValue v) of
        (Some serie, Some n) \<Rightarrow> (if n \<noteq> 0 then Some (MajorSerieAddValueRequest \<lparr> mv_id = se_id serie, mv_value = n \<rparr>) else None)
      | _ \<Rightarrow> None)"

text \<open>The second part is where the view goes.\<close>

definition majors_onSeries :: "reply option \<Rightarrow> majors_view \<Rightarrow> majors_view \<times> string option" where
  "majors_onSeries r v =
     (if fulfilled r then
        (case Option.bind (reply_body r) body_series of
           Some ss \<Rightarrow> (v \<lparr> mv_series := Some ss \<rparr>, if length ss = 1 then Some (''/admin/majors/'' @ se_id (hd ss)) else None)
         | None \<Rightarrow> (v \<lparr> mv_series := None,
             mv_notes := mv_notes v @ [(NoteError, Some ''TypeError: Cannot read properties of undefined (reading 'length')'')] \<rparr>, None))
      else (v \<lparr> mv_notes := mv_notes v @ [(NoteError, Some (axios_error r))] \<rparr>, None))"

fun body_serie :: "api_body \<Rightarrow> serie option" where
  "body_serie (MajorSerieAddValueResponse se t) = se"
| "body_serie b = None"

text \<open>The first handler of errors takes all of them and shows only those with the status 400.\<close>

definition majors_onAdded :: "reply option \<Rightarrow> majors_view \<Rightarrow> majors_view" where
  "majors_onAdded r v =
     (let message = Option.bind (reply_body r) body_message in
      if fulfilled r then
        (let v1 = v \<lparr> mv_notes := mv_notes v @ [(NoteInfo, message)] \<rparr> in
         case Option.bind (reply_body r) body_serie of
           Some se \<Rightarrow> v1 \<lparr> mv_series := map_option (map (\<lambda>s. if se_id s = se_id se then se else s)) (mv_series v), mv_updatedValue := None \<rparr>
         | None \<Rightarrow> (case mv_series v of Some (s # ss) \<Rightarrow> v1 | _ \<Rightarrow> v1 \<lparr> mv_updatedValue := None \<rparr>))
      else if map_option rp_status r = Some 400 then
        v \<lparr> mv_notes := mv_notes v @ [(NoteError, Some (or_else message ''Unknown error''))] \<rparr>
      else v)"

section \<open>What the views show\<close>

definition shows_released :: "root \<Rightarrow> string \<Rightarrow> state_view \<Rightarrow> state_view \<Rightarrow> bool" where
  "shows_released m text v v' \<longleftrightarrow>
     v' = v \<lparr> sv_model := Some m, sv_commits := None, sv_notes := sv_notes v @ [(NoteInfo, Some text)] \<rparr>"

definition shows_refused :: "state_view \<Rightarrow> state_view \<Rightarrow> bool" where
  "shows_refused v v' \<longleftrightarrow> (\<exists>m. v' = v \<lparr> sv_notes := sv_notes v @ [(NoteError, Some (''400: '' @ m))] \<rparr>)"

definition loses_model :: "state_view \<Rightarrow> bool" where
  "loses_model v' \<longleftrightarrow> sv_model v' = None \<and> sv_commits v' = None \<and> state_isLoading v'"

lemmas view_defs = fulfilled_def reply_body_def ok_reply_def bad_request_def uncaught_reply_def state_note_def

lemma bad_request_refused: "shows_refused v (state_onReleased (Some (bad_request m)) v)"
proof -
  have "show_int 400 = ''400''" by code_simp
  then have "error_status_text '': '' (Some (bad_request m)) = ''400: '' @ m"
    by (simp add: error_status_text_def status_text_def bad_request_def)
  then show ?thesis unfolding shows_refused_def
    by (intro exI [of _ m]) (simp add: state_onReleased_def fulfilled_def bad_request_def state_note_def)
qed

lemma uncaught_loses: "loses_model (state_onReleased (Some uncaught_reply) v)"
  by (simp add: loses_model_def state_onReleased_def view_defs state_isLoading_def)

lemma failed_release_loses_the_model:
  "av_model V s = Inl e \<Longrightarrow> loses_model (state_onReleased (Some (snd (api_handle V (ReleaseRequest s mj sha)))) v)"
  using uncaught_loses by (simp add: post_release_def)

definition release_result :: "api_services \<Rightarrow> source \<Rightarrow> string \<Rightarrow> entity \<Rightarrow> (version \<times> root) res" where
  "release_result V s sha branch =
     res_bind (branch_withSha branch sha) (\<lambda>b. res_bind (av_release V s b MINOR) (\<lambda>v. res_bind (av_updatedModel V s) (\<lambda>m. Inr (v, m))))"

lemma release_branch_reply:
  "case release_result V s sha b of
     Inl e \<Rightarrow> \<exists>m. snd (release_branch V s mj sha b) = bad_request m
   | Inr (ver, m) \<Rightarrow> snd (release_branch V s mj sha b) =
       ok_reply (ReleaseResponse m (''Version '' @ version_string ver @ '' was released from '' @ sha @ ''.''))"
  by (auto simp: release_result_def release_branch_def split: sum.splits)

text \<open>
  Releasing a commit from the window of a major: when the release succeeds and the model can be read
  again, the view shows that model, closes the window and tells the version; when it is refused, the
  view keeps what it shows, with the window open, and an error note with the status 400; when the
  model or the branch of the major cannot be read, the reply counts as a success and the view loses
  its model and shows that it is loading.
\<close>

theorem view_after_release:
  assumes "sv_commits v = Some (cs, mj)" and "release_request s v c = Some rq"
    and "v' = state_onReleased (Some (snd (api_handle V rq))) v"
  shows "case res_bind (av_model V s) (\<lambda>model. findBranch model mj None) of
      Inl e \<Rightarrow> loses_model v'
    | Inr None \<Rightarrow> shows_refused v v'
    | Inr (Some b) \<Rightarrow>
        (case release_result V s (ac_sha c) b of
           Inl e \<Rightarrow> shows_refused v v'
         | Inr (ver, m) \<Rightarrow> shows_released m (''Version '' @ version_string ver @ '' was released from '' @ ac_sha c @ ''.'') v v')"
proof -
  note append_Cons [simp del]
  have rq: "rq = ReleaseRequest s mj (ac_sha c)" using assms(1,2) by (simp add: release_request_def)
  then have v': "v' = state_onReleased (Some (snd (post_release V s mj (ac_sha c)))) v" using assms(3) by simp
  show ?thesis
  proof (cases "res_bind (av_model V s) (\<lambda>model. findBranch model mj None)")
    case (Inl e)
    with uncaught_loses show ?thesis by (simp add: v' post_release_def)
  next
    case (Inr branch)
    show ?thesis
    proof (cases branch)
      case None
      with Inr bad_request_refused show ?thesis by (simp add: v' post_release_def)
    next
      case (Some b)
      with Inr have post: "post_release V s mj (ac_sha c) = release_branch V s mj (ac_sha c) b" by (simp add: post_release_def)
      show ?thesis
      proof (cases "release_result V s (ac_sha c) b")
        case (Inl e)
        with release_branch_reply [where V = V and s = s and sha = "ac_sha c" and b = b and mj = mj] obtain m where "snd (release_branch V s mj (ac_sha c) b) = bad_request m" by auto
        with Inl Inr Some bad_request_refused show ?thesis by (simp add: v' post)
      next
        case (Inr x)
        obtain ver m where x: "x = (ver, m)" by (cases x)
        from release_branch_reply [where V = V and s = s and sha = "ac_sha c" and b = b and mj = mj] Inr x
        have "snd (release_branch V s mj (ac_sha c) b) =
          ok_reply (ReleaseResponse m (''Version '' @ version_string ver @ '' was released from '' @ ac_sha c @ ''.''))" by simp
        with Inr x Some \<open>res_bind _ _ = Inr branch\<close> show ?thesis
          by (simp add: v' post shows_released_def state_onReleased_def view_defs)
      qed
    qed
  qed
qed

definition sample_root :: root where
  "sample_root =
     \<lparr> root_main = \<lparr> main_major = 1, main_main = \<lparr> mb_name = ''master'', mb_sha = replicate 40 CHR ''a'' \<rparr>, main_minors = [], main_start = None \<rparr>,
       root_majors = [] \<rparr>"

lemma view_after_release_witness:
  "\<exists>ver text. shows_released sample_root (''Version '' @ version_string ver @ text)
     \<lparr> sv_model = Some sample_root, sv_seriesLoaded = True, sv_commits = Some (Some [], 1), sv_notes = [] \<rparr>
     (state_onReleased
       (Some (snd (api_handle ((sample_services sample_root)\<lparr> av_release := (\<lambda>s b v. Inr (Version [1, 0, 0])) \<rparr>)
         (ReleaseRequest \<lparr> src_id = ''g'', src_path = ''p'' \<rparr> 1 (replicate 40 CHR ''a'')))))
       \<lparr> sv_model = Some sample_root, sv_seriesLoaded = True, sv_commits = Some (Some [], 1), sv_notes = [] \<rparr>)"
proof -
  let ?v = "\<lparr> sv_model = Some sample_root, sv_seriesLoaded = True, sv_commits = Some (Some [], 1), sv_notes = [] \<rparr>"
  let ?V = "(sample_services sample_root)\<lparr> av_release := (\<lambda>s b v. Inr (Version [1, 0, 0])) \<rparr>"
  let ?s = "\<lparr> src_id = ''g'', src_path = ''p'' \<rparr>"
  let ?sha = "replicate 40 CHR ''a''"
  let ?c = "\<lparr> ac_sha = ?sha, ac_committer = ''c'', ac_timestamp = None, ac_message = ''m'' \<rparr>"
  have sha: "is_sha ?sha" by code_simp
  have open_window: "sv_commits ?v = Some (Some [], 1)" by simp
  have request: "release_request ?s ?v ?c = Some (ReleaseRequest ?s 1 ?sha)" by (simp add: release_request_def)
  have branch: "res_bind (av_model ?V ?s) (\<lambda>model. findBranch model 1 None) = Inr (Some \<lparr> e_ref = BranchRef ''master'', e_sha = ?sha \<rparr>)"
    using sha by (simp add: sample_services_def sample_root_def findBranch_def)
  have result: "release_result ?V ?s ?sha \<lparr> e_ref = BranchRef ''master'', e_sha = ?sha \<rparr> = Inr (Version [1, 0, 0], sample_root)"
    using sha by (simp add: release_result_def branch_withSha_def sha_create_def sample_services_def)
  from view_after_release [OF open_window request refl, of ?V] show ?thesis
    unfolding branch by (auto simp: result simp del: api_handle.simps)
qed

section \<open>Editing the actions of labels\<close>

lemma upserted_labels:
  "set (ba_labels (onUpsertLabel label a automation)) =
     insert \<lparr> la_id = label, la_action = a \<rparr> {l \<in> set (ba_labels automation). la_id l \<noteq> label}"
  by (auto simp: onUpsertLabel_def Let_def list_ex_iff)

lemma deleted_labels: "set (ba_labels (onDeleteLabel label automation)) = {l \<in> set (ba_labels automation). la_id l \<noteq> label}"
  by (auto simp: onDeleteLabel_def)

lemma configured_set:
  "System_Config.configured cas l =
    (if l = DEFAULT_TOOL_LABEL \<and> {ca \<in> set cas. la_id ca = l} = {} then {Merge} else la_action ` {ca \<in> set cas. la_id ca = l})"
  by (auto simp: System_Config.configured_def Let_def)

lemma configured_upserted:
  "System_Config.configured (ba_labels (onUpsertLabel label a automation)) l =
     (if l = label then {a} else System_Config.configured (ba_labels automation) l)"
proof (cases "l = label")
  case True
  then have "{ca \<in> set (ba_labels (onUpsertLabel label a automation)). la_id ca = l} = {\<lparr> la_id = label, la_action = a \<rparr>}"
    by (auto simp: upserted_labels)
  with True show ?thesis by (simp add: configured_set)
next
  case False
  then have "{ca \<in> set (ba_labels (onUpsertLabel label a automation)). la_id ca = l} = {ca \<in> set (ba_labels automation). la_id ca = l}"
    by (auto simp: upserted_labels)
  note same = this
  from False show ?thesis unfolding configured_set same by simp
qed

lemma configured_deleted:
  "System_Config.configured (ba_labels (onDeleteLabel label automation)) l =
     (if l = label then (if label = DEFAULT_TOOL_LABEL then {Merge} else {}) else System_Config.configured (ba_labels automation) l)"
proof -
  have "{ca \<in> set (ba_labels (onDeleteLabel label automation)). la_id ca = l} =
      (if l = label then {} else {ca \<in> set (ba_labels automation). la_id ca = l})"
    by (auto simp: deleted_labels)
  note same = this
  show ?thesis
  proof (cases "l = label")
    case True
    then show ?thesis unfolding configured_set same by simp
  next
    case False
    show ?thesis unfolding configured_set same if_not_P [OF False] ..
  qed
qed

lemma success_action_strongest:
  "success_action config (Some given) =
     (let actions = (\<Union>l \<in> set given. System_Config.configured (ba_labels (rc_buildAutomation config)) l)
      in if actions = {} then ba_default (rc_buildAutomation config) else Max actions)"
proof (cases "calculateAction given (ba_labels (rc_buildAutomation config))")
  case None
  with calculateAction_is_strongest [of given "ba_labels (rc_buildAutomation config)"] show ?thesis
    by (simp add: success_action_def Let_def)
next
  case (Some a)
  with calculateAction_is_strongest [of given "ba_labels (rc_buildAutomation config)" a]
  have a: "a \<in> (\<Union>l \<in> set given. System_Config.configured (ba_labels (rc_buildAutomation config)) l)"
    "\<And>b. b \<in> (\<Union>l \<in> set given. System_Config.configured (ba_labels (rc_buildAutomation config)) l) \<Longrightarrow> b \<le> a" by blast+
  have "finite (\<Union>l \<in> set given. System_Config.configured (ba_labels (rc_buildAutomation config)) l)"
    by (simp add: configured_set)
  from Max_eqI [OF this a(2,1)] a(1) Some show ?thesis by (auto simp: success_action_def Let_def)
qed

text \<open>C40
  What the page edits decides what the build system does with a change: after a label was entered with an
  action, the action taken after the success of a change is the strongest of this one, if the change has the label,
  and of those for its other labels, which are as before; after a label was deleted it is the strongest of those for the
  other labels, and of merging if the deleted label is that of the build tools and the change has it. Without any the
  default of the repository is taken. Entering a label makes no second entry for it.
\<close>

theorem edited_actions_are_taken:
  "let others = (\<Union>l \<in> set given - {label}. System_Config.configured (ba_labels automation) l);
       chosen = (\<lambda>actions. if actions = {} then ba_default automation else Max actions)
   in success_action (config \<lparr> rc_buildAutomation := onUpsertLabel label a automation \<rparr>) (Some given) =
        chosen ((if label \<in> set given then {a} else {}) \<union> others) \<and>
      success_action (config \<lparr> rc_buildAutomation := onDeleteLabel label automation \<rparr>) (Some given) =
        chosen ((if label \<in> set given \<and> label = DEFAULT_TOOL_LABEL then {Merge} else {}) \<union> others) \<and>
      map la_id (ba_labels (onUpsertLabel label a automation)) =
        map la_id (ba_labels automation) @ (if label \<in> la_id ` set (ba_labels automation) then [] else [label])"
proof -
  let ?others = "\<Union>l \<in> set given - {label}. System_Config.configured (ba_labels automation) l"
  have up: "(\<Union>l \<in> set given. System_Config.configured (ba_labels (onUpsertLabel label a automation)) l) =
      (if label \<in> set given then {a} else {}) \<union> ?others"
    unfolding configured_upserted by auto
  have down: "(\<Union>l \<in> set given. System_Config.configured (ba_labels (onDeleteLabel label automation)) l) =
      (if label \<in> set given \<and> label = DEFAULT_TOOL_LABEL then {Merge} else {}) \<union> ?others"
    unfolding configured_deleted by (auto split: if_splits)
  have default: "ba_default (onUpsertLabel label a automation) = ba_default automation"
    "ba_default (onDeleteLabel label automation) = ba_default automation"
    by (simp_all add: onUpsertLabel_def onDeleteLabel_def Let_def)
  have "map la_id (map (\<lambda>l. if la_id l = label then \<lparr> la_id = label, la_action = a \<rparr> else l) ls) = map la_id ls" for ls
    by (induction ls) auto
  then have "map la_id (ba_labels (onUpsertLabel label a automation)) =
     map la_id (ba_labels automation) @ (if label \<in> la_id ` set (ba_labels automation) then [] else [label])"
    by (auto simp: onUpsertLabel_def Let_def list_ex_iff)
  moreover have "rc_buildAutomation (config \<lparr> rc_buildAutomation := x \<rparr>) = x" for x by simp
  ultimately show ?thesis by (simp only: Let_def success_action_strongest up down default simp_thms)
qed

section \<open>Further facts\<close>

text \<open>Commits that cannot be read open a window that cannot be drawn.\<close>

lemma unreadable_commits_break_the_view:
  assumes "av_model V s = Inl e" and "sv_model v = Some m" and "sv_seriesLoaded v"
  shows "\<not> state_draws (state_onCommits mj (Some (snd (api_handle V (UnreleasedCommitsRequest s mj)))) v)"
  using assms by (simp add: post_unreleased_commits_def state_onCommits_def view_defs state_draws_def state_isLoading_def)

text \<open>A row always offers a release or the branch for one, unless there is nothing to release.\<close>

lemma row_without_buttons:
  "row_buttons c = [] \<longleftrightarrow>
     (case c of
        Top_Main m \<Rightarrow> release_disabled c (Some (mb_sha (main_main m)))
      | Top_Major m \<Rightarrow> truthy (maj_branch m) \<and> map_option rel_sha (last_release c) = maj_branch m)"
  by (auto simp: row_buttons_def release_disabled_def split: top_container.splits option.splits)

lemma proposed_value_is_new: "proposed_value vs \<notin> set vs"
proof
  assume a: "proposed_value vs \<in> set vs"
  then have "vs \<noteq> []" by auto
  moreover have "proposed_value vs \<le> Max (set vs)" using a by (intro Max_ge) auto
  ultimately show False by (simp add: proposed_value_def)
qed

end
