(* ===== verification/Startup.thy ===== *)
theory Startup
  imports Secrets Services Event_Stream Local_Git System_Config
begin

text \<open>
  The start of the program, \<open>backend/src/index.ts\<close>: the settings it reads from the environment
  (\<open>backend/src/utils/env.ts\<close>, \<open>backend/src/redis/redis-factory.ts\<close>), the services it registers for the
  shutdown, the listeners it starts, and the factories that keep one object for a remote
  (\<open>artifact-storage/artifactory/artifactory-factory.ts\<close>,
  \<open>artifact-storage/docker/artifactory-docker-registry-factory.ts\<close>). The construction of the other
  objects has no effect and is left out.
\<close>

section \<open>The environment\<close>

type_synonym environment = "string \<Rightarrow> string option"

definition getRequiredString :: "environment \<Rightarrow> string \<Rightarrow> string res" where
  "getRequiredString env name =
     (let value = (if truthy (env name) then map_option trim (env name) else env name) in
      if truthy value then Inr (the value)
      else Inl (Error (''Required environment variable '' @ [CHR 0x27] @ name @ [CHR 0x27] @ '' is missing.'')))"

record redis_config =
  rc_host :: string
  rc_user :: "string option"
  rc_password :: "string option"
  rc_port :: "int option"

definition redis_config_toString :: "redis_config \<Rightarrow> string" where
  "redis_config_toString c =
     ''Redis host:'' @ rc_host c @ '' user:'' @ or_else (rc_user c) ''undefined'' @
     '' password:'' @ (if truthy (rc_password c) then ''*****'' else ''undefined'') @
     '' user:'' @ (case rc_port c of Some n \<Rightarrow> if n = 0 then ''undefined'' else show_int n | None \<Rightarrow> ''undefined'')"

text \<open>\<open>parseInt(text || "") || undefined\<close>.\<close>

definition port_of :: "string option \<Rightarrow> int option" where
  "port_of text = (case parse_int (or_else text []) of Some n \<Rightarrow> if n = 0 then None else Some n | None \<Rightarrow> None)"

definition read_redis_config :: "environment \<Rightarrow> redis_config res" where
  "read_redis_config env =
     res_bind (getRequiredString env ''REDIS_HOST'') (\<lambda>host.
       Inr \<lparr> rc_host = host, rc_user = env ''REDIS_USER'', rc_password = env ''REDIS_PASSWORD'',
             rc_port = port_of (env ''REDIS_PORT'') \<rparr>)"

definition required_variable :: "environment \<Rightarrow> string \<Rightarrow> string res" where
  "required_variable env name = (if truthy (env name) then Inr (the (env name)) else Inl (Error (''Missing EnvVar: '' @ name)))"

section \<open>The order of the start\<close>

text \<open>
  An action is what the start does to the rest of the world: a service is registered with its name
  and priority, the server is emptied, repositories are made active, the port is opened, a listener
  connects as a user to the repositories it is limited to, or a rejection is not handled.
\<close>

datatype startup_action =
    ConnectRedis redis_config
  | RegisterService string int
  | FlushAll
  | AddActive "source list"
  | Listen int
  | StartListener string string string "string list option"
  | Unhandled error

text \<open>A line of the file for development; the code takes a line without a colon with an undefined path.\<close>

definition dev_source :: "string \<Rightarrow> source res" where
  "dev_source line =
     (case split '':'' line of
        gerrit # path # rest \<Rightarrow> Inr \<lparr> src_id = gerrit, src_path = path \<rparr>
      | _ \<Rightarrow> Inl (Error ''no path''))"

definition dev_sources :: "json \<Rightarrow> source list res" where
  "dev_sources devFile =
     res_bind (js_get (Some devFile) ''repositories'') (\<lambda>v. res_bind (as_strings v) (res_mapM dev_source))"

text \<open>The parsed file, if it exists, is a parameter. The repositories are those the listeners are limited to.\<close>

definition start_dev :: "(string \<Rightarrow> json option) \<Rightarrow> environment \<Rightarrow> startup_action list \<times> source list option res" where
  "start_dev devFiles env =
     (if truthy (env ''CB_DEV'') then
        (case devFiles (''dev-'' @ the (env ''CB_DEV'') @ ''.yaml'') of
           None \<Rightarrow> ([FlushAll], Inr None)
         | Some devFile \<Rightarrow>
             (case dev_sources devFile of
                Inl e \<Rightarrow> ([FlushAll], Inl e)
              | Inr repositories \<Rightarrow> ([FlushAll, AddActive repositories], Inr (Some repositories))))
      else ([], Inr None))"

definition redis_service :: startup_action where
  "redis_service = RegisterService ''RedisFactory'' 100"

definition executor_service :: startup_action where
  "executor_service = RegisterService ''Cynosure Job Executor'' 20"

definition server_service :: startup_action where
  "server_service = RegisterService ''Http server'' 1"

definition listener_name :: "string \<Rightarrow> string" where
  "listener_name i = ''GerritStreamListener - '' @ i"

definition start_system :: "(string \<Rightarrow> json option) \<Rightarrow> environment \<Rightarrow> int \<Rightarrow> startup_action list \<times> source list option res" where
  "start_system devFiles env port =
     (case res_bind (getRequiredString env ''APP_NODE_ID'') (\<lambda>nodeID. read_redis_config env) of
        Inl e \<Rightarrow> ([], Inl e)
      | Inr redisConfig \<Rightarrow>
          (let connected = [ConnectRedis redisConfig, redis_service] in
           case res_bind (required_variable env ''SYSTEM_ID'') (\<lambda>systemId. required_variable env ''FRONTEND_URL'') of
             Inl e \<Rightarrow> (connected, Inl e)
           | Inr frontEndUrl \<Rightarrow>
               (case start_dev devFiles env of
                  (dev, Inl e) \<Rightarrow> (connected @ dev, Inl e)
                | (dev, Inr preload) \<Rightarrow> (connected @ dev @ [executor_service, Listen port, server_service], Inr preload))))"

text \<open>
  The secret of a service is asked for, and its listener starts when the answer arrives. The answers
  are in the order in which they arrive.
\<close>

definition protected_projects :: "source list option \<Rightarrow> string \<Rightarrow> string list option" where
  "protected_projects preload i = map_option (\<lambda>rs. map src_path (filter (\<lambda>r. src_id r = i) rs)) preload"

fun start_listener :: "source list option \<Rightarrow> source_service \<times> string res \<Rightarrow> startup_action list" where
  "start_listener preload (GerritSourceService i ssh https cyn, secret) =
     (case res_bind secret splitUserSecret of
        Inl e \<Rightarrow> [Unhandled e]
      | Inr (user, key) \<Rightarrow>
          [RegisterService (listener_name i) 10, StartListener i user key (protected_projects preload i)])"
| "start_listener preload (GitlabSourceService i https, secret) = []"

definition listener_secret :: "source_service \<Rightarrow> string" where
  "listener_secret s = ''csp/common-build/ssh-'' @ ss_ssh s"

definition start_listeners :: "source list option \<Rightarrow> (source_service \<times> string res) list \<Rightarrow> startup_action list" where
  "start_listeners preload answers = concat (map (start_listener preload) answers)"

section \<open>The configuration file\<close>

text \<open>
  \<open>backend/src/config/config-factory.ts\<close>: the file is read, its markers are replaced, and an object is made of it.
  Reading of yaml and the object mapper are parameters, and \<open>first\<close> tells which of several missing values is told.
  Nothing is started before that.
\<close>

definition createConfig :: "(error list \<Rightarrow> error) \<Rightarrow> (string \<Rightarrow> json res) \<Rightarrow> (json \<Rightarrow> 'c res) \<Rightarrow> string \<Rightarrow> substitutor list \<Rightarrow> 'c res" where
  "createConfig first readYaml toInstance file substitutors =
     res_bind (readYaml file) (\<lambda>obj. res_bind (settled first (substitute substitutors obj)) toInstance)"

definition start_program ::
    "(error list \<Rightarrow> error) \<Rightarrow> (string \<Rightarrow> json res) \<Rightarrow> (json \<Rightarrow> 'c res) \<Rightarrow> (string \<Rightarrow> string res) \<Rightarrow> (string \<Rightarrow> string res) \<Rightarrow>
     (string \<Rightarrow> json option) \<Rightarrow> environment \<Rightarrow> string \<Rightarrow> int \<Rightarrow> startup_action list \<times> source list option res" where
  "start_program first readYaml toInstance secret readFile devFiles env file port =
     (case createConfig first readYaml toInstance file [vault_substitutor secret, file_substitutor readFile, env_substitutor env] of
        Inl e \<Rightarrow> ([], Inl e)
      | Inr config \<Rightarrow> start_system devFiles env port)"

text \<open>A port is opened only after everything the program needs was there.\<close>

lemma listens_when_complete:
  assumes "start_program first readYaml toInstance secret readFile devFiles env file port = (acts, r)" and "Listen p \<in> set acts"
  shows "p = port \<and> (\<exists>preload. r = Inr preload) \<and>
    (\<exists>config. createConfig first readYaml toInstance file [vault_substitutor secret, file_substitutor readFile, env_substitutor env] = Inr config) \<and>
    truthy (env ''APP_NODE_ID'') \<and> truthy (env ''REDIS_HOST'') \<and> truthy (env ''SYSTEM_ID'') \<and> truthy (env ''FRONTEND_URL'')"
proof -
  have required: "truthy (env n)" if "getRequiredString env n = Inr x" for n x
    using that by (auto simp: getRequiredString_def Let_def split: if_splits)
  from assms obtain config where config: "createConfig first readYaml toInstance file [vault_substitutor secret, file_substitutor readFile, env_substitutor env] = Inr config"
    and start: "start_system devFiles env port = (acts, r)"
    by (auto simp: start_program_def split: sum.splits)
  from start assms(2) obtain i h c s f where "getRequiredString env ''APP_NODE_ID'' = Inr i" "getRequiredString env ''REDIS_HOST'' = Inr h"
    "required_variable env ''SYSTEM_ID'' = Inr s" "required_variable env ''FRONTEND_URL'' = Inr f" "p = port" "\<exists>preload. r = Inr preload"
    by (auto simp: start_system_def read_redis_config_def start_dev_def redis_service_def executor_service_def server_service_def res_bind_eq_Inr Let_def
        split: sum.splits prod.splits if_splits option.splits)
  with required config show ?thesis by (auto simp: required_variable_def split: if_splits)
qed

section \<open>Shutting down what was started\<close>

text \<open>The services of a run, with what their shutdown does as a parameter.\<close>

fun registered :: "startup_action \<Rightarrow> (string \<times> int) list" where
  "registered (RegisterService name prio) = [(name, prio)]"
| "registered a = []"

definition started_service :: "(string \<Rightarrow> 'h \<Rightarrow> shutdown_end \<times> 'h) \<Rightarrow> string \<times> int \<Rightarrow> 'h shutdown_service" where
  "started_service stop s = \<lparr> sv_serviceName = fst s, sv_shutdownPriority = snd s, sv_shutdown = stop (fst s) \<rparr>"

definition register_actions ::
    "(string \<Rightarrow> 'h \<Rightarrow> shutdown_end \<times> 'h) \<Rightarrow> startup_action list \<Rightarrow> 'h shutdown_manager \<Rightarrow> 'h shutdown_manager" where
  "register_actions stop acts m = fold (\<lambda>s. register_service (started_service stop s)) (concat (map registered acts)) m"

text \<open>The services are told to stop one after the other; the log has their names.\<close>

definition told :: "(string \<Rightarrow> shutdown_end) \<Rightarrow> string \<Rightarrow> string list \<Rightarrow> shutdown_end \<times> string list" where
  "told ends name log = (ends name, log @ [name])"

lemma register_all: "sm_services (fold register_service ss m) = sm_services m @ ss \<and> sm_shutdownCount (fold register_service ss m) = sm_shutdownCount m"
  by (induction ss arbitrary: m) (auto simp: register_service_def)

lemma register_actions_services:
  "sm_services (register_actions stop acts m) = sm_services m @ map (started_service stop) (concat (map registered acts))"
  "sm_shutdownCount (register_actions stop acts m) = sm_shutdownCount m"
  using register_all [of "map (started_service stop) (concat (map registered acts))" m]
  by (simp_all add: register_actions_def fold_map comp_def)

lemma insort_last: "\<forall>x \<in> set xs. f x < f a \<Longrightarrow> insort_key f a xs = xs @ [a]"
  by (induction xs) auto

lemma start_system_registers:
  assumes "start_system devFiles env port = (acts, Inr preload)"
  shows "concat (map registered acts) = [(''RedisFactory'', 100), (''Cynosure Job Executor'', 20), (''Http server'', 1)]"
  using assms
  by (auto simp: start_system_def start_dev_def Let_def redis_service_def executor_service_def server_service_def
      split: sum.splits prod.splits if_splits option.splits)

definition listener_services :: "(source_service \<times> string res) list \<Rightarrow> string list" where
  "listener_services answers =
     concat (map (\<lambda>a. case a of (GerritSourceService i ssh https cyn, secret) \<Rightarrow>
       (case res_bind secret splitUserSecret of Inl e \<Rightarrow> [] | Inr c \<Rightarrow> [listener_name i]) | _ \<Rightarrow> []) answers)"

lemma start_listeners_registers:
  "concat (map registered (start_listeners preload answers)) = map (\<lambda>n. (n, 10)) (listener_services answers)"
proof (induction answers)
  case (Cons a answers)
  have "concat (map registered (start_listener preload a)) = map (\<lambda>n. (n, 10)) (listener_services [a])"
    by (cases "(preload, a)" rule: start_listener.cases) (auto simp: listener_services_def split: sum.split prod.split)
  with Cons show ?case by (simp add: start_listeners_def listener_services_def)
qed (simp add: start_listeners_def listener_services_def)

lemma sorted_services:
  fixes stop :: "string \<Rightarrow> 'h \<Rightarrow> shutdown_end \<times> 'h"
  defines "sv \<equiv> started_service stop"
  shows "sort_key sv_shutdownPriority (map sv ([(''RedisFactory'', 100), (''Cynosure Job Executor'', 20), (''Http server'', 1)] @ map (\<lambda>n. (n, 10)) ns)) =
    map sv ([(''Http server'', 1)] @ map (\<lambda>n. (n, 10)) ns @ [(''Cynosure Job Executor'', 20), (''RedisFactory'', 100)])"
proof -
  let ?ls = "map sv (map (\<lambda>n. (n, 10)) ns)"
  have p [simp]: "sv_shutdownPriority (sv s) = snd s" for s by (simp add: sv_def started_service_def)
  have "sort_key sv_shutdownPriority ?ls = ?ls" by (rule sort_key_id_if_sorted) (simp add: comp_def sorted_iff_nth_mono)
  moreover have "insort_key sv_shutdownPriority (sv (''Http server'', 1)) ?ls = sv (''Http server'', 1) # ?ls"
    by (rule insort_is_Cons) auto
  moreover have "insort_key sv_shutdownPriority (sv (''Cynosure Job Executor'', 20)) (sv (''Http server'', 1) # ?ls) =
      (sv (''Http server'', 1) # ?ls) @ [sv (''Cynosure Job Executor'', 20)]"
    by (rule insort_last) auto
  moreover have "insort_key sv_shutdownPriority (sv (''RedisFactory'', 100)) ((sv (''Http server'', 1) # ?ls) @ [sv (''Cynosure Job Executor'', 20)]) =
      ((sv (''Http server'', 1) # ?ls) @ [sv (''Cynosure Job Executor'', 20)]) @ [sv (''RedisFactory'', 100)]"
    by (rule insort_last) auto
  ultimately show ?thesis by simp
qed

lemma told_all:
  "fold (\<lambda>s h. snd (sv_shutdown s h)) (map (started_service (told ends)) ss) log = log @ map fst ss"
  by (induction ss arbitrary: log) (simp_all add: started_service_def told_def)

text \<open>
  When the program has started and the answers for its listeners have arrived, in any order, the
  shutdown stops first the port, then the listeners, so that no request and no event comes in any
  more, then the executor, and the connection to the key-value server, which all others use, last;
  this whether the services end or reject. Another call stops nothing again.
\<close>

theorem services_stop_in_order:
  assumes "start_system devFiles env port = (acts, Inr preload)"
    and "\<forall>n. \<forall>e. ends n \<noteq> ShutdownThrown e"
    and "m = register_actions (told ends) (acts @ start_listeners preload answers) shutdown_manager_new"
  shows "shutdownAll m [] = (Inr (), m \<lparr> sm_shutdownCount := 1 \<rparr>,
      ''Http server'' # listener_services answers @ [''Cynosure Job Executor'', ''RedisFactory''])"
    and "shutdownAll (m \<lparr> sm_shutdownCount := 1 \<rparr>) log = (Inr (), m \<lparr> sm_shutdownCount := 2 \<rparr>, log)"
proof -
  let ?all = "[(''RedisFactory'', 100), (''Cynosure Job Executor'', 20), (''Http server'', 1)] @ map (\<lambda>n. (n, 10)) (listener_services answers)"
  let ?order = "[(''Http server'', 1 :: int)] @ map (\<lambda>n. (n, 10)) (listener_services answers) @ [(''Cynosure Job Executor'', 20), (''RedisFactory'', 100)]"
  have services: "sm_services m = map (started_service (told ends)) ?all" "sm_shutdownCount m = 0"
    using assms(3) start_system_registers [OF assms(1)] start_listeners_registers [of preload answers]
    by (simp_all add: register_actions_services shutdown_manager_new_def)
  have ok: "list_all (\<lambda>s. \<not> throws s) (map (started_service (told ends)) ?order)"
    using assms(2) by (auto simp: list_all_iff throws_def started_service_def told_def)
  have sorted: "sort_key sv_shutdownPriority (sm_services m) = map (started_service (told ends)) ?order"
    unfolding services(1) by (rule sorted_services)
  have "shutdown_services (map (started_service (told ends)) ?order) [] = (Inr (), map fst ?order)"
    unfolding shutdown_services_all [OF ok] told_all by simp
  moreover have "map fst ?order = ''Http server'' # listener_services answers @ [''Cynosure Job Executor'', ''RedisFactory'']"
    by (simp add: comp_def)
  ultimately show "shutdownAll m [] = (Inr (), m \<lparr> sm_shutdownCount := 1 \<rparr>,
      ''Http server'' # listener_services answers @ [''Cynosure Job Executor'', ''RedisFactory''])"
    by (simp add: shutdownAll_def Let_def services(2) sorted del: list.map map_append)
  show "shutdownAll (m \<lparr> sm_shutdownCount := 1 \<rparr>) log = (Inr (), m \<lparr> sm_shutdownCount := 2 \<rparr>, log)"
    by (simp add: shutdownAll_def Let_def)
qed

text \<open>
  A listener whose secret arrives after the shutdown has begun is registered and started, and no
  later call stops it.
\<close>

lemma late_listener_is_not_stopped:
  "sm_shutdownCount m \<noteq> 0 \<Longrightarrow>
   shutdownAll (register_actions stop (start_listeners preload answers) m) h =
     (Inr (), register_actions stop (start_listeners preload answers) m \<lparr> sm_shutdownCount := sm_shutdownCount m + 1 \<rparr>, h)"
  by (simp add: shutdownAll_def Let_def register_actions_services)

text \<open>A listener is limited to the repositories of its service in the file for development.\<close>

lemma listener_is_limited:
  assumes "StartListener i user key limited \<in> set (start_listeners preload answers)"
  shows "isProjectActive \<lparr> st_id = i, st_limited = limited \<rparr> path \<longleftrightarrow>
    (case preload of None \<Rightarrow> True | Some rs \<Rightarrow> \<lparr> src_id = i, src_path = path \<rparr> \<in> set rs)"
proof -
  have eq: "r = \<lparr> src_id = src_id r, src_path = src_path r \<rparr>" for r :: source by simp
  obtain a where "StartListener i user key limited \<in> set (start_listener preload a)"
    using assms by (auto simp: start_listeners_def)
  then have "limited = protected_projects preload i"
    by (cases "(preload, a)" rule: start_listener.cases) (auto split: sum.splits prod.splits)
  then show ?thesis
    by (auto simp: isProjectActive_def protected_projects_def image_iff split: option.split) (metis eq)+
qed

section \<open>Factories\<close>

definition artifactory_get :: "(string \<Rightarrow> 'a) \<Rightarrow> string \<Rightarrow> (string \<rightharpoonup> 'a) \<Rightarrow> 'a \<times> (string \<rightharpoonup> 'a)" where
  "artifactory_get create remote cache =
     (case cache remote of
        Some existing \<Rightarrow> (existing, cache)
      | None \<Rightarrow> (let artifactory = create remote in (artifactory, cache(remote \<mapsto> artifactory))))"

definition docker_registry_get ::
    "docker_registry list \<Rightarrow> (docker_registry \<Rightarrow> 'a) \<Rightarrow> string \<Rightarrow> (string \<rightharpoonup> 'a) \<Rightarrow> 'a option \<times> (string \<rightharpoonup> 'a)" where
  "docker_registry_get configs create remote cache =
     (case cache remote of
        Some existing \<Rightarrow> (Some existing, cache)
      | None \<Rightarrow>
          (case List.find (\<lambda>config. dr_host config = remote) configs of
             Some config \<Rightarrow> (let registry = create config in (Some registry, cache(remote \<mapsto> registry)))
           | None \<Rightarrow> (None, cache)))"

text \<open>A factory answers as if it had no cache, and goes on doing so.\<close>

definition created_by :: "(string \<Rightarrow> 'a option) \<Rightarrow> (string \<rightharpoonup> 'a) \<Rightarrow> bool" where
  "created_by f cache \<longleftrightarrow> (\<forall>remote. cache remote = None \<or> cache remote = f remote)"

lemma created_by_update: "created_by f cache \<Longrightarrow> f remote = Some x \<Longrightarrow> created_by f (cache(remote \<mapsto> x))"
  by (auto simp: created_by_def)

lemma artifactory_get_creates:
  assumes "created_by (\<lambda>r. Some (create r)) cache"
  shows "fst (artifactory_get create remote cache) = create remote"
    and "created_by (\<lambda>r. Some (create r)) (snd (artifactory_get create remote cache))"
proof -
  have "cache remote = None \<or> cache remote = Some (create remote)" using assms by (simp add: created_by_def)
  then show "fst (artifactory_get create remote cache) = create remote"
    and "created_by (\<lambda>r. Some (create r)) (snd (artifactory_get create remote cache))"
    using assms created_by_update [OF assms, of remote "create remote"] by (auto simp: artifactory_get_def Let_def)
qed

lemma docker_registry_get_finds:
  assumes "created_by (\<lambda>r. map_option create (List.find (\<lambda>config. dr_host config = r) configs)) cache"
  shows "fst (docker_registry_get configs create remote cache) = map_option create (List.find (\<lambda>config. dr_host config = remote) configs)"
    and "created_by (\<lambda>r. map_option create (List.find (\<lambda>config. dr_host config = r) configs))
      (snd (docker_registry_get configs create remote cache))"
proof -
  let ?f = "\<lambda>r. map_option create (List.find (\<lambda>config. dr_host config = r) configs)"
  have "cache remote = None \<or> cache remote = ?f remote" using assms by (simp add: created_by_def)
  then show "fst (docker_registry_get configs create remote cache) = ?f remote"
    and "created_by ?f (snd (docker_registry_get configs create remote cache))"
    using assms created_by_update [OF assms, of remote] by (auto simp: docker_registry_get_def Let_def split: option.splits)
qed

end
