(* ===== verification/Utilities.thy ===== *)
theory Utilities
  imports Json "HOL-Library.AList" "HOL-Library.Multiset" "HOL-Library.List_Lexorder" "HOL-Library.Char_ord"
begin

text \<open>
  Helpers of the services: the order in which configuration files are written
  (\<open>backend/src/utils/structured-yaml.ts\<close>), maps in JSON (\<open>backend/src/utils/json-utils.ts\<close>) and the
  result of a transaction (\<open>backend/src/redis/redis-utils.ts\<close>), and asking again until there is a result
  (\<open>backend/src/utils/retry-with-timeout.ts\<close>). Reading and printing yaml is a library;
  it sorts the entries of every map with the comparison that is given here.
\<close>

section \<open>The order of the entries of a file\<close>

definition key_order :: "string \<Rightarrow> int option" where
  "key_order = map_of
     [(''version'', 1), (''toolImage'', 2), (''build'', 3),
      (''type'', 1), (''secrets'', 2), (''nodes'', 3), (''commands'', 4),
      (''name'', 1), (''file'', 2), (''target'', 3), (''labels'', 4)]"

text \<open>What every object inherits is found in \<open>order\<close> as well; it is truthy and not a number.\<close>

definition inherited :: "string list" where
  "inherited =
     [''constructor'', ''__defineGetter__'', ''__defineSetter__'', ''hasOwnProperty'', ''__lookupGetter__'', ''__lookupSetter__'',
      ''isPrototypeOf'', ''propertyIsEnumerable'', ''toString'', ''valueOf'', ''__proto__'', ''toLocaleString'']"

datatype sort_rank = RankNumber int | RankInherited | RankNone

definition sort_rank :: "string \<Rightarrow> sort_rank" where
  "sort_rank k =
     (case key_order k of
        Some n \<Rightarrow> RankNumber n
      | None \<Rightarrow> if k \<in> set inherited then RankInherited else RankNone)"

definition MAX_SAFE_INTEGER :: int where
  "MAX_SAFE_INTEGER = 2 ^ 53 - 1"

text \<open>A difference that is not a number counts as zero.\<close>

definition sortMapEntries :: "string \<Rightarrow> string \<Rightarrow> int" where
  "sortMapEntries a b =
     (case (sort_rank a, sort_rank b) of
        (RankNone, RankNone) \<Rightarrow> if b < a then MAX_SAFE_INTEGER else if a < b then - MAX_SAFE_INTEGER else 0
      | (RankNone, _) \<Rightarrow> - MAX_SAFE_INTEGER
      | (_, RankNone) \<Rightarrow> MAX_SAFE_INTEGER
      | (RankNumber m, RankNumber n) \<Rightarrow> m - n
      | _ \<Rightarrow> 0)"

text \<open>The sorting of the language is stable.\<close>

fun insert_entry :: "string \<times> 'a \<Rightarrow> (string \<times> 'a) list \<Rightarrow> (string \<times> 'a) list" where
  "insert_entry e [] = [e]"
| "insert_entry e (f # fs) = (if sortMapEntries (fst e) (fst f) \<le> 0 then e # f # fs else f # insert_entry e fs)"

definition sort_entries :: "(string \<times> 'a) list \<Rightarrow> (string \<times> 'a) list" where
  "sort_entries es = foldr insert_entry es []"

text \<open>The comparison is that of keys of a linear order, unless a key is inherited.\<close>

definition sort_value :: "string \<Rightarrow> int \<times> string" where
  "sort_value k = (case sort_rank k of RankNumber n \<Rightarrow> (n, []) | _ \<Rightarrow> (0, k))"

definition entry_le :: "string \<Rightarrow> string \<Rightarrow> bool" where
  "entry_le a b \<longleftrightarrow> fst (sort_value a) < fst (sort_value b) \<or>
     (fst (sort_value a) = fst (sort_value b) \<and> snd (sort_value a) \<le> snd (sort_value b))"

lemma key_order_pos: "key_order k = Some n \<Longrightarrow> 0 < n"
  by (auto simp: key_order_def split: if_splits)

lemma sort_rank_cases:
  assumes "k \<notin> set inherited"
  obtains n where "sort_rank k = RankNumber n" "sort_value k = (n, [])" "0 < n" | "sort_rank k = RankNone" "sort_value k = (0, k)"
proof (cases "key_order k")
  case (Some n)
  with key_order_pos [OF Some] that(1) show thesis by (simp add: sort_rank_def sort_value_def)
next
  case None
  with assms that(2) show thesis by (simp add: sort_rank_def sort_value_def)
qed

lemma sortMapEntries_le:
  assumes "a \<notin> set inherited" and "b \<notin> set inherited"
  shows "sortMapEntries a b \<le> 0 \<longleftrightarrow> entry_le a b"
proof -
  have m: "0 < MAX_SAFE_INTEGER" by (simp add: MAX_SAFE_INTEGER_def)
  show ?thesis
    using assms by (elim sort_rank_cases) (use m in \<open>auto simp: sortMapEntries_def entry_le_def\<close>)
qed

lemma entry_le_order:
  "entry_le a a" "entry_le a b \<Longrightarrow> entry_le b c \<Longrightarrow> entry_le a c" "entry_le a b \<or> entry_le b a"
  by (auto simp: entry_le_def)

lemma insert_entry_mset: "mset (insert_entry e es) = add_mset e (mset es)"
  by (induction es) auto

lemma sort_entries_mset: "mset (sort_entries es) = mset es"
  by (induction es) (simp_all add: sort_entries_def insert_entry_mset)

definition entries_sorted :: "(string \<times> 'a) list \<Rightarrow> bool" where
  "entries_sorted es \<longleftrightarrow> sorted_wrt entry_le (map fst es)"

lemma insert_entry_sorted:
  assumes "entries_sorted es" and "fst ` set (e # es) \<inter> set inherited = {}"
  shows "entries_sorted (insert_entry e es)"
  using assms
proof (induction es)
  case (Cons f fs)
  have ok: "fst e \<notin> set inherited" "fst f \<notin> set inherited" using Cons.prems(2) by auto
  note le = sortMapEntries_le [OF ok]
  show ?case
  proof (cases "entry_le (fst e) (fst f)")
    case True
    with Cons.prems(1) le show ?thesis by (auto simp: entries_sorted_def intro: entry_le_order(2))
  next
    case False
    then have "entry_le (fst f) (fst e)" using entry_le_order(3) by blast
    moreover have "set (insert_entry e fs) = insert e (set fs)"
      by (metis insert_entry_mset set_mset_add_mset_insert set_mset_mset)
    moreover have "entries_sorted (insert_entry e fs)"
      using Cons.IH Cons.prems by (auto simp: entries_sorted_def)
    ultimately show ?thesis using False le Cons.prems(1) by (auto simp: entries_sorted_def)
  qed
qed (simp add: entries_sorted_def)

lemma sort_entries_sorted:
  "fst ` set es \<inter> set inherited = {} \<Longrightarrow> entries_sorted (sort_entries es)"
proof (induction es)
  case (Cons e es)
  have "set (sort_entries es) = set es" by (metis sort_entries_mset set_mset_mset)
  with Cons have "entries_sorted (insert_entry e (sort_entries es))" by (intro insert_entry_sorted) auto
  then show ?case by (simp add: sort_entries_def)
qed (simp add: sort_entries_def entries_sorted_def)

text \<open>Keys that compare as equal are two of the names with the same place.\<close>

definition same_place :: "string \<Rightarrow> string \<Rightarrow> bool" where
  "same_place a b \<longleftrightarrow> a \<noteq> b \<and> key_order a \<noteq> None \<and> key_order a = key_order b"

lemma entry_le_antisym:
  assumes "a \<notin> set inherited" and "b \<notin> set inherited" and "entry_le a b" and "entry_le b a" and "\<not> same_place a b"
  shows "a = b"
  using assms
  by (elim sort_rank_cases) (auto simp: entry_le_def same_place_def sort_rank_def split: option.splits if_splits)

lemma sorted_entries_unique:
  assumes "mset xs = mset ys" and "entries_sorted xs" and "entries_sorted ys"
    and "\<And>e f. e \<in> set xs \<Longrightarrow> f \<in> set xs \<Longrightarrow> entry_le (fst e) (fst f) \<Longrightarrow> entry_le (fst f) (fst e) \<Longrightarrow> e = f"
  shows "xs = ys"
  using assms
proof (induction xs arbitrary: ys)
  case (Cons x xs)
  have sets: "set ys = set (x # xs)" using Cons.prems(1) by (metis set_mset_mset)
  then obtain y ys' where ys: "ys = y # ys'" by (cases ys) auto
  have "y \<in> set (x # xs)" "x \<in> set ys" using sets ys by auto
  then have "entry_le (fst x) (fst y)" "entry_le (fst y) (fst x)"
    using Cons.prems(2,3) ys entry_le_order(1) by (auto simp: entries_sorted_def)
  then have "x = y" using Cons.prems(4) \<open>y \<in> set (x # xs)\<close> by simp
  with Cons ys show ?case by (simp add: entries_sorted_def)
qed simp

text \<open>
  A file is written in one order, whatever the order in which the entries of a map were read or
  set, as long as no two keys have the same place and no key is one that all objects inherit.
\<close>

theorem written_order_is_fixed:
  assumes "mset es = mset es'" and "distinct (map fst es)" and "fst ` set es \<inter> set inherited = {}"
    and "\<forall>a \<in> set es. \<forall>b \<in> set es. \<not> same_place (fst a) (fst b)"
  shows "sort_entries es = sort_entries es'"
proof (rule sorted_entries_unique)
  show "mset (sort_entries es) = mset (sort_entries es')" using assms(1) by (simp add: sort_entries_mset)
  have sets: "set es' = set es" "set (sort_entries es) = set es" using assms(1) by (metis sort_entries_mset set_mset_mset)+
  show "entries_sorted (sort_entries es)" "entries_sorted (sort_entries es')"
    using assms(3) sets by (simp_all add: sort_entries_sorted)
  fix e f assume "e \<in> set (sort_entries es)" "f \<in> set (sort_entries es)" "entry_le (fst e) (fst f)" "entry_le (fst f) (fst e)"
  with assms(3,4) sets have "e \<in> set es" "f \<in> set es" "fst e = fst f" by (auto intro!: entry_le_antisym)
  with assms(2) show "e = f" by (metis distinct_map inj_onD)
qed

text \<open>With an inherited key the comparison is no order: it ties with two keys that do not tie.\<close>

lemma inherited_key_ties:
  "sortMapEntries ''version'' ''constructor'' = 0" "sortMapEntries ''constructor'' ''toolImage'' = 0"
  "sortMapEntries ''version'' ''toolImage'' < 0"
  by (simp_all add: sortMapEntries_def sort_rank_def key_order_def inherited_def)

section \<open>Maps in JSON\<close>

text \<open>A value of the program: one of JSON, undefined, or a map with its entries in their order.\<close>

datatype js_value =
    JsUndefined | JsNull | JsBool bool | JsNum int | JsStr string
  | JsArr "js_value list" | JsObj "(string \<times> js_value) list" | JsMap "(js_value \<times> js_value) list"

text \<open>
  \<open>replacer\<close> is applied to every value before it is printed. An undefined value is left out of an
  object and null in an array.
\<close>

fun plain_json :: "js_value \<Rightarrow> json option" where
  "plain_json JsUndefined = None"
| "plain_json JsNull = Some JNull"
| "plain_json (JsBool b) = Some (JBool b)"
| "plain_json (JsNum n) = Some (JNum n)"
| "plain_json (JsStr s) = Some (JStr s)"
| "plain_json (JsArr vs) = Some (JArr (map (\<lambda>v. case plain_json v of Some j \<Rightarrow> j | None \<Rightarrow> JNull) vs))"
| "plain_json (JsObj fs) =
     Some (JObj (concat (map (\<lambda>(k, v). case plain_json v of Some j \<Rightarrow> [(k, j)] | None \<Rightarrow> []) fs)))"
| "plain_json (JsMap es) =
     Some (JObj [(''dataType'', JStr ''Map''),
       (''value'', JArr (map (\<lambda>(k, v). JArr [case plain_json k of Some j \<Rightarrow> j | None \<Rightarrow> JNull,
                                           case plain_json v of Some j \<Rightarrow> j | None \<Rightarrow> JNull]) es))])"

definition json_utils_stringify :: "js_value \<Rightarrow> string option" where
  "json_utils_stringify v = map_option stringify (plain_json v)"

text \<open>\<open>new Map(entries)\<close>: a key that is no object replaces an equal one, an object equals no other one.\<close>

fun is_primitive :: "js_value \<Rightarrow> bool" where
  "is_primitive (JsArr vs) = False"
| "is_primitive (JsObj fs) = False"
| "is_primitive (JsMap es) = False"
| "is_primitive v = True"

definition map_set :: "js_value \<Rightarrow> js_value \<Rightarrow> (js_value \<times> js_value) list \<Rightarrow> (js_value \<times> js_value) list" where
  "map_set k v es = (if is_primitive k then AList.update k v es else es @ [(k, v)])"

text \<open>The parts 0 and 1 of an entry; an entry has to be an object.\<close>

fun entry_part :: "string \<Rightarrow> nat \<Rightarrow> js_value \<Rightarrow> js_value" where
  "entry_part name i (JsArr vs) = (if i < length vs then vs ! i else JsUndefined)"
| "entry_part name i (JsObj fs) = (case map_of fs name of Some v \<Rightarrow> v | None \<Rightarrow> JsUndefined)"
| "entry_part name i v = JsUndefined"

fun map_entries :: "js_value list \<Rightarrow> (js_value \<times> js_value) list \<Rightarrow> (js_value \<times> js_value) list res" where
  "map_entries [] es = Inr es"
| "map_entries (e # rest) es =
     (if is_primitive e then Inl (Error ''TypeError: Iterator value is not an entry object'')
      else map_entries rest (map_set (entry_part ''0'' 0 e) (entry_part ''1'' 1 e) es))"

fun new_map :: "js_value option \<Rightarrow> js_value res" where
  "new_map None = Inr (JsMap [])"
| "new_map (Some JsNull) = Inr (JsMap [])"
| "new_map (Some (JsArr vs)) = res_bind (map_entries vs []) (\<lambda>es. Inr (JsMap es))"
| "new_map (Some (JsMap es)) = Inr (JsMap es)"
| "new_map (Some (JsStr s)) = (if s = [] then Inr (JsMap []) else Inl (Error ''TypeError: Iterator value is not an entry object''))"
| "new_map (Some v) = Inl (Error ''TypeError: object is not iterable'')"

definition revive_object :: "(string \<times> js_value) list \<Rightarrow> js_value res" where
  "revive_object fs = (if map_of fs ''dataType'' = Some (JsStr ''Map'') then new_map (map_of fs ''value'') else Inr (JsObj fs))"

text \<open>\<open>reviver\<close> is applied to every value after its parts.\<close>

lemma res_mapM_cong' [fundef_cong]:
  "xs = ys \<Longrightarrow> (\<And>x. x \<in> set ys \<Longrightarrow> f x = g x) \<Longrightarrow> res_mapM f xs = res_mapM g ys"
  by (induction ys arbitrary: xs) auto

fun revive :: "json \<Rightarrow> js_value res" where
  "revive JNull = Inr JsNull"
| "revive (JBool b) = Inr (JsBool b)"
| "revive (JNum n) = Inr (JsNum n)"
| "revive (JStr s) = Inr (JsStr s)"
| "revive (JArr vs) = res_bind (res_mapM revive vs) (\<lambda>us. Inr (JsArr us))"
| "revive (JObj fs) =
     res_bind (res_mapM (\<lambda>(k, v). res_bind (revive v) (\<lambda>u. Inr (k, u))) fs) revive_object"

definition json_utils_parse :: "string \<Rightarrow> js_value res" where
  "json_utils_parse s = (case json_parse s of Some v \<Rightarrow> revive v | None \<Rightarrow> Inl (Error ''SyntaxError''))"

text \<open>
  Values that are read back: nothing is undefined, no two fields and no two primitive keys are
  equal, and no object has the type of a map.
\<close>

fun js_ok :: "js_value \<Rightarrow> bool" where
  "js_ok JsUndefined \<longleftrightarrow> False"
| "js_ok (JsArr vs) \<longleftrightarrow> list_all js_ok vs"
| "js_ok (JsObj fs) \<longleftrightarrow> distinct (map fst fs) \<and> list_all (\<lambda>f. js_ok (snd f)) fs \<and> map_of fs ''dataType'' \<noteq> Some (JsStr ''Map'')"
| "js_ok (JsMap es) \<longleftrightarrow> distinct (filter is_primitive (map fst es)) \<and> list_all (\<lambda>e. js_ok (fst e) \<and> js_ok (snd e)) es"
| "js_ok v \<longleftrightarrow> True"

lemma map_entries_pairs:
  assumes "distinct (filter is_primitive (map fst (ds @ es)))"
  shows "map_entries (map (\<lambda>(k, v). JsArr [k, v]) es) ds = Inr (ds @ es)"
  using assms
proof (induction es arbitrary: ds)
  case (Cons e es)
  obtain k v where e: "e = (k, v)" by force
  have "map_set k v ds = ds @ [(k, v)]"
  proof (cases "is_primitive k")
    case True
    with Cons.prems e have "k \<notin> fst ` set ds" by auto
    then have "AList.update k v ds = ds @ [(k, v)]" by (induction ds) auto
    with True show ?thesis by (simp add: map_set_def)
  qed (simp add: map_set_def)
  with Cons.IH [of "ds @ [(k, v)]"] Cons.prems e show ?case by simp
qed simp

lemma concat_fields:
  "list_all (\<lambda>f. g (snd f) \<noteq> None) fs \<Longrightarrow>
   concat (map (\<lambda>(k, v). case g v of Some j \<Rightarrow> [(k, j)] | None \<Rightarrow> []) fs) = map (\<lambda>(k, v). (k, the (g v))) fs"
  by (induction fs) auto

lemma revive_plain: "js_ok v \<Longrightarrow> \<exists>j. plain_json v = Some j \<and> json_ok j \<and> revive j = Inr v"
proof (induction v)
  case (JsArr vs)
  then have "\<forall>v \<in> set vs. \<exists>j. plain_json v = Some j \<and> json_ok j \<and> revive j = Inr v" by (simp add: list_all_iff)
  then have "list_all json_ok (map (\<lambda>v. case plain_json v of Some j \<Rightarrow> j | None \<Rightarrow> JNull) vs) \<and>
      res_mapM revive (map (\<lambda>v. case plain_json v of Some j \<Rightarrow> j | None \<Rightarrow> JNull) vs) = Inr vs"
    by (induction vs) auto
  then show ?case by simp
next
  case (JsObj fs)
  then have all: "\<forall>f \<in> set fs. \<exists>j. plain_json (snd f) = Some j \<and> json_ok j \<and> revive j = Inr (snd f)"
    by (fastforce simp: list_all_iff intro: snds.intros)
  then have fields: "concat (map (\<lambda>(k, v). case plain_json v of Some j \<Rightarrow> [(k, j)] | None \<Rightarrow> []) fs) = map (\<lambda>(k, v). (k, the (plain_json v))) fs"
    by (intro concat_fields) (auto simp: list_all_iff)
  from all have "list_all (\<lambda>f. json_ok (snd f)) (map (\<lambda>(k, v). (k, the (plain_json v))) fs) \<and>
      res_mapM (\<lambda>(k, v). res_bind (revive v) (\<lambda>u. Inr (k, u))) (map (\<lambda>(k, v). (k, the (plain_json v))) fs) = Inr fs"
    by (induction fs) (auto split: prod.splits)
  with JsObj.prems show ?case by (simp add: fields revive_object_def comp_def case_prod_beta)
next
  case (JsMap es)
  let ?part = "\<lambda>v. case plain_json v of Some j \<Rightarrow> j | None \<Rightarrow> JNull"
  have all: "\<forall>e \<in> set es. json_ok (?part (fst e)) \<and> revive (?part (fst e)) = Inr (fst e) \<and>
      json_ok (?part (snd e)) \<and> revive (?part (snd e)) = Inr (snd e)"
  proof
    fix e assume e: "e \<in> set es"
    with JsMap.prems have "js_ok (fst e)" "js_ok (snd e)" by (auto simp: list_all_iff)
    moreover have "fst e \<in> Basic_BNFs.fsts e" "snd e \<in> Basic_BNFs.snds e" by (auto intro: fsts.intros snds.intros)
    ultimately show "json_ok (?part (fst e)) \<and> revive (?part (fst e)) = Inr (fst e) \<and>
        json_ok (?part (snd e)) \<and> revive (?part (snd e)) = Inr (snd e)"
      using JsMap.IH e by fastforce
  qed
  then have "list_all json_ok (map (\<lambda>(k, v). JArr [?part k, ?part v]) es) \<and>
      res_mapM revive (map (\<lambda>(k, v). JArr [?part k, ?part v]) es) = Inr (map (\<lambda>(k, v). JsArr [k, v]) es)"
    by (induction es) auto
  with JsMap.prems map_entries_pairs [of "[]" es] show ?case by (simp add: revive_object_def)
qed auto

theorem maps_are_read_back:
  assumes "js_ok v"
  shows "\<exists>s. json_utils_stringify v = Some s \<and> json_utils_parse s = Inr v"
  using revive_plain [OF assms] by (auto simp: json_utils_stringify_def json_utils_parse_def)

text \<open>An object with the type of a map comes back as a map, or not at all.\<close>

lemma map_type_is_taken:
  "json_utils_parse (stringify (JObj [(''dataType'', JStr ''Map'')])) = Inr (JsMap [])"
  "json_utils_parse (stringify (JObj [(''dataType'', JStr ''Map''), (''value'', JNum 1)])) = Inl (Error ''TypeError: object is not iterable'')"
  by (simp_all add: json_utils_parse_def revive_object_def)

section \<open>Transactions\<close>

text \<open>
  The result of a transaction is one of the server: rejected, nothing when a watched key has changed, or
  an error or a value for every command.
\<close>

definition executeMulti :: "(string option \<times> 'a) list option res \<Rightarrow> 'a list res" where
  "executeMulti exec =
     (case exec of
        Inl e \<Rightarrow> Inl (Error (''Redis TX error: '' @ error_toString e))
      | Inr None \<Rightarrow> Inr []
      | Inr (Some result) \<Rightarrow>
          (case List.find (\<lambda>i. fst (result ! i) \<noteq> None) [0..<length result] of
             Some errorIndex \<Rightarrow>
               Inl (Error (''Redis TX error: '' @ error_toString (Error
                 (''RedisError (op-index:'' @ show_nat errorIndex @ ''): '' @ the (fst (result ! errorIndex))))))
           | None \<Rightarrow> Inr (map snd result)))"

text \<open>A transaction that a watched key has stopped looks like one without commands.\<close>

lemma executeMulti_result:
  "executeMulti exec = Inr vs \<longleftrightarrow>
     (exec = Inr None \<and> vs = []) \<or> (\<exists>result. exec = Inr (Some result) \<and> list_all (\<lambda>e. fst e = None) result \<and> vs = map snd result)"
  by (auto simp: executeMulti_def list_all_length find_None_iff find_Some_iff split: sum.splits option.splits)

section \<open>Asking again\<close>

text \<open>
  After a first answer that is null, the function is asked again at every interval. An answer comes with the time at
  which it arrives; the promise is settled once, and the interval may be cleared or still run.
\<close>

datatype 'a poll_answer = PollValue 'a | PollNull | PollRejected error

record 'a poller =
  po_settled :: "'a res option"
  po_polling :: bool
  po_retryCount :: nat

definition settle :: "'a res \<Rightarrow> 'a poller \<Rightarrow> 'a poller" where
  "settle r p = (case po_settled p of None \<Rightarrow> p \<lparr> po_settled := Some r \<rparr> | Some x \<Rightarrow> p)"

definition poll_timeout :: "string \<Rightarrow> int \<Rightarrow> error" where
  "poll_timeout description timeout =
     Error (''Could not complete '' @ [CHR 0x22] @ description @ [CHR 0x22] @ '' in '' @ show_int timeout @ '' seconds.'')"

fun poll_answered :: "string \<Rightarrow> int \<Rightarrow> int \<Rightarrow> int \<times> 'a poll_answer \<Rightarrow> 'a poller \<Rightarrow> 'a poller" where
  "poll_answered description startTime timeout (now, PollValue x) p = settle (Inr x) (p \<lparr> po_polling := False \<rparr>)"
| "poll_answered description startTime timeout (now, PollNull) p =
     (let p' = p \<lparr> po_retryCount := po_retryCount p + 1 \<rparr> in
      if now - startTime > timeout * 1000 then settle (Inl (poll_timeout description timeout)) (p' \<lparr> po_polling := False \<rparr>) else p')"
| "poll_answered description startTime timeout (now, PollRejected e) p = settle (Inl e) p"

definition retryWithTimeout :: "string \<Rightarrow> int \<Rightarrow> int \<Rightarrow> 'a poll_answer \<Rightarrow> (int \<times> 'a poll_answer) list \<Rightarrow> 'a poller" where
  "retryWithTimeout description startTime timeout first answers =
     (case first of
        PollValue x \<Rightarrow> \<lparr> po_settled = Some (Inr x), po_polling = False, po_retryCount = 0 \<rparr>
      | PollRejected e \<Rightarrow> \<lparr> po_settled = Some (Inl e), po_polling = False, po_retryCount = 0 \<rparr>
      | PollNull \<Rightarrow> fold (poll_answered description startTime timeout) answers \<lparr> po_settled = None, po_polling = True, po_retryCount = 1 \<rparr>)"

lemma settled_stays: "po_settled p = Some r \<Longrightarrow> po_settled (fold (poll_answered d t0 t) answers p) = Some r"
proof (induction answers arbitrary: p)
  case (Cons a answers)
  have "po_settled (poll_answered d t0 t a p) = Some r"
    using Cons.prems by (cases "(d, t0, t, a, p)" rule: poll_answered.cases) (auto simp: settle_def Let_def)
  then show ?case using Cons.IH by simp
qed simp

text \<open>
  The first answer that is not null within the time decides, whatever comes after it; and when only null comes, the
  first answer after the time ends it with an error.
\<close>

theorem first_answer_decides:
  assumes "\<forall>a \<in> set early. snd a = PollNull \<and> fst a - startTime \<le> timeout * 1000"
  shows "po_settled (retryWithTimeout d startTime timeout PollNull (early @ (now, answer :: 'a poll_answer) # later)) =
    (case answer of
       PollValue x \<Rightarrow> Some (Inr x)
     | PollRejected e \<Rightarrow> Some (Inl e)
     | PollNull \<Rightarrow> if now - startTime > timeout * 1000 then Some (Inl (poll_timeout d timeout))
         else po_settled (retryWithTimeout d startTime timeout PollNull ((early @ [(now, PollNull)]) @ later)))"
proof -
  let ?p0 = "\<lparr> po_settled = None, po_polling = True, po_retryCount = 1 \<rparr> :: 'a poller"
  have early: "\<exists>n. fold (poll_answered d startTime timeout) early p = p \<lparr> po_retryCount := n \<rparr>" for p :: "'a poller"
    using assms
  proof (induction early arbitrary: p)
    case (Cons a early)
    obtain u where "a = (u, PollNull)" "u - startTime \<le> timeout * 1000" using Cons.prems by (cases a) auto
    then have "poll_answered d startTime timeout a p = p \<lparr> po_retryCount := po_retryCount p + 1 \<rparr>" by simp
    moreover obtain n where "fold (poll_answered d startTime timeout) early (p \<lparr> po_retryCount := po_retryCount p + 1 \<rparr>) =
        p \<lparr> po_retryCount := po_retryCount p + 1 \<rparr> \<lparr> po_retryCount := n \<rparr>"
      using Cons.IH [of "p \<lparr> po_retryCount := po_retryCount p + 1 \<rparr>"] Cons.prems by auto
    ultimately show ?case by auto
  next
    case Nil
    have "p = p \<lparr> po_retryCount := po_retryCount p \<rparr>" by simp
    then show ?case by (metis fold_simps(1))
  qed
  obtain n where n: "fold (poll_answered d startTime timeout) early ?p0 = ?p0 \<lparr> po_retryCount := n \<rparr>" using early by blast
  let ?p1 = "poll_answered d startTime timeout (now, answer) (?p0 \<lparr> po_retryCount := n \<rparr>)"
  have run: "po_settled (retryWithTimeout d startTime timeout PollNull (early @ (now, answer) # later)) =
      po_settled (fold (poll_answered d startTime timeout) later ?p1)"
    by (simp add: retryWithTimeout_def n del: One_nat_def)
  show ?thesis
  proof (cases "po_settled ?p1")
    case None
    then have "answer = PollNull" "\<not> now - startTime > timeout * 1000"
      by (cases answer; auto simp: settle_def Let_def split: if_splits)+
    then show ?thesis by simp
  next
    case (Some r)
    with settled_stays [OF Some, of d startTime timeout later] show ?thesis unfolding run
      by (cases answer) (auto simp: settle_def Let_def split: if_splits)
  qed
qed

text \<open>A rejection settles the promise and leaves the interval running: the function is asked again until it has a value or the time is over.\<close>

lemma rejection_keeps_polling:
  "po_polling (retryWithTimeout d startTime timeout PollNull [(now, PollRejected e)])"
  "po_settled (retryWithTimeout d startTime timeout PollNull [(now, PollRejected e)]) = Some (Inl e)"
  by (simp_all add: retryWithTimeout_def settle_def)

end
