(* ===== verification/Page_References.thy ===== *)
theory Page_References
  imports Job_Ref
begin

text \<open>
  The references and jobs of the administration page, \<open>frontend/src/domain-model/refs.ts\<close> and
  \<open>job-ref/job-ref.ts\<close>: older copies of the classes in \<open>Refs\<close> and \<open>Job_Ref\<close> that read and print
  some texts in another way. The lemmas say which texts of the server the page reads like the server.
\<close>

section \<open>References\<close>

datatype page_ref = PageBranch string | PageTag string | PageSha string

fun page_ref_type :: "page_ref \<Rightarrow> string" where
  "page_ref_type (PageTag n) = ''tag''"
| "page_ref_type (PageBranch n) = ''branch''"
| "page_ref_type (PageSha s) = ''sha''"

fun page_ref_name :: "page_ref \<Rightarrow> string" where
  "page_ref_name (PageTag n) = n"
| "page_ref_name (PageBranch n) = n"
| "page_ref_name (PageSha s) = s"

definition page_ref_toString :: "page_ref \<Rightarrow> string" where
  "page_ref_toString r = page_ref_type r @ '':'' @ page_ref_name r"

fun page_originRef :: "page_ref \<Rightarrow> string" where
  "page_originRef (PageBranch n) = ''origin/'' @ n"
| "page_originRef (PageTag n) = n"
| "page_originRef (PageSha s) = s"

fun page_ref_equals :: "page_ref \<Rightarrow> page_ref \<Rightarrow> bool" where
  "page_ref_equals (PageBranch n) r = (case r of PageBranch m \<Rightarrow> m = n | _ \<Rightarrow> False)"
| "page_ref_equals (PageTag n) r = (case r of PageTag m \<Rightarrow> m = n | _ \<Rightarrow> False)"
| "page_ref_equals (PageSha n) r = (case r of PageSha m \<Rightarrow> m = n | _ \<Rightarrow> False)"

definition page_sha_create :: "string \<Rightarrow> page_ref res" where
  "page_sha_create s = (if is_sha s then Inr (PageSha s) else Inl (Error (''Bad sha ref: '' @ s)))"

text \<open>A text of a single part that is a sha is one; \<open>splice(i)\<close> gives the parts from the \<open>i\<close>-th on.\<close>

definition page_create :: "string \<Rightarrow> page_ref res" where
  "page_create r =
     (let parts = split ''/'' r in
      if 3 \<le> length parts then
        (if parts ! 0 = ''refs'' then
           (if parts ! 1 = ''tags'' then Inr (PageTag (join ''/'' (drop 2 parts)))
            else if parts ! 1 = ''remotes'' then Inr (PageBranch (join ''/'' (drop 3 parts)))
            else if parts ! 1 = ''heads'' then Inr (PageBranch (join ''/'' (drop 2 parts)))
            else Inr (PageBranch (join ''/'' (drop 1 parts))))
         else Inl (Error (''Unsupported ref [tags/heads/remotes]: '' @ r)))
      else if length parts = 1 \<and> length r = 40 \<and> is_sha (hd parts) then Inr (PageSha (hd parts))
      else Inr (PageBranch (join ''/'' parts)))"

definition page_tryCreate :: "string \<Rightarrow> page_ref option" where
  "page_tryCreate r = (case page_create r of Inl e \<Rightarrow> None | Inr x \<Rightarrow> Some x)"

definition page_branch_ref :: "string \<Rightarrow> page_ref res" where
  "page_branch_ref r =
     res_bind (page_create r) (\<lambda>x. if page_ref_type x = ''branch'' then Inr x else Inl (Error (''Illegal branch ref: '' @ r)))"

definition page_tag_ref :: "string \<Rightarrow> page_ref res" where
  "page_tag_ref r =
     res_bind (page_create r) (\<lambda>x. if page_ref_type x = ''tag'' then Inr x else Inl (Error (''Illegal tag ref: '' @ r)))"

section \<open>Branches and tags\<close>

text \<open>\<open>Tag.createWithSha\<close> makes a branch as well.\<close>

record page_entity =
  pe_ref :: page_ref
  pe_sha :: string

definition page_branch_withRef :: "string \<Rightarrow> string \<Rightarrow> page_entity res" where
  "page_branch_withRef r sha =
     res_bind (page_create r) (\<lambda>x.
       if page_ref_type x = ''branch'' then Inr \<lparr> pe_ref = x, pe_sha = sha \<rparr> else Inl (Error (''Bad branch-ref: '' @ r)))"

definition page_tag_withRef :: "string \<Rightarrow> string \<Rightarrow> page_entity res" where
  "page_tag_withRef r sha =
     res_bind (page_create r) (\<lambda>x.
       if page_ref_type x = ''tag'' then Inr \<lparr> pe_ref = x, pe_sha = sha \<rparr> else Inl (Error (''Bad tag-ref: '' @ r)))"

definition page_branch_create :: "string \<Rightarrow> string \<Rightarrow> page_entity res" where
  "page_branch_create r sha =
     res_bind (page_create sha) (\<lambda>x.
       if page_ref_type x = ''sha'' then page_branch_withRef r (page_ref_name x) else Inl (Error (''Bad branch sha-ref: '' @ sha)))"

definition page_tag_create :: "string \<Rightarrow> string \<Rightarrow> page_entity res" where
  "page_tag_create r sha =
     res_bind (page_create sha) (\<lambda>x.
       if page_ref_type x = ''sha'' then page_tag_withRef r (page_ref_name x) else Inl (Error (''Bad tag sha-ref: '' @ sha)))"

definition page_branch_withSha :: "page_entity \<Rightarrow> string \<Rightarrow> page_entity res" where
  "page_branch_withSha b sha = res_bind (page_sha_create sha) (\<lambda>x. Inr (b \<lparr> pe_sha := page_ref_name x \<rparr>))"

section \<open>Jobs\<close>

datatype page_job = PageUpdateJob string string | PageBranchJob page_ref string

fun page_job_sha :: "page_job \<Rightarrow> string" where
  "page_job_sha (PageUpdateJob i s) = s"
| "page_job_sha (PageBranchJob b s) = s"

fun page_job_class :: "page_job \<Rightarrow> string" where
  "page_job_class (PageUpdateJob i s) = ''UpdateRef''"
| "page_job_class (PageBranchJob b s) = ''BranchRef''"

fun page_job_fields :: "page_job \<Rightarrow> string list" where
  "page_job_fields (PageUpdateJob i s) = [i, s]"
| "page_job_fields (PageBranchJob b s) = [page_ref_name b, s]"

definition page_job_serialize :: "page_job \<Rightarrow> string" where
  "page_job_serialize j = join delimiter (page_job_class j # page_job_fields j)"

text \<open>A field that is missing is undefined; \<open>split\<close> of an undefined branch throws.\<close>

fun page_update_create :: "string list \<Rightarrow> page_job res" where
  "page_update_create (i # s # rest) = res_bind (page_sha_create s) (\<lambda>x. Inr (PageUpdateJob i s))"
| "page_update_create fs = Inl (bad_sha ''undefined'')"

fun page_branchjob_create :: "string list \<Rightarrow> page_job res" where
  "page_branchjob_create (b # s # rest) =
     res_bind (page_branch_ref b) (\<lambda>r. res_bind (page_sha_create s) (\<lambda>x. Inr (PageBranchJob r s)))"
| "page_branchjob_create [b] = res_bind (page_branch_ref b) (\<lambda>r. Inl (bad_sha ''undefined''))"
| "page_branchjob_create [] = Inl (Error ''Cannot read properties of undefined'')"

definition page_job_deserialize :: "string \<Rightarrow> page_job res" where
  "page_job_deserialize str =
     (let parts = split delimiter str; h = hd parts; t = tl parts in
      if h = ''UpdateRef'' then page_update_create t
      else if h = ''BranchRef'' then page_branchjob_create t
      else Inl (Error (''Uknown job-ref-type: '' @ h @ ''.'')))"

lemma page_job_deserialize_parts:
  "split delimiter str = h # t \<Longrightarrow> page_job_deserialize str =
     (if h = ''UpdateRef'' then page_update_create t else if h = ''BranchRef'' then page_branchjob_create t
      else Inl (Error (''Uknown job-ref-type: '' @ h @ ''.'')))"
  by (simp add: page_job_deserialize_def)

fun page_job_withSha :: "page_job \<Rightarrow> string \<Rightarrow> page_job" where
  "page_job_withSha (PageUpdateJob i s) sha = PageUpdateJob i sha"
| "page_job_withSha (PageBranchJob b s) sha = PageBranchJob b sha"

fun page_job_key :: "page_job \<Rightarrow> string" where
  "page_job_key (PageUpdateJob i s) = i"
| "page_job_key (PageBranchJob b s) = page_ref_name b"

fun page_job_logId :: "page_job \<Rightarrow> string" where
  "page_job_logId (PageUpdateJob i s) = ''update-'' @ i"
| "page_job_logId (PageBranchJob b s) = page_ref_name b @ ''-'' @ s"

fun page_job_toString :: "page_job \<Rightarrow> string" where
  "page_job_toString (PageUpdateJob i s) = ''UpdateJobRef:'' @ i @ ''@'' @ s"
| "page_job_toString (PageBranchJob b s) = ''BranchJobRef:'' @ page_ref_name b @ ''@'' @ s"

fun page_job_equals :: "page_job \<Rightarrow> page_job \<Rightarrow> bool" where
  "page_job_equals (PageUpdateJob i s) r = (case r of PageUpdateJob i' s' \<Rightarrow> s' = s \<and> i' = i | _ \<Rightarrow> False)"
| "page_job_equals (PageBranchJob b s) r = (case r of PageBranchJob b' s' \<Rightarrow> s' = s \<and> page_ref_equals b' b | _ \<Rightarrow> False)"

section \<open>What the page reads\<close>

text \<open>The page has no class for the branch of the meta configuration.\<close>

fun page_of :: "ref \<Rightarrow> page_ref" where
  "page_of (BranchRef n) = PageBranch n"
| "page_of (TagRef n) = PageTag n"
| "page_of MetaConfigBranchRef = PageBranch ''meta/config''"
| "page_of (ShaRef s) = PageSha s"

lemma is_sha_no_slash: "is_sha s \<Longrightarrow> CHR ''/'' \<notin> set s"
  by (auto dest!: is_sha_chars simp: hex_val_def)

lemma page_create_sha: "is_sha s \<Longrightarrow> page_create s = Inr (PageSha s)"
  using is_sha_no_slash [of s] by (simp add: page_create_def split_last is_sha_def)

lemma page_create_prefixed:
  "page_create (''refs/heads/'' @ n) = Inr (PageBranch n)"
  "page_create (''refs/tags/'' @ n) = Inr (PageTag n)"
  "page_create (''refs/remotes/origin/'' @ n) = Inr (PageBranch n)"
  by (simp_all only: page_create_def split_slash_prefix)
    (simp_all add: join_split Let_def split_nonempty [THEN length_greater_0_conv [THEN iffD2], THEN Suc_leI, simplified])

lemma page_create_meta_names:
  "page_create (remoteRef MetaConfigBranchRef) = Inr (PageBranch ''meta/config'')"
  "page_create (originRef MetaConfigBranchRef) = Inr (PageBranch ''meta/config'')"
  by (simp_all add: page_create_def split_eval)

text \<open>
  The page reads the name of a reference on the remote and in a clone as the same reference as the
  server, with the same name, and it compares what it has read like the server.
\<close>

theorem page_reads_references:
  "(if is_entity_ref r then page_create (remoteRef r) = Inr (page_of r) \<and> page_create (originRef r) = Inr (page_of r)
    else if is_sha (ref_name r) then page_create (ref_name r) = Inr (page_of r) else True) \<and>
   page_ref_name (page_of r) = ref_name r \<and> page_ref_equals (page_of r) (page_of r') = ref_equals r r'"
proof (intro conjI)
  show "if is_entity_ref r then page_create (remoteRef r) = Inr (page_of r) \<and> page_create (originRef r) = Inr (page_of r)
    else if is_sha (ref_name r) then page_create (ref_name r) = Inr (page_of r) else True"
  proof (cases r)
    case (BranchRef n)
    then show ?thesis by (simp only: remoteRef.simps originRef.simps is_entity_ref.simps page_of.simps ref_name.simps page_create_prefixed if_True simp_thms)
  next
    case (TagRef n)
    then show ?thesis by (simp only: remoteRef.simps originRef.simps is_entity_ref.simps page_of.simps page_create_prefixed if_True simp_thms)
  next
    case MetaConfigBranchRef
    then show ?thesis
      by (simp only: is_entity_ref.simps page_of.simps if_True page_create_meta_names simp_thms)
  qed (simp add: page_create_sha)
  show "page_ref_name (page_of r) = ref_name r" by (cases r) simp_all
  show "page_ref_equals (page_of r) (page_of r') = ref_equals r r'" by (cases r; cases r') auto
qed

text \<open>
  It does not read its own name of a branch in a clone: the prefix stays in the name, or the name is
  refused when it has a slash.
\<close>

lemma split_single:
  assumes "length (split ''/'' n) = 1"
  shows "split ''/'' n = [n]"
proof -
  from assms obtain p where p: "split ''/'' n = [p]" by (auto simp: length_Suc_conv)
  have "join ''/'' (split ''/'' n) = n" by (rule join_split) simp
  with p show ?thesis by simp
qed

lemma split_origin: "split ''/'' (''origin/'' @ n) = ''origin'' # split ''/'' n"
  by (simp add: split_eval)

lemma page_misreads_own_origin:
  "page_create (page_originRef (PageBranch n)) =
     (if length (split ''/'' n) = 1 then Inr (PageBranch (''origin/'' @ n))
      else Inl (Error (''Unsupported ref [tags/heads/remotes]: '' @ page_originRef (PageBranch n))))"
proof (cases "length (split ''/'' n) = 1")
  case True
  note split_single [OF this]
  then show ?thesis by (simp only: page_create_def page_originRef.simps split_origin) simp
next
  case False
  then have "2 \<le> length (split ''/'' n)" using split_nonempty [of "''/''" n] by (cases "split ''/'' n") (auto simp: Suc_le_eq)
  with False show ?thesis by (simp only: page_create_def page_originRef.simps split_origin) simp
qed

lemma page_branch_ref_plain:
  assumes "length (split ''/'' n) < 3" and "\<not> is_sha n"
  shows "page_branch_ref n = Inr (PageBranch n)"
proof -
  have "page_create n = Inr (PageBranch n)"
  proof (cases "length (split ''/'' n) = 1")
    case True
    note split_single [OF this]
    then show ?thesis using assms by (simp add: page_create_def)
  qed (use assms in \<open>simp add: page_create_def join_split Let_def\<close>)
  then show ?thesis by (simp add: page_branch_ref_def)
qed

text \<open>
  The page reads a job of a branch as the server does when the branch has a plain name with at most one slash.
  Of the job of a change it takes the target branch, which its class does not have, for the sha: it refuses the job, or
  takes it for one of another commit when the branch is named like a sha.
\<close>

theorem page_reads_jobs:
  assumes "job_ok j"
  shows "page_job_deserialize (job_serialize j) =
    (case j of
       UpdateJob i t s \<Rightarrow> (if is_sha t then Inr (PageUpdateJob i t) else Inl (bad_sha t))
     | BranchJob b s \<Rightarrow> res_bind (page_branch_ref (ref_name b)) (\<lambda>r. Inr (PageBranchJob r s)))"
proof -
  note parts = page_job_deserialize_parts [OF split_job_serialize [OF assms]]
  show ?thesis unfolding parts
    using assms by (cases j) (simp_all add: page_sha_create_def bad_sha_def)
qed

lemma page_reads_branch_jobs:
  assumes "job_ok (BranchJob b s)" and "length (split ''/'' (ref_name b)) < 3" and "\<not> is_sha (ref_name b)"
  shows "page_job_deserialize (job_serialize (BranchJob b s)) = Inr (PageBranchJob (PageBranch (ref_name b)) s)"
  using page_reads_jobs [OF assms(1)] by (simp add: page_branch_ref_plain [OF assms(2,3)])

lemma split_page_job:
  "list_all (delim_safe delimiter) (page_job_fields j) \<Longrightarrow>
   split delimiter (page_job_serialize j) = page_job_class j # page_job_fields j"
  unfolding page_job_serialize_def by (intro split_join) (cases j; simp)+

text \<open>Its own jobs of changes come back, and those of branches with such names.\<close>

lemma page_job_roundtrip:
  "is_sha s \<Longrightarrow> delim_safe delimiter i \<Longrightarrow> page_job_deserialize (page_job_serialize (PageUpdateJob i s)) = Inr (PageUpdateJob i s)"
  "is_sha s \<Longrightarrow> delim_safe delimiter n \<Longrightarrow> length (split ''/'' n) < 3 \<Longrightarrow> \<not> is_sha n \<Longrightarrow>
   page_job_deserialize (page_job_serialize (PageBranchJob (PageBranch n) s)) = Inr (PageBranchJob (PageBranch n) s)"
  using page_job_deserialize_parts [OF split_page_job [of "PageUpdateJob i s"]]
    page_job_deserialize_parts [OF split_page_job [of "PageBranchJob (PageBranch n) s"]]
  by (simp_all add: page_sha_create_def page_branch_ref_plain)

text \<open>Two jobs of one branch have one key on the page, where the server keeps them apart by their commits.\<close>

lemma page_key_is_branch:
  "page_job_key (PageBranchJob (page_of b) s) = page_job_key (PageBranchJob (page_of b) s')"
  "job_key_id (BranchJob b s) = job_key_id (BranchJob b s') \<longleftrightarrow> s = s'"
  by simp_all

end
