(* ===== verification/Page_Screens.thy ===== *)
theory Page_Screens
  imports Page "HOL-Library.Multiset" "HOL-Library.List_Lexorder" "HOL-Library.Char_ord"
begin

text \<open>
  What the administration page shows, \<open>frontend/src\<close>: the view of an address (\<open>app.tsx\<close>,
  \<open>repository/repository-view-container.tsx\<close>), the search for a repository, and the screens of the views
  of \<open>Page\<close> as lists of rows. A row is a list of what a reader sees: texts, links, buttons with their tooltips,
  choices. Layout and style are left out, and what a click does is the handler in \<open>Page\<close>. The router cuts
  an address into its decoded pieces; an error that is thrown while a screen is drawn leaves nothing of it.
\<close>

section \<open>Pieces of a screen\<close>

datatype shown =
    Shown string
  | Linked string string
  | Clickable string bool "string option"
  | Badge string string
  | YesNo bool
  | Choose "string list" "string option"
  | Entry string bool

type_synonym screen = "shown list list"

text \<open>A button is enabled and has no tooltip unless its configuration says otherwise.\<close>

record button_config =
  bc_isDisabled :: "bool option"
  bc_toolTip :: "string option"

definition ctrl_button :: "button_config option \<Rightarrow> string \<Rightarrow> shown" where
  "ctrl_button config text =
     (let c = (case config of Some c \<Rightarrow> c | None \<Rightarrow> \<lparr> bc_isDisabled = None, bc_toolTip = None \<rparr>);
          isDisabled = (case bc_isDisabled c of Some b \<Rightarrow> b | None \<Rightarrow> False)
      in Clickable text (\<not> isDisabled) (if truthy (bc_toolTip c) then bc_toolTip c else None))"

text \<open>A tooltip with a bar has a head and a body.\<close>

definition tooltip_parts :: "string \<Rightarrow> string option \<times> string" where
  "tooltip_parts message =
     (case split ''|'' message of
        p1 # p2 # rest \<Rightarrow> if p2 \<noteq> [] then (Some p1, p2) else (None, p1)
      | [p1] \<Rightarrow> (None, p1)
      | [] \<Rightarrow> (None, []))"

definition ctrl_select :: "('a \<Rightarrow> string) \<Rightarrow> 'a list \<Rightarrow> 'a option \<Rightarrow> shown" where
  "ctrl_select transformLabel options selected = Choose (map transformLabel options) (map_option transformLabel selected)"

text \<open>What is entered is trimmed; nothing is undefined.\<close>

definition input_string :: "string \<Rightarrow> string option" where
  "input_string value = (let v = (if value \<noteq> [] then trim value else value) in if v \<noteq> [] then Some v else None)"

section \<open>Addresses\<close>

datatype page_route =
    WelcomePage
  | MajorsPage "string option"
  | RepositoryPage string "string list"

text \<open>Names in the patterns of the router do not distinguish upper and lower case.\<close>

definition lower_char :: "char \<Rightarrow> char" where
  "lower_char c = (let n = (of_char c :: nat) in if 65 \<le> n \<and> n \<le> 90 then char_of (n + 32) else c)"

definition is_name :: "string \<Rightarrow> string \<Rightarrow> bool" where
  "is_name name piece \<longleftrightarrow> map lower_char piece = map lower_char name"

definition app_route :: "string list \<Rightarrow> page_route" where
  "app_route pieces =
     (case pieces of
        p # serialized # rest \<Rightarrow>
          if is_name ''repo'' p \<and> serialized \<noteq> [] then RepositoryPage serialized rest
          else if is_name ''admin'' p \<and> is_name ''majors'' serialized then
            (case rest of [] \<Rightarrow> MajorsPage None | [major] \<Rightarrow> if major \<noteq> [] then MajorsPage (Some major) else WelcomePage | _ \<Rightarrow> WelcomePage)
          else WelcomePage
      | _ \<Rightarrow> WelcomePage)"

datatype repository_route = ConfigPage | StatePage | LogsPage string | NothingShown

definition repository_route :: "string list \<Rightarrow> repository_route" where
  "repository_route pieces =
     (case pieces of
        [p] \<Rightarrow> if is_name ''config'' p then ConfigPage else if is_name ''state'' p then StatePage else NothingShown
      | [p, i] \<Rightarrow> if is_name ''logs'' p \<and> i \<noteq> [] then LogsPage i else NothingShown
      | _ \<Rightarrow> NothingShown)"

text \<open>The repository of an address with the view that is shown for it.\<close>

datatype page_shown = GeneralPage page_route | UndecodedRepository | RepositoryShown source repository_route

definition page_at :: "string list \<Rightarrow> page_shown" where
  "page_at pieces =
     (case app_route pieces of
        RepositoryPage serialized rest \<Rightarrow>
          (case url_deserialize serialized of
             None \<Rightarrow> UndecodedRepository
           | Some s \<Rightarrow> RepositoryShown s (repository_route rest))
      | r \<Rightarrow> GeneralPage r)"

section \<open>The search\<close>

definition search_options :: "source list \<Rightarrow> source list" where
  "search_options repositories = sort_key src_path repositories"

definition repository_search :: "source list option \<Rightarrow> shown" where
  "repository_search repositoryList =
     ctrl_select (\<lambda>r. src_id r @ '':'' @ src_path r) (case repositoryList of Some rs \<Rightarrow> search_options rs | None \<Rightarrow> []) None"

text \<open>The pieces of the address that the navigation bar goes to.\<close>

definition search_address :: "source \<Rightarrow> string list" where
  "search_address s = split ''/'' (''repo/'' @ url_serialize s @ ''/state'')"

section \<open>Logs\<close>

fun entry_level :: "log_level \<Rightarrow> shown" where
  "entry_level LogDebug = Badge ''secondary'' ''debug''"
| "entry_level LogError = Badge ''danger'' ''Error''"
| "entry_level LogWarning = Badge ''warning'' ''Warning''"
| "entry_level LogInfo = Badge ''info'' ''Info''"

text \<open>The time of an entry in milliseconds is a parameter; messages are shown as the text they are.\<close>

definition log_rows :: "(string \<Rightarrow> int) \<Rightarrow> log_entry list \<Rightarrow> screen" where
  "log_rows millis entries =
     (let start = last entries in
      map (\<lambda>e. [entry_level (le_level e), Shown (le_message e), Shown (duration_text (millis (le_timestamp e) - millis (le_timestamp start)))]) entries)"

text \<open>A missing id of the log is told with every drawing.\<close>

definition log_screen :: "(string \<Rightarrow> int) \<Rightarrow> string option \<Rightarrow> log_view \<Rightarrow> screen \<times> (note_type \<times> string option) list" where
  "log_screen millis logId v =
     (if truthy logId then
        (case lv_log v of
           Some log \<Rightarrow> if bl_entries log \<noteq> [] then (log_rows millis (bl_entries log), []) else ([[Shown ''No log entries found...'']], [])
         | None \<Rightarrow> ([[Shown ''Loading logs...'']], []))
      else ([], [(NoteError, Some (''Missing '' @ [CHR 0x60] @ ''/id'' @ [CHR 0x60] @ '' in url.''))]))"

section \<open>The state of a repository\<close>

definition release_button :: "top_container \<Rightarrow> string option \<Rightarrow> shown" where
  "release_button major branchSha =
     ctrl_button (Some \<lparr> bc_isDisabled = Some (release_disabled major branchSha), bc_toolTip = Some (release_tooltip major branchSha) \<rparr>) ''Release''"

definition create_patch_button :: "major_container \<Rightarrow> shown" where
  "create_patch_button major =
     ctrl_button (Some \<lparr> bc_isDisabled = Some (truthy (maj_branch major)),
       bc_toolTip = Some (if truthy (maj_branch major) then ''Patch branch already exists.''
         else ''Create patch branch for patch releases of major '' @ show_int (maj_major major)) \<rparr>) ''Patch branch''"

fun container_actions :: "top_container \<Rightarrow> shown list" where
  "container_actions (Top_Main m) = [release_button (Top_Main m) (Some (mb_sha (main_main m)))]"
| "container_actions (Top_Major m) =
     release_button (Top_Major m) (maj_branch m) # (if truthy (maj_branch m) then [] else [create_patch_button m])"

definition git_link :: "source \<Rightarrow> string \<Rightarrow> shown res" where
  "git_link s branchName = res_bind (repositoryBranchUrl s branchName) (\<lambda>url. Inr (Linked branchName url))"

definition model_row :: "source \<Rightarrow> top_container \<Rightarrow> shown list res" where
  "model_row s major =
     res_bind (case branchAndSha major of
         Some (branchName, sha) \<Rightarrow>
           if branchName \<noteq> [] \<and> sha \<noteq> [] then res_bind (git_link s branchName) (\<lambda>l. Inr [l]) else Inr []
       | None \<Rightarrow> Inr [])
       (\<lambda>link. Inr ([Shown (show_int (top_major major)), Shown (last_version major)] @ link @ container_actions major))"

definition model_screen :: "source \<Rightarrow> root \<Rightarrow> screen res" where
  "model_screen s model = res_mapM (model_row s) (Top_Main (root_main model) # map Top_Major (root_majors model))"

text \<open>The times of the commits in the window are left out.\<close>

definition release_window :: "api_commit list option \<Rightarrow> int \<Rightarrow> screen res" where
  "release_window commits mj =
     (case commits of
        None \<Rightarrow> Inl (Error ''TypeError: Cannot read properties of undefined (reading 'map')'')
      | Some cs \<Rightarrow>
          Inr ([[Shown (''Release new version from Major '' @ show_int mj)]] @
            map (\<lambda>c. [Shown (ac_sha c), Shown (ac_committer c), Shown (ac_message c), ctrl_button None ''Release'']) cs @
            [[ctrl_button None ''Cancel'']]))"

definition state_screen :: "source \<Rightarrow> state_view \<Rightarrow> screen res" where
  "state_screen s v =
     (if state_isLoading v then Inr [[Shown ''Loading...'']]
      else
        res_bind (case sv_commits v of None \<Rightarrow> Inr [] | Some (cs, mj) \<Rightarrow> release_window cs mj) (\<lambda>window.
        res_bind (model_screen s (the (sv_model v))) (\<lambda>rows. Inr (window @ rows))))"

section \<open>The configuration\<close>

fun action_value :: "action \<Rightarrow> string" where
  "action_value Nothing = ''nothing''"
| "action_value Merge = ''merge''"
| "action_value Release = ''release''"

definition all_actions :: "action list" where
  "all_actions = [Nothing, Merge, Release]"

definition major_serie_rows :: "serie list \<Rightarrow> major_serie option \<Rightarrow> screen" where
  "major_serie_rows series config =
     [Shown ''Active'', YesNo (config \<noteq> None)] #
     (case config of
        None \<Rightarrow> []
      | Some c \<Rightarrow>
          [[Shown ''Serie'', ctrl_select se_id series (List.find (\<lambda>s. se_id s = ms_id c) series)],
           [Shown ''Auto apply'', YesNo (ms_autoApply c)]])"

definition automation_rows :: "build_automation \<Rightarrow> screen" where
  "automation_rows automation =
     [[Shown ''Default action'', ctrl_select action_value all_actions (Some (ba_default automation))],
      [Shown ''Action by label'']] @
     (if ba_labels automation = [] then [[Shown ''No label action defined yet.'']]
      else [Shown ''label'', Shown ''action''] # map (\<lambda>l. [Shown (la_id l), Shown (action_value (la_action l))]) (ba_labels automation)) @
     [[Clickable ''Create label action'' True None]]"

text \<open>The window for a label; an action that is not given is the first one.\<close>

definition label_modal :: "string option \<Rightarrow> string option \<Rightarrow> action option \<Rightarrow> screen" where
  "label_modal label newLabel newAction =
     [[Shown (if truthy label then ''Edit label action for '' @ the label else ''Create label action'')],
      [Shown ''Label'', Entry (or_else newLabel []) (truthy label)],
      [Shown ''Action'', ctrl_select action_value all_actions newAction],
      [Clickable (if truthy label then ''Update'' else ''Create'') (truthy newLabel \<and> newAction \<noteq> None) None]]"

definition edited_action :: "action option \<Rightarrow> action" where
  "edited_action a = (case a of Some x \<Rightarrow> x | None \<Rightarrow> Nothing)"

definition system_rows :: "string list \<Rightarrow> string option \<Rightarrow> system_choice \<Rightarrow> screen" where
  "system_rows availableSystems activeSystem choice =
     [Shown ''Use non-default system'', YesNo (sy_useNonDefault choice)] #
     (if sy_useNonDefault choice
      then [[Shown ''System'', ctrl_select (\<lambda>s. s) (allSystems availableSystems activeSystem)
             (if sy_selectedSystem choice \<noteq> [] then Some (sy_selectedSystem choice) else None)]]
      else [])"

text \<open>Without an available system the part for the system throws.\<close>

definition config_screen :: "config_view \<Rightarrow> system_choice \<Rightarrow> screen res" where
  "config_screen v choice =
     (if config_isLoading v then Inr [[Shown ''Loading repository...'']]
      else case (cv_config v, cv_systems v) of
        (Some config, Some availableSystems) \<Rightarrow>
          res_bind (system_choice_new availableSystems (rc_activeSystem config)) (\<lambda>first.
            Inr ([[Shown ''Major serie'']] @ major_serie_rows (case cv_series v of Some ss \<Rightarrow> ss | None \<Rightarrow> []) (rc_majorSerie config) @
              [[Shown ''Build automation'']] @ automation_rows (rc_buildAutomation config) @
              [[Shown ''Other configurations'']] @ system_rows availableSystems (rc_activeSystem config) choice @
              [[Clickable ''Update config'' True None]]))
      | _ \<Rightarrow> Inr [])"

section \<open>Majors\<close>

definition majors_screen :: "string option \<Rightarrow> majors_view \<Rightarrow> screen" where
  "majors_screen major v =
     [[Shown ''Available series'']] @
     (case mv_series v of
        None \<Rightarrow> [[Shown ''Loading...'']]
      | Some series \<Rightarrow>
          (if series = [] then [[Shown ''None available'']] else []) @
          map (\<lambda>s. [Linked (se_id s) (''/admin/majors/'' @ se_id s)]) series) @
     (case selectedSerie major v of
        None \<Rightarrow> [[Shown ''Select Major serie'']]
      | Some serie \<Rightarrow>
          [[Shown (se_id serie)],
           [Shown (''Defined majors: '' @ join '', '' (map show_int (se_values serie)))],
           [Shown ''New major'', Entry (case mv_updatedValue v of Some n \<Rightarrow> if n = 0 then [] else show_int n | None \<Rightarrow> []) False,
            Clickable ''Create'' (case mv_updatedValue v of Some n \<Rightarrow> 0 < n | None \<Rightarrow> False) None]])"

text \<open>What is entered for the new major: \<open>parseInt(text) || undefined\<close>.\<close>

definition entered_major :: "string \<Rightarrow> int option" where
  "entered_major text = (case parse_int text of Some n \<Rightarrow> if n = 0 then None else Some n | None \<Rightarrow> None)"

section \<open>Addresses and what they show\<close>

lemma url_serialize_pieces:
  assumes "CHR ''/'' \<notin> set (src_id s)"
  shows "CHR ''/'' \<notin> set (url_serialize s)"
proof -
  have "replace_char (CHR ''/'') (CHR ''.'') (src_path s) = join ''.'' (split ''/'' (src_path s))" by (rule replace_char_join)
  moreover have "CHR ''/'' \<notin> set (replace_char (CHR ''/'') (CHR ''.'') (src_path s))" by (auto simp: replace_char_def)
  ultimately show ?thesis using assms by (simp add: url_serialize_def)
qed

lemma is_name_self [simp]: "is_name n n"
  by (simp add: is_name_def)

lemma page_at_repo:
  assumes "src_id s \<noteq> []" and "CHR ''.'' \<notin> set (src_id s)" and "CHR ''.'' \<notin> set (src_path s)"
  shows "page_at (''repo'' # url_serialize s # rest) = RepositoryShown s (repository_route rest)"
proof -
  have "url_deserialize (url_serialize s) = Some s" using log_url_source_roundtrip [OF assms] by blast
  moreover have "url_serialize s \<noteq> []" by (simp add: url_serialize_def)
  ultimately show ?thesis by (simp add: page_at_def app_route_def)
qed

text \<open>The search lists the repositories by path and leads to the state of the one that is selected.\<close>

theorem search_leads_to_state:
  assumes "src_id s \<noteq> []" and "CHR ''.'' \<notin> set (src_id s)" and "CHR ''.'' \<notin> set (src_path s)" and "CHR ''/'' \<notin> set (src_id s)"
  shows "page_at (search_address s) = RepositoryShown s StatePage"
proof -
  have "search_address s = [''repo'', url_serialize s, ''state'']"
  proof -
    have "search_address s = split ''/'' (''repo'' @ CHR ''/'' # url_serialize s @ CHR ''/'' # ''state'')"
      by (simp add: search_address_def)
    also have "\<dots> = ''repo'' # url_serialize s # split ''/'' ''state''"
      using url_serialize_pieces [OF assms(4)] by (subst split_Cons_safe, simp, subst split_Cons_safe, simp_all)
    also have "split ''/'' ''state'' = [''state'']" by (rule split_last) simp_all
    finally show ?thesis .
  qed
  then show ?thesis
    by (simp add: page_at_repo [OF assms(1-3)] repository_route_def is_name_def lower_char_def)
qed

lemma search_options_order:
  "mset (search_options rs) = mset rs" "sorted (map src_path (search_options rs))"
  by (simp_all add: search_options_def)

section \<open>Links to logs\<close>

text \<open>The pieces of a link that the server has printed, behind the address of the page.\<close>

definition link_pieces :: "string \<Rightarrow> string \<Rightarrow> string list" where
  "link_pieces frontendUrl url = split ''/'' (drop (length (trimEnd (CHR ''/'') frontendUrl) + 1) url)"

lemma log_link_pieces:
  assumes "src_id s \<noteq> []" and "CHR ''.'' \<notin> set (src_id s)" and "CHR ''.'' \<notin> set (src_path s)" and "CHR ''/'' \<notin> set (src_id s)"
  shows "link_pieces u (getLogUrl u s l) = ''repo'' # url_serialize s # ''logs'' # split ''/'' l"
proof -
  have "getLogUrl u s l = trimEnd (CHR ''/'') u @ CHR ''/'' # ''repo'' @ CHR ''/'' # url_serialize s @ CHR ''/'' # ''logs'' @ CHR ''/'' # l"
    using log_url_source_roundtrip [OF assms(1-3), of u l] by simp
  then have "drop (length (trimEnd (CHR ''/'') u) + 1) (getLogUrl u s l) =
      ''repo'' @ CHR ''/'' # url_serialize s @ CHR ''/'' # ''logs'' @ CHR ''/'' # l" by simp
  moreover have "split ''/'' \<dots> = ''repo'' # url_serialize s # ''logs'' # split ''/'' l"
    using url_serialize_pieces [OF assms(4)]
    by (subst split_Cons_safe, simp, subst split_Cons_safe, simp, subst split_Cons_safe, simp_all)
  ultimately show ?thesis by (simp only: link_pieces_def)
qed

lemma duration_zero [simp]: "duration_text 0 = ''00:00''"
  by code_simp

text \<open>The first message of a log, which is its last row, is at the time zero.\<close>

lemma log_rows_last:
  "es \<noteq> [] \<Longrightarrow> last (log_rows millis es) = [entry_level (le_level (last es)), Shown (le_message (last es)), Shown ''00:00'']"
  by (simp add: log_rows_def Let_def last_map)

text \<open>C15
  The link to a log, which the build system gives to the build service, leads to the log: it opens the
  view of the logs for that repository and that id, whatever the address of the page, and when the
  server answers the request of the view, it shows the messages that were written for this repository under
  this id, the newest first, with their levels and their distance from the first message, and no others.
  This holds for an id of the source service that is not empty and has neither a dot nor a slash, a path
  without dots and colons, and an id of the log that is not empty and has no slash, as those of updates
  (with a dot in the path or a slash in the id the link leads elsewhere); the repositories that
  other messages are written for have no slash in their id and no colon in their path.
\<close>

theorem log_link_leads_to_log:
  assumes "src_id s \<noteq> []" and "list_all (\<lambda>c. c \<noteq> CHR ''.'' \<and> c \<noteq> CHR ''/'') (src_id s)" and "CHR ''.'' \<notin> set (src_path s)"
    and "l \<noteq> []" and "CHR ''/'' \<notin> set l"
    and "redis_server R view" and "view db = Map.empty"
    and "av_buildLog V s l = log_get R hgetall s l (fold (run_write R) ws db)"
    and "log_source s" and "list_all (\<lambda>w. log_source (write_source w)) ws"
    and "es = rev (List.map_filter (message_for s l) ws)"
  shows "page_at (link_pieces u (getLogUrl u s l)) = RepositoryShown s (LogsPage l) \<and>
    fst (log_screen millis (Some l) (log_onLog (Some (snd (api_handle V (BuildLogRequest s l)))) v)) =
      (if es = [] then [[Shown ''No log entries found...'']] else log_rows millis es)"
proof
  have id: "CHR ''.'' \<notin> set (src_id s)" "CHR ''/'' \<notin> set (src_id s)" using assms(2) by (auto simp: list_all_iff)
  have "split ''/'' l = [l]" using assms(5) by (intro split_last) (simp_all add: delim_safe_notin)
  with log_link_pieces [OF assms(1) id(1) assms(3) id(2), of u l]
  have "link_pieces u (getLogUrl u s l) = [''repo'', url_serialize s, ''logs'', l]" by simp
  with assms(4) show "page_at (link_pieces u (getLogUrl u s l)) = RepositoryShown s (LogsPage l)"
    by (simp add: page_at_repo [OF assms(1) id(1) assms(3)] repository_route_def is_name_def lower_char_def)
  obtain urls where "log_get R hgetall s l (fold (run_write R) ws db) = Inr \<lparr> bl_entries = es, bl_metaUrls = urls \<rparr>"
    using redis_server.log_shows_what_was_written [OF assms(6), of db s l "[]" hgetall ws] assms(7,11)
      messages_by_key [OF assms(9,10), of l]
    by (auto simp: logs_ok_def log_list_def)
  then show "fst (log_screen millis (Some l) (log_onLog (Some (snd (api_handle V (BuildLogRequest s l)))) v)) =
      (if es = [] then [[Shown ''No log entries found...'']] else log_rows millis es)"
    using assms(4,8)
    by (simp add: post_buildlog_events_def reply_of_def ok_reply_def log_onLog_def log_screen_def fulfilled_def reply_body_def)
qed

lemma log_link_leads_to_log_witness:
  "page_at (link_pieces ''http://cb/'' (getLogUrl ''http://cb/'' \<lparr> src_id = ''g'', src_path = ''a/b'' \<rparr> ''update-1'')) =
     RepositoryShown \<lparr> src_id = ''g'', src_path = ''a/b'' \<rparr> (LogsPage ''update-1'') \<and>
   fst (log_screen (\<lambda>t. int (length t)) (Some ''update-1'')
     (log_onLog (Some (snd (api_handle ((sample_services sample_root)
         \<lparr> av_buildLog := \<lambda>s l. log_get mem_redis (\<lambda>k db. []) s l (fold (run_write mem_redis)
             [AddEntry \<lparr> src_id = ''g'', src_path = ''a/b'' \<rparr> ''update-1''
               \<lparr> le_message = ''m'', le_level = LogError, le_timestamp = ''1'' \<rparr>] []) \<rparr>)
       (BuildLogRequest \<lparr> src_id = ''g'', src_path = ''a/b'' \<rparr> ''update-1''))))
     \<lparr> lv_log = None, lv_notes = [] \<rparr>)) = [[Badge ''danger'' ''Error'', Shown ''m'', Shown ''00:00'']]"
proof -
  let ?s = "\<lparr> src_id = ''g'', src_path = ''a/b'' \<rparr>"
  let ?w = "AddEntry ?s ''update-1'' \<lparr> le_message = ''m'', le_level = LogError, le_timestamp = ''1'' \<rparr>"
  let ?V = "(sample_services sample_root) \<lparr> av_buildLog := \<lambda>s l. log_get mem_redis (\<lambda>k db. []) s l (fold (run_write mem_redis) [?w] []) \<rparr>"
  let ?es = "[\<lparr> le_message = ''m'', le_level = LogError, le_timestamp = ''1'' \<rparr>]"
  have server: "redis_server mem_redis mem_view" by (rule memory.redis_server_axioms)
  have empty: "mem_view [] = Map.empty" by (simp add: mem_view_def fun_eq_iff)
  have answer: "av_buildLog ?V ?s ''update-1'' = log_get mem_redis (\<lambda>k db. []) ?s ''update-1'' (fold (run_write mem_redis) [?w] [])" by simp
  have es: "?es = rev (List.map_filter (message_for ?s ''update-1'') [?w])" by (simp add: map_filter_simps)
  have sources: "log_source ?s" "list_all (\<lambda>w. log_source (write_source w)) [?w]" by (simp_all add: log_source_def)
  have rows: "log_rows (\<lambda>t. int (length t)) ?es = [[Badge ''danger'' ''Error'', Shown ''m'', Shown ''00:00'']]" by (simp add: log_rows_def)
  from log_link_leads_to_log [OF _ _ _ _ _ server empty answer sources es, of "''http://cb/''" "\<lambda>t. int (length t)" "\<lparr> lv_log = None, lv_notes = [] \<rparr>"] rows
  show ?thesis by simp
qed

text \<open>An id with a slash, such as that of a job of a branch with a slash in its name, opens a view that shows nothing.\<close>

lemma log_link_with_slash_shows_nothing:
  assumes "src_id s \<noteq> []" and "CHR ''.'' \<notin> set (src_id s)" and "CHR ''.'' \<notin> set (src_path s)" and "CHR ''/'' \<notin> set (src_id s)"
    and "CHR ''/'' \<in> set l"
  shows "page_at (link_pieces u (getLogUrl u s l)) = RepositoryShown s NothingShown"
proof -
  have "split ''/'' l \<noteq> [l]" using split1_pieces [of l "CHR ''/''" l] assms(5) by auto
  moreover have "split ''/'' l \<noteq> [p]" for p
    using join_split [of "''/''" l] \<open>split ''/'' l \<noteq> [l]\<close> by (cases "split ''/'' l = [p]") auto
  ultimately obtain p q r where "split ''/'' l = p # q # r"
    by (metis list.exhaust split_nonempty)
  then show ?thesis
    by (simp add: log_link_pieces [OF assms(1-4)] page_at_repo [OF assms(1-3)] repository_route_def)
qed

section \<open>What throws\<close>

lemma res_mapM_ok: "(\<exists>ys. res_mapM f xs = Inr ys) \<longleftrightarrow> (\<forall>x \<in> set xs. \<exists>y. f x = Inr y)"
proof (induction xs)
  case (Cons x xs)
  then show ?case by (cases "f x"; cases "res_mapM f xs") auto
qed simp

lemma repositoryUrl_ok: "(\<exists>u. repositoryUrl s = Inr u) \<longleftrightarrow> src_id s = ''csp-gerrit'' \<or> src_id s = ''csp-gerrit-qa''"
  by (simp add: repositoryUrl_def)

lemma model_row_ok:
  "(\<exists>row. model_row s major = Inr row) \<longleftrightarrow>
     (case branchAndSha major of Some (n, sha) \<Rightarrow> n = [] \<or> sha = [] | None \<Rightarrow> True) \<or> (\<exists>u. repositoryUrl s = Inr u)"
  by (cases "repositoryUrl s") (auto simp: model_row_def git_link_def repositoryBranchUrl_def split: option.split prod.split)

text \<open>
  The view of a model that was read is drawn exactly for the repositories of two services, whose addresses are
  written down in the page: for all others the link of the main branch throws. Besides it throws when the commits of the
  open window could not be read.
\<close>

theorem state_screen_throws:
  assumes "sv_model v = Some model" and "sv_seriesLoaded v" and "mb_name (main_main (root_main model)) \<noteq> []"
    and "mb_sha (main_main (root_main model)) \<noteq> []"
  shows "(\<exists>rows. state_screen s v = Inr rows) \<longleftrightarrow> state_draws v \<and> (src_id s = ''csp-gerrit'' \<or> src_id s = ''csp-gerrit-qa'')"
proof -
  have loaded: "\<not> state_isLoading v" using assms(1,2) by (simp add: state_isLoading_def)
  have "(\<exists>rows. model_screen s model = Inr rows) \<longleftrightarrow> (\<exists>u. repositoryUrl s = Inr u)"
    unfolding model_screen_def res_mapM_ok using model_row_ok [of s] assms(3,4) by auto
  then have rows: "(\<exists>rows. model_screen s model = Inr rows) \<longleftrightarrow> (src_id s = ''csp-gerrit'' \<or> src_id s = ''csp-gerrit-qa'')"
    using repositoryUrl_ok by blast
  show ?thesis
  proof (cases "state_draws v")
    case True
    with loaded have "\<exists>w. (case sv_commits v of None \<Rightarrow> Inr [] | Some (cs, mj) \<Rightarrow> release_window cs mj) = Inr w"
      by (auto simp: state_draws_def release_window_def split: option.splits prod.splits)
    then show ?thesis using loaded True assms(1) unfolding rows [symmetric]
      by (cases "model_screen s model") (auto simp: state_screen_def)
  next
    case False
    with loaded obtain mj where "sv_commits v = Some (None, mj)"
      by (auto simp: state_draws_def split: option.splits prod.splits)
    with loaded False show ?thesis by (simp add: state_screen_def release_window_def)
  qed
qed

section \<open>Durations\<close>

definition read_duration :: "string \<Rightarrow> int" where
  "read_duration text = foldl (\<lambda>acc p. acc * 60 + int (digits_val p)) 0 (split '':'' text)"

lemma digits_val_zeros: "digits_val (replicate k (CHR ''0'') @ s) = digits_val s"
proof (induction k)
  case (Suc k)
  then show ?case by (simp add: digits_val_def digit_val_def)
qed simp

lemma pad_start_read: "0 \<le> n \<Longrightarrow> int (digits_val (pad_start n)) = n"
  by (simp add: pad_start_def Let_def digits_val_zeros show_int_def)

lemma pad_start_safe: "0 \<le> n \<Longrightarrow> CHR '':'' \<notin> set (pad_start n)"
  by (auto simp: pad_start_def Let_def is_digit_def dest!: show_int_chars)

lemma div_minus_mult: "(ms - k * 1000) div 1000 = ms div 1000 - (k::int)"
  using div_mult_self1 [of 1000 ms "- k"] by simp

text \<open>The text of a duration says the seconds that have passed, rounded down.\<close>

theorem duration_is_read_back:
  assumes "0 \<le> ms"
  shows "read_duration (duration_text ms) = ms div 1000"
proof -
  define h m t where hm: "h = ms div 3600000" "m = (ms - h * 3600000) div 60000" "t = (ms - h * 3600000 - m * 60000) div 1000"
  have rest: "ms - h * 3600000 = ms mod 3600000" "ms - h * 3600000 - m * 60000 = (ms - h * 3600000) mod 60000"
    by (simp_all only: hm minus_div_mult_eq_mod)
  have "0 \<le> ms - h * 3600000" unfolding rest(1) by simp
  moreover have "0 \<le> ms - h * 3600000 - m * 60000" unfolding rest(2) by simp
  ultimately have pos: "0 \<le> h" "0 \<le> m" "0 \<le> t"
    using assms unfolding hm(2,3) by (simp_all add: hm(1) pos_imp_zdiv_nonneg_iff)
  have "ms - h * 3600000 - m * 60000 = ms - (h * 3600 + m * 60) * 1000" by simp
  then have "t = ms div 1000 - (h * 3600 + m * 60)" unfolding hm(3) by (simp only: div_minus_mult)
  then have total: "(h * 60 + m) * 60 + t = ms div 1000" by simp
  show ?thesis
  proof (cases "0 < h")
    case True
    then have "duration_text ms = join '':'' [pad_start h, pad_start m, pad_start t]" by (simp add: duration_text_def Let_def hm)
    moreover have "split '':'' (join '':'' [pad_start h, pad_start m, pad_start t]) = [pad_start h, pad_start m, pad_start t]"
      using pad_start_safe pos by (intro split_join) (simp_all add: delim_safe_notin)
    ultimately show ?thesis using pos total by (simp add: read_duration_def pad_start_read)
  next
    case False
    then have "duration_text ms = join '':'' [pad_start m, pad_start t]" by (simp add: duration_text_def Let_def hm)
    moreover have "split '':'' (join '':'' [pad_start m, pad_start t]) = [pad_start m, pad_start t]"
      using pad_start_safe pos by (intro split_join) (simp_all add: delim_safe_notin)
    ultimately show ?thesis using pos total False by (simp add: read_duration_def pad_start_read)
  qed
qed

section \<open>Buttons and handlers\<close>

text \<open>The button of the window for a label is enabled exactly when its handler calls back.\<close>

lemma label_button_enabled:
  "\<exists>text. last (label_modal label newLabel newAction) = [Clickable text (modal_create newLabel newAction \<noteq> None) None]"
  by (simp add: label_modal_def modal_create_def)

text \<open>The enabled buttons of a row are those that \<open>row_buttons\<close> names.\<close>

fun enabled_text :: "shown \<Rightarrow> string list" where
  "enabled_text (Clickable text b t) = (if b then [text] else [])"
| "enabled_text x = []"

lemma enabled_buttons:
  "concat (map enabled_text (container_actions c)) = map (\<lambda>b. if b = ''Patch'' then ''Patch branch'' else b) (row_buttons c)"
  by (cases c) (auto simp: row_buttons_def release_button_def create_patch_button_def ctrl_button_def Let_def)

end
