(* ===== verification/Script_Invoker.thy ===== *)
theory Script_Invoker
  imports Js_Text
begin

text \<open>
  How scripts come to the key-value server and are called, \<open>backend/src/redis/redis-lua.ts\<close>. Loading and
  calling are commands of the server and parameters: \<open>load\<close> answers with the digest of a source, \<open>evalsha\<close> runs the
  source of a digest on arguments, the first of which are keys. The scripts themselves are in \<open>Queue_Scripts\<close>.
\<close>

section \<open>Registering and calling\<close>

record script =
  sc_name :: string
  sc_keyCount :: nat
  sc_source :: string

record registered_script =
  rg_name :: string
  rg_keyCount :: nat
  rg_sha :: string

definition script_fromPath :: "(string \<Rightarrow> string res) \<Rightarrow> string \<Rightarrow> nat \<Rightarrow> string \<Rightarrow> script res" where
  "script_fromPath readFile name keyCount path =
     res_bind (readFile path) (\<lambda>source. Inr \<lparr> sc_name = name, sc_keyCount = keyCount, sc_source = source \<rparr>)"

type_synonym 'h load = "string \<Rightarrow> 'h \<Rightarrow> string res \<times> 'h"

definition register_script :: "'h load \<Rightarrow> script \<Rightarrow> 'h \<Rightarrow> registered_script res \<times> 'h" where
  "register_script load s h =
     (case load (sc_source s) h of
        (Inr sha, h') \<Rightarrow> (Inr \<lparr> rg_name = sc_name s, rg_keyCount = sc_keyCount s, rg_sha = sha \<rparr>, h')
      | (Inl e, h') \<Rightarrow> (Inl (Error (''Could not create script '' @ [CHR 0x27] @ sc_name s @ [CHR 0x27] @ '': '' @ error_toString e)), h'))"

text \<open>All loads are sent; the first error counts.\<close>

fun register_scripts :: "'h load \<Rightarrow> script list \<Rightarrow> 'h \<Rightarrow> registered_script list res \<times> 'h" where
  "register_scripts load [] h = (Inr [], h)"
| "register_scripts load (s # ss) h =
     (case register_script load s h of
        (r, h') \<Rightarrow> (case register_scripts load ss h' of
          (rs, h'') \<Rightarrow> (res_bind r (\<lambda>x. res_bind rs (\<lambda>xs. Inr (x # xs))), h'')))"

text \<open>A later script takes the place of an earlier one with its name.\<close>

definition invoker_of :: "registered_script list \<Rightarrow> string \<Rightarrow> registered_script option" where
  "invoker_of registered = foldl (\<lambda>acc s. acc(rg_name s \<mapsto> s)) Map.empty registered"

definition create_invoker :: "'h load \<Rightarrow> script list \<Rightarrow> 'h \<Rightarrow> (string \<Rightarrow> registered_script option) res \<times> 'h" where
  "create_invoker load scripts h =
     (case register_scripts load scripts h of (rs, h') \<Rightarrow> (res_bind rs (\<lambda>registered. Inr (invoker_of registered)), h'))"

definition invokeScript ::
    "(string \<Rightarrow> nat \<Rightarrow> string list \<Rightarrow> 'h \<Rightarrow> 'r res \<times> 'h) \<Rightarrow> (string \<Rightarrow> registered_script option) \<Rightarrow> string \<Rightarrow> string list \<Rightarrow> 'h \<Rightarrow> 'r res \<times> 'h" where
  "invokeScript evalsha registered name args h =
     (case registered name of
        Some script \<Rightarrow> evalsha (rg_sha script) (rg_keyCount script) args h
      | None \<Rightarrow> (Inl (Error (''Script '' @ [CHR 0x27] @ name @ [CHR 0x27] @ '' is not defined'')), h))"

section \<open>What is called\<close>

text \<open>
  The documented effect of loading: the answer is a digest that the server knows from then on, and it
  forgets none.
\<close>

definition loads_scripts :: "'h load \<Rightarrow> ('h \<Rightarrow> string \<Rightarrow> string option) \<Rightarrow> bool" where
  "loads_scripts load known \<longleftrightarrow>
     (\<forall>src h. case load src h of
        (Inr sha, h') \<Rightarrow> known h' sha = Some src \<and> (\<forall>d x. known h d = Some x \<longrightarrow> known h' d = Some x)
      | (Inl e, h') \<Rightarrow> (\<forall>d x. known h d = Some x \<longrightarrow> known h' d = Some x))"

lemma register_scripts_known:
  assumes "loads_scripts load known" and "register_scripts load scripts h = (rs, h')"
  shows "(\<forall>d x. known h d = Some x \<longrightarrow> known h' d = Some x) \<and>
    (\<forall>registered. rs = Inr registered \<longrightarrow>
       list_all2 (\<lambda>s r. rg_name r = sc_name s \<and> rg_keyCount r = sc_keyCount s \<and> known h' (rg_sha r) = Some (sc_source s)) scripts registered)"
  using assms(2)
proof (induction scripts arbitrary: h rs h')
  case (Cons s ss)
  obtain a h1 where load: "load (sc_source s) h = (a, h1)" by force
  obtain rs2 h2 where rest: "register_scripts load ss h1 = (rs2, h2)" by force
  from assms(1) load have first: "\<forall>d x. known h d = Some x \<longrightarrow> known h1 d = Some x" "\<forall>sha. a = Inr sha \<longrightarrow> known h1 sha = Some (sc_source s)"
    using spec [OF spec [OF assms(1) [unfolded loads_scripts_def], of "sc_source s"], of h] by (auto split: sum.splits)
  note IH = Cons.IH [OF rest]
  show ?case
  proof (cases a)
    case (Inl e)
    with Cons.prems load rest first IH show ?thesis by (auto simp: register_script_def)
  next
    case (Inr sha)
    with Cons.prems load rest first IH show ?thesis
      by (auto simp: register_script_def res_bind_eq_Inr)
  qed
qed simp

lemma invoker_of_distinct:
  assumes "distinct (map rg_name registered)" and "r \<in> set registered"
  shows "invoker_of registered (rg_name r) = Some r"
proof -
  have "foldl (\<lambda>acc s. acc(rg_name s \<mapsto> s)) m registered (rg_name r) = Some r" for m :: "string \<rightharpoonup> registered_script"
    using assms
  proof (induction registered arbitrary: m)
    case (Cons x xs)
    have other: "foldl (\<lambda>acc s. acc(rg_name s \<mapsto> s)) m' ys n = m' n" if "n \<notin> rg_name ` set ys" for m' :: "string \<rightharpoonup> registered_script" and ys n
      using that by (induction ys arbitrary: m') auto
    show ?case
    proof (cases "r = x")
      case True
      with Cons.prems(1) have "rg_name r \<notin> rg_name ` set xs" by simp
      from other [OF this, of "m(rg_name x \<mapsto> x)"] True show ?thesis by (simp del: fun_upd_apply) simp
    next
      case False
      with Cons.prems have "distinct (map rg_name xs)" "r \<in> set xs" by auto
      from Cons.IH [OF this, of "m(rg_name x \<mapsto> x)"] show ?thesis by (simp del: fun_upd_apply)
    qed
  qed simp
  then show ?thesis by (simp add: invoker_of_def)
qed

text \<open>
  A script that was given with a name of its own runs when its name is called: the server is asked for the digest of
  its source, with the number of its keys, on the arguments of the call. A name that was not given is an error, and
  the server is not asked.
\<close>

theorem invoked_script_runs:
  assumes "loads_scripts load known" and "create_invoker load scripts h = (Inr registered, h')"
    and "distinct (map sc_name scripts)"
    and "\<And>sha src k args g. known g sha = Some src \<Longrightarrow> evalsha sha k args g = run src k args g"
  shows "(s \<in> set scripts \<longrightarrow> invokeScript evalsha registered (sc_name s) args h' = run (sc_source s) (sc_keyCount s) args h') \<and>
    (name \<notin> sc_name ` set scripts \<longrightarrow>
       invokeScript evalsha registered name args g = (Inl (Error (''Script '' @ [CHR 0x27] @ name @ [CHR 0x27] @ '' is not defined'')), g))"
proof -
  from assms(2) obtain rs where rs: "register_scripts load scripts h = (Inr rs, h')" "registered = invoker_of rs"
    by (auto simp: create_invoker_def res_bind_eq_Inr split: prod.splits)
  from register_scripts_known [OF assms(1) rs(1)]
  have all: "list_all2 (\<lambda>s r. rg_name r = sc_name s \<and> rg_keyCount r = sc_keyCount s \<and> known h' (rg_sha r) = Some (sc_source s)) scripts rs" by blast
  then have names: "map rg_name rs = map sc_name scripts" by (induction rule: list_all2_induct) auto
  have "invokeScript evalsha registered (sc_name s) args h' = run (sc_source s) (sc_keyCount s) args h'" if s: "s \<in> set scripts"
  proof -
    from s obtain i where i: "i < length scripts" "scripts ! i = s" by (auto simp: in_set_conv_nth)
    let ?r = "rs ! i"
    from list_all2_nthD [OF all i(1)] i have r: "rg_name ?r = sc_name s" "rg_keyCount ?r = sc_keyCount s" "known h' (rg_sha ?r) = Some (sc_source s)"
      by auto
    have "?r \<in> set rs" using i(1) list_all2_lengthD [OF all] by simp
    with invoker_of_distinct [of rs ?r] names assms(3) have "registered (sc_name s) = Some ?r" by (simp add: rs(2) r(1))
    then show ?thesis using assms(4) [OF r(3)] r(2) by (simp add: invokeScript_def)
  qed
  moreover have "registered name = None" if "name \<notin> sc_name ` set scripts"
  proof -
    have "name \<notin> rg_name ` set rs" using that names by (metis list.set_map)
    then have "foldl (\<lambda>acc s. acc(rg_name s \<mapsto> s)) m rs name = m name" for m :: "string \<rightharpoonup> registered_script"
      by (induction rs arbitrary: m) auto
    then show ?thesis by (simp add: rs(2) invoker_of_def)
  qed
  ultimately show ?thesis by (simp add: invokeScript_def)
qed

section \<open>The scripts of the queue\<close>

definition queue_scripts :: "(string \<Rightarrow> string res) \<Rightarrow> script list res" where
  "queue_scripts readFile =
     res_mapM (\<lambda>(name, keyCount). script_fromPath readFile name keyCount (''./lua/'' @ name @ ''.lua''))
       [(''push'', 3), (''start'', 2), (''complete'', 3)]"

text \<open>The queue calls its three files by their names.\<close>

lemma queue_scripts_run:
  assumes "queue_scripts readFile = Inr scripts" and "loads_scripts load known" and "create_invoker load scripts h = (Inr registered, h')"
    and "\<And>sha src k args g. known g sha = Some src \<Longrightarrow> evalsha sha k args g = run src k args g"
    and "(name, k) \<in> {(''push'', 3), (''start'', 2), (''complete'', 3)}"
  shows "\<exists>src. readFile (''./lua/'' @ name @ ''.lua'') = Inr src \<and> invokeScript evalsha registered name args h' = run src k args h'"
proof -
  from assms(1) have names: "distinct (map sc_name scripts)"
    by (auto simp: queue_scripts_def script_fromPath_def res_bind_eq_Inr)
  from assms(1,5) obtain src where src: "readFile (''./lua/'' @ name @ ''.lua'') = Inr src"
    and s: "\<lparr> sc_name = name, sc_keyCount = k, sc_source = src \<rparr> \<in> set scripts"
    by (auto simp: queue_scripts_def script_fromPath_def res_bind_eq_Inr)
  from invoked_script_runs [OF assms(2,3) names assms(4)] s
  have "invokeScript evalsha registered (sc_name \<lparr> sc_name = name, sc_keyCount = k, sc_source = src \<rparr>) args h' = run src k args h'" by fastforce
  with src show ?thesis by simp
qed

end
