(* ===== verification/Spec2Isabelle.thy ===== *)
theory Spec2Isabelle
  imports Version_Container Dependency_Storage Model_Reader Queue_Service
    Dependency_Graph Scanner_Text Dependencies_Yaml Build_Yaml Google_Repo Job_Executor Scanner_Manager
    Dependency_Tree Build_System Build_Events Local_Git Source_Cache Event_Stream Http_Requests Gerrit_Access Secrets Services
    Cynosure Artifacts Build_Log Admin_Api Page
    Startup Utilities Page_References Page_Screens Script_Invoker
begin

text \<open>
  Common Build is a service that builds and releases repositories in the order of their dependencies.
  The program has a backend (\<open>backend/src\<close>, with scripts for the key-value server in \<open>backend/lua\<close>) and
  an administration page (\<open>frontend/src\<close>). Review servers announce pushes and changes; the build system
  queues a job for each of them, an executor has them built, and after a success the release is tagged,
  published, and announced to the repositories that depend on it, which get a change with the new
  version. This development models these parts as functions and step relations, one theory for a part,
  and states what they guarantee. File names below are relative to \<open>backend/src\<close> where nothing else is said.

  Language. \<open>Prelude\<close> has results that may be errors (\<open>'a res\<close>: a thrown error or a rejected promise is
  \<open>Inl\<close>), undefined texts and their truthiness, splitting and joining; \<open>Js_Text\<close> white space, decimal
  numbers and \<open>parseInt\<close>; \<open>Grouping\<close> maps that are filled by appending; \<open>Json\<close> printing and parsing, which
  are inverse; \<open>Utilities\<close> the order in which configuration files are written, maps in JSON and the result
  of a transaction. A class is a record or a datatype, an operation a function of its name; numbers are
  exact integers (\<open>int\<close>), as all of them stay in the range in which the language is exact; characters are
  code units below 256. A side effect on an external service is a call in a list of calls or a change of
  an abstract state of that service; calls that the source starts together are taken in their order, except
  the values of markers in the configuration, where whichever fails first decides.

  Values. \<open>Version\<close> and \<open>Version_Container\<close> (\<open>domain-model/version.ts\<close>,
  \<open>repositories/scanner/version-container.ts\<close>): order, parsing, the tree of releases and its highest
  element. \<open>Refs\<close>, \<open>Repository_Source\<close>, \<open>Job_Ref\<close>, \<open>Dependency_Ref\<close>: names with their printed forms, and
  for which values the printed form leads back.

  Repository model. \<open>Normalized_Model\<close>, \<open>Repository_Model\<close> and \<open>Model_Reader\<close>
  (\<open>repositories/repository\<close>): the tree of majors, minors and releases from the branches and tags; the
  converted model is ordered, and the next version is new. \<open>Majors\<close>: series of majors that repositories
  share, and the tag that gives a repository its next major.

  Queues. \<open>Queue_Scripts\<close> (\<open>backend/lua\<close>, \<open>redis/redis-lua.ts\<close>) are programs over the commands of the
  key-value server, which are the parameter \<open>redis\<close> with the laws of the locale \<open>redis_server\<close> in \<open>Redis\<close>, and reach it by \<open>Script_Invoker\<close>;
  \<open>Redis_Memory\<close> is an executable server that satisfies them. \<open>Queue_Abstract\<close> says what the scripts
  promise, \<open>Queue_Refinement\<close> that they keep it, \<open>Queue_Redis\<close> and \<open>Queue_Service\<close>
  (\<open>system/queue/queue-impl.ts\<close>) are the queue and the states of jobs (\<open>Queue_States\<close>) on top.

  Build system. \<open>Build_System\<close> and \<open>Build_Events\<close> (\<open>system/build-system-impl.ts\<close>): scheduling as steps of a
  state, and what a success, an update, a push, a deletion and a prune lead to. \<open>Task_Queue\<close>, \<open>Job_Executor\<close>
  and \<open>Cynosure\<close> (\<open>task-queue\<close>, \<open>cynosure\<close>): delayed tasks, the life of a job, and the requests to the build
  service. \<open>Publisher\<close> and \<open>Artifacts\<close>: what a build has published gets its version in the storages.
  \<open>Build_Log\<close>: the entries of a job.

  Dependencies. \<open>Scan_Items\<close>, \<open>Scanner_Text\<close>, \<open>System_Config\<close>, \<open>Dependencies_Yaml\<close>, \<open>Build_Yaml\<close> and
  \<open>Google_Repo\<close> (\<open>repositories/scanner/providers\<close>): what a repository depends on, and the update of a file to
  new versions, after which nothing is left to update. \<open>Dependency_Lookup\<close> chooses a version,
  \<open>Dependency_Storage\<close> finds the repositories that depend on another, \<open>Dependency_Graph\<close> and
  \<open>Dependency_Tree\<close> the tree of a repository, \<open>Scanner_Manager\<close> creates and updates the changes.

  Repositories and services. \<open>Local_Git\<close>, \<open>Source_Cache\<close>: clones on the disk, their references, and the models
  that are kept of them. \<open>Http_Requests\<close>, \<open>Gerrit_Access\<close>, \<open>Event_Stream\<close>
  (\<open>repositories/repository-access\<close>): the requests to a review server, its changes and its stream of
  events. \<open>System_Files\<close>, \<open>Secrets\<close>, \<open>Services\<close>: configuration files, secrets and marked values, the
  serializer, the shutdown. \<open>Startup\<close> (\<open>index.ts\<close>): the order of the start, and with \<open>Services\<close> the order in
  which everything is stopped. \<open>Admin_Api\<close> (\<open>router/admin\<close>): the requests of the page and their replies.

  Page. \<open>Page\<close> and \<open>Page_Screens\<close> (\<open>frontend/src\<close>): what the views keep, what they make of replies, what they
  show, and how they edit a configuration; \<open>Page_References\<close>: the page's own copies of references and jobs.

  Interfaces. \<open>redis_server\<close> (clients: queues, index, lookup, tasks, logs) is interpreted on the server in
  memory, \<open>json_layout\<close> on both layouts of the printer, \<open>scannable\<close> on the items of the three scanners,
  \<open>cache_listener\<close> on the kept models. The properties of a client hold on any server with the laws.

  Keys. What is stored for two things is kept apart by printed keys; \<open>first_part_inj\<close> and \<open>last_part_inj\<close> in
  \<open>Prelude\<close> tell them apart under conditions on the texts, which the properties of logs and of cached dependencies
  state (no slash or colon in ids of services, no colon in paths or in names of references). Two things are
  described by what they are, not by their keys.

  Time. Cached versions of dependencies expire (\<open>Dependency_Lookup\<close> keeps the ends of keys beside the server), and cached dependencies
  of a tree may be gone at any read. The other keys that expire are kept here: logs, states of jobs, data of tasks, products.

  Bounds and fuel. The parser of JSON runs on the length of the text, which is enough as every step
  consumes a character. The tree of dependencies runs on fuel above a rank that falls along the
  dependencies; without such a rank the source does not end either. All other recursions end by a
  measure. The bounds of the source are kept: 30, 100, 20 and 3 failures of a job after which the next one ends it, 10 jobs for a
  start, the first of the majors for a scan, 3 fetches for a reference, 4 further attempts of a command in a clone,
  and 19 attempts to set a link, where the constant says 20.

  Not modelled, as it is not the program's own logic or has no effect on what the theories speak of:
  the third-party parts (key-value server, git, review server, build service, storages, vault, the yaml,
  xml and object-mapping libraries), which are parameters; the expiry of other keys and waiting times; log
  statements; the construction of objects from their classes; how the page is drawn; copies of the
  backend's classes in the page that are the same text or that nothing uses; and code that nothing calls.
  The manifest names each of them with the reason.
\<close>

section \<open>Properties across components\<close>

text \<open>C8
  Giving a repository its next major: when \<open>applyMajor\<close> creates the tag, the repository model
  that is built from the references with that tag, wherever the service lists it, has the new
  value as the major of the main branch, started at the commit that was the head of the main
  branch; applying the value again finds that it exists; and the major that was the main one is
  from then on patched on a new branch from that commit, unless it had a patch branch already.
\<close>

theorem applied_major_becomes_main:
  assumes "getModelFromEntities (es1 @ es2) = Inr r" and "0 < mv_value v"
    and "processSource config (Inr r) makeTag v force = (CREATED, Some (tag, sha))"
  shows "\<exists>r'. getModelFromEntities (es1 @ \<lparr> e_ref = TagRef tag, e_sha = sha \<rparr> # es2) = Inr r' \<and>
    main_major (root_main r') = mv_value v \<and> main_start (root_main r') = Some sha \<and>
    main_main (root_main r') = main_main (root_main r) \<and>
    processSource config (Inr r') makeTag v force = (EXISTS, None) \<and>
    (\<forall>m \<in> set (root_majors r'). maj_major m = main_major (root_main r) \<and> \<not> truthy (maj_branch m) \<longrightarrow>
       resolveWriteBranch r' (maj_major m) =
         Inr (Some \<lparr> wb_sha = sha, wb_branch = BranchRef (''patch-'' @ show_int (maj_major m)), wb_exists = False \<rparr>))"
proof -
  from assms(1) obtain raw where raw: "getRawModel (es1 @ es2) = Inr raw" "r = convertModel raw"
    by (auto simp: getModelFromEntities_def res_bind_eq_Inr)
  let ?e = "\<lparr> e_ref = TagRef tag, e_sha = sha \<rparr>"
  note created = assms(3) [unfolded processSource_CREATED]
  from created have less: "highest_major raw < mv_value v" by (simp add: raw(2) convertModel_main)
  have "normalize (e_ref ?e) = Some (MajorTagRef (mv_value v))"
    using created assms(2) normalize_major_tag [of "mv_value v"] by simp
  from getRawModel_insert_major [OF raw(1) this] obtain ts1 ts2 where
    ts: "raw_majorTags raw = ts1 @ ts2" and
    raw': "getRawModel (es1 @ ?e # es2) = Inr (raw\<lparr> raw_majorTags := ts1 @ (mv_value v, sha) # ts2 \<rparr>)" by auto
  let ?raw = "raw\<lparr> raw_majorTags := ts1 @ (mv_value v, sha) # ts2 \<rparr>"
  note new = highest_major_insert [OF less ts, of ?raw sha]
  have ne: "raw_major_numbers ?raw \<noteq> {}" using new(1) by auto
  have main: "main_major (root_main (convertModel ?raw)) = mv_value v"
    "main_main (root_main (convertModel ?raw)) = main_main (root_main r)"
    using new(2) by (simp_all add: convertModel_main raw(2))
  have start: "main_start (root_main (convertModel ?raw)) = Some sha"
    using convertModel_containers [OF ne] new(3) main(1) by (simp add: all_containers_def)
  have again: "processSource config (Inr (convertModel ?raw)) makeTag v force = (EXISTS, None)"
    using created main(1) by (auto simp: processSource_def)
  have sha: "is_sha sha" using created by simp
  have "resolveWriteBranch (convertModel ?raw) (maj_major m) =
      Inr (Some \<lparr> wb_sha = sha, wb_branch = BranchRef (''patch-'' @ show_int (maj_major m)), wb_exists = False \<rparr>)"
    if m: "m \<in> set (root_majors (convertModel ?raw))" "maj_major m = main_major (root_main r)" "\<not> truthy (maj_branch m)" for m
  proof -
    have h: "maj_major m = highest_major raw" using m(2) by (simp add: raw(2) convertModel_main)
    have "Top_Major m \<in> set (all_containers (convertModel ?raw))" using m(1) by (simp add: all_containers_def)
    then have "maj_major m \<in> raw_major_numbers ?raw"
      unfolding conjunct1 [OF convertModel_containers [OF ne], symmetric] by force
    moreover have "maj_branch m = branch_of (all_builders ?raw) (maj_major m)"
      using convertModel_containers [OF ne] m(1) by (simp add: list_all_iff)
    ultimately show ?thesis
      using h less new sha is_sha_nonempty [OF sha] m(3)
      by (auto simp: resolveWriteBranch_convertModel Let_def write_at_def sha_create_def)
  qed
  with raw' main start again show ?thesis by (auto simp: getModelFromEntities_def)
qed

theorem applied_major_becomes_main_witness:
  "\<exists>r. getModelFromEntities [\<lparr> e_ref = BranchRef ''master'', e_sha = replicate 40 CHR ''a'' \<rparr>,
        \<lparr> e_ref = TagRef ''major-2'', e_sha = replicate 40 CHR ''a'' \<rparr>,
        \<lparr> e_ref = TagRef ''v1.0.0'', e_sha = replicate 40 CHR ''b'' \<rparr>] = Inr r \<and>
     main_major (root_main r) = 2 \<and>
     map maj_major (root_majors r) = [1] \<and>
     resolveWriteBranch r 1 =
       Inr (Some \<lparr> wb_sha = replicate 40 CHR ''a'', wb_branch = BranchRef ''patch-1'', wb_exists = False \<rparr>)"
proof -
  let ?main = "\<lparr> e_ref = BranchRef ''master'', e_sha = replicate 40 CHR ''a'' \<rparr>"
  let ?rel = "\<lparr> e_ref = TagRef ''v1.0.0'', e_sha = replicate 40 CHR ''b'' \<rparr>"
  let ?config = "Inr (Some \<lparr> rc_version = 1, rc_majorSerie = Some \<lparr> ms_id = ''s'', ms_autoApply = True \<rparr>,
    rc_buildAutomation = \<lparr> ba_default = Nothing, ba_labels = [] \<rparr>, rc_activeSystem = None \<rparr>) :: repository_config option res"
  let ?v = "\<lparr> mv_id = ''s'', mv_value = 2 \<rparr>"
  let ?sha = "replicate 40 CHR ''a''"
  let ?tag = "''major-2''"
  have before: "getModelFromEntities ([?main] @ [?rel]) = Inr (convertModel
      \<lparr> raw_main = (''master'', ?sha), raw_releaseTags = [([1, 0, 0], replicate 40 CHR ''b'')],
        raw_patchBranches = [], raw_majorTags = [] \<rparr>)" (is "_ = Inr ?r")
    by code_simp
  have "processSource ?config (Inr ?r) (Inr ()) ?v False = (CREATED, Some (?tag, ?sha))" by code_simp
  from applied_major_becomes_main [OF before _ this] obtain r' where
    r': "getModelFromEntities ([?main] @ \<lparr> e_ref = TagRef ?tag, e_sha = ?sha \<rparr> # [?rel]) = Inr r'"
    "main_major (root_main r') = 2"
    "\<forall>m \<in> set (root_majors r'). maj_major m = main_major (root_main ?r) \<and> \<not> truthy (maj_branch m) \<longrightarrow>
      resolveWriteBranch r' (maj_major m) =
        Inr (Some \<lparr> wb_sha = ?sha, wb_branch = BranchRef (''patch-'' @ show_int (maj_major m)), wb_exists = False \<rparr>)"
    by auto
  have old: "main_major (root_main ?r) = 1" by code_simp
  have "map (\<lambda>r. map (\<lambda>m. (maj_major m, maj_branch m)) (root_majors r))
      (case getModelFromEntities ([?main] @ \<lparr> e_ref = TagRef ?tag, e_sha = ?sha \<rparr> # [?rel]) of Inr r \<Rightarrow> [r] | Inl e \<Rightarrow> []) = [[(1, None)]]"
    by code_simp
  then have majors: "map (\<lambda>m. (maj_major m, maj_branch m)) (root_majors r') = [(1, None)]" using r'(1) by simp
  then obtain m where m: "root_majors r' = [m]" "maj_major m = 1" "maj_branch m = None" by auto
  moreover have "''patch-'' @ show_int 1 = ''patch-1''" by code_simp
  ultimately have "resolveWriteBranch r' 1 = Inr (Some \<lparr> wb_sha = ?sha, wb_branch = BranchRef ''patch-1'', wb_exists = False \<rparr>)"
    using r'(3) old by simp
  with r'(1,2) m show ?thesis by simp
qed

text \<open>C39
  Giving a major its patch branch: when the page asks for one and the request makes the call that
  creates it, for a major that has no branch, the branch has the name that the model expects and
  starts at the tag of the next major, where a fix of the major would have been written; in the
  model that is built from the references with that branch, wherever the service lists it, the
  branch is found for the major and written to, and the main branch is as before.
\<close>

theorem patched_major_has_branch:
  assumes "getModelFromEntities (es1 @ es2) = Inr r" and "0 \<le> mj" and "findBranch r mj None = Inr None"
    and "av_model V s = Inr r" and "post_patch V s mj = ([CallCreateBranch i p sha name], reply)"
  shows "i = src_id s \<and> p = src_path s \<and> name = ''patch-'' @ show_int mj \<and>
    resolveWriteBranch r mj = Inr (Some \<lparr> wb_sha = sha, wb_branch = BranchRef name, wb_exists = False \<rparr>) \<and>
    (\<exists>r'. getModelFromEntities (es1 @ \<lparr> e_ref = BranchRef name, e_sha = sha \<rparr> # es2) = Inr r' \<and>
      findBranch r' mj None = Inr (Some \<lparr> e_ref = BranchRef name, e_sha = sha \<rparr>) \<and>
      resolveWriteBranch r' mj = Inr (Some \<lparr> wb_sha = sha, wb_branch = BranchRef name, wb_exists = True \<rparr>) \<and>
      main_major (root_main r') = main_major (root_main r) \<and> main_main (root_main r') = main_main (root_main r))"
proof -
  from assms(1) obtain raw where raw: "getRawModel (es1 @ es2) = Inr raw" "r = convertModel raw"
    by (auto simp: getModelFromEntities_def res_bind_eq_Inr)
  from post_patch_call [OF assms(4,5)] obtain c where c: "findNextMajor r mj = Some c" "top_start c = Some sha" "is_sha sha"
    and call: "i = src_id s" "p = src_path s" "name = ''patch-'' @ show_int mj" by blast
  note next_major = findNextMajor_convertModel [OF c(1)[unfolded raw(2)]]
  have none: "branch_of (all_builders raw) mj = None"
    using assms(3) next_major(2) by (auto simp: raw(2) findBranch_major res_bind_eq_Inr split: option.splits)
  let ?e = "\<lparr> e_ref = BranchRef name, e_sha = sha \<rparr>"
  have "normalize (e_ref ?e) = Some (PatchBranchRef [mj])" using normalize_patch_branch [OF assms(2)] by (simp add: call(3))
  from getRawModel_insert_patch [OF raw(1) this] obtain ps1 ps2 where
    ps: "raw_patchBranches raw = ps1 @ ps2" and
    raw': "getRawModel (es1 @ ?e # es2) = Inr (raw\<lparr> raw_patchBranches := ps1 @ ([mj], sha) # ps2 \<rparr>)" by auto
  let ?raw = "raw\<lparr> raw_patchBranches := ps1 @ ([mj], sha) # ps2 \<rparr>"
  note new = patch_insert [OF ps refl next_major(1) none, of sha]
  have start: "start_of (all_builders raw) (Min {k \<in> raw_major_numbers raw. mj < k}) = Some sha"
    using next_major(3) c(2) by simp
  have old: "resolveWriteBranch r mj = Inr (Some \<lparr> wb_sha = sha, wb_branch = BranchRef name, wb_exists = False \<rparr>)"
    using next_major(1,2) start c(3) none is_sha_nonempty [OF c(3)]
    by (simp add: raw(2) resolveWriteBranch_convertModel Let_def write_at_def sha_create_def call(3))
  have found: "findBranch (convertModel ?raw) mj None = Inr (Some ?e)"
    using next_major(2) new c(3) by (simp add: findBranch_major call(3))
  have writes: "resolveWriteBranch (convertModel ?raw) mj = Inr (Some \<lparr> wb_sha = sha, wb_branch = BranchRef name, wb_exists = True \<rparr>)"
    using next_major(1,2) new c(3) is_sha_nonempty [OF c(3)]
    by (simp add: resolveWriteBranch_convertModel Let_def write_at_def sha_create_def call(3))
  have main: "main_major (root_main (convertModel ?raw)) = main_major (root_main r)"
    "main_main (root_main (convertModel ?raw)) = main_main (root_main r)"
    using new by (simp_all add: convertModel_main raw(2))
  from old found writes main raw' call show ?thesis by (auto simp: getModelFromEntities_def)
qed

lemma patched_major_has_branch_witness:
  "\<exists>r'. getModelFromEntities [\<lparr> e_ref = BranchRef ''master'', e_sha = replicate 40 CHR ''a'' \<rparr>,
        \<lparr> e_ref = BranchRef ''patch-1'', e_sha = replicate 40 CHR ''c'' \<rparr>,
        \<lparr> e_ref = TagRef ''major-2'', e_sha = replicate 40 CHR ''c'' \<rparr>,
        \<lparr> e_ref = TagRef ''v1.0.0'', e_sha = replicate 40 CHR ''b'' \<rparr>] = Inr r' \<and>
     findBranch r' 1 None = Inr (Some \<lparr> e_ref = BranchRef ''patch-1'', e_sha = replicate 40 CHR ''c'' \<rparr>)"
proof -
  let ?main = "\<lparr> e_ref = BranchRef ''master'', e_sha = replicate 40 CHR ''a'' \<rparr>"
  let ?rest = "[\<lparr> e_ref = TagRef ''major-2'', e_sha = replicate 40 CHR ''c'' \<rparr>, \<lparr> e_ref = TagRef ''v1.0.0'', e_sha = replicate 40 CHR ''b'' \<rparr>]"
  let ?s = "\<lparr> src_id = ''g'', src_path = ''p'' \<rparr>"
  have before: "getModelFromEntities ([?main] @ ?rest) = Inr (convertModel
      \<lparr> raw_main = (''master'', replicate 40 CHR ''a''), raw_releaseTags = [([1, 0, 0], replicate 40 CHR ''b'')],
        raw_patchBranches = [], raw_majorTags = [(2, replicate 40 CHR ''c'')] \<rparr>)" (is "_ = Inr ?r")
    by code_simp
  have none: "findBranch ?r 1 None = Inr None" by code_simp
  have calls: "fst (post_patch (sample_services ?r) ?s 1) = [CallCreateBranch ''g'' ''p'' (replicate 40 CHR ''c'') ''patch-1'']"
    by code_simp
  obtain reply where call: "post_patch (sample_services ?r) ?s 1 = ([CallCreateBranch ''g'' ''p'' (replicate 40 CHR ''c'') ''patch-1''], reply)"
    using calls by (metis prod.collapse)
  have model: "av_model (sample_services ?r) ?s = Inr ?r" by (simp add: sample_services_def)
  from patched_major_has_branch [OF before _ none model call] show ?thesis by auto
qed

end
